(* ===== verification/Prelude.thy ===== *)
theory Prelude
  imports Main "HOL-Library.Word" "HOL-Library.Char_ord" "HOL-Library.List_Lexorder"
begin

text \<open>
  Shared vocabulary of the development: the types that stand for Go's machine types, byte and
  string helpers, generic facts on lists and maps, the collections of facts the component theories
  feed and use, and two interfaces several components share (a keyed store guarded by one lock, and
  a deterministic machine with an invariant).

  Conventions. A Go \<open>string\<close> is a byte sequence: it is a HOL string, whose characters
  are exactly the 256 byte values. A Go \<open>[]byte\<close> is a list of 8-bit words. A Go
  \<open>map[K]V\<close> is a partial function. A pointer is a number that indexes a heap map, so that
  two holders of one pointer share what it points to.
\<close>

type_synonym byte = "8 word"
type_synonym bytes = "byte list"
type_synonym ptr = nat

named_theorems model_defs \<open>definitions of operations, unfolded in component proofs\<close>
named_theorems inv_intros \<open>an operation keeps its component's invariant\<close>

subsection \<open>Bytes and strings\<close>

definition char_of_byte :: "byte \<Rightarrow> char" where
  "char_of_byte b = char_of (unat b)"

definition byte_of_char :: "char \<Rightarrow> byte" where
  "byte_of_char c = word_of_nat (of_char c)"

definition string_of_bytes :: "bytes \<Rightarrow> string" where
  "string_of_bytes bs = map char_of_byte bs"

definition bytes_of_string :: "string \<Rightarrow> bytes" where
  "bytes_of_string s = map byte_of_char s"

definition char_code :: "char \<Rightarrow> nat" where
  "char_code c = of_char c"

lemma of_char_less_256 [simp]: "of_char c < (256 :: nat)"
  using of_char_mod_256 [of c, where ?'a = nat] by (metis mod_less_divisor zero_less_numeral)

lemma unat_byte_of_char [simp]: "unat (byte_of_char c) = of_char c"
  by (simp add: byte_of_char_def unat_of_nat)

lemma char_of_byte_of_char [simp]: "char_of_byte (byte_of_char c) = c"
  by (simp add: char_of_byte_def)

lemma byte_of_char_of_byte [simp]: "byte_of_char (char_of_byte b) = b"
proof -
  have "unat b < 256" using unsigned_less [of b] by simp
  then show ?thesis by (simp add: byte_of_char_def char_of_byte_def)
qed

lemma string_of_bytes_of_string [simp]: "string_of_bytes (bytes_of_string s) = s"
  by (induction s) (simp_all add: string_of_bytes_def bytes_of_string_def)

lemma bytes_of_string_of_bytes [simp]: "bytes_of_string (string_of_bytes bs) = bs"
  by (induction bs) (simp_all add: string_of_bytes_def bytes_of_string_def)

lemma length_string_of_bytes [simp]: "length (string_of_bytes bs) = length bs"
  by (simp add: string_of_bytes_def)

lemma length_bytes_of_string [simp]: "length (bytes_of_string s) = length s"
  by (simp add: bytes_of_string_def)

lemma string_of_bytes_append [simp]:
  "string_of_bytes (xs @ ys) = string_of_bytes xs @ string_of_bytes ys"
  by (simp add: string_of_bytes_def)

lemma bytes_of_string_eq_iff [simp]: "bytes_of_string s = bytes_of_string t \<longleftrightarrow> s = t"
  by (metis string_of_bytes_of_string)

lemma char_code_inj: "char_code a = char_code b \<longleftrightarrow> a = b"
  by (simp add: char_code_def)

text \<open>\<open>subtle.ConstantTimeCompare\<close> returns 1 exactly on equal byte slices.\<close>

definition ConstantTimeCompare :: "string \<Rightarrow> string \<Rightarrow> int" where
  "ConstantTimeCompare x y = (if x = y then 1 else 0)"

lemma ConstantTimeCompare_1 [simp]: "ConstantTimeCompare x y = 1 \<longleftrightarrow> x = y"
  by (simp add: ConstantTimeCompare_def)

subsection \<open>Reading from a byte stream\<close>

text \<open>
  \<open>io.ReadFull(r, buf)\<close> with \<open>len(buf) = n\<close> on a stream that will deliver exactly the
  bytes \<open>bs\<close> and then end: the first \<open>n\<close> bytes, or an error when fewer arrive.
\<close>

definition ReadFull :: "nat \<Rightarrow> bytes \<Rightarrow> (bytes \<times> bytes) option" where
  "ReadFull n bs = (if n \<le> length bs then Some (take n bs, drop n bs) else None)"

lemma ReadFull_append [simp]: "length xs = n \<Longrightarrow> ReadFull n (xs @ ys) = Some (xs, ys)"
  by (simp add: ReadFull_def)

lemma ReadFull_SomeD:
  "ReadFull n bs = Some (xs, ys) \<Longrightarrow> bs = xs @ ys \<and> length xs = n"
  by (auto simp: ReadFull_def split: if_splits)

lemma ReadFull_None [simp]: "ReadFull n bs = None \<longleftrightarrow> length bs < n"
  by (auto simp: ReadFull_def)

lemma ReadFull_0 [simp]: "ReadFull 0 bs = Some ([], bs)"
  by (simp add: ReadFull_def)

subsection \<open>Generic facts\<close>

lemma filter_neq_notin [simp]: "x \<notin> set xs \<Longrightarrow> filter (\<lambda>y. y \<noteq> x) xs = xs"
  by (induction xs) auto

lemma map_upd_None_dom [simp]: "dom (m(k := None)) = dom m - {k}"
  by auto

lemma finite_dom_upd [simp]: "finite (dom m) \<Longrightarrow> finite (dom (m(k := v)))"
  by (cases v) auto

subsection \<open>Interface: a keyed store behind one lock\<close>

text \<open>
  Several components are a map behind one mutex with the same contract: an insert that overwrites,
  a delete that is a no-op on an absent key, a lookup. What clients use of such a store is proved
  here once.
\<close>

locale keyed_store =
  fixes find :: "'s \<Rightarrow> 'k \<Rightarrow> 'v option"
    and put :: "'k \<Rightarrow> 'v \<Rightarrow> 's \<Rightarrow> 's"
    and del :: "'k \<Rightarrow> 's \<Rightarrow> 's"
  assumes find_put: "find (put k v s) k' = (if k' = k then Some v else find s k')"
    and find_del: "find (del k s) k' = (if k' = k then None else find s k')"
begin

definition keys :: "'s \<Rightarrow> 'k set" where
  "keys s = {k. find s k \<noteq> None}"

lemma keys_put: "keys (put k v s) = insert k (keys s)"
  by (auto simp: keys_def find_put)

lemma keys_del: "keys (del k s) = keys s - {k}"
  by (auto simp: keys_def find_del)

lemma find_del_put: "k' \<noteq> k \<Longrightarrow> find (del k (put k v s)) k' = find s k'"
  by (simp add: find_put find_del)

lemma put_put_find: "find (put k v (put k w s)) k' = find (put k v s) k'"
  by (simp add: find_put)

lemma del_del_find: "find (del k (del k s)) k' = find (del k s) k'"
  by (simp add: find_del)

lemma finite_keys_put: "finite (keys s) \<Longrightarrow> finite (keys (put k v s))"
  by (simp add: keys_put)

lemma finite_keys_del: "finite (keys s) \<Longrightarrow> finite (keys (del k s))"
  by (simp add: keys_del)

end

subsection \<open>Interface: a machine with an invariant\<close>

text \<open>
  A component whose operations are atomic (they run under its lock) is a step function over the
  operations. Whatever order concurrent callers take the lock in, the component sees some list of
  operations; an invariant kept by every single operation holds after every such list.
\<close>

locale machine =
  fixes step :: "'s \<Rightarrow> 'e \<Rightarrow> 's"
    and inv :: "'s \<Rightarrow> bool"
  assumes step_inv: "inv s \<Longrightarrow> inv (step s e)"
begin

lemma run_inv: "inv s \<Longrightarrow> inv (foldl step s es)"
  by (induction es arbitrary: s) (simp_all add: step_inv)

end

text \<open>
  Machines whose steps are partial and whose events obey a guard: a run stops at the first event that
  is not possible or that the guard excludes. A total machine is one of them.
\<close>

fun guarded_run :: "('e \<Rightarrow> 's \<Rightarrow> bool) \<Rightarrow> ('e \<Rightarrow> 's \<Rightarrow> 's option) \<Rightarrow> 'e list \<Rightarrow> 's \<Rightarrow> 's option" where
  "guarded_run g f [] s = Some s"
| "guarded_run g f (e # es) s =
     (if g e s then (case f e s of None \<Rightarrow> None | Some s' \<Rightarrow> guarded_run g f es s') else None)"

lemma guarded_run_append:
  "guarded_run g f (es @ es') s = (case guarded_run g f es s of None \<Rightarrow> None | Some s' \<Rightarrow> guarded_run g f es' s')"
  by (induction es arbitrary: s) (simp_all split: option.split)

lemma guarded_run_foldl: "guarded_run (\<lambda>_ _. True) (\<lambda>e s. Some (f s e)) es s = Some (foldl f s es)"
  by (induction es arbitrary: s) simp_all

locale guarded_machine =
  fixes guard :: "'e \<Rightarrow> 's \<Rightarrow> bool"
    and pstep :: "'e \<Rightarrow> 's \<Rightarrow> 's option"
    and pinv :: "'s \<Rightarrow> bool"
  assumes pstep_inv: "pinv s \<Longrightarrow> guard e s \<Longrightarrow> pstep e s = Some s' \<Longrightarrow> pinv s'"
begin

lemma guarded_run_inv: "guarded_run guard pstep es s = Some s' \<Longrightarrow> pinv s \<Longrightarrow> pinv s'"
  by (induction es arbitrary: s) (auto split: if_splits option.splits intro: pstep_inv)

end

sublocale machine \<subseteq> partial: guarded_machine "\<lambda>_ _. True" "\<lambda>e s. Some (step s e)" inv
  by unfold_locales (auto intro: step_inv)

end
