(* ===== verification/Manager.thy ===== *)
theory Manager
  imports Prelude
begin

text \<open>
  \<open>internal/tunnel/manager.go\<close>: the tables of registered tunnels and of connections that wait
  for the client to dial back. Every method runs under \<open>m.mu\<close>, so it is one function on the
  manager's state. \<open>pendingConn\<close> and \<open>pendingSOCKS\<close> values are reached through pointers
  (the map holds one, the waiting goroutine another), so they live in heaps inside the state.
  Network connections and listeners are numbers; identifiers and tokens, which the code draws at
  random, are arguments.
\<close>

type_synonym conn = nat
type_synonym listener = nat

record pendingConn =
  pc_extConn :: conn
  pc_ready :: bool
  pc_dataConn :: "conn option"
  pc_dataToken :: string

record pendingSOCKS =
  ps_ready :: bool
  ps_success :: bool
  ps_errMsg :: string

record TunnelEntry =
  TE_ID :: string
  TE_ClientID :: string
  TE_LocalHost :: string
  TE_LocalPort :: int
  TE_PublicPort :: int
  TE_listener :: "listener option"

record HTTPTunnelEntry =
  HE_ID :: string
  HE_ClientID :: string
  HE_Hostname :: string
  HE_LocalHost :: string
  HE_LocalPort :: int
  HE_IsTLS :: bool

record Manager =
  tunnels :: "string \<rightharpoonup> TunnelEntry"
  byClient :: "string \<rightharpoonup> string list"
  pending :: "string \<rightharpoonup> ptr"
  pendingSocks :: "string \<rightharpoonup> ptr"
  httpTunnels :: "string \<rightharpoonup> HTTPTunnelEntry"
  httpsTunnels :: "string \<rightharpoonup> HTTPTunnelEntry"
  httpByClient :: "string \<rightharpoonup> string list"
  httpsByClient :: "string \<rightharpoonup> string list"
  conn_heap :: "ptr \<rightharpoonup> pendingConn"
  socks_heap :: "ptr \<rightharpoonup> pendingSOCKS"
  next_ptr :: ptr
  closed_listeners :: "listener set"

definition NewManager :: Manager where
  "NewManager =
     \<lparr>tunnels = Map.empty, byClient = Map.empty, pending = Map.empty, pendingSocks = Map.empty,
      httpTunnels = Map.empty, httpsTunnels = Map.empty, httpByClient = Map.empty,
      httpsByClient = Map.empty, conn_heap = Map.empty, socks_heap = Map.empty, next_ptr = 0,
      closed_listeners = {}\<rparr>"

text \<open>Reading a missing key of a \<open>map[string][]string\<close> gives the nil slice.\<close>

definition slice_of :: "('k \<rightharpoonup> 'v list) \<Rightarrow> 'k \<Rightarrow> 'v list" where
  "slice_of m k = (case m k of None \<Rightarrow> [] | Some xs \<Rightarrow> xs)"

lemma slice_of_upd [simp]: "slice_of (m(k \<mapsto> xs)) k' = (if k' = k then xs else slice_of m k')"
  by (simp add: slice_of_def)

lemma slice_of_del [simp]: "slice_of (m(k := None)) k' = (if k' = k then [] else slice_of m k')"
  by (simp add: slice_of_def)

lemma slice_of_empty [simp]: "slice_of Map.empty k = []"
  by (simp add: slice_of_def)

datatype manager_error = UnknownConnID | InvalidDataToken | HostnameTaken string | UnknownSOCKSConnID

subsection \<open>TCP tunnels\<close>

definition AddTunnel ::
  "string \<Rightarrow> string \<Rightarrow> string \<Rightarrow> int \<Rightarrow> int \<Rightarrow> listener option \<Rightarrow> Manager \<Rightarrow> TunnelEntry \<times> Manager" where
  "AddTunnel tunnelID clientID localHost localPort publicPort ln m =
     (let entry = \<lparr>TE_ID = tunnelID, TE_ClientID = clientID, TE_LocalHost = localHost,
                   TE_LocalPort = localPort, TE_PublicPort = publicPort, TE_listener = ln\<rparr>
      in (entry, m\<lparr>tunnels := (tunnels m)(tunnelID \<mapsto> entry),
                   byClient := (byClient m)(clientID \<mapsto> slice_of (byClient m) clientID @ [tunnelID])\<rparr>))"

definition GetTunnel :: "string \<Rightarrow> Manager \<Rightarrow> TunnelEntry option" where
  "GetTunnel tunnelID m = tunnels m tunnelID"

definition remove_tunnel :: "Manager \<Rightarrow> string \<Rightarrow> Manager" where
  "remove_tunnel m i =
     (case tunnels m i of
        None \<Rightarrow> m
      | Some e \<Rightarrow>
          m\<lparr>tunnels := (tunnels m)(i := None),
            closed_listeners := closed_listeners m \<union> set_option (TE_listener e)\<rparr>)"

definition RemoveTunnelsForClient :: "string \<Rightarrow> Manager \<Rightarrow> Manager" where
  "RemoveTunnelsForClient clientID m =
     (let ids = slice_of (byClient m) clientID
      in foldl remove_tunnel (m\<lparr>byClient := (byClient m)(clientID := None)\<rparr>) ids)"

text \<open>The order of \<open>ListTunnels\<close> is Go's map order, which is unspecified: the model is the set.\<close>

definition ListTunnels :: "Manager \<Rightarrow> TunnelEntry set" where
  "ListTunnels m = ran (tunnels m)"

subsection \<open>Connections that wait for the client's data connection\<close>

text \<open>\<open>newDataToken\<close>: the hex form of 32 random bytes, or \<open>""\<close> when the RNG fails.\<close>

definition hex_digit :: "nat \<Rightarrow> char" where
  "hex_digit d = (if d < 10 then char_of (48 + d) else char_of (87 + d))"

definition hex_encode :: "bytes \<Rightarrow> string" where
  "hex_encode bs = concat (map (\<lambda>b. [hex_digit (unat b div 16), hex_digit (unat b mod 16)]) bs)"

definition newDataToken :: "bytes option \<Rightarrow> string" where
  "newDataToken rnd = (case rnd of None \<Rightarrow> [] | Some b \<Rightarrow> hex_encode b)"

definition RegisterPending :: "string \<Rightarrow> conn \<Rightarrow> bytes option \<Rightarrow> Manager \<Rightarrow> ptr \<times> Manager" where
  "RegisterPending connID extConn rnd m =
     (let p = next_ptr m
      in (p, m\<lparr>conn_heap := (conn_heap m)(p \<mapsto>
                 \<lparr>pc_extConn = extConn, pc_ready = False, pc_dataConn = None,
                  pc_dataToken = newDataToken rnd\<rparr>),
               next_ptr := Suc p,
               pending := (pending m)(connID \<mapsto> p)\<rparr>))"

definition Token :: "ptr \<Rightarrow> Manager \<Rightarrow> string" where
  "Token p m = (case conn_heap m p of None \<Rightarrow> [] | Some pc \<Rightarrow> pc_dataToken pc)"

text \<open>\<open>closeOnce.Do(close(ready))\<close>: closing a second time has no effect.\<close>

definition close_ready :: "ptr \<Rightarrow> Manager \<Rightarrow> Manager" where
  "close_ready p m =
     m\<lparr>conn_heap := (conn_heap m)(p := map_option (\<lambda>c. c\<lparr>pc_ready := True\<rparr>) (conn_heap m p))\<rparr>"

definition CancelPending :: "string \<Rightarrow> Manager \<Rightarrow> Manager" where
  "CancelPending connID m =
     (let m' = m\<lparr>pending := (pending m)(connID := None)\<rparr>
      in case pending m connID of None \<Rightarrow> m' | Some p \<Rightarrow> close_ready p m')"

definition FulfillPending ::
  "string \<Rightarrow> conn \<Rightarrow> string \<Rightarrow> Manager \<Rightarrow> (manager_error + unit) \<times> Manager" where
  "FulfillPending connID dataConn token m =
     (case pending m connID of
        None \<Rightarrow> (Inl UnknownConnID, m)
      | Some p \<Rightarrow>
          (if Token p m = [] \<or> ConstantTimeCompare (Token p m) token \<noteq> 1
           then (Inl InvalidDataToken, m)
           else (let m1 = m\<lparr>pending := (pending m)(connID := None)\<rparr>;
                     m2 = m1\<lparr>conn_heap := (conn_heap m1)(p :=
                            map_option (\<lambda>c. c\<lparr>pc_dataConn := Some dataConn\<rparr>) (conn_heap m1 p))\<rparr>
                 in (Inr (), close_ready p m2))))"

text \<open>
  \<open>WaitReady\<close>: \<open>None\<close> while the channel is open (the goroutine blocks), then what the
  \<open>dataConn\<close> field holds, which is nil after a cancellation.
\<close>

definition WaitReady :: "ptr \<Rightarrow> Manager \<Rightarrow> conn option option" where
  "WaitReady p m =
     (case conn_heap m p of
        None \<Rightarrow> None
      | Some pc \<Rightarrow> if pc_ready pc then Some (pc_dataConn pc) else None)"

definition PendingExtConn :: "ptr \<Rightarrow> Manager \<Rightarrow> conn option" where
  "PendingExtConn p m = map_option pc_extConn (conn_heap m p)"

subsection \<open>HTTP and HTTPS hostnames\<close>

definition AddHTTPTunnel ::
  "string \<Rightarrow> string \<Rightarrow> string \<Rightarrow> string \<Rightarrow> int \<Rightarrow> Manager
   \<Rightarrow> (manager_error + HTTPTunnelEntry) \<times> Manager" where
  "AddHTTPTunnel tunnelID clientID hostname localHost localPort m =
     (let entry = \<lparr>HE_ID = tunnelID, HE_ClientID = clientID, HE_Hostname = hostname,
                   HE_LocalHost = localHost, HE_LocalPort = localPort, HE_IsTLS = False\<rparr>;
          accept =
            (let alreadyTracked = hostname \<in> set (slice_of (httpByClient m) clientID);
                 bc = (if alreadyTracked then httpByClient m
                       else (httpByClient m)(clientID \<mapsto>
                              slice_of (httpByClient m) clientID @ [hostname]))
             in (Inr entry, m\<lparr>httpByClient := bc, httpTunnels := (httpTunnels m)(hostname \<mapsto> entry)\<rparr>))
      in case httpTunnels m hostname of
           None \<Rightarrow> accept
         | Some existing \<Rightarrow>
             if HE_ClientID existing \<noteq> clientID
             then (Inl (HostnameTaken (HE_ClientID existing)), m) else accept)"

definition AddHTTPSTunnel ::
  "string \<Rightarrow> string \<Rightarrow> string \<Rightarrow> string \<Rightarrow> int \<Rightarrow> Manager
   \<Rightarrow> (manager_error + HTTPTunnelEntry) \<times> Manager" where
  "AddHTTPSTunnel tunnelID clientID hostname localHost localPort m =
     (let entry = \<lparr>HE_ID = tunnelID, HE_ClientID = clientID, HE_Hostname = hostname,
                   HE_LocalHost = localHost, HE_LocalPort = localPort, HE_IsTLS = True\<rparr>;
          accept =
            (let alreadyTracked = hostname \<in> set (slice_of (httpsByClient m) clientID);
                 bc = (if alreadyTracked then httpsByClient m
                       else (httpsByClient m)(clientID \<mapsto>
                              slice_of (httpsByClient m) clientID @ [hostname]))
             in (Inr entry, m\<lparr>httpsByClient := bc, httpsTunnels := (httpsTunnels m)(hostname \<mapsto> entry)\<rparr>))
      in case httpsTunnels m hostname of
           None \<Rightarrow> accept
         | Some existing \<Rightarrow>
             if HE_ClientID existing \<noteq> clientID
             then (Inl (HostnameTaken (HE_ClientID existing)), m) else accept)"

definition GetHTTPTunnel :: "string \<Rightarrow> Manager \<Rightarrow> HTTPTunnelEntry option" where
  "GetHTTPTunnel hostname m = httpTunnels m hostname"

definition GetHTTPSTunnel :: "string \<Rightarrow> Manager \<Rightarrow> HTTPTunnelEntry option" where
  "GetHTTPSTunnel hostname m = httpsTunnels m hostname"

definition ListHTTPTunnels :: "Manager \<Rightarrow> HTTPTunnelEntry set" where
  "ListHTTPTunnels m = ran (httpTunnels m) \<union> ran (httpsTunnels m)"

text \<open>\<open>for _, h := range hs { delete(m, h) }\<close>\<close>

definition delete_all :: "'k list \<Rightarrow> ('k \<rightharpoonup> 'v) \<Rightarrow> ('k \<rightharpoonup> 'v)" where
  "delete_all hs m = foldl (\<lambda>m h. m(h := None)) m hs"

definition RemoveHTTPTunnelsForClient :: "string \<Rightarrow> Manager \<Rightarrow> Manager" where
  "RemoveHTTPTunnelsForClient clientID m =
     m\<lparr>httpTunnels := delete_all (slice_of (httpByClient m) clientID) (httpTunnels m),
       httpByClient := (httpByClient m)(clientID := None),
       httpsTunnels := delete_all (slice_of (httpsByClient m) clientID) (httpsTunnels m),
       httpsByClient := (httpsByClient m)(clientID := None)\<rparr>"

subsection \<open>SOCKS5 requests of the server-side listener\<close>

definition RegisterPendingSOCKS :: "string \<Rightarrow> Manager \<Rightarrow> ptr \<times> Manager" where
  "RegisterPendingSOCKS connID m =
     (let p = next_ptr m
      in (p, m\<lparr>socks_heap := (socks_heap m)(p \<mapsto>
                 \<lparr>ps_ready = False, ps_success = False, ps_errMsg = []\<rparr>),
               next_ptr := Suc p,
               pendingSocks := (pendingSocks m)(connID \<mapsto> p)\<rparr>))"

text \<open>
  \<open>FulfillSOCKS\<close> closes \<open>p.ready\<close> without a \<open>sync.Once\<close>; closing a closed channel
  panics in Go, which is the outcome \<open>None\<close>.
\<close>

definition FulfillSOCKS ::
  "string \<Rightarrow> bool \<Rightarrow> string \<Rightarrow> Manager \<Rightarrow> ((manager_error + unit) \<times> Manager) option" where
  "FulfillSOCKS connID success errMsg m =
     (case pendingSocks m connID of
        None \<Rightarrow> Some (Inl UnknownSOCKSConnID, m)
      | Some p \<Rightarrow>
          (let m1 = m\<lparr>pendingSocks := (pendingSocks m)(connID := None)\<rparr>
           in case socks_heap m1 p of
                None \<Rightarrow> None
              | Some ps \<Rightarrow>
                  (if ps_ready ps then None
                   else Some (Inr (), m1\<lparr>socks_heap := (socks_heap m1)(p \<mapsto>
                          \<lparr>ps_ready = True, ps_success = success, ps_errMsg = errMsg\<rparr>)\<rparr>))))"

definition WaitSOCKSReady :: "ptr \<Rightarrow> Manager \<Rightarrow> (bool \<times> string) option" where
  "WaitSOCKSReady p m =
     (case socks_heap m p of
        None \<Rightarrow> None
      | Some ps \<Rightarrow> if ps_ready ps then Some (ps_success ps, ps_errMsg ps) else None)"

end
