(* ===== verification/ManagerInv.thy ===== *)
theory ManagerInv
  imports Manager
begin

text \<open>
  Invariants of the tunnel manager and the contract of its two hostname tables. \<open>pend_ok\<close>: a
  registered pending connection is still open and empty, and no two identifiers share one;
  \<open>socks_ok\<close>: the same for pending SOCKS requests; \<open>tcp_ok\<close> and \<open>hosts_ok\<close>: the
  per-client lists and the tables say the same thing. All but \<open>tcp_ok\<close> are kept by every
  operation unconditionally; \<open>tcp_ok\<close> needs the tunnel ID of a new tunnel to be unused, which
  is what the code draws a UUID for.
\<close>

subsection \<open>Operations as data\<close>

datatype mgr_op =
    OpAddTunnel string string string int int "listener option"
  | OpRemoveTunnels string
  | OpRegister string conn "bytes option"
  | OpCancel string
  | OpFulfill string conn string
  | OpAddHTTP string string string string int
  | OpAddHTTPS string string string string int
  | OpRemoveHTTP string
  | OpRegisterSOCKS string
  | OpFulfillSOCKS string bool string

fun mgr_step :: "Manager \<Rightarrow> mgr_op \<Rightarrow> Manager" where
  "mgr_step m (OpAddTunnel tid cid h p pub ln) = snd (AddTunnel tid cid h p pub ln m)"
| "mgr_step m (OpRemoveTunnels cid) = RemoveTunnelsForClient cid m"
| "mgr_step m (OpRegister c e rnd) = snd (RegisterPending c e rnd m)"
| "mgr_step m (OpCancel c) = CancelPending c m"
| "mgr_step m (OpFulfill c d tok) = snd (FulfillPending c d tok m)"
| "mgr_step m (OpAddHTTP tid cid host h p) = snd (AddHTTPTunnel tid cid host h p m)"
| "mgr_step m (OpAddHTTPS tid cid host h p) = snd (AddHTTPSTunnel tid cid host h p m)"
| "mgr_step m (OpRemoveHTTP cid) = RemoveHTTPTunnelsForClient cid m"
| "mgr_step m (OpRegisterSOCKS c) = snd (RegisterPendingSOCKS c m)"
| "mgr_step m (OpFulfillSOCKS c ok e) = (case FulfillSOCKS c ok e m of None \<Rightarrow> m | Some r \<Rightarrow> snd r)"

lemmas mgr_defs = AddTunnel_def RegisterPending_def CancelPending_def FulfillPending_def
  close_ready_def AddHTTPTunnel_def AddHTTPSTunnel_def RemoveHTTPTunnelsForClient_def
  RegisterPendingSOCKS_def FulfillSOCKS_def Let_def

subsection \<open>Pending connections\<close>

definition pend_ok :: "Manager \<Rightarrow> bool" where
  "pend_ok m \<longleftrightarrow>
     (\<forall>c p. pending m c = Some p \<longrightarrow>
        (\<exists>pc. conn_heap m p = Some pc \<and> \<not> pc_ready pc \<and> pc_dataConn pc = None))
     \<and> (\<forall>c c' p. pending m c = Some p \<and> pending m c' = Some p \<longrightarrow> c = c')
     \<and> (\<forall>p. next_ptr m \<le> p \<longrightarrow> conn_heap m p = None)"

definition socks_ok :: "Manager \<Rightarrow> bool" where
  "socks_ok m \<longleftrightarrow>
     (\<forall>c p. pendingSocks m c = Some p \<longrightarrow> (\<exists>ps. socks_heap m p = Some ps \<and> \<not> ps_ready ps))
     \<and> (\<forall>c c' p. pendingSocks m c = Some p \<and> pendingSocks m c' = Some p \<longrightarrow> c = c')
     \<and> (\<forall>p. next_ptr m \<le> p \<longrightarrow> socks_heap m p = None)"

lemma remove_tunnel_frame [simp]:
  "pending (remove_tunnel m i) = pending m"
  "conn_heap (remove_tunnel m i) = conn_heap m"
  "pendingSocks (remove_tunnel m i) = pendingSocks m"
  "socks_heap (remove_tunnel m i) = socks_heap m"
  "next_ptr (remove_tunnel m i) = next_ptr m"
  "byClient (remove_tunnel m i) = byClient m"
  "httpTunnels (remove_tunnel m i) = httpTunnels m"
  "httpsTunnels (remove_tunnel m i) = httpsTunnels m"
  "httpByClient (remove_tunnel m i) = httpByClient m"
  "httpsByClient (remove_tunnel m i) = httpsByClient m"
  by (simp_all add: remove_tunnel_def split: option.split)

lemma foldl_remove_tunnel_frame [simp]:
  "pending (foldl remove_tunnel m ids) = pending m"
  "conn_heap (foldl remove_tunnel m ids) = conn_heap m"
  "pendingSocks (foldl remove_tunnel m ids) = pendingSocks m"
  "socks_heap (foldl remove_tunnel m ids) = socks_heap m"
  "next_ptr (foldl remove_tunnel m ids) = next_ptr m"
  "byClient (foldl remove_tunnel m ids) = byClient m"
  "httpTunnels (foldl remove_tunnel m ids) = httpTunnels m"
  "httpsTunnels (foldl remove_tunnel m ids) = httpsTunnels m"
  "httpByClient (foldl remove_tunnel m ids) = httpByClient m"
  "httpsByClient (foldl remove_tunnel m ids) = httpsByClient m"
  by (induction ids arbitrary: m) simp_all

lemma RemoveTunnels_frame [simp]:
  "pending (RemoveTunnelsForClient c m) = pending m"
  "conn_heap (RemoveTunnelsForClient c m) = conn_heap m"
  "pendingSocks (RemoveTunnelsForClient c m) = pendingSocks m"
  "socks_heap (RemoveTunnelsForClient c m) = socks_heap m"
  "next_ptr (RemoveTunnelsForClient c m) = next_ptr m"
  "byClient (RemoveTunnelsForClient c m) = (byClient m)(c := None)"
  "httpTunnels (RemoveTunnelsForClient c m) = httpTunnels m"
  "httpsTunnels (RemoveTunnelsForClient c m) = httpsTunnels m"
  "httpByClient (RemoveTunnelsForClient c m) = httpByClient m"
  "httpsByClient (RemoveTunnelsForClient c m) = httpsByClient m"
  by (simp_all add: RemoveTunnelsForClient_def Let_def)

lemma FulfillSOCKS_Some:
  "socks_ok m \<Longrightarrow> \<exists>r. FulfillSOCKS c ok e m = Some r"
  by (fastforce simp: socks_ok_def FulfillSOCKS_def Let_def split: option.split)

lemma pend_ok_step: "pend_ok m \<Longrightarrow> pend_ok (mgr_step m op)"
proof (cases op)
  case (OpRegister c e rnd)
  assume ok: "pend_ok m"
  then have "\<And>c p. pending m c = Some p \<Longrightarrow> p \<noteq> next_ptr m"
    by (force simp: pend_ok_def)
  with ok OpRegister show ?thesis
    by (fastforce simp: pend_ok_def RegisterPending_def Let_def)
next
  case (OpCancel c)
  assume ok: "pend_ok m"
  then have "\<And>c' p. pending m c = Some p \<Longrightarrow> c' \<noteq> c \<Longrightarrow> pending m c' \<noteq> Some p"
    by (force simp: pend_ok_def)
  with ok OpCancel show ?thesis
    by (cases "pending m c") (auto simp: pend_ok_def CancelPending_def close_ready_def Let_def)
next
  case (OpFulfill c d tok)
  assume ok: "pend_ok m"
  then have "\<And>c' p. pending m c = Some p \<Longrightarrow> c' \<noteq> c \<Longrightarrow> pending m c' \<noteq> Some p"
    by (force simp: pend_ok_def)
  with ok OpFulfill show ?thesis
    by (cases "pending m c") (auto simp: pend_ok_def FulfillPending_def close_ready_def Let_def)
next
  case (OpFulfillSOCKS c ok e)
  assume "pend_ok m"
  with OpFulfillSOCKS show ?thesis
    by (auto simp: pend_ok_def FulfillSOCKS_def Let_def split: option.split)
qed (auto simp: pend_ok_def mgr_defs split: option.split)

lemma socks_ok_step: "socks_ok m \<Longrightarrow> socks_ok (mgr_step m op)"
proof (cases op)
  case (OpRegisterSOCKS c)
  assume ok: "socks_ok m"
  then have "\<And>c p. pendingSocks m c = Some p \<Longrightarrow> p \<noteq> next_ptr m"
    by (force simp: socks_ok_def)
  with ok OpRegisterSOCKS show ?thesis
    by (fastforce simp: socks_ok_def RegisterPendingSOCKS_def Let_def)
next
  case (OpFulfillSOCKS c r e)
  assume ok: "socks_ok m"
  then have "\<And>c' p. pendingSocks m c = Some p \<Longrightarrow> c' \<noteq> c \<Longrightarrow> pendingSocks m c' \<noteq> Some p"
    by (force simp: socks_ok_def)
  with ok OpFulfillSOCKS show ?thesis
    by (cases "pendingSocks m c")
      (fastforce simp: socks_ok_def FulfillSOCKS_def Let_def split: option.split)+
qed (auto simp: socks_ok_def mgr_defs split: option.split)

subsection \<open>Hostname tables\<close>

definition hosts_ok ::
  "(string \<rightharpoonup> HTTPTunnelEntry) \<Rightarrow> (string \<rightharpoonup> string list) \<Rightarrow> bool" where
  "hosts_ok t bc \<longleftrightarrow>
     (\<forall>h e. t h = Some e \<longrightarrow> HE_Hostname e = h \<and> h \<in> set (slice_of bc (HE_ClientID e)))
     \<and> (\<forall>c h. h \<in> set (slice_of bc c) \<longrightarrow> (\<exists>e. t h = Some e \<and> HE_ClientID e = c))
     \<and> (\<forall>c. distinct (slice_of bc c))"

definition http_ok :: "Manager \<Rightarrow> bool" where
  "http_ok m \<longleftrightarrow> hosts_ok (httpTunnels m) (httpByClient m)"

definition https_ok :: "Manager \<Rightarrow> bool" where
  "https_ok m \<longleftrightarrow> hosts_ok (httpsTunnels m) (httpsByClient m)"

lemma hosts_ok_insert:
  assumes "hosts_ok t bc" and "HE_Hostname e = h"
    and "\<And>e'. t h = Some e' \<Longrightarrow> HE_ClientID e' = HE_ClientID e"
  shows "hosts_ok (t(h \<mapsto> e))
           (if h \<in> set (slice_of bc (HE_ClientID e)) then bc
            else bc(HE_ClientID e \<mapsto> slice_of bc (HE_ClientID e) @ [h]))"
  using assms unfolding hosts_ok_def by (auto; fastforce)

lemma delete_all_apply: "delete_all hs t h = (if h \<in> set hs then None else t h)"
  unfolding delete_all_def by (induction hs arbitrary: t) auto

lemma hosts_ok_remove:
  assumes "hosts_ok t bc"
  shows "hosts_ok (delete_all (slice_of bc c) t) (bc(c := None))"
  using assms unfolding hosts_ok_def delete_all_apply
  by (auto split: if_splits) (metis option.inject)

lemma hosts_ok_delete:
  assumes "hosts_ok t bc"
  shows "delete_all (slice_of bc c) t h =
         (case t h of None \<Rightarrow> None | Some e \<Rightarrow> if HE_ClientID e = c then None else Some e)"
proof (cases "t h")
  case None
  then show ?thesis by (simp add: delete_all_apply)
next
  case (Some e)
  then have "h \<in> set (slice_of bc c) \<longleftrightarrow> HE_ClientID e = c"
    using assms by (fastforce simp: hosts_ok_def)
  with Some show ?thesis by (simp add: delete_all_apply)
qed

text \<open>
  The contract of a hostname table as the routing front ends and the control handler use it: a
  registration succeeds unless another client holds the name, and then touches only that name;
  removal of a client drops exactly its own names.
\<close>

locale hostname_table =
  fixes get :: "string \<Rightarrow> 'm \<Rightarrow> HTTPTunnelEntry option"
    and add :: "string \<Rightarrow> string \<Rightarrow> string \<Rightarrow> string \<Rightarrow> int \<Rightarrow> 'm
                \<Rightarrow> (manager_error + HTTPTunnelEntry) \<times> 'm"
    and drop_client :: "string \<Rightarrow> 'm \<Rightarrow> 'm"
    and good :: "'m \<Rightarrow> bool"
  assumes add_ok: "(\<And>e. get host m = Some e \<Longrightarrow> HE_ClientID e = cid) \<Longrightarrow>
      \<exists>e. fst (add tid cid host h p m) = Inr e \<and> HE_ClientID e = cid \<and> HE_ID e = tid
          \<and> HE_Hostname e = host \<and> HE_LocalHost e = h \<and> HE_LocalPort e = p
          \<and> (\<forall>k. get k (snd (add tid cid host h p m)) = (if k = host then Some e else get k m))"
    and add_taken: "get host m = Some e \<Longrightarrow> HE_ClientID e \<noteq> cid \<Longrightarrow>
      add tid cid host h p m = (Inl (HostnameTaken (HE_ClientID e)), m)"
    and get_drop: "good m \<Longrightarrow>
      get k (drop_client cid m) =
        (case get k m of None \<Rightarrow> None | Some e \<Rightarrow> if HE_ClientID e = cid then None else Some e)"
    and good_add: "good m \<Longrightarrow> good (snd (add tid cid host h p m))"
    and good_drop: "good m \<Longrightarrow> good (drop_client cid m)"
begin

lemma add_keeps_other:
  assumes "get k m = Some e" "HE_ClientID e \<noteq> cid"
  shows "get k (snd (add tid cid host h p m)) = Some e"
proof (cases "\<exists>e'. get host m = Some e' \<and> HE_ClientID e' \<noteq> cid")
  case True
  then show ?thesis using assms add_taken [of host m] by auto
next
  case False
  then obtain e' where
    "\<forall>k. get k (snd (add tid cid host h p m)) = (if k = host then Some e' else get k m)"
    using add_ok [of host m cid tid h p] by blast
  with False assms show ?thesis by auto
qed

lemma drop_keeps_other:
  "good m \<Longrightarrow> get k m = Some e \<Longrightarrow> HE_ClientID e \<noteq> cid \<Longrightarrow> get k (drop_client cid m) = Some e"
  by (simp add: get_drop)

end

lemma AddHTTPTunnel_accept:
  assumes "\<And>e. httpTunnels m host = Some e \<Longrightarrow> HE_ClientID e = cid"
  shows "AddHTTPTunnel tid cid host h p m =
    (let e = \<lparr>HE_ID = tid, HE_ClientID = cid, HE_Hostname = host, HE_LocalHost = h,
              HE_LocalPort = p, HE_IsTLS = False\<rparr>
     in (Inr e, m\<lparr>httpByClient := (if host \<in> set (slice_of (httpByClient m) cid)
                      then httpByClient m
                      else (httpByClient m)(cid \<mapsto> slice_of (httpByClient m) cid @ [host])),
                 httpTunnels := (httpTunnels m)(host \<mapsto> e)\<rparr>))"
  using assms by (auto simp: AddHTTPTunnel_def Let_def split: option.split)

lemma AddHTTPSTunnel_accept:
  assumes "\<And>e. httpsTunnels m host = Some e \<Longrightarrow> HE_ClientID e = cid"
  shows "AddHTTPSTunnel tid cid host h p m =
    (let e = \<lparr>HE_ID = tid, HE_ClientID = cid, HE_Hostname = host, HE_LocalHost = h,
              HE_LocalPort = p, HE_IsTLS = True\<rparr>
     in (Inr e, m\<lparr>httpsByClient := (if host \<in> set (slice_of (httpsByClient m) cid)
                      then httpsByClient m
                      else (httpsByClient m)(cid \<mapsto> slice_of (httpsByClient m) cid @ [host])),
                 httpsTunnels := (httpsTunnels m)(host \<mapsto> e)\<rparr>))"
  using assms by (auto simp: AddHTTPSTunnel_def Let_def split: option.split)

lemma http_ok_add: "http_ok m \<Longrightarrow> http_ok (snd (AddHTTPTunnel tid cid host h p m))"
proof (cases "\<exists>e. httpTunnels m host = Some e \<and> HE_ClientID e \<noteq> cid")
  case True
  assume "http_ok m"
  with True show ?thesis by (auto simp: AddHTTPTunnel_def Let_def)
next
  case False
  assume "http_ok m"
  with False show ?thesis
    using hosts_ok_insert [of "httpTunnels m" "httpByClient m"
        "\<lparr>HE_ID = tid, HE_ClientID = cid, HE_Hostname = host, HE_LocalHost = h,
          HE_LocalPort = p, HE_IsTLS = False\<rparr>" host]
    by (auto simp: AddHTTPTunnel_accept http_ok_def Let_def)
qed

lemma https_ok_add: "https_ok m \<Longrightarrow> https_ok (snd (AddHTTPSTunnel tid cid host h p m))"
proof (cases "\<exists>e. httpsTunnels m host = Some e \<and> HE_ClientID e \<noteq> cid")
  case True
  assume "https_ok m"
  with True show ?thesis by (auto simp: AddHTTPSTunnel_def Let_def)
next
  case False
  assume "https_ok m"
  with False show ?thesis
    using hosts_ok_insert [of "httpsTunnels m" "httpsByClient m"
        "\<lparr>HE_ID = tid, HE_ClientID = cid, HE_Hostname = host, HE_LocalHost = h,
          HE_LocalPort = p, HE_IsTLS = True\<rparr>" host]
    by (auto simp: AddHTTPSTunnel_accept https_ok_def Let_def)
qed

interpretation http_table: hostname_table GetHTTPTunnel AddHTTPTunnel
  RemoveHTTPTunnelsForClient http_ok
proof (unfold_locales, goal_cases)
  case (1 host m cid tid h p)
  then show ?case by (simp add: GetHTTPTunnel_def AddHTTPTunnel_accept Let_def)
next
  case (2 host m e cid tid h p)
  then show ?case by (simp add: GetHTTPTunnel_def AddHTTPTunnel_def Let_def)
next
  case (3 m k cid)
  then show ?case
    by (simp add: GetHTTPTunnel_def RemoveHTTPTunnelsForClient_def http_ok_def hosts_ok_delete)
next
  case (4 m tid cid host h p)
  then show ?case by (rule http_ok_add)
next
  case (5 m cid)
  then show ?case by (simp add: http_ok_def RemoveHTTPTunnelsForClient_def hosts_ok_remove)
qed

interpretation https_table: hostname_table GetHTTPSTunnel AddHTTPSTunnel
  RemoveHTTPTunnelsForClient https_ok
proof (unfold_locales, goal_cases)
  case (1 host m cid tid h p)
  then show ?case by (simp add: GetHTTPSTunnel_def AddHTTPSTunnel_accept Let_def)
next
  case (2 host m e cid tid h p)
  then show ?case by (simp add: GetHTTPSTunnel_def AddHTTPSTunnel_def Let_def)
next
  case (3 m k cid)
  then show ?case
    by (simp add: GetHTTPSTunnel_def RemoveHTTPTunnelsForClient_def https_ok_def hosts_ok_delete)
next
  case (4 m tid cid host h p)
  then show ?case by (rule https_ok_add)
next
  case (5 m cid)
  then show ?case by (simp add: https_ok_def RemoveHTTPTunnelsForClient_def hosts_ok_remove)
qed

subsection \<open>TCP tunnels\<close>

definition tcp_ok :: "Manager \<Rightarrow> bool" where
  "tcp_ok m \<longleftrightarrow>
     (\<forall>i e. tunnels m i = Some e \<longrightarrow>
        TE_ID e = i \<and> i \<in> set (slice_of (byClient m) (TE_ClientID e)))
     \<and> (\<forall>c i. i \<in> set (slice_of (byClient m) c) \<longrightarrow>
          (\<exists>e. tunnels m i = Some e \<and> TE_ClientID e = c))"

lemma tunnels_remove_all:
  "tunnels (foldl remove_tunnel m ids) i = (if i \<in> set ids then None else tunnels m i)"
  by (induction ids arbitrary: m) (auto simp: remove_tunnel_def split: option.split)

lemma closed_remove_all:
  "closed_listeners (foldl remove_tunnel m ids) =
   closed_listeners m \<union> {l. \<exists>i \<in> set ids. \<exists>e. tunnels m i = Some e \<and> TE_listener e = Some l}"
proof (induction ids arbitrary: m)
  case Nil
  show ?case by simp
next
  case (Cons j ids)
  show ?case
    by (simp add: Cons)
      (auto simp: remove_tunnel_def split: option.splits if_splits, metis option.inject)
qed

lemma tcp_ok_owner:
  assumes "tcp_ok m" "tunnels m i = Some e"
  shows "i \<in> set (slice_of (byClient m) c) \<longleftrightarrow> TE_ClientID e = c"
  using assms by (fastforce simp: tcp_ok_def)

lemma tunnels_RemoveTunnels:
  assumes "tcp_ok m"
  shows "tunnels (RemoveTunnelsForClient c m) i =
    (case tunnels m i of None \<Rightarrow> None | Some e \<Rightarrow> if TE_ClientID e = c then None else Some e)"
proof (cases "tunnels m i")
  case None
  then show ?thesis by (simp add: RemoveTunnelsForClient_def Let_def tunnels_remove_all)
next
  case (Some e)
  then show ?thesis
    by (simp add: RemoveTunnelsForClient_def Let_def tunnels_remove_all tcp_ok_owner [OF assms Some])
qed

lemma closed_RemoveTunnels:
  assumes "tcp_ok m"
  shows "closed_listeners (RemoveTunnelsForClient c m) =
    closed_listeners m
    \<union> {l. \<exists>i e. tunnels m i = Some e \<and> TE_ClientID e = c \<and> TE_listener e = Some l}"
proof -
  have "{l. \<exists>i \<in> set (slice_of (byClient m) c). \<exists>e. tunnels m i = Some e \<and> TE_listener e = Some l}
      = {l. \<exists>i e. tunnels m i = Some e \<and> TE_ClientID e = c \<and> TE_listener e = Some l}"
    using tcp_ok_owner [OF assms] by blast
  then show ?thesis by (simp add: RemoveTunnelsForClient_def Let_def closed_remove_all)
qed

lemma tcp_ok_remove: "tcp_ok m \<Longrightarrow> tcp_ok (RemoveTunnelsForClient c m)"
  unfolding tcp_ok_def [of "RemoveTunnelsForClient c m"]
  by (auto simp: tunnels_RemoveTunnels split: option.splits if_splits)
    (force simp: tcp_ok_def)+

lemma tcp_ok_add:
  assumes "tcp_ok m" "tunnels m tid = None"
  shows "tcp_ok (snd (AddTunnel tid c h p pub ln m))"
  using assms unfolding tcp_ok_def AddTunnel_def Let_def by auto (metis option.simps(3))+

fun fresh_op :: "Manager \<Rightarrow> mgr_op \<Rightarrow> bool" where
  "fresh_op m (OpAddTunnel tid cid h p pub ln) \<longleftrightarrow> tunnels m tid = None"
| "fresh_op m _ \<longleftrightarrow> True"

fun fresh_run :: "Manager \<Rightarrow> mgr_op list \<Rightarrow> bool" where
  "fresh_run m [] \<longleftrightarrow> True"
| "fresh_run m (op # ops) \<longleftrightarrow> fresh_op m op \<and> fresh_run (mgr_step m op) ops"

lemma tcp_frame:
  "tunnels m' = tunnels m \<Longrightarrow> byClient m' = byClient m \<Longrightarrow> tcp_ok m' = tcp_ok m"
  by (simp add: tcp_ok_def)

lemma tcp_ok_step:
  assumes "tcp_ok m" "fresh_op m op"
  shows "tcp_ok (mgr_step m op)"
proof (cases "\<exists>c. op = OpRemoveTunnels c \<or> (\<exists>tid h p pub ln. op = OpAddTunnel tid c h p pub ln)")
  case True
  then show ?thesis using assms by (auto simp: tcp_ok_remove tcp_ok_add)
next
  case False
  then have "tunnels (mgr_step m op) = tunnels m \<and> byClient (mgr_step m op) = byClient m"
    by (cases op) (auto simp: mgr_defs split: option.split)
  then show ?thesis using assms(1) tcp_frame by blast
qed

subsection \<open>All invariants of a run\<close>

definition core_ok :: "Manager \<Rightarrow> bool" where
  "core_ok m \<longleftrightarrow> pend_ok m \<and> socks_ok m \<and> http_ok m \<and> https_ok m"

lemma http_frame:
  "httpTunnels m' = httpTunnels m \<Longrightarrow> httpByClient m' = httpByClient m \<Longrightarrow> http_ok m' = http_ok m"
  "httpsTunnels m' = httpsTunnels m \<Longrightarrow> httpsByClient m' = httpsByClient m
   \<Longrightarrow> https_ok m' = https_ok m"
  by (simp_all add: http_ok_def https_ok_def)

lemma http_ok_step: "http_ok m \<Longrightarrow> http_ok (mgr_step m op)"
proof (cases "\<exists>c. op = OpRemoveHTTP c \<or> (\<exists>tid host h p. op = OpAddHTTP tid c host h p)")
  case True
  moreover assume "http_ok m"
  ultimately show ?thesis by (auto simp: http_table.good_drop http_table.good_add)
next
  case False
  then have "httpTunnels (mgr_step m op) = httpTunnels m
             \<and> httpByClient (mgr_step m op) = httpByClient m"
    by (cases op) (auto simp: mgr_defs split: option.split)
  moreover assume "http_ok m"
  ultimately show ?thesis using http_frame(1) by blast
qed

lemma https_ok_step: "https_ok m \<Longrightarrow> https_ok (mgr_step m op)"
proof (cases "\<exists>c. op = OpRemoveHTTP c \<or> (\<exists>tid host h p. op = OpAddHTTPS tid c host h p)")
  case True
  moreover assume "https_ok m"
  ultimately show ?thesis by (auto simp: https_table.good_drop https_table.good_add)
next
  case False
  then have "httpsTunnels (mgr_step m op) = httpsTunnels m
             \<and> httpsByClient (mgr_step m op) = httpsByClient m"
    by (cases op) (auto simp: mgr_defs split: option.split)
  moreover assume "https_ok m"
  ultimately show ?thesis using http_frame(2) by blast
qed

interpretation mgr: machine mgr_step core_ok
  by unfold_locales
    (simp add: core_ok_def pend_ok_step socks_ok_step http_ok_step https_ok_step)

lemma core_ok_New [simp]: "core_ok NewManager"
  by (simp add: core_ok_def pend_ok_def socks_ok_def http_ok_def https_ok_def hosts_ok_def
      NewManager_def)

lemma tcp_ok_New [simp]: "tcp_ok NewManager"
  by (simp add: tcp_ok_def NewManager_def)

lemma tcp_ok_run: "tcp_ok m \<Longrightarrow> fresh_run m ops \<Longrightarrow> tcp_ok (foldl mgr_step m ops)"
  by (induction ops arbitrary: m) (simp_all add: tcp_ok_step)

definition mgr_inv :: "Manager \<Rightarrow> bool" where
  "mgr_inv m \<longleftrightarrow> core_ok m \<and> tcp_ok m"

lemma mgr_inv_run: "fresh_run NewManager ops \<Longrightarrow> mgr_inv (foldl mgr_step NewManager ops)"
  unfolding mgr_inv_def using mgr.run_inv tcp_ok_run by simp

end
