(* ===== verification/ManagerProps.thy ===== *)
theory ManagerProps
  imports ManagerInv
begin

text \<open>
  What the tunnel manager guarantees its callers: exact behaviour of the rendezvous between an
  external connection and the client's data connection, over single calls and over every sequence
  of calls; isolation of clients' hostnames; exact cleanup when a client leaves.
\<close>

subsection \<open>One call of FulfillPending\<close>

lemma Token_cell: "conn_heap m p = Some pc \<Longrightarrow> Token p m = pc_dataToken pc"
  by (simp add: Token_def)

text \<open>
  C2. \<open>FulfillPending\<close> accepts a data connection exactly when the connection ID is registered,
  its token is not empty and the caller echoed it. It then hands the connection to that one waiter,
  forgets the ID so the token works once, and leaves every other waiter alone; a refused call
  changes nothing.
\<close>

theorem FulfillPending_exact:
  assumes "pend_ok m" "FulfillPending c d tok m = (r, m')"
  shows "(r = Inr () \<longleftrightarrow> (\<exists>p. pending m c = Some p \<and> Token p m \<noteq> [] \<and> tok = Token p m))
    \<and> (r \<noteq> Inr () \<longrightarrow> m' = m)
    \<and> (\<forall>p. r = Inr () \<and> pending m c = Some p \<longrightarrow>
           WaitReady p m' = Some (Some d) \<and> PendingExtConn p m' = PendingExtConn p m
           \<and> pending m' = (pending m)(c := None)
           \<and> (\<forall>q. q \<noteq> p \<longrightarrow> conn_heap m' q = conn_heap m q)
           \<and> (\<forall>d' tok'. FulfillPending c d' tok' m' = (Inl UnknownConnID, m')))"
proof (intro conjI allI)
  note ok = assms(1) [unfolded pend_ok_def] and eq = assms(2) [unfolded FulfillPending_def]
  show "r = Inr () \<longleftrightarrow> (\<exists>p. pending m c = Some p \<and> Token p m \<noteq> [] \<and> tok = Token p m)"
    using eq by (auto simp: Let_def split: option.splits if_splits)
  show "r \<noteq> Inr () \<longrightarrow> m' = m"
    using eq by (auto simp: Let_def split: option.splits if_splits)
  fix p
  show "r = Inr () \<and> pending m c = Some p \<longrightarrow>
           WaitReady p m' = Some (Some d) \<and> PendingExtConn p m' = PendingExtConn p m
           \<and> pending m' = (pending m)(c := None)
           \<and> (\<forall>q. q \<noteq> p \<longrightarrow> conn_heap m' q = conn_heap m q)
           \<and> (\<forall>d' tok'. FulfillPending c d' tok' m' = (Inl UnknownConnID, m'))"
  proof
    assume r: "r = Inr () \<and> pending m c = Some p"
    then obtain pc where "conn_heap m p = Some pc" using ok by blast
    with eq r show "WaitReady p m' = Some (Some d) \<and> PendingExtConn p m' = PendingExtConn p m
           \<and> pending m' = (pending m)(c := None)
           \<and> (\<forall>q. q \<noteq> p \<longrightarrow> conn_heap m' q = conn_heap m q)
           \<and> (\<forall>d' tok'. FulfillPending c d' tok' m' = (Inl UnknownConnID, m'))"
      by (auto simp: Let_def close_ready_def WaitReady_def PendingExtConn_def FulfillPending_def
          split: if_splits)
  qed
qed

lemma length_hex_encode: "length (hex_encode bs) = 2 * length bs"
  by (induction bs) (simp_all add: hex_encode_def)

definition demo_token :: bytes where
  "demo_token = replicate 32 171"

definition demo_waiting :: Manager where
  "demo_waiting = snd (RegisterPending ''conn-1'' 7 (Some demo_token) NewManager)"

lemma demo_waiting_ok: "pend_ok demo_waiting"
  using pend_ok_step [of NewManager "OpRegister ''conn-1'' 7 (Some demo_token)"] core_ok_New
  by (simp add: core_ok_def demo_waiting_def)

lemma demo_waiting_simps:
  "pending demo_waiting ''conn-1'' = Some 0" "Token 0 demo_waiting = hex_encode demo_token"
  "hex_encode demo_token \<noteq> []"
  by (simp_all add: demo_waiting_def RegisterPending_def Token_def NewManager_def newDataToken_def
      hex_encode_def demo_token_def)

theorem FulfillPending_exact_witness:
  "fst (FulfillPending ''conn-1'' 9 (hex_encode demo_token) demo_waiting) = Inr ()
   \<and> fst (FulfillPending ''conn-1'' 9 ''guess'' demo_waiting) \<noteq> Inr ()
   \<and> WaitReady 0 (snd (FulfillPending ''conn-1'' 9 (hex_encode demo_token) demo_waiting))
     = Some (Some 9)"
proof -
  have g: "hex_encode demo_token \<noteq> ''guess''"
    using length_hex_encode [of demo_token] by (auto simp: demo_token_def)
  let ?ok = "FulfillPending ''conn-1'' 9 (hex_encode demo_token) demo_waiting"
  let ?no = "FulfillPending ''conn-1'' 9 ''guess'' demo_waiting"
  note yes = FulfillPending_exact [OF demo_waiting_ok prod.collapse [symmetric],
      of "''conn-1''" 9 "hex_encode demo_token"]
    and no = FulfillPending_exact [OF demo_waiting_ok prod.collapse [symmetric],
      of "''conn-1''" 9 "''guess''"]
  have 1: "fst ?ok = Inr ()"
    using yes [THEN conjunct1] demo_waiting_simps by simp
  moreover have "fst ?no \<noteq> Inr ()"
    using no [THEN conjunct1] demo_waiting_simps g by simp
  moreover have "WaitReady 0 (snd ?ok) = Some (Some 9)"
    using yes [THEN conjunct2, THEN conjunct2] 1 demo_waiting_simps(1) by blast
  ultimately show ?thesis by blast
qed

subsection \<open>Every sequence of calls\<close>

lemma ready_stays:
  assumes "pend_ok m" "WaitReady p m = Some r"
  shows "WaitReady p (mgr_step m op) = Some r"
proof -
  obtain pc where pc: "conn_heap m p = Some pc" "pc_ready pc" "pc_dataConn pc = r"
    using assms(2) by (auto simp: WaitReady_def split: option.splits if_splits)
  have "\<And>c. pending m c \<noteq> Some p" using assms(1) pc by (force simp: pend_ok_def)
  moreover have "p \<noteq> next_ptr m" using assms(1) pc by (force simp: pend_ok_def)
  ultimately have "conn_heap (mgr_step m op) p = Some pc"
    using pc by (cases op) (auto simp: mgr_defs split: option.split)
  with pc show ?thesis by (simp add: WaitReady_def)
qed

lemma ready_stays_run:
  "pend_ok m \<Longrightarrow> WaitReady p m = Some r \<Longrightarrow> WaitReady p (foldl mgr_step m ops) = Some r"
  by (induction ops arbitrary: m) (simp_all add: ready_stays pend_ok_step)

lemma open_cell_step:
  assumes "pend_ok m" "conn_heap m p = Some pc" "\<not> pc_ready pc"
  shows "conn_heap (mgr_step m op) p = Some pc
           \<and> (\<forall>c. pending (mgr_step m op) c = Some p \<longrightarrow> pending m c = Some p)
         \<or> (\<exists>c d. op = OpFulfill c d (pc_dataToken pc) \<and> pending m c = Some p
              \<and> WaitReady p (mgr_step m op) = Some (Some d))
         \<or> WaitReady p (mgr_step m op) = Some None"
proof -
  have p: "p \<noteq> next_ptr m" "pc_dataConn pc = None \<or> (\<forall>c. pending m c \<noteq> Some p)"
    using assms by (force simp: pend_ok_def)+
  then show ?thesis
    using assms by (cases op) (auto simp: mgr_defs WaitReady_def Token_def split: option.split)
qed

text \<open>
  C3. Whatever sequence of calls concurrent goroutines make, an external connection that waits is
  spliced to a data connection only if some call of \<open>FulfillPending\<close> named the very connection
  ID it was registered under and echoed the token drawn for it.
\<close>

theorem spliced_only_by_token_holder:
  assumes "pend_ok m" "conn_heap m p = Some pc" "\<not> pc_ready pc"
    and "WaitReady p (foldl mgr_step m ops) = Some (Some d)"
  shows "\<exists>c. pending m c = Some p \<and> OpFulfill c d (pc_dataToken pc) \<in> set ops"
  using assms
proof (induction ops arbitrary: m)
  case Nil
  then show ?case by (simp add: WaitReady_def)
next
  case (Cons op ops)
  let ?m' = "mgr_step m op"
  have ok': "pend_ok ?m'" using Cons.prems(1) by (rule pend_ok_step)
  have last: "WaitReady p (foldl mgr_step ?m' ops) = Some (Some d)" using Cons.prems(4) by simp
  consider (same) "conn_heap ?m' p = Some pc"
      "\<forall>c. pending ?m' c = Some p \<longrightarrow> pending m c = Some p"
    | (filled) c d' where "op = OpFulfill c d' (pc_dataToken pc)" "pending m c = Some p"
      "WaitReady p ?m' = Some (Some d')"
    | (cancelled) "WaitReady p ?m' = Some None"
    using open_cell_step [OF Cons.prems(1-3), of op] by blast
  then show ?case
  proof cases
    case same
    with Cons.IH [OF ok' _ Cons.prems(3) last] show ?thesis by auto
  next
    case filled
    with ready_stays_run [OF ok' filled(3), of ops] last show ?thesis by auto
  next
    case cancelled
    with ready_stays_run [OF ok' cancelled, of ops] last show ?thesis by simp
  qed
qed

theorem spliced_only_by_token_holder_witness:
  "OpFulfill ''conn-1'' 9 (hex_encode demo_token)
   \<in> set [OpFulfill ''conn-1'' 8 [], OpFulfill ''conn-1'' 9 (hex_encode demo_token)]"
proof -
  let ?ops = "[OpFulfill ''conn-1'' 8 [], OpFulfill ''conn-1'' 9 (hex_encode demo_token)]"
  let ?pc = "\<lparr>pc_extConn = 7, pc_ready = False, pc_dataConn = None,
              pc_dataToken = hex_encode demo_token\<rparr>"
  have cell: "conn_heap demo_waiting 0 = Some ?pc"
    by (simp add: demo_waiting_def RegisterPending_def NewManager_def newDataToken_def)
  have "mgr_step demo_waiting (OpFulfill ''conn-1'' 8 []) = demo_waiting"
    using demo_waiting_simps by (simp add: FulfillPending_def)
  moreover have "WaitReady 0 (mgr_step demo_waiting (OpFulfill ''conn-1'' 9 (hex_encode demo_token)))
      = Some (Some 9)"
    using cell demo_waiting_simps by (simp add: FulfillPending_def close_ready_def WaitReady_def Let_def)
  ultimately have "WaitReady 0 (foldl mgr_step demo_waiting ?ops) = Some (Some 9)" by simp
  from spliced_only_by_token_holder [OF demo_waiting_ok cell _ this]
  show ?thesis by (auto simp: demo_waiting_simps)
qed


subsection \<open>Isolation of hostnames\<close>

text \<open>The client on whose behalf a call changes the HTTP (HTTPS) hostname table, if any.\<close>

fun http_actor :: "mgr_op \<Rightarrow> string option" where
  "http_actor (OpAddHTTP tid cid host h p) = Some cid"
| "http_actor (OpRemoveHTTP cid) = Some cid"
| "http_actor _ = None"

fun https_actor :: "mgr_op \<Rightarrow> string option" where
  "https_actor (OpAddHTTPS tid cid host h p) = Some cid"
| "https_actor (OpRemoveHTTP cid) = Some cid"
| "https_actor _ = None"

lemma http_step_keeps:
  assumes "core_ok m" "GetHTTPTunnel host m = Some e" "http_actor op \<noteq> Some (HE_ClientID e)"
  shows "GetHTTPTunnel host (mgr_step m op) = Some e"
proof (cases "http_actor op")
  case None
  then have "httpTunnels (mgr_step m op) = httpTunnels m"
    by (cases op) (auto simp: mgr_defs split: option.split)
  with assms(2) show ?thesis by (simp add: GetHTTPTunnel_def)
next
  case (Some cid)
  with assms show ?thesis
    by (cases op) (auto simp: core_ok_def intro!: http_table.add_keeps_other http_table.drop_keeps_other)
qed

lemma https_step_keeps:
  assumes "core_ok m" "GetHTTPSTunnel host m = Some e" "https_actor op \<noteq> Some (HE_ClientID e)"
  shows "GetHTTPSTunnel host (mgr_step m op) = Some e"
proof (cases "https_actor op")
  case None
  then have "httpsTunnels (mgr_step m op) = httpsTunnels m"
    by (cases op) (auto simp: mgr_defs split: option.split)
  with assms(2) show ?thesis by (simp add: GetHTTPSTunnel_def)
next
  case (Some cid)
  with assms show ?thesis
    by (cases op) (auto simp: core_ok_def intro!: https_table.add_keeps_other https_table.drop_keeps_other)
qed

text \<open>
  C8. A hostname stays routed to the client that registered it: no sequence of calls in which other
  clients register, re-register, disconnect or open connections changes the entry, in the HTTP
  table or in the HTTPS table.
\<close>

theorem hostname_isolation:
  assumes "core_ok m"
  shows "(GetHTTPTunnel host m = Some e \<and> (\<forall>op \<in> set ops. http_actor op \<noteq> Some (HE_ClientID e))
           \<longrightarrow> GetHTTPTunnel host (foldl mgr_step m ops) = Some e)
       \<and> (GetHTTPSTunnel host m = Some e \<and> (\<forall>op \<in> set ops. https_actor op \<noteq> Some (HE_ClientID e))
           \<longrightarrow> GetHTTPSTunnel host (foldl mgr_step m ops) = Some e)"
  using assms
proof (induction ops arbitrary: m)
  case Nil
  show ?case by simp
next
  case (Cons op ops)
  have "core_ok (mgr_step m op)" using Cons.prems by (rule mgr.step_inv)
  from Cons.IH [OF this] show ?case
    using http_step_keeps [OF Cons.prems, of host e op]
      https_step_keeps [OF Cons.prems, of host e op] by simp
qed

theorem hostname_isolation_witness:
  "GetHTTPTunnel ''a.example'' (foldl mgr_step
     (snd (AddHTTPTunnel ''t1'' ''alice'' ''a.example'' ''127.0.0.1'' 80 NewManager))
     [OpAddHTTP ''t2'' ''bob'' ''a.example'' ''10.0.0.1'' 80, OpRemoveHTTP ''bob''])
   = Some \<lparr>HE_ID = ''t1'', HE_ClientID = ''alice'', HE_Hostname = ''a.example'',
           HE_LocalHost = ''127.0.0.1'', HE_LocalPort = 80, HE_IsTLS = False\<rparr>"
proof -
  let ?m = "snd (AddHTTPTunnel ''t1'' ''alice'' ''a.example'' ''127.0.0.1'' 80 NewManager)"
  have ok: "core_ok ?m"
    using mgr.step_inv [OF core_ok_New, of "OpAddHTTP ''t1'' ''alice'' ''a.example'' ''127.0.0.1'' 80"]
    by simp
  show ?thesis
    by (rule hostname_isolation [OF ok, THEN conjunct1, rule_format])
      (simp add: GetHTTPTunnel_def AddHTTPTunnel_def NewManager_def Let_def)
qed

subsection \<open>Cleanup when a client leaves\<close>

definition client_cleanup :: "string \<Rightarrow> Manager \<Rightarrow> Manager" where
  "client_cleanup c m = RemoveHTTPTunnelsForClient c (RemoveTunnelsForClient c m)"

text \<open>
  When a client's control connection ends, the two removal calls close every public listener of
  that client and drop exactly its entries: nothing it registered is left in any table, and every
  entry of another client, its listener included, is untouched.
\<close>

theorem client_cleanup_exact:
  assumes "mgr_inv m"
  shows "(\<forall>i. tunnels (client_cleanup c m) i =
            (case tunnels m i of None \<Rightarrow> None | Some e \<Rightarrow> if TE_ClientID e = c then None else Some e))
       \<and> (\<forall>h. GetHTTPTunnel h (client_cleanup c m) =
            (case GetHTTPTunnel h m of None \<Rightarrow> None
             | Some e \<Rightarrow> if HE_ClientID e = c then None else Some e))
       \<and> (\<forall>h. GetHTTPSTunnel h (client_cleanup c m) =
            (case GetHTTPSTunnel h m of None \<Rightarrow> None
             | Some e \<Rightarrow> if HE_ClientID e = c then None else Some e))
       \<and> closed_listeners (client_cleanup c m) = closed_listeners m
            \<union> {l. \<exists>i e. tunnels m i = Some e \<and> TE_ClientID e = c \<and> TE_listener e = Some l}
       \<and> slice_of (byClient (client_cleanup c m)) c = []
       \<and> slice_of (httpByClient (client_cleanup c m)) c = []
       \<and> slice_of (httpsByClient (client_cleanup c m)) c = []"
proof -
  let ?m1 = "RemoveTunnelsForClient c m"
  have tcp: "tcp_ok m" and http: "http_ok m" and https: "https_ok m"
    using assms by (simp_all add: mgr_inv_def core_ok_def)
  have "http_ok ?m1" "https_ok ?m1"
    using http_ok_step [OF http, of "OpRemoveTunnels c"] https_ok_step [OF https, of "OpRemoveTunnels c"]
    by simp_all
  then show ?thesis
    using http_table.get_drop [of ?m1 _ c] https_table.get_drop [of ?m1 _ c]
      tunnels_RemoveTunnels [OF tcp, of c] closed_RemoveTunnels [OF tcp, of c]
    by (simp add: client_cleanup_def GetHTTPTunnel_def GetHTTPSTunnel_def)
      (simp add: RemoveHTTPTunnelsForClient_def)
qed

definition demo_two_clients :: Manager where
  "demo_two_clients = foldl mgr_step NewManager
     [OpAddTunnel ''t1'' ''alice'' ''127.0.0.1'' 22 40001 (Some 1),
      OpAddTunnel ''t2'' ''bob'' ''127.0.0.1'' 22 40002 (Some 2)]"

theorem client_cleanup_exact_witness:
  "tunnels (client_cleanup ''alice'' demo_two_clients) ''t1'' = None
   \<and> tunnels (client_cleanup ''alice'' demo_two_clients) ''t2'' = tunnels demo_two_clients ''t2''
   \<and> 1 \<in> closed_listeners (client_cleanup ''alice'' demo_two_clients)
   \<and> 2 \<notin> closed_listeners (client_cleanup ''alice'' demo_two_clients)"
proof -
  have "mgr_inv demo_two_clients"
    unfolding demo_two_clients_def
    by (rule mgr_inv_run) (simp add: AddTunnel_def NewManager_def Let_def)
  from client_cleanup_exact [OF this, of "''alice''"] show ?thesis
    by (simp add: demo_two_clients_def AddTunnel_def NewManager_def Let_def split: if_splits)
qed

text \<open>
  C32. After every sequence of calls that draws unused tunnel IDs, all tables are consistent: each
  per-client list names exactly that client's entries, every registered waiter is open, unshared
  and empty, and no call of \<open>FulfillSOCKS\<close> closes a channel twice.
\<close>

theorem mgr_run_invariant:
  assumes "fresh_run NewManager ops"
  shows "mgr_inv (foldl mgr_step NewManager ops)
         \<and> FulfillSOCKS c ok e (foldl mgr_step NewManager ops) \<noteq> None"
  using mgr_inv_run [OF assms] FulfillSOCKS_Some [of "foldl mgr_step NewManager ops" c ok e]
  by (auto simp: mgr_inv_def core_ok_def)

theorem mgr_run_invariant_witness:
  "mgr_inv (foldl mgr_step NewManager
     [OpRegisterSOCKS ''s'', OpAddTunnel ''t1'' ''alice'' ''127.0.0.1'' 22 40001 (Some 1),
      OpRemoveTunnels ''alice''])"
  using mgr_run_invariant [of "[OpRegisterSOCKS ''s'',
      OpAddTunnel ''t1'' ''alice'' ''127.0.0.1'' 22 40001 (Some 1), OpRemoveTunnels ''alice'']"]
  by (simp add: RegisterPendingSOCKS_def NewManager_def Let_def)

end
