(* ===== verification/GoNet.thy ===== *)
theory GoNet
  imports Prelude
begin

text \<open>
  The part of Go's standard library the program's own decisions rest on, written as Go's documented
  algorithms: decimal formatting and parsing (\<open>fmt\<close>, \<open>strconv\<close>), \<open>strings.Split\<close> and
  its neighbours, \<open>range\<close> over a string (UTF-8), \<open>net.SplitHostPort\<close>,
  \<open>net.ParseIP\<close>, \<open>net.IP.String\<close> and the address classes of \<open>net.IP\<close>.
  An \<open>IP\<close> value is kept in its 16-byte form, as \<open>net.ParseIP\<close> returns it.
\<close>

unbundle bit_operations_syntax

subsection \<open>Decimal numbers\<close>

definition digit_char :: "nat \<Rightarrow> char" where
  "digit_char d = char_of (48 + d)"

fun show_nat :: "nat \<Rightarrow> string" where
  "show_nat n = (if n < 10 then [digit_char n] else show_nat (n div 10) @ [digit_char (n mod 10)])"

declare show_nat.simps [simp del]

text \<open>\<open>fmt.Sprintf("%d", n)\<close> and \<open>strconv.FormatInt(n, 10)\<close>.\<close>

definition show_int :: "int \<Rightarrow> string" where
  "show_int n = (if n < 0 then CHR ''-'' # show_nat (nat (- n)) else show_nat (nat n))"

definition is_digit :: "char \<Rightarrow> bool" where
  "is_digit c \<longleftrightarrow> 48 \<le> char_code c \<and> char_code c \<le> 57"

fun read_digits :: "nat \<Rightarrow> string \<Rightarrow> nat option" where
  "read_digits acc [] = Some acc"
| "read_digits acc (c # cs) =
     (if is_digit c then read_digits (acc * 10 + (char_code c - 48)) cs else None)"

text \<open>
  \<open>strconv.ParseInt(s, 10, 64)\<close>, which is also \<open>strconv.Atoi\<close> on a 64-bit machine: an
  optional sign, at least one digit, nothing else, and a value in the 64-bit range.
\<close>

definition read_nat :: "string \<Rightarrow> nat option" where
  "read_nat s = (if s = [] then None else read_digits 0 s)"

definition ParseInt :: "string \<Rightarrow> int option" where
  "ParseInt s =
     (case s of
        [] \<Rightarrow> None
      | c # cs \<Rightarrow>
          (if c = CHR ''-'' then
             (case read_nat cs of None \<Rightarrow> None
              | Some n \<Rightarrow> if int n \<le> 2 ^ 63 then Some (- int n) else None)
           else
             (case read_nat (if c = CHR ''+'' then cs else s) of None \<Rightarrow> None
              | Some n \<Rightarrow> if int n < 2 ^ 63 then Some (int n) else None)))"

lemma char_code_digit_char [simp]: "d < 10 \<Longrightarrow> char_code (digit_char d) = 48 + d"
  by (simp add: char_code_def digit_char_def)

lemma is_digit_digit_char [simp]: "d < 10 \<Longrightarrow> is_digit (digit_char d)"
  by (simp add: is_digit_def)

lemma show_nat_not_Nil [simp]: "show_nat n \<noteq> []"
  by (subst show_nat.simps) simp

lemma show_nat_digits: "\<forall>c \<in> set (show_nat n). is_digit c"
proof (induction n rule: show_nat.induct)
  case (1 n)
  then show ?case by (subst show_nat.simps) auto
qed

lemma read_digits_append:
  "read_digits acc (xs @ ys) =
     (case read_digits acc xs of None \<Rightarrow> None | Some a \<Rightarrow> read_digits a ys)"
  by (induction xs arbitrary: acc) auto

lemma read_digits_show_nat: "read_digits 0 (show_nat n) = Some n"
proof (induction n rule: show_nat.induct)
  case (1 n)
  show ?case
  proof (cases "n < 10")
    case True
    then show ?thesis by (subst show_nat.simps) simp
  next
    case False
    with 1 have "read_digits 0 (show_nat (n div 10)) = Some (n div 10)" by simp
    with False show ?thesis by (subst show_nat.simps) (simp add: read_digits_append)
  qed
qed

lemma not_digit_sign [simp]: "\<not> is_digit CHR ''-''" "\<not> is_digit CHR ''+''"
  "\<not> is_digit CHR '':''" "\<not> is_digit CHR ''.''" "\<not> is_digit CHR ''[''" "\<not> is_digit CHR '']''"
  by (simp_all add: is_digit_def char_code_def)

lemma show_nat_notin [simp]: "\<not> is_digit c \<Longrightarrow> c \<notin> set (show_nat n)"
  using show_nat_digits by blast

lemma ParseInt_show_int: "- (2 ^ 63) \<le> n \<Longrightarrow> n < 2 ^ 63 \<Longrightarrow> ParseInt (show_int n) = Some n"
proof (cases "n < 0")
  case True
  moreover assume "- (2 ^ 63) \<le> n"
  ultimately show ?thesis
    by (simp add: show_int_def ParseInt_def read_nat_def read_digits_show_nat)
next
  case False
  assume lt: "n < 2 ^ 63"
  obtain c cs where s: "show_nat (nat n) = c # cs" by (cases "show_nat (nat n)") auto
  then have "is_digit c" using show_nat_digits [of "nat n"] by simp
  then have "c \<noteq> CHR ''-''" "c \<noteq> CHR ''+''" by auto
  moreover have "read_nat (c # cs) = Some (nat n)"
    using read_digits_show_nat [of "nat n"] s by (simp add: read_nat_def)
  ultimately show ?thesis using False lt by (simp add: show_int_def ParseInt_def s)
qed

subsection \<open>Strings\<close>

text \<open>\<open>strings.Split(s, sep)\<close> for a one-byte separator: always at least one piece.\<close>

fun split_on :: "char \<Rightarrow> string \<Rightarrow> string list" where
  "split_on sep [] = [[]]"
| "split_on sep (c # cs) =
     (if c = sep then [] # split_on sep cs
      else (case split_on sep cs of [] \<Rightarrow> [[c]] | w # ws \<Rightarrow> (c # w) # ws))"

lemma split_on_not_Nil [simp]: "split_on sep s \<noteq> []"
  by (induction s) (auto split: list.splits)

lemma split_on_no_sep: "w \<in> set (split_on sep s) \<Longrightarrow> sep \<notin> set w"
proof (induction s arbitrary: w)
  case Nil
  then show ?case by simp
next
  case (Cons c cs)
  then show ?case by (cases "split_on sep cs") (auto split: if_splits)
qed

lemma split_on_chars: "w \<in> set (split_on sep s) \<Longrightarrow> set w \<subseteq> set s"
proof (induction s arbitrary: w)
  case Nil
  then show ?case by simp
next
  case (Cons c cs)
  then show ?case by (cases "split_on sep cs") (fastforce split: if_splits)+
qed

definition HasPrefix :: "string \<Rightarrow> string \<Rightarrow> bool" where
  "HasPrefix s p \<longleftrightarrow> take (length p) s = p"

definition TrimPrefix :: "string \<Rightarrow> string \<Rightarrow> string" where
  "TrimPrefix s p = (if HasPrefix s p then drop (length p) s else s)"

lemma HasPrefix_append [simp]: "HasPrefix (p @ s) p"
  by (simp add: HasPrefix_def)

lemma TrimPrefix_append [simp]: "TrimPrefix (p @ s) p = s"
  by (simp add: TrimPrefix_def)

lemma HasPrefix_eq: "HasPrefix s p \<Longrightarrow> s = p @ TrimPrefix s p"
  by (metis HasPrefix_def TrimPrefix_def append_take_drop_id)

text \<open>\<open>strings.ToLower\<close>, \<open>strings.ToUpper\<close> on ASCII.\<close>

definition lower_char :: "char \<Rightarrow> char" where
  "lower_char c =
     (if 65 \<le> char_code c \<and> char_code c \<le> 90 then char_of (char_code c + 32) else c)"

definition upper_char :: "char \<Rightarrow> char" where
  "upper_char c =
     (if 97 \<le> char_code c \<and> char_code c \<le> 122 then char_of (char_code c - 32) else c)"

lemma lower_char_idem [simp]: "lower_char (lower_char c) = lower_char c"
  by (auto simp: lower_char_def char_code_def)

subsection \<open>Range over a string\<close>

definition cont_byte :: "nat \<Rightarrow> bool" where
  "cont_byte b \<longleftrightarrow> 128 \<le> b \<and> b \<le> 191"

text \<open>\<open>utf8.DecodeRune\<close>: the code point and its width; a malformed sequence is U+FFFD, width 1.\<close>

definition decode_rune :: "string \<Rightarrow> nat \<times> nat" where
  "decode_rune s =
     (let b = (\<lambda>i. if i < length s then char_code (s ! i) else 0);
          bad = (65533, 1)
      in if b 0 < 128 then (b 0, 1)
         else if 194 \<le> b 0 \<and> b 0 \<le> 223 then
           (if cont_byte (b 1) then ((b 0 - 192) * 64 + (b 1 - 128), 2) else bad)
         else if 224 \<le> b 0 \<and> b 0 \<le> 239 then
           (if cont_byte (b 1) \<and> cont_byte (b 2)
               \<and> (b 0 = 224 \<longrightarrow> 160 \<le> b 1) \<and> (b 0 = 237 \<longrightarrow> b 1 \<le> 159)
            then ((b 0 - 224) * 4096 + (b 1 - 128) * 64 + (b 2 - 128), 3) else bad)
         else if 240 \<le> b 0 \<and> b 0 \<le> 244 then
           (if cont_byte (b 1) \<and> cont_byte (b 2) \<and> cont_byte (b 3)
               \<and> (b 0 = 240 \<longrightarrow> 144 \<le> b 1) \<and> (b 0 = 244 \<longrightarrow> b 1 \<le> 143)
            then ((b 0 - 240) * 262144 + (b 1 - 128) * 4096 + (b 2 - 128) * 64 + (b 3 - 128), 4)
            else bad)
         else bad)"

lemma decode_rune_width: "0 < snd (decode_rune s)"
  by (simp add: decode_rune_def Let_def)

text \<open>\<open>for i, c := range s\<close>: byte index and code point of each character.\<close>

function range_string :: "nat \<Rightarrow> string \<Rightarrow> (nat \<times> nat) list" where
  "range_string i s =
     (if s = [] then []
      else (i, fst (decode_rune s))
           # range_string (i + snd (decode_rune s)) (drop (snd (decode_rune s)) s))"
  by pat_completeness auto
termination
  by (relation "measure (\<lambda>(i, s). length s)") (simp_all add: decode_rune_width)

declare range_string.simps [simp del]

definition ascii :: "string \<Rightarrow> bool" where
  "ascii s \<longleftrightarrow> (\<forall>c \<in> set s. char_code c < 128)"

lemma decode_rune_ascii: "char_code c < 128 \<Longrightarrow> decode_rune (c # cs) = (char_code c, 1)"
  by (simp add: decode_rune_def)

lemma range_string_ascii:
  "ascii s \<Longrightarrow> range_string i s = zip [i..<i + length s] (map char_code s)"
proof (induction s arbitrary: i)
  case Nil
  then show ?case by (subst range_string.simps) simp
next
  case (Cons c cs)
  then have c: "char_code c < 128" and cs: "ascii cs" by (auto simp: ascii_def)
  have "range_string i (c # cs) = (i, char_code c) # range_string (Suc i) cs"
    by (subst range_string.simps) (simp add: decode_rune_ascii c)
  also have "\<dots> = zip [i..<i + length (c # cs)] (map char_code (c # cs))"
    using Cons.IH [OF cs] by (simp add: upt_rec)
  finally show ?case .
qed

subsection \<open>White space\<close>

text \<open>\<open>unicode.IsSpace\<close>\<close>

definition IsSpace :: "nat \<Rightarrow> bool" where
  "IsSpace r \<longleftrightarrow> r \<in> {9, 10, 11, 12, 13, 32, 133, 160, 5760, 8232, 8233, 8239, 8287, 12288} \<or> 8192 \<le> r \<and> r \<le> 8202"

text \<open>\<open>utf8.DecodeLastRune\<close>: the last rune start within four bytes, if its rune ends with the string.\<close>

fun last_rune_start :: "nat \<Rightarrow> string \<Rightarrow> nat" where
  "last_rune_start k [] = k"
| "last_rune_start k (c # cs) =
     (if \<not> cont_byte (char_code c) then Suc k else if 3 \<le> k then Suc k else last_rune_start (Suc k) cs)"

definition decode_last_rune :: "string \<Rightarrow> nat \<times> nat" where
  "decode_last_rune s =
     (let k = last_rune_start 0 (rev s); (r, w) = decode_rune (drop (length s - k) s)
      in if w = k then (r, w) else (65533, 1))"

lemma decode_last_rune_width: "0 < snd (decode_last_rune s)"
  using decode_rune_width [of "drop (length s - last_rune_start 0 (rev s)) s"]
  by (auto simp: decode_last_rune_def Let_def split: prod.split)

lemma decode_last_rune_ascii: "char_code c < 128 \<Longrightarrow> decode_last_rune (s @ [c]) = (char_code c, 1)"
  by (simp add: decode_last_rune_def cont_byte_def decode_rune_ascii)

text \<open>\<open>strings.TrimSpace\<close>\<close>

function trim_left :: "string \<Rightarrow> string" where
  "trim_left s =
     (if s \<noteq> [] \<and> IsSpace (fst (decode_rune s)) then trim_left (drop (snd (decode_rune s)) s) else s)"
  by pat_completeness auto
termination
  by (relation "measure length") (simp_all add: decode_rune_width)

function trim_right :: "string \<Rightarrow> string" where
  "trim_right s =
     (if s \<noteq> [] \<and> IsSpace (fst (decode_last_rune s)) then trim_right (take (length s - snd (decode_last_rune s)) s) else s)"
  by pat_completeness auto
termination
  by (relation "measure length") (simp_all add: decode_last_rune_width)

declare trim_left.simps [simp del] trim_right.simps [simp del]

definition TrimSpace :: "string \<Rightarrow> string" where
  "TrimSpace s = trim_right (trim_left s)"

subsection \<open>Host and port\<close>

fun index_of :: "char \<Rightarrow> string \<Rightarrow> nat option" where
  "index_of c [] = None"
| "index_of c (x # xs) = (if x = c then Some 0 else map_option Suc (index_of c xs))"

definition last_index_of :: "char \<Rightarrow> string \<Rightarrow> nat option" where
  "last_index_of c s = map_option (\<lambda>i. length s - Suc i) (index_of c (rev s))"

datatype addr_error = MissingPort | TooManyColons | MissingBracket | UnexpectedBracket

text \<open>\<open>net.SplitHostPort\<close>.\<close>

definition SplitHostPort :: "string \<Rightarrow> addr_error + (string \<times> string)" where
  "SplitHostPort hp =
     (case last_index_of CHR '':'' hp of
        None \<Rightarrow> Inl MissingPort
      | Some i \<Rightarrow>
          (let tail = (\<lambda>host j k.
                 if CHR ''['' \<in> set (drop j hp) \<or> CHR '']'' \<in> set (drop k hp)
                 then Inl UnexpectedBracket
                 else Inr (host, drop (Suc i) hp))
           in if hp ! 0 = CHR ''[''
              then (case index_of CHR '']'' hp of
                      None \<Rightarrow> Inl MissingBracket
                    | Some e \<Rightarrow>
                        (if Suc e = length hp then Inl MissingPort
                         else if Suc e = i then tail (take (e - 1) (drop 1 hp)) 1 (Suc e)
                         else if hp ! Suc e = CHR '':'' then Inl TooManyColons
                         else Inl MissingPort))
              else (if CHR '':'' \<in> set (take i hp) then Inl TooManyColons
                    else tail (take i hp) 0 0)))"

lemma index_of_append:
  "index_of c (xs @ ys) =
     (if c \<in> set xs then index_of c xs else map_option (\<lambda>i. length xs + i) (index_of c ys))"
  by (induction xs) (auto simp: option.map_comp comp_def option.map_id0 [unfolded id_def] split: option.splits, (cases "index_of c ys"; simp))

lemma index_of_None [simp]: "index_of c xs = None \<longleftrightarrow> c \<notin> set xs"
  by (induction xs) auto

lemma last_index_of_colon:
  "CHR '':'' \<notin> set p \<Longrightarrow> last_index_of CHR '':'' (h @ CHR '':'' # p) = Some (length h)"
  by (simp add: last_index_of_def index_of_append)

lemma SplitHostPort_plain:
  assumes "CHR '':'' \<notin> set h" "CHR '':'' \<notin> set p"
    and "CHR ''['' \<notin> set h" "CHR '']'' \<notin> set h" "CHR ''['' \<notin> set p" "CHR '']'' \<notin> set p"
  shows "SplitHostPort (h @ CHR '':'' # p) = Inr (h, p)"
proof -
  have "(h @ CHR '':'' # p) ! 0 \<noteq> CHR ''[''"
    using assms(3) by (cases h) auto
  then show ?thesis
    using assms by (simp add: SplitHostPort_def last_index_of_colon)
qed

lemma SplitHostPort_colons:
  assumes "CHR '':'' \<in> set h" "h ! 0 \<noteq> CHR ''[''" "CHR '':'' \<notin> set p"
  shows "SplitHostPort (h @ CHR '':'' # p) = Inl TooManyColons"
proof -
  have "(h @ CHR '':'' # p) ! 0 \<noteq> CHR ''[''"
    using assms(1,2) by (cases h) auto
  then show ?thesis
    using assms by (simp add: SplitHostPort_def last_index_of_colon)
qed

lemma show_nat_no_colon [simp]: "CHR '':'' \<notin> set (show_nat n)" "CHR ''['' \<notin> set (show_nat n)"
  "CHR '']'' \<notin> set (show_nat n)" "CHR ''.'' \<notin> set (show_nat n)"
  by (simp_all add: show_nat_notin)

lemma show_int_no_colon [simp]: "CHR '':'' \<notin> set (show_int n)" "CHR ''['' \<notin> set (show_int n)"
  "CHR '']'' \<notin> set (show_int n)"
  by (simp_all add: show_int_def)

text \<open>\<open>fmt.Sprintf("%s:%d", host, port)\<close>, the address format the program builds everywhere.\<close>

definition hostport :: "string \<Rightarrow> int \<Rightarrow> string" where
  "hostport h p = h @ CHR '':'' # show_int p"

subsection \<open>IP addresses\<close>

type_synonym IP = bytes

definition v4InV6Prefix :: bytes where
  "v4InV6Prefix = replicate 10 0 @ [255, 255]"

definition To4 :: "IP \<Rightarrow> bytes option" where
  "To4 ip = (if length ip = 4 then Some ip
             else if length ip = 16 \<and> take 12 ip = v4InV6Prefix then Some (drop 12 ip) else None)"

text \<open>Loop of \<open>netip.parseIPv4Fields\<close>: fields read, value and digit count of the current octet.\<close>

fun parse_v4_loop :: "nat list \<Rightarrow> nat \<Rightarrow> nat \<Rightarrow> string \<Rightarrow> nat list option" where
  "parse_v4_loop fields val dig [] =
     (if length fields < 3 then None else Some (fields @ [val]))"
| "parse_v4_loop fields val dig (c # cs) =
     (if is_digit c then
        (let val' = val * 10 + (char_code c - 48)
         in if dig = 1 \<and> val = 0 then None
            else if 255 < val' then None
            else parse_v4_loop fields val' (Suc dig) cs)
      else if c = CHR ''.'' then
        (if dig = 0 \<or> cs = [] then None
         else if length fields = 3 then None
         else parse_v4_loop (fields @ [val]) 0 0 cs)
      else None)"

definition parse_v4_fields :: "string \<Rightarrow> bytes option" where
  "parse_v4_fields s = map_option (map word_of_nat) (parse_v4_loop [] 0 0 s)"

definition hex_val :: "char \<Rightarrow> nat option" where
  "hex_val c =
     (let n = char_code c
      in if is_digit c then Some (n - 48)
         else if 97 \<le> n \<and> n \<le> 102 then Some (n - 97 + 10)
         else if 65 \<le> n \<and> n \<le> 70 then Some (n - 65 + 10)
         else None)"

text \<open>Leading hexadecimal digits of a group: count and value.\<close>

fun hex_prefix :: "string \<Rightarrow> nat \<times> nat \<times> string" where
  "hex_prefix [] = (0, 0, [])"
| "hex_prefix (c # cs) =
     (case hex_val c of
        None \<Rightarrow> (0, 0, c # cs)
      | Some d \<Rightarrow> (case hex_prefix cs of (n, v, rest) \<Rightarrow> (Suc n, d * 16 ^ n + v, rest)))"

lemma hex_prefix_length: "length (snd (snd (hex_prefix s))) + fst (hex_prefix s) = length s"
  by (induction s) (auto split: option.splits prod.splits)

lemma hex_prefix_rest: "hex_prefix s = (n, v, rest) \<Longrightarrow> length s = n + length rest"
  using hex_prefix_length [of s] by simp

definition expand_v6 :: "bytes \<Rightarrow> nat option \<Rightarrow> bytes option" where
  "expand_v6 ip ell =
     (if length ip < 16 then
        (case ell of None \<Rightarrow> None
         | Some e \<Rightarrow> Some (take e ip @ replicate (16 - length ip) 0 @ drop e ip))
      else (case ell of None \<Rightarrow> Some ip | Some _ \<Rightarrow> None))"

text \<open>
  Loop of \<open>netip.parseIPv6\<close>: bytes read so far, where the ellipsis was, the rest of the text.
\<close>

function (sequential) parse_v6_loop :: "bytes \<Rightarrow> nat option \<Rightarrow> string \<Rightarrow> bytes option" where
  "parse_v6_loop ip ell s =
     (if 16 \<le> length ip then (if s = [] then expand_v6 ip ell else None)
      else (case hex_prefix s of (n, v, rest) \<Rightarrow>
        if n = 0 \<or> 4 < n then None
        else (case rest of
                [] \<Rightarrow> expand_v6 (ip @ [word_of_nat (v div 256), word_of_nat v]) ell
              | c # cs \<Rightarrow>
                  (if c = CHR ''.'' then
                     (if ell = None \<and> length ip \<noteq> 12 \<or> 16 < length ip + 4 then None
                      else (case parse_v4_fields s of None \<Rightarrow> None
                            | Some q \<Rightarrow> expand_v6 (ip @ q) ell))
                   else if c \<noteq> CHR '':'' then None
                   else (case cs of
                           [] \<Rightarrow> None
                         | d # ds \<Rightarrow>
                             (let ip' = ip @ [word_of_nat (v div 256), word_of_nat v]
                              in if d = CHR '':'' then
                                   (if ell \<noteq> None then None
                                    else if ds = [] then expand_v6 ip' (Some (length ip'))
                                    else parse_v6_loop ip' (Some (length ip')) ds)
                                 else parse_v6_loop ip' ell cs))))))"
  by pat_completeness auto
termination
  by (relation "measure (\<lambda>(ip, ell, s). length s)") (auto dest!: hex_prefix_rest [OF sym])

declare parse_v6_loop.simps [simp del]

definition parse_v6 :: "string \<Rightarrow> bytes option" where
  "parse_v6 s =
     (if CHR ''%'' \<in> set s then None
      else if take 2 s = ''::'' then
        (if length s = 2 then Some (replicate 16 0) else parse_v6_loop [] (Some 0) (drop 2 s))
      else parse_v6_loop [] None s)"

text \<open>
  \<open>net.ParseIP\<close>: \<open>netip.ParseAddr\<close> without a zone, in 16-byte form. The first dot, colon
  or percent sign decides the family.
\<close>

fun addr_family :: "string \<Rightarrow> char option" where
  "addr_family [] = None"
| "addr_family (c # cs) = (if c \<in> {CHR ''.'', CHR '':'', CHR ''%''} then Some c else addr_family cs)"

definition ParseIP :: "string \<Rightarrow> IP option" where
  "ParseIP s =
     (case addr_family s of
        None \<Rightarrow> None
      | Some c \<Rightarrow>
          (if c = CHR ''.'' then map_option (\<lambda>q. v4InV6Prefix @ q) (parse_v4_fields s)
           else if c = CHR '':'' then parse_v6 s
           else None))"

end
