(* ===== verification/GoIP.thy ===== *)
theory GoIP
  imports GoNet
begin

text \<open>
  \<open>net.IP.String\<close>, the address classes of \<open>net.IP\<close>, and the round trip of the IPv4
  text form through \<open>net.ParseIP\<close>. An IPv6 text form always holds a colon, which decides how
  \<open>net.SplitHostPort\<close> treats an address the program formats with \<open>"%s:%d"\<close>.
\<close>

subsection \<open>Text form\<close>

definition v4_string :: "bytes \<Rightarrow> string" where
  "v4_string q =
     show_nat (unat (q ! 0)) @ CHR ''.'' # show_nat (unat (q ! 1)) @ CHR ''.'' #
     show_nat (unat (q ! 2)) @ CHR ''.'' # show_nat (unat (q ! 3))"

definition hex_char :: "nat \<Rightarrow> char" where
  "hex_char d = (if d < 10 then digit_char d else char_of (87 + d))"

fun show_hex :: "nat \<Rightarrow> string" where
  "show_hex n = (if n < 16 then [hex_char n] else show_hex (n div 16) @ [hex_char (n mod 16)])"

declare show_hex.simps [simp del]

definition v6_groups :: "bytes \<Rightarrow> nat list" where
  "v6_groups ip = map (\<lambda>i. unat (ip ! (2 * i)) * 256 + unat (ip ! (2 * i + 1))) [0..<8]"

text \<open>The longest run of at least two zero groups, the first of the longest: start and end.\<close>

definition zero_run_from :: "nat list \<Rightarrow> nat \<Rightarrow> nat" where
  "zero_run_from gs i = length (takeWhile (\<lambda>g. g = 0) (drop i gs))"

definition zero_run :: "nat list \<Rightarrow> nat \<times> nat" where
  "zero_run gs =
     foldl (\<lambda>(s, e) i. let l = zero_run_from gs i
                       in if 2 \<le> l \<and> e - s < l then (i, i + l) else (s, e)) (255, 255) [0..<8]"

definition v6_string :: "bytes \<Rightarrow> string" where
  "v6_string ip =
     (let gs = v6_groups ip;
          join = (\<lambda>xs. case xs of [] \<Rightarrow> [] | x # rest \<Rightarrow>
                    show_hex x @ concat (map (\<lambda>g. CHR '':'' # show_hex g) rest))
      in case zero_run gs of (s, e) \<Rightarrow>
           if s = 255 then join gs
           else join (take s gs) @ ''::'' @ join (drop e gs))"

definition IP_String :: "IP \<Rightarrow> string" where
  "IP_String ip = (case To4 ip of Some q \<Rightarrow> v4_string q | None \<Rightarrow> v6_string ip)"

subsection \<open>Address classes\<close>

definition IsLoopback :: "IP \<Rightarrow> bool" where
  "IsLoopback ip = (case To4 ip of Some q \<Rightarrow> q ! 0 = 127
                    | None \<Rightarrow> ip = replicate 15 0 @ [1])"

definition IsPrivate :: "IP \<Rightarrow> bool" where
  "IsPrivate ip =
     (case To4 ip of
        Some q \<Rightarrow> q ! 0 = 10 \<or> (q ! 0 = 172 \<and> q ! 1 AND 240 = 16) \<or> (q ! 0 = 192 \<and> q ! 1 = 168)
      | None \<Rightarrow> length ip = 16 \<and> ip ! 0 AND 254 = 252)"

definition IsLinkLocalUnicast :: "IP \<Rightarrow> bool" where
  "IsLinkLocalUnicast ip =
     (case To4 ip of
        Some q \<Rightarrow> q ! 0 = 169 \<and> q ! 1 = 254
      | None \<Rightarrow> length ip = 16 \<and> ip ! 0 = 254 \<and> ip ! 1 AND 192 = 128)"

definition IsLinkLocalMulticast :: "IP \<Rightarrow> bool" where
  "IsLinkLocalMulticast ip =
     (case To4 ip of
        Some q \<Rightarrow> q ! 0 = 224 \<and> q ! 1 = 0 \<and> q ! 2 = 0
      | None \<Rightarrow> length ip = 16 \<and> ip ! 0 = 255 \<and> ip ! 1 AND 15 = 2)"

definition IsUnspecified :: "IP \<Rightarrow> bool" where
  "IsUnspecified ip = (case To4 ip of Some q \<Rightarrow> q = [0, 0, 0, 0] | None \<Rightarrow> ip = replicate 16 0)"

definition IsMulticast :: "IP \<Rightarrow> bool" where
  "IsMulticast ip =
     (case To4 ip of Some q \<Rightarrow> q ! 0 AND 240 = 224 | None \<Rightarrow> length ip = 16 \<and> ip ! 0 = 255)"

subsection \<open>IPv4 round trip\<close>

lemma read_digits_mono: "read_digits acc cs = Some n \<Longrightarrow> acc \<le> n"
proof (induction cs arbitrary: acc)
  case Nil
  then show ?case by simp
next
  case (Cons c cs)
  then have "acc * 10 + (char_code c - 48) \<le> n" by (auto split: if_splits)
  then show ?case by simp
qed

lemma parse_v4_loop_digits:
  "\<forall>c \<in> set cs. is_digit c \<Longrightarrow> read_digits val cs = Some n \<Longrightarrow> n \<le> 255 \<Longrightarrow>
   val \<noteq> 0 \<Longrightarrow>
   parse_v4_loop fs val dig (cs @ rest) = parse_v4_loop fs n (dig + length cs) rest"
proof (induction cs arbitrary: val dig)
  case Nil
  then show ?case by simp
next
  case (Cons c cs)
  then have d: "is_digit c" and r: "read_digits (val * 10 + (char_code c - 48)) cs = Some n"
    by auto
  have "val * 10 + (char_code c - 48) \<le> 255"
    using read_digits_mono [OF r] Cons.prems(3) by simp
  then show ?case
    using Cons.IH [of "val * 10 + (char_code c - 48)" "Suc dig"] Cons.prems d r
    by (simp add: Let_def)
qed

lemma char_code_zero: "char_code CHR ''0'' = 48"
  by (simp add: char_code_def)

lemma show_nat_head: "0 < n \<Longrightarrow> hd (show_nat n) \<noteq> CHR ''0''"
proof (induction n rule: show_nat.induct)
  case (1 n)
  show ?case
  proof (cases "n < 10")
    case True
    have "digit_char n \<noteq> CHR ''0''"
      using char_code_digit_char [OF True] \<open>0 < n\<close> by (auto simp: char_code_zero)
    then show ?thesis using True by (subst show_nat.simps) simp
  next
    case False
    then have "hd (show_nat (n div 10)) \<noteq> CHR ''0''" using 1 by simp
    with False show ?thesis by (subst show_nat.simps) (simp add: hd_append)
  qed
qed

lemma parse_v4_loop_octet:
  assumes "n \<le> 255"
  shows "parse_v4_loop fs 0 0 (show_nat n @ rest) = parse_v4_loop fs n (length (show_nat n)) rest"
proof (cases "n = 0")
  case True
  have "show_nat 0 = [digit_char 0]" by (subst show_nat.simps) simp
  with True show ?thesis by simp
next
  case False
  obtain c cs where s: "show_nat n = c # cs" by (cases "show_nat n") auto
  have dc: "is_digit c" and dcs: "\<forall>c \<in> set cs. is_digit c"
    using show_nat_digits [of n] s by auto
  have r: "read_digits (char_code c - 48) cs = Some n"
    using read_digits_show_nat [of n] s dc by simp
  have "c \<noteq> CHR ''0''" using show_nat_head [of n] False s by simp
  then have "char_code c \<noteq> 48"
    by (metis char_code_inj char_code_zero)
  then have v: "char_code c - 48 \<noteq> 0"
    using dc by (simp add: is_digit_def)
  have le: "char_code c - 48 \<le> 255" using read_digits_mono [OF r] assms by simp
  show ?thesis
    using parse_v4_loop_digits [OF dcs r assms v, of fs 1 rest] dc le s by (simp add: Let_def)
qed

lemma unat_byte_le: "unat (b :: byte) \<le> 255"
  using unsigned_less [of b, where ?'a = nat] by simp

lemma parse_v4_string:
  assumes "length q = 4"
  shows "parse_v4_fields (v4_string q) = Some q"
proof -
  obtain a b c d where q: "q = [a, b, c, d]"
    using assms by (auto simp: length_Suc_conv numeral_eq_Suc)
  have dot: "\<not> is_digit CHR ''.''" by simp
  have "parse_v4_loop [] 0 0 (v4_string q) = Some [unat a, unat b, unat c, unat d]"
    using parse_v4_loop_octet [OF unat_byte_le [of d], of "[unat a, unat b, unat c]" "[]"]
    by (simp add: q v4_string_def parse_v4_loop_octet unat_byte_le)
  then show ?thesis by (simp add: parse_v4_fields_def q)
qed

lemma addr_family_digits:
  "\<forall>c \<in> set cs. is_digit c \<Longrightarrow> addr_family (cs @ CHR ''.'' # rest) = Some CHR ''.''"
  by (induction cs) (auto simp: is_digit_def char_code_def)

theorem ParseIP_v4_string: "length q = 4 \<Longrightarrow> ParseIP (v4_string q) = Some (v4InV6Prefix @ q)"
  using addr_family_digits [OF show_nat_digits] parse_v4_string [of q]
  by (simp add: ParseIP_def v4_string_def)

lemma To4_mapped [simp]: "length q = 4 \<Longrightarrow> To4 (v4InV6Prefix @ q) = Some q"
  by (simp add: To4_def v4InV6Prefix_def)

lemma IP_String_v4 [simp]: "length q = 4 \<Longrightarrow> IP_String q = v4_string q"
  by (simp add: IP_String_def To4_def)

subsection \<open>An IPv6 text form holds a colon\<close>

lemma v6_string_colon: "CHR '':'' \<in> set (v6_string ip)"
proof (cases "fst (zero_run (v6_groups ip)) = 255")
  case True
  have "length (v6_groups ip) = 8" by (simp add: v6_groups_def)
  then obtain a b gs where "v6_groups ip = a # b # gs"
    by (auto simp: numeral_eq_Suc length_Suc_conv)
  with True show ?thesis
    by (cases "zero_run (a # b # gs)") (auto simp: v6_string_def Let_def)
next
  case False
  then show ?thesis
    by (cases "zero_run (v6_groups ip)") (auto simp: v6_string_def Let_def)
qed

end
