(* ===== verification/Validation.thy ===== *)
theory Validation
  imports GoIP
begin

text \<open>
  \<open>internal/protocol/validation.go\<close>: syntactic validation of a target host and port. The label
  loop is \<open>for i, c := range label\<close>, so \<open>c\<close> is a code point, \<open>byte(c)\<close> its low eight
  bits and \<open>i\<close> a byte index.
\<close>

datatype validation_error =
    EmptyDomain
  | DomainTooLong nat
  | BadLabelLength nat
  | BadCharacter nat
  | HyphenAtEdge
  | PortOutOfRange int
  | InvalidTargetHost validation_error
  | InvalidTargetPort validation_error

definition isAlphaNum :: "byte \<Rightarrow> bool" where
  "isAlphaNum c \<longleftrightarrow>
     (c \<ge> 97 \<and> c \<le> 122) \<or> (c \<ge> 65 \<and> c \<le> 90) \<or> (c \<ge> 48 \<and> c \<le> 57)"

definition hyphen :: nat where
  "hyphen = 45"

fun check_chars :: "nat \<Rightarrow> (nat \<times> nat) list \<Rightarrow> validation_error option" where
  "check_chars len [] = None"
| "check_chars len ((i, c) # ics) =
     (if \<not> isAlphaNum (word_of_nat c) \<and> c \<noteq> hyphen then Some (BadCharacter c)
      else if c = hyphen \<and> (i = 0 \<or> i = len - 1) then Some HyphenAtEdge
      else check_chars len ics)"

definition check_label :: "string \<Rightarrow> validation_error option" where
  "check_label l =
     (if length l = 0 \<or> length l > 63 then Some (BadLabelLength (length l))
      else check_chars (length l) (range_string 0 l))"

fun check_labels :: "string list \<Rightarrow> validation_error option" where
  "check_labels [] = None"
| "check_labels (l # ls) = (case check_label l of Some e \<Rightarrow> Some e | None \<Rightarrow> check_labels ls)"

definition ValidateDomain :: "string \<Rightarrow> validation_error option" where
  "ValidateDomain d =
     (if d = [] then Some EmptyDomain
      else if ParseIP d \<noteq> None then None
      else if length d > 253 then Some (DomainTooLong (length d))
      else check_labels (split_on CHR ''.'' d))"

definition ValidatePort :: "int \<Rightarrow> int \<Rightarrow> validation_error option" where
  "ValidatePort port minPort =
     (if port < minPort \<or> port > 65535 then Some (PortOutOfRange port) else None)"

definition ValidateTarget :: "string \<Rightarrow> int \<Rightarrow> int \<Rightarrow> validation_error option" where
  "ValidateTarget host port minPort =
     (case ValidateDomain host of
        Some e \<Rightarrow> Some (InvalidTargetHost e)
      | None \<Rightarrow>
          (case ValidatePort port minPort of
             Some e \<Rightarrow> Some (InvalidTargetPort e)
           | None \<Rightarrow> None))"

subsection \<open>The grammar of RFC 1035 labels\<close>

definition ldh_char :: "char \<Rightarrow> bool" where
  "ldh_char c \<longleftrightarrow>
     c \<in> set ''abcdefghijklmnopqrstuvwxyzABCDEFGHIJKLMNOPQRSTUVWXYZ0123456789-''"

definition ldh_label :: "string \<Rightarrow> bool" where
  "ldh_label l \<longleftrightarrow>
     1 \<le> length l \<and> length l \<le> 63 \<and> list_all ldh_char l
     \<and> hd l \<noteq> CHR ''-'' \<and> last l \<noteq> CHR ''-''"

definition ldh_domain :: "string \<Rightarrow> bool" where
  "ldh_domain d \<longleftrightarrow> length d \<le> 253 \<and> list_all ldh_label (split_on CHR ''.'' d)"

lemma char_code_hyphen: "char_code c = hyphen \<longleftrightarrow> c = CHR ''-''"
proof -
  have "char_code CHR ''-'' = hyphen" by (simp add: hyphen_def char_code_def)
  then show ?thesis by (metis char_code_inj)
qed

lemma isAlphaNum_nat:
  assumes "n < 256"
  shows "isAlphaNum (word_of_nat n) \<longleftrightarrow>
         (97 \<le> n \<and> n \<le> 122) \<or> (65 \<le> n \<and> n \<le> 90) \<or> (48 \<le> n \<and> n \<le> 57)"
proof -
  have u: "unat (word_of_nat n :: byte) = n" using assms by (simp add: unat_of_nat)
  show ?thesis by (simp add: isAlphaNum_def word_le_nat_alt u)
qed

lemma ldh_char_code:
  "ldh_char c \<longleftrightarrow>
   isAlphaNum (word_of_nat (char_code c)) \<or> char_code c = hyphen"
proof -
  have lt: "char_code c < 256" by (simp add: char_code_def)
  have "ldh_char c \<longleftrightarrow>
    (97 \<le> char_code c \<and> char_code c \<le> 122) \<or> (65 \<le> char_code c \<and> char_code c \<le> 90)
    \<or> (48 \<le> char_code c \<and> char_code c \<le> 57) \<or> char_code c = 45"
    using lt by (cases c) (simp add: ldh_char_def char_code_def of_char_def, arith?)
  then show ?thesis by (simp add: isAlphaNum_nat [OF lt] hyphen_def)
qed

lemma check_chars_ascii:
  "check_chars len (zip [k..<k + length l] (map char_code l)) = None \<longleftrightarrow>
   list_all ldh_char l \<and>
   (\<forall>j < length l. l ! j = CHR ''-'' \<longrightarrow> k + j \<noteq> 0 \<and> k + j \<noteq> len - 1)"
proof (induction l arbitrary: k)
  case Nil
  show ?case by simp
next
  case (Cons c cs)
  have "check_chars len (zip [k..<k + length (c # cs)] (map char_code (c # cs))) = None \<longleftrightarrow>
    ldh_char c \<and> (c = CHR ''-'' \<longrightarrow> k \<noteq> 0 \<and> k \<noteq> len - 1) \<and>
    check_chars len (zip [Suc k..<Suc k + length cs] (map char_code cs)) = None"
    by (simp add: upt_rec ldh_char_code char_code_hyphen)
  also have "\<dots> \<longleftrightarrow> ldh_char c \<and> (c = CHR ''-'' \<longrightarrow> k \<noteq> 0 \<and> k \<noteq> len - 1) \<and>
    list_all ldh_char cs \<and>
    (\<forall>j < length cs. cs ! j = CHR ''-'' \<longrightarrow> Suc k + j \<noteq> 0 \<and> Suc k + j \<noteq> len - 1)"
    by (simp only: Cons.IH)
  also have "\<dots> \<longleftrightarrow> list_all ldh_char (c # cs) \<and>
    (\<forall>j < length (c # cs). (c # cs) ! j = CHR ''-'' \<longrightarrow> k + j \<noteq> 0 \<and> k + j \<noteq> len - 1)"
    by (simp add: All_less_Suc2) blast
  finally show ?case .
qed

lemma edges_iff:
  "l \<noteq> [] \<Longrightarrow>
   (\<forall>j < length l. l ! j = x \<longrightarrow> j \<noteq> 0 \<and> j \<noteq> length l - 1) \<longleftrightarrow> hd l \<noteq> x \<and> last l \<noteq> x"
proof -
  assume l: "l \<noteq> []"
  then have b: "0 < length l" "length l - 1 < length l" by simp_all
  show ?thesis
    unfolding hd_conv_nth [OF l] last_conv_nth [OF l] using b by metis
qed

lemma check_label_ascii: "ascii l \<Longrightarrow> check_label l = None \<longleftrightarrow> ldh_label l"
proof (cases "l = []")
  case True
  then show ?thesis by (simp add: check_label_def ldh_label_def)
next
  case False
  assume "ascii l"
  with False show ?thesis
    using check_chars_ascii [of "length l" 0 l] edges_iff [OF False, of "CHR ''-''"]
    by (auto simp: check_label_def ldh_label_def range_string_ascii Suc_le_eq)
qed

lemma check_labels_None: "check_labels ls = None \<longleftrightarrow> (\<forall>l \<in> set ls. check_label l = None)"
  by (induction ls) (auto split: option.splits)

lemma check_labels_ascii:
  "\<forall>l \<in> set ls. ascii l \<Longrightarrow> check_labels ls = None \<longleftrightarrow> list_all ldh_label ls"
  by (auto simp: check_labels_None check_label_ascii list_all_iff)

lemma ascii_split_on: "ascii d \<Longrightarrow> \<forall>l \<in> set (split_on sep d). ascii l"
  using split_on_chars [of _ sep d] by (fastforce simp: ascii_def)

lemma ldh_label_ascii: "ldh_char c \<Longrightarrow> char_code c < 128"
  by (cases c) (auto simp: ldh_char_def char_code_def)

lemma ValidatePort_None [simp]:
  "ValidatePort port minPort = None \<longleftrightarrow> minPort \<le> port \<and> port \<le> 65535"
  by (auto simp: ValidatePort_def)

lemma ValidateTarget_None:
  "ValidateTarget host port minPort = None \<longleftrightarrow>
   ValidateDomain host = None \<and> minPort \<le> port \<and> port \<le> 65535"
  by (auto simp: ValidateTarget_def ValidatePort_def split: option.splits)

text \<open>
  C39. On ASCII input \<open>ValidateDomain\<close> accepts exactly the IP addresses and the names of the LDH
  grammar (labels of 1 to 63 letters, digits and inner hyphens, at most 253 bytes in all).
\<close>

theorem ValidateDomain_ascii:
  assumes "ascii d"
  shows "ValidateDomain d = None \<longleftrightarrow> d \<noteq> [] \<and> (ParseIP d \<noteq> None \<or> ldh_domain d)"
  using check_labels_ascii [OF ascii_split_on [OF assms, of "CHR ''.''"]]
  by (auto simp: ValidateDomain_def ldh_domain_def)

theorem ValidateDomain_ascii_witness:
  "ValidateDomain ''example-1.com'' = None \<and> ValidateDomain ''-bad.com'' \<noteq> None"
  using ValidateDomain_ascii [of "''example-1.com''"] ValidateDomain_ascii [of "''-bad.com''"]
  by (simp add: ascii_def char_code_def ldh_domain_def ldh_label_def ldh_char_def ParseIP_def
      parse_v4_fields_def is_digit_def)

text \<open>
  Outside ASCII the check is not sound: a code point is narrowed to its low byte before the
  letter test, so the label of the single character U+0161, whose low byte is the letter a, passes.
\<close>

theorem ValidateDomain_accepts_non_ascii:
  "ValidateDomain [CHR 0xC5, CHR 0xA1] = None
   \<and> \<not> ascii [CHR 0xC5, CHR 0xA1]"
proof -
  let ?s = "[CHR 0xC5, CHR 0xA1]"
  have r: "range_string 0 ?s = [(0, 353)]"
    by (simp add: range_string.simps [of 0] decode_rune_def char_code_def cont_byte_def
        range_string.simps [of _ "[]"])
  have sp: "split_on CHR ''.'' ?s = [?s]" by simp
  have "check_label ?s = None"
    by (simp add: check_label_def r isAlphaNum_def hyphen_def)
  moreover have "ParseIP ?s = None" by (simp add: ParseIP_def)
  ultimately show ?thesis
    by (simp add: ValidateDomain_def ascii_def char_code_def)
qed

end
