(* ===== verification/Messages.thy ===== *)
theory Messages
  imports Prelude
begin

text \<open>
  \<open>internal/protocol/messages.go\<close>: the message types, their codes on the wire and the structs
  they carry. Field names carry the struct's initials, since HOL records share one name space. A
  code outside the 17 declared constants is still a \<open>MsgType\<close> in Go; it is \<open>MsgUnknown\<close>.
\<close>

datatype MsgType =
    MsgClientRegister | MsgRegisterResp | MsgPing | MsgPong | MsgDisconnect | MsgDisconnectAck
  | MsgRequestTunnel | MsgTunnelResp | MsgOpenConnection | MsgDataConnHello
  | MsgRequestHTTPTunnel | MsgRequestHTTPSTunnel | MsgHTTPTunnelResp
  | MsgSOCKSConnect | MsgSOCKSReady | MsgSOCKSData | MsgSOCKSClose
  | MsgUnknown byte

fun msg_code :: "MsgType \<Rightarrow> byte" where
  "msg_code MsgClientRegister = 1"
| "msg_code MsgRegisterResp = 2"
| "msg_code MsgPing = 3"
| "msg_code MsgPong = 4"
| "msg_code MsgDisconnect = 5"
| "msg_code MsgDisconnectAck = 6"
| "msg_code MsgRequestTunnel = 7"
| "msg_code MsgTunnelResp = 8"
| "msg_code MsgOpenConnection = 9"
| "msg_code MsgDataConnHello = 10"
| "msg_code MsgRequestHTTPTunnel = 11"
| "msg_code MsgRequestHTTPSTunnel = 12"
| "msg_code MsgHTTPTunnelResp = 13"
| "msg_code MsgSOCKSConnect = 14"
| "msg_code MsgSOCKSReady = 15"
| "msg_code MsgSOCKSData = 16"
| "msg_code MsgSOCKSClose = 17"
| "msg_code (MsgUnknown b) = b"

definition MaxMessageSize :: nat where
  "MaxMessageSize = 1 * 1024 * 1024"

record Envelope =
  Env_Type :: MsgType
  Env_Payload :: bytes

record ClientRegister =
  CR_AuthToken :: string
  CR_Name :: string
  CR_Version :: string

record RegisterResp =
  RR_AssignedClientID :: string
  RR_ServerID :: string
  RR_Status :: string
  RR_Error :: string

record Ping =
  Ping_Seq :: "64 word"

record Pong =
  Pong_Seq :: "64 word"

record Disconnect =
  Disc_Reason :: string

datatype DisconnectAck = DisconnectAck

record RequestTunnel =
  RT_LocalHost :: string
  RT_LocalPort :: int
  RT_RequestedPort :: int

record TunnelResp =
  TR_TunnelID :: string
  TR_PublicPort :: int
  TR_ServerDataAddr :: string
  TR_Status :: string
  TR_Error :: string

record OpenConnection =
  OC_TunnelID :: string
  OC_ConnID :: string
  OC_LocalHost :: string
  OC_LocalPort :: int
  OC_DataToken :: string

record DataConnHello =
  DCH_ConnID :: string
  DCH_Token :: string

record RequestHTTPTunnel =
  RH_Hostname :: string
  RH_LocalHost :: string
  RH_LocalPort :: int

record RequestHTTPSTunnel =
  RHS_Hostname :: string
  RHS_LocalHost :: string
  RHS_LocalPort :: int

record HTTPTunnelResp =
  HTR_Hostname :: string
  HTR_TunnelID :: string
  HTR_ServerDataAddr :: string
  HTR_Status :: string
  HTR_Error :: string

record SOCKSConnect =
  SC_ConnID :: string
  SC_TargetHost :: string
  SC_TargetPort :: int
  SC_DataToken :: string

record SOCKSReady =
  SR_ConnID :: string
  SR_Success :: bool
  SR_Error :: string

record SOCKSData =
  SD_ConnID :: string
  SD_Payload :: bytes

record SOCKSClose =
  SCl_ConnID :: string

text \<open>What \<open>WriteMessage\<close> is called with: the struct, tagged by its Go type.\<close>

datatype payload =
    P_ClientRegister ClientRegister
  | P_RegisterResp RegisterResp
  | P_Ping Ping
  | P_Pong Pong
  | P_Disconnect Disconnect
  | P_DisconnectAck DisconnectAck
  | P_RequestTunnel RequestTunnel
  | P_TunnelResp TunnelResp
  | P_OpenConnection OpenConnection
  | P_DataConnHello DataConnHello
  | P_RequestHTTPTunnel RequestHTTPTunnel
  | P_RequestHTTPSTunnel RequestHTTPSTunnel
  | P_HTTPTunnelResp HTTPTunnelResp
  | P_SOCKSConnect SOCKSConnect
  | P_SOCKSReady SOCKSReady
  | P_SOCKSData SOCKSData
  | P_SOCKSClose SOCKSClose

text \<open>The type code the program pairs with each struct in every call of \<open>WriteMessage\<close>.\<close>

fun payload_type :: "payload \<Rightarrow> MsgType" where
  "payload_type (P_ClientRegister _) = MsgClientRegister"
| "payload_type (P_RegisterResp _) = MsgRegisterResp"
| "payload_type (P_Ping _) = MsgPing"
| "payload_type (P_Pong _) = MsgPong"
| "payload_type (P_Disconnect _) = MsgDisconnect"
| "payload_type (P_DisconnectAck _) = MsgDisconnectAck"
| "payload_type (P_RequestTunnel _) = MsgRequestTunnel"
| "payload_type (P_TunnelResp _) = MsgTunnelResp"
| "payload_type (P_OpenConnection _) = MsgOpenConnection"
| "payload_type (P_DataConnHello _) = MsgDataConnHello"
| "payload_type (P_RequestHTTPTunnel _) = MsgRequestHTTPTunnel"
| "payload_type (P_RequestHTTPSTunnel _) = MsgRequestHTTPSTunnel"
| "payload_type (P_HTTPTunnelResp _) = MsgHTTPTunnelResp"
| "payload_type (P_SOCKSConnect _) = MsgSOCKSConnect"
| "payload_type (P_SOCKSReady _) = MsgSOCKSReady"
| "payload_type (P_SOCKSData _) = MsgSOCKSData"
| "payload_type (P_SOCKSClose _) = MsgSOCKSClose"

lemma msg_code_inj_known:
  "msg_code s = msg_code t \<Longrightarrow> \<forall>b. s \<noteq> MsgUnknown b \<Longrightarrow> \<forall>b. t \<noteq> MsgUnknown b \<Longrightarrow> s = t"
  by (cases s; cases t) simp_all

end
