(* ===== verification/Framing.thy ===== *)
theory Framing
  imports Messages
begin

text \<open>
  \<open>internal/protocol/framing.go\<close>, \<open>CtrlConnWriter\<close> of
  \<open>internal/tunnel/ctrl_registry.go\<close> and \<open>ConnWriter\<close> of \<open>internal/client/pool.go\<close>:
  a message is gob-encoded, wrapped in an envelope, gob-encoded again and written as a 4-byte
  big-endian length followed by the body, in two separate writes.

  The gob format is Go's; here \<open>encp\<close> (payload encoder), \<open>ence\<close> and \<open>dece\<close>
  (envelope encoder and decoder) are parameters, and the only fact used of them is that decoding an
  encoded envelope gives it back.
\<close>

subsection \<open>Big-endian integers\<close>

fun be_enc :: "nat \<Rightarrow> nat \<Rightarrow> bytes" where
  "be_enc 0 v = []"
| "be_enc (Suc k) v = be_enc k (v div 256) @ [word_of_nat v]"

definition be_dec :: "bytes \<Rightarrow> nat" where
  "be_dec bs = foldl (\<lambda>a b. a * 256 + unat b) 0 bs"

lemma length_be_enc [simp]: "length (be_enc k v) = k"
  by (induction k arbitrary: v) simp_all

lemma be_dec_snoc [simp]: "be_dec (bs @ [b]) = be_dec bs * 256 + unat b"
  by (simp add: be_dec_def)

lemma be_dec_enc: "be_dec (be_enc k v) = v mod 256 ^ k"
proof (induction k arbitrary: v)
  case 0
  then show ?case by (simp add: be_dec_def)
next
  case (Suc k)
  have "be_dec (be_enc (Suc k) v) = (v div 256 mod 256 ^ k) * 256 + v mod 256"
    by (simp add: Suc unat_of_nat)
  also have "\<dots> = v mod (256 * 256 ^ k)"
    by (simp add: mod_mult2_eq)
  finally show ?case by simp
qed

lemma be_dec_less: "be_dec bs < 256 ^ length bs"
proof (induction bs rule: rev_induct)
  case Nil
  then show ?case by (simp add: be_dec_def)
next
  case (snoc b bs)
  have "unat b < 256" using unsigned_less [of b, where ?'a = nat] by simp
  with snoc show ?case by simp
qed

text \<open>
  A fixed-width field of a stream: what every reader of \<open>binary.BigEndian\<close> values in the
  program relies on (frame lengths, TLS and SOCKS lengths and ports).
\<close>

locale fixed_width =
  fixes width :: nat and enc :: "nat \<Rightarrow> bytes" and dec :: "bytes \<Rightarrow> nat"
  assumes length_enc: "length (enc v) = width"
    and dec_enc: "v < 256 ^ width \<Longrightarrow> dec (enc v) = v"
    and dec_less: "length bs = width \<Longrightarrow> dec bs < 256 ^ width"
begin

lemma read_field: "ReadFull width (enc v @ rest) = Some (enc v, rest)"
  by (simp add: length_enc)

lemma enc_inj: "v < 256 ^ width \<Longrightarrow> w < 256 ^ width \<Longrightarrow> enc v = enc w \<Longrightarrow> v = w"
  by (metis dec_enc)

lemma field_bound: "ReadFull width s = Some (bs, rest) \<Longrightarrow> dec bs < 256 ^ width"
  by (drule ReadFull_SomeD) (simp add: dec_less)

end

interpretation be32: fixed_width 4 "be_enc 4" be_dec
  by (unfold_locales, rule length_be_enc, simp only: be_dec_enc mod_less, metis be_dec_less)

interpretation be16: fixed_width 2 "be_enc 2" be_dec
  by (unfold_locales, rule length_be_enc, simp only: be_dec_enc mod_less, metis be_dec_less)

subsection \<open>A connection's write side\<close>

text \<open>
  \<open>wc_room\<close> is how many more bytes the connection takes before it breaks (\<open>None\<close>: it does
  not break); a write that does not fit is cut short and reported as an error, as
  \<open>net.Conn.Write\<close> does.
\<close>

record wconn =
  wc_out :: bytes
  wc_room :: "nat option"

definition conn_write :: "bytes \<Rightarrow> wconn \<Rightarrow> bool \<times> wconn" where
  "conn_write bs c =
     (case wc_room c of
        None \<Rightarrow> (True, c\<lparr>wc_out := wc_out c @ bs\<rparr>)
      | Some r \<Rightarrow>
          (length bs \<le> r,
           c\<lparr>wc_out := wc_out c @ take r bs, wc_room := Some (r - length bs)\<rparr>))"

datatype write_error = EncodePayload | EncodeEnvelope | WritePrefix | WriteEnvelope

text \<open>\<open>WriteMessage\<close>: the error, if any, and the connection after the call.\<close>

definition WriteMessage ::
  "(payload \<Rightarrow> bytes option) \<Rightarrow> (Envelope \<Rightarrow> bytes option) \<Rightarrow> MsgType \<Rightarrow> payload \<Rightarrow> wconn
   \<Rightarrow> write_error option \<times> wconn" where
  "WriteMessage encp ence t p c =
     (case encp p of
        None \<Rightarrow> (Some EncodePayload, c)
      | Some pb \<Rightarrow>
          (case ence \<lparr>Env_Type = t, Env_Payload = pb\<rparr> of
             None \<Rightarrow> (Some EncodeEnvelope, c)
           | Some eb \<Rightarrow>
               (let len = unat (word_of_nat (length eb) :: 32 word);
                    (ok1, c1) = conn_write (be_enc 4 len) c
                in if \<not> ok1 then (Some WritePrefix, c1)
                   else (let (ok2, c2) = conn_write eb c1
                         in if \<not> ok2 then (Some WriteEnvelope, c2) else (None, c2)))))"

datatype read_error = PrefixEOF | PrefixShort | TooLarge nat | BodyShort | BadEnvelope

text \<open>
  \<open>ReadMessage\<close> on the bytes the peer will send before it closes; the second component is what
  is left in the stream after the call.
\<close>

definition ReadMessage ::
  "(bytes \<Rightarrow> Envelope option) \<Rightarrow> bytes \<Rightarrow> (read_error + Envelope) \<times> bytes" where
  "ReadMessage dece s =
     (case ReadFull 4 s of
        None \<Rightarrow> (Inl (if s = [] then PrefixEOF else PrefixShort), [])
      | Some (lb, s1) \<Rightarrow>
          (let len = be_dec lb
           in if len > MaxMessageSize then (Inl (TooLarge len), s1)
              else (case ReadFull len s1 of
                      None \<Rightarrow> (Inl BodyShort, [])
                    | Some (body, s2) \<Rightarrow>
                        (case dece body of
                           None \<Rightarrow> (Inl BadEnvelope, s2)
                         | Some e \<Rightarrow> (Inr e, s2)))))"

definition frame :: "bytes \<Rightarrow> bytes" where
  "frame eb = be_enc 4 (length eb) @ eb"

lemma conn_write_unbroken:
  "wc_room c = None \<Longrightarrow> conn_write bs c = (True, c\<lparr>wc_out := wc_out c @ bs\<rparr>)"
  by (simp add: conn_write_def)

lemma unat_length_32: "n < 2 ^ 32 \<Longrightarrow> unat (word_of_nat n :: 32 word) = n"
  by (simp add: unat_of_nat)

lemma WriteMessage_frame:
  assumes "encp p = Some pb" "ence \<lparr>Env_Type = t, Env_Payload = pb\<rparr> = Some eb"
    and "length eb < 2 ^ 32" "wc_room c = None"
  shows "WriteMessage encp ence t p c = (None, c\<lparr>wc_out := wc_out c @ frame eb\<rparr>)"
  using assms by (simp add: WriteMessage_def frame_def conn_write_unbroken unat_length_32)

lemma ReadMessage_frame:
  assumes "length eb \<le> MaxMessageSize"
  shows "ReadMessage dece (frame eb @ s) =
         (case dece eb of None \<Rightarrow> (Inl BadEnvelope, s) | Some e \<Rightarrow> (Inr e, s))"
proof -
  have "length eb < 256 ^ 4" using assms by (simp add: MaxMessageSize_def)
  then have "be_dec (be_enc 4 (length eb)) = length eb" by (rule be32.dec_enc)
  with assms show ?thesis
    by (simp add: ReadMessage_def frame_def be32.read_field Let_def split: option.split)
qed

lemma ReadMessage_TooLarge:
  assumes "MaxMessageSize < length eb" "length eb < 2 ^ 32"
  shows "ReadMessage dece (frame eb @ s) = (Inl (TooLarge (length eb)), eb @ s)"
proof -
  have "length eb < 256 ^ 4" using assms by simp
  then have "be_dec (be_enc 4 (length eb)) = length eb" by (rule be32.dec_enc)
  with assms show ?thesis
    by (simp add: ReadMessage_def frame_def be32.read_field Let_def)
qed

text \<open>The body that is allocated and read never exceeds \<open>MaxMessageSize\<close>.\<close>

lemma ReadMessage_consumes:
  "ReadMessage dece s = (Inr e, s') \<Longrightarrow>
   \<exists>n \<le> MaxMessageSize. length s = 4 + n + length s'"
  by (auto simp: ReadMessage_def Let_def split: option.splits if_splits dest!: ReadFull_SomeD)

subsection \<open>Reading a stream to its end\<close>

function read_all :: "(bytes \<Rightarrow> Envelope option) \<Rightarrow> bytes \<Rightarrow> Envelope list \<times> read_error" where
  "read_all dece s =
     (case ReadMessage dece s of
        (Inl err, _) \<Rightarrow> ([], err)
      | (Inr e, s') \<Rightarrow> (case read_all dece s' of (es, err) \<Rightarrow> (e # es, err)))"
  by pat_completeness auto
termination
  by (relation "measure (\<lambda>(d, s). length s)") (auto dest!: ReadMessage_consumes [OF sym])

declare read_all.simps [simp del]

subsection \<open>Writers that hold a lock per frame\<close>

text \<open>
  \<open>CtrlConnWriter.Write\<close> and \<open>ConnWriter.WriteMsg\<close> hold their mutex across both writes of
  \<open>WriteMessage\<close>, so concurrent callers append whole frames one after another.
\<close>

record CtrlConnWriter =
  cw_conn :: wconn

definition CtrlConnWriter_Write ::
  "(payload \<Rightarrow> bytes option) \<Rightarrow> (Envelope \<Rightarrow> bytes option) \<Rightarrow> MsgType \<Rightarrow> payload
   \<Rightarrow> CtrlConnWriter \<Rightarrow> write_error option \<times> CtrlConnWriter" where
  "CtrlConnWriter_Write encp ence t p w =
     (case WriteMessage encp ence t p (cw_conn w) of (err, c) \<Rightarrow> (err, w\<lparr>cw_conn := c\<rparr>))"

record ConnWriter =
  cnw_conn :: wconn

definition ConnWriter_WriteMsg ::
  "(payload \<Rightarrow> bytes option) \<Rightarrow> (Envelope \<Rightarrow> bytes option) \<Rightarrow> MsgType \<Rightarrow> payload
   \<Rightarrow> ConnWriter \<Rightarrow> write_error option \<times> ConnWriter" where
  "ConnWriter_WriteMsg encp ence t p w =
     (case WriteMessage encp ence t p (cnw_conn w) of (err, c) \<Rightarrow> (err, w\<lparr>cnw_conn := c\<rparr>))"

text \<open>
  The interface both writers give their clients (\<open>tunnel.CtrlWriter\<close>,
  \<open>socks.ControlWriter\<close>): a successful call appends exactly one frame that decodes to the
  message, and every other state of the writer is untouched.
\<close>

definition sendable ::
  "(payload \<Rightarrow> bytes option) \<Rightarrow> (Envelope \<Rightarrow> bytes option) \<Rightarrow> (bytes \<Rightarrow> Envelope option)
   \<Rightarrow> MsgType \<times> payload \<Rightarrow> bool" where
  "sendable encp ence dece tp =
     (case encp (snd tp) of
        None \<Rightarrow> False
      | Some pb \<Rightarrow>
          (case ence \<lparr>Env_Type = fst tp, Env_Payload = pb\<rparr> of
             None \<Rightarrow> False
           | Some eb \<Rightarrow> length eb \<le> MaxMessageSize
                        \<and> dece eb = Some \<lparr>Env_Type = fst tp, Env_Payload = pb\<rparr>))"

definition envelope_of :: "(payload \<Rightarrow> bytes option) \<Rightarrow> MsgType \<times> payload \<Rightarrow> Envelope" where
  "envelope_of encp tp = \<lparr>Env_Type = fst tp, Env_Payload = the (encp (snd tp))\<rparr>"

definition wire :: "(payload \<Rightarrow> bytes option) \<Rightarrow> (Envelope \<Rightarrow> bytes option)
   \<Rightarrow> MsgType \<times> payload \<Rightarrow> bytes" where
  "wire encp ence tp = frame (the (ence (envelope_of encp tp)))"

locale frame_writer =
  fixes encp :: "payload \<Rightarrow> bytes option" and ence :: "Envelope \<Rightarrow> bytes option"
    and dece :: "bytes \<Rightarrow> Envelope option"
    and wr :: "MsgType \<Rightarrow> payload \<Rightarrow> 'w \<Rightarrow> write_error option \<times> 'w"
    and out :: "'w \<Rightarrow> bytes" and unbroken :: "'w \<Rightarrow> bool"
  assumes write_ok: "unbroken w \<Longrightarrow> sendable encp ence dece (t, p) \<Longrightarrow>
      fst (wr t p w) = None
      \<and> out (snd (wr t p w)) = out w @ wire encp ence (t, p)
      \<and> unbroken (snd (wr t p w))"
begin

definition write_all :: "(MsgType \<times> payload) list \<Rightarrow> 'w \<Rightarrow> 'w" where
  "write_all ms w = foldl (\<lambda>w tp. snd (wr (fst tp) (snd tp) w)) w ms"

lemma write_all_out:
  "unbroken w \<Longrightarrow> \<forall>m \<in> set ms. sendable encp ence dece m \<Longrightarrow>
   out (write_all ms w) = out w @ concat (map (wire encp ence) ms) \<and> unbroken (write_all ms w)"
proof (induction ms arbitrary: w)
  case Nil
  then show ?case by (simp add: write_all_def)
next
  case (Cons m ms)
  then have "unbroken (snd (wr (fst m) (snd m) w))"
    "out (snd (wr (fst m) (snd m) w)) = out w @ wire encp ence m"
    using write_ok [of w "fst m" "snd m"] by auto
  with Cons show ?case by (simp add: write_all_def)
qed

end

lemma read_all_wire:
  "\<forall>m \<in> set ms. sendable encp ence dece m \<Longrightarrow>
   read_all dece (concat (map (wire encp ence) ms)) = (map (envelope_of encp) ms, PrefixEOF)"
proof (induction ms)
  case Nil
  show ?case by (subst read_all.simps) (simp add: ReadMessage_def ReadFull_def)
next
  case (Cons m ms)
  obtain pb eb where
    e: "encp (snd m) = Some pb" "ence \<lparr>Env_Type = fst m, Env_Payload = pb\<rparr> = Some eb"
    "length eb \<le> MaxMessageSize" "dece eb = Some \<lparr>Env_Type = fst m, Env_Payload = pb\<rparr>"
    using Cons.prems by (auto simp: sendable_def split: option.splits)
  then have "wire encp ence m = frame eb" by (simp add: wire_def envelope_of_def)
  then have "ReadMessage dece (concat (map (wire encp ence) (m # ms)))
             = (Inr (envelope_of encp m), concat (map (wire encp ence) ms))"
    using ReadMessage_frame [OF e(3), of dece] e by (simp add: envelope_of_def)
  with Cons show ?case by (subst read_all.simps) simp
qed

lemma WriteMessage_sendable:
  assumes "wc_room c = None" "sendable encp ence dece (t, p)"
  shows "WriteMessage encp ence t p c = (None, c\<lparr>wc_out := wc_out c @ wire encp ence (t, p)\<rparr>)"
proof -
  obtain pb eb where "encp p = Some pb" "ence \<lparr>Env_Type = t, Env_Payload = pb\<rparr> = Some eb"
    "length eb \<le> MaxMessageSize"
    using assms(2) by (auto simp: sendable_def split: option.splits)
  then show ?thesis using WriteMessage_frame [of encp p pb ence t eb c] assms(1)
    by (simp add: wire_def envelope_of_def MaxMessageSize_def)
qed

interpretation ctrl_writer: frame_writer encp ence dece
  "CtrlConnWriter_Write encp ence" "\<lambda>w. wc_out (cw_conn w)" "\<lambda>w. wc_room (cw_conn w) = None"
  for encp ence dece
  by unfold_locales (simp add: CtrlConnWriter_Write_def WriteMessage_sendable)

interpretation conn_writer: frame_writer encp ence dece
  "ConnWriter_WriteMsg encp ence" "\<lambda>w. wc_out (cnw_conn w)" "\<lambda>w. wc_room (cnw_conn w) = None"
  for encp ence dece
  by unfold_locales (simp add: ConnWriter_WriteMsg_def WriteMessage_sendable)

end
