(* ===== verification/FramingProps.thy ===== *)
theory FramingProps
  imports Framing "HOL-Library.Sublist"
begin

text \<open>
  What the framing layer promises: frames written under the writer's lock come out whole and in
  order whatever callers interleave; what happens without the lock; and the size limit that only the
  reader enforces.
\<close>

lemma shuffles_subseq: "zs \<in> shuffles xs ys \<Longrightarrow> subseq xs zs \<and> subseq ys zs"
proof (induction xs ys arbitrary: zs rule: shuffles.induct)
  case (3 x xs y ys)
  from 3(3) consider (l) zs' where "zs = x # zs'" "zs' \<in> shuffles xs (y # ys)"
    | (r) zs' where "zs = y # zs'" "zs' \<in> shuffles (x # xs) ys"
    by auto
  then show ?case
  proof cases
    case l
    then show ?thesis using 3(1) [of zs'] by (auto dest: subseq_Cons')
  next
    case r
    then show ?thesis using 3(2) [of zs'] by (auto dest: subseq_Cons')
  qed
qed auto

definition ctrl_write_all ::
  "(payload \<Rightarrow> bytes option) \<Rightarrow> (Envelope \<Rightarrow> bytes option) \<Rightarrow> (MsgType \<times> payload) list \<Rightarrow> CtrlConnWriter \<Rightarrow> CtrlConnWriter" where
  "ctrl_write_all encp ence ms w =
     foldl (\<lambda>w tp. snd (CtrlConnWriter_Write encp ence (fst tp) (snd tp) w)) w ms"

text \<open>
  C13. Locked writers do not interleave. Two goroutines send their messages through one
  \<open>CtrlConnWriter\<close>; the lock makes their calls some shuffle of the two lists. For every shuffle the
  peer reads exactly the shuffled messages, frame by frame, up to a clean end of stream; so each
  goroutine's messages arrive complete and in its own order.
\<close>

theorem locked_frames_in_order:
  assumes "ms \<in> shuffles as bs" "wc_room (cw_conn w) = None" "wc_out (cw_conn w) = []"
    and "\<forall>m \<in> set as \<union> set bs. sendable encp ence dece m"
  shows "read_all dece (wc_out (cw_conn (ctrl_write_all encp ence ms w))) = (map (envelope_of encp) ms, PrefixEOF) \<and>
         subseq (map (envelope_of encp) as) (map (envelope_of encp) ms) \<and>
         subseq (map (envelope_of encp) bs) (map (envelope_of encp) ms)"
proof -
  have ok: "\<forall>m \<in> set ms. sendable encp ence dece m"
    using assms(1,4) set_shuffles by blast
  have "ctrl_write_all encp ence ms w = ctrl_writer.write_all encp ence ms w"
    by (simp add: ctrl_write_all_def ctrl_writer.write_all_def)
  then have "wc_out (cw_conn (ctrl_write_all encp ence ms w)) = concat (map (wire encp ence) ms)"
    using ctrl_writer.write_all_out [OF assms(2) ok] assms(3) by simp
  moreover have "subseq as ms" "subseq bs ms" using shuffles_subseq [OF assms(1)] by auto
  ultimately show ?thesis
    using read_all_wire [OF ok] subseq_map by metis
qed

text \<open>A codec for one message, in the place of gob.\<close>

definition toy_encp :: "payload \<Rightarrow> bytes option" where
  "toy_encp p = (case p of P_Ping x \<Rightarrow> Some [1] | P_Pong x \<Rightarrow> Some [2] | _ \<Rightarrow> None)"

definition toy_ence :: "Envelope \<Rightarrow> bytes option" where
  "toy_ence e = Some (msg_code (Env_Type e) # Env_Payload e)"

definition toy_dece :: "bytes \<Rightarrow> Envelope option" where
  "toy_dece bs = (case bs of
     b # r \<Rightarrow> Some \<lparr>Env_Type = (if b = 3 then MsgPing else if b = 4 then MsgPong else MsgUnknown b), Env_Payload = r\<rparr>
   | [] \<Rightarrow> None)"

theorem locked_frames_in_order_witness:
  "read_all toy_dece (wc_out (cw_conn (ctrl_write_all toy_encp toy_ence
     [(MsgPing, P_Ping \<lparr>Ping_Seq = 0\<rparr>), (MsgPong, P_Pong \<lparr>Pong_Seq = 5\<rparr>), (MsgPing, P_Ping \<lparr>Ping_Seq = 1\<rparr>)]
     \<lparr>cw_conn = \<lparr>wc_out = [], wc_room = None\<rparr>\<rparr>))) =
   ([\<lparr>Env_Type = MsgPing, Env_Payload = [1]\<rparr>, \<lparr>Env_Type = MsgPong, Env_Payload = [2]\<rparr>,
     \<lparr>Env_Type = MsgPing, Env_Payload = [1]\<rparr>], PrefixEOF)"
proof -
  let ?as = "[(MsgPing, P_Ping \<lparr>Ping_Seq = 0\<rparr>), (MsgPing, P_Ping \<lparr>Ping_Seq = 1\<rparr>)]"
  let ?bs = "[(MsgPong, P_Pong \<lparr>Pong_Seq = 5\<rparr>)]"
  let ?ms = "[(MsgPing, P_Ping \<lparr>Ping_Seq = 0\<rparr>), (MsgPong, P_Pong \<lparr>Pong_Seq = 5\<rparr>), (MsgPing, P_Ping \<lparr>Ping_Seq = 1\<rparr>)]"
  have "?ms \<in> shuffles ?as ?bs" by simp
  then have "read_all toy_dece (wc_out (cw_conn (ctrl_write_all toy_encp toy_ence ?ms
     \<lparr>cw_conn = \<lparr>wc_out = [], wc_room = None\<rparr>\<rparr>))) = (map (envelope_of toy_encp) ?ms, PrefixEOF)"
    by (rule locked_frames_in_order [THEN conjunct1])
      (auto simp: sendable_def toy_encp_def toy_ence_def toy_dece_def MaxMessageSize_def)
  then show ?thesis by (simp add: envelope_of_def toy_encp_def)
qed

subsection \<open>Without the lock\<close>

text \<open>The two writes of one \<open>WriteMessage\<close> for an encoded envelope.\<close>

definition write_prefix :: "bytes \<Rightarrow> wconn \<Rightarrow> wconn" where
  "write_prefix eb c = snd (conn_write (be_enc 4 (unat (word_of_nat (length eb) :: 32 word))) c)"

definition write_body :: "bytes \<Rightarrow> wconn \<Rightarrow> wconn" where
  "write_body eb c = snd (conn_write eb c)"

lemma WriteMessage_two_writes:
  "encp p = Some pb \<Longrightarrow> ence \<lparr>Env_Type = t, Env_Payload = pb\<rparr> = Some eb \<Longrightarrow> wc_room c = None \<Longrightarrow>
   snd (WriteMessage encp ence t p c) = write_body eb (write_prefix eb c)"
  by (simp add: WriteMessage_def write_prefix_def write_body_def conn_write_unbroken)

text \<open>
  Without the lock a frame can be lost. If a second \<open>WriteMessage\<close> on the same connection gets
  its prefix in between the two writes of the first, the peer does not decode the first envelope: it
  decodes four bytes of the second prefix followed by the first body cut short by four bytes. (Code
  that writes to a control connection past its \<open>CtrlConnWriter\<close> is exposed to this.)
\<close>

theorem unlocked_prefix_corrupts:
  assumes "4 \<le> length eb1" "length eb1 \<le> MaxMessageSize" "length eb2 < 2 ^ 32"
    and "wc_room c = None" "wc_out c = []"
  shows "fst (ReadMessage dece (wc_out (write_body eb2 (write_body eb1 (write_prefix eb2 (write_prefix eb1 c)))))) =
         (case dece (be_enc 4 (length eb2) @ take (length eb1 - 4) eb1) of None \<Rightarrow> Inl BadEnvelope | Some e \<Rightarrow> Inr e)"
proof -
  have l: "length eb1 < 2 ^ 32" using assms(2) by (simp add: MaxMessageSize_def)
  have out: "wc_out (write_body eb2 (write_body eb1 (write_prefix eb2 (write_prefix eb1 c)))) =
    be_enc 4 (length eb1) @ (be_enc 4 (length eb2) @ take (length eb1 - 4) eb1) @ (drop (length eb1 - 4) eb1 @ eb2)"
    using assms(3-5) l by (simp add: write_prefix_def write_body_def conn_write_unbroken unat_length_32)
  have "length (be_enc 4 (length eb2) @ take (length eb1 - 4) eb1) = length eb1" using assms(1) by simp
  then have "ReadMessage dece (wc_out (write_body eb2 (write_body eb1 (write_prefix eb2 (write_prefix eb1 c))))) =
    (case dece (be_enc 4 (length eb2) @ take (length eb1 - 4) eb1) of None \<Rightarrow> (Inl BadEnvelope, drop (length eb1 - 4) eb1 @ eb2)
     | Some e \<Rightarrow> (Inr e, drop (length eb1 - 4) eb1 @ eb2))"
    unfolding out using ReadMessage_frame [of "be_enc 4 (length eb2) @ take (length eb1 - 4) eb1" dece] assms(2)
    by (simp add: frame_def)
  then show ?thesis by (simp split: option.split)
qed

theorem unlocked_prefix_corrupts_witness:
  "fst (ReadMessage toy_dece (wc_out (write_body [4, 2] (write_body [3, 1, 1, 1] (write_prefix [4, 2] (write_prefix [3, 1, 1, 1]
     \<lparr>wc_out = [], wc_room = None\<rparr>)))))) = Inr \<lparr>Env_Type = MsgUnknown 0, Env_Payload = [0, 0, 2]\<rparr>"
proof -
  have "be_enc (Suc (Suc (Suc (Suc 0)))) (Suc (Suc 0)) = [0, 0, 0, 2]" by simp
  moreover have "Suc (Suc (Suc (Suc 0))) = 4" by simp
  ultimately have e: "be_enc 4 (length [4, 2 :: byte]) = [0, 0, 0, 2]" by simp
  have "fst (ReadMessage toy_dece (wc_out (write_body [4, 2] (write_body [3, 1, 1, 1] (write_prefix [4, 2] (write_prefix [3, 1, 1, 1]
     \<lparr>wc_out = [], wc_room = None\<rparr>)))))) =
     (case toy_dece (be_enc 4 (length [4, 2 :: byte]) @ take (length [3, 1, 1, 1 :: byte] - 4) [3, 1, 1, 1]) of
        None \<Rightarrow> Inl BadEnvelope | Some e \<Rightarrow> Inr e)"
    by (rule unlocked_prefix_corrupts) (simp_all add: MaxMessageSize_def)
  then show ?thesis unfolding e by (simp add: toy_dece_def)
qed

subsection \<open>The size limit\<close>

text \<open>
  The size limit is the reader's alone. \<open>ReadMessage\<close> never takes more than 1 MiB of body for
  one message; but \<open>WriteMessage\<close> reports success for a larger envelope, and the peer then rejects
  it with the whole body left unread in the stream.
\<close>

theorem size_limit_one_sided:
  "(ReadMessage dece s = (Inr e, s') \<longrightarrow> length s - length s' \<le> 4 + MaxMessageSize) \<and>
   (encp p = Some pb \<and> ence \<lparr>Env_Type = t, Env_Payload = pb\<rparr> = Some eb \<and> MaxMessageSize < length eb \<and>
      length eb < 2 ^ 32 \<and> wc_room c = None \<and> wc_out c = [] \<longrightarrow>
    fst (WriteMessage encp ence t p c) = None \<and>
    ReadMessage dece (wc_out (snd (WriteMessage encp ence t p c))) = (Inl (TooLarge (length eb)), eb))"
proof (intro conjI impI)
  assume "ReadMessage dece s = (Inr e, s')"
  then obtain n where "n \<le> MaxMessageSize" "length s = 4 + n + length s'"
    using ReadMessage_consumes by blast
  then show "length s - length s' \<le> 4 + MaxMessageSize" by simp
next
  assume a: "encp p = Some pb \<and> ence \<lparr>Env_Type = t, Env_Payload = pb\<rparr> = Some eb \<and> MaxMessageSize < length eb \<and>
      length eb < 2 ^ 32 \<and> wc_room c = None \<and> wc_out c = []"
  then have w: "WriteMessage encp ence t p c = (None, c\<lparr>wc_out := wc_out c @ frame eb\<rparr>)"
    by (intro WriteMessage_frame) auto
  show "fst (WriteMessage encp ence t p c) = None" using w by simp
  show "ReadMessage dece (wc_out (snd (WriteMessage encp ence t p c))) = (Inl (TooLarge (length eb)), eb)"
    using w a ReadMessage_TooLarge [of eb dece "[]"] by simp
qed

definition big_ence :: "Envelope \<Rightarrow> bytes option" where
  "big_ence e = Some (replicate (Suc MaxMessageSize) 7)"

theorem size_limit_one_sided_witness:
  "fst (WriteMessage toy_encp big_ence MsgPing (P_Ping \<lparr>Ping_Seq = 0\<rparr>) \<lparr>wc_out = [], wc_room = None\<rparr>) = None"
proof -
  let ?eb = "replicate (Suc MaxMessageSize) (7 :: byte)"
  have "toy_encp (P_Ping \<lparr>Ping_Seq = 0\<rparr>) = Some [1]" by (simp add: toy_encp_def)
  moreover have "big_ence \<lparr>Env_Type = MsgPing, Env_Payload = [1]\<rparr> = Some ?eb"
    by (rule big_ence_def)
  moreover have "MaxMessageSize < length ?eb" by simp
  moreover have "length ?eb < 2 ^ 32" unfolding length_replicate by (simp add: MaxMessageSize_def)
  ultimately show ?thesis
    using size_limit_one_sided [of toy_dece "[]" "\<lparr>Env_Type = MsgPing, Env_Payload = []\<rparr>" "[]" toy_encp "P_Ping \<lparr>Ping_Seq = 0\<rparr>" "[1]"
        big_ence MsgPing ?eb "\<lparr>wc_out = [], wc_room = None\<rparr>"]
    by (simp del: replicate.simps length_replicate)
qed

end
