(* ===== verification/Limiter.thy ===== *)
theory Limiter
  imports Complex_Main Prelude
begin

text \<open>
  \<open>internal/tunnel/ratelimit.go\<close>: the per-IP token bucket and the global cap on concurrent
  connections that every accept loop of the server asks before it takes a connection.

  Times are integers (nanoseconds); \<open>float64\<close> is modelled by exact rationals, so rounding is not
  modelled. Many goroutines call the limiter at once. \<open>Allow\<close> is one access to the shared map and one
  under the bucket's lock, \<open>Acquire\<close> a load and a compare-and-swap; besides the sequential functions
  there are step relations in which these accesses interleave. No program runs the cleanup.
\<close>

subsection \<open>One bucket\<close>

record ipLimiter =
  il_tokens :: rat
  il_last :: int
  il_lastSeen :: int
  il_rate :: rat
  il_burst :: int

definition Seconds :: "int \<Rightarrow> rat" where
  "Seconds d = of_int d / 1000000000"

definition allow :: "int \<Rightarrow> ipLimiter \<Rightarrow> bool \<times> ipLimiter" where
  "allow now l =
     (let elapsed = Seconds (now - il_last l);
          t = il_tokens l + elapsed * il_rate l;
          t = (if t > of_int (il_burst l) then of_int (il_burst l) else t);
          l = l\<lparr>il_last := now, il_lastSeen := now\<rparr>
      in if t \<ge> 1 then (True, l\<lparr>il_tokens := t - 1\<rparr>) else (False, l\<lparr>il_tokens := t\<rparr>))"

subsection \<open>The limiter\<close>

record Limiter =
  lm_maxRate :: rat
  lm_burst :: int
  lm_maxGlobal :: int
  lm_ttl :: int
  lm_active :: int
  lm_ips :: "string \<rightharpoonup> ipLimiter"

definition NewLimiter :: "rat \<Rightarrow> int \<Rightarrow> int \<Rightarrow> int \<Rightarrow> Limiter" where
  "NewLimiter maxRate burst maxGlobal ttl =
     \<lparr>lm_maxRate = maxRate, lm_burst = (if burst \<le> 0 then 10 else burst), lm_maxGlobal = maxGlobal,
      lm_ttl = (if ttl \<le> 0 then 5 * 60 * 1000000000 else ttl), lm_active = 0,
      lm_ips = Map.empty\<rparr>"

definition newBucket :: "int \<Rightarrow> Limiter \<Rightarrow> ipLimiter" where
  "newBucket now l =
     \<lparr>il_tokens = of_int (lm_burst l), il_last = now, il_lastSeen = now, il_rate = lm_maxRate l,
      il_burst = lm_burst l\<rparr>"

text \<open>
  The accesses of \<open>Allow\<close>: \<open>LoadOrStore\<close>, which says whether the bucket was there; the decrement of the
  caller that created it; the bucket's \<open>allow\<close>. A bucket that was loaded or stored is in the map.
\<close>

definition Allow_load :: "string \<Rightarrow> int \<Rightarrow> Limiter \<Rightarrow> bool \<times> Limiter" where
  "Allow_load ip now l =
     (case lm_ips l ip of
        Some _ \<Rightarrow> (True, l)
      | None \<Rightarrow> (False, l\<lparr>lm_ips := (lm_ips l)(ip \<mapsto> newBucket now l)\<rparr>))"

definition Allow_first :: "string \<Rightarrow> Limiter \<Rightarrow> Limiter" where
  "Allow_first ip l =
     l\<lparr>lm_ips := (lm_ips l)(ip := map_option (\<lambda>b. b\<lparr>il_tokens := il_tokens b - 1\<rparr>) (lm_ips l ip))\<rparr>"

definition Allow_take :: "string \<Rightarrow> int \<Rightarrow> Limiter \<Rightarrow> bool \<times> Limiter" where
  "Allow_take ip now l =
     (case lm_ips l ip of
        None \<Rightarrow> (False, l)
      | Some b \<Rightarrow> (case allow now b of (ok, b') \<Rightarrow> (ok, l\<lparr>lm_ips := (lm_ips l)(ip \<mapsto> b')\<rparr>)))"

text \<open>A call that nothing interrupts.\<close>

definition Allow :: "string \<Rightarrow> int \<Rightarrow> Limiter \<Rightarrow> bool \<times> Limiter" where
  "Allow ip now l =
     (if lm_maxRate l \<le> 0 then (True, l)
      else (case Allow_load ip now l of
              (loaded, l') \<Rightarrow> if \<not> loaded then (True, Allow_first ip l') else Allow_take ip now l'))"

lemma Allow_eq:
  "Allow ip now l =
     (if lm_maxRate l \<le> 0 then (True, l)
      else (case lm_ips l ip of
              None \<Rightarrow>
                (True, l\<lparr>lm_ips := (lm_ips l)(ip \<mapsto>
                   (newBucket now l)\<lparr>il_tokens := il_tokens (newBucket now l) - 1\<rparr>)\<rparr>)
            | Some lmt \<Rightarrow>
                (case allow now lmt of
                   (ok, lmt') \<Rightarrow> (ok, l\<lparr>lm_ips := (lm_ips l)(ip \<mapsto> lmt')\<rparr>))))"
  by (simp add: Allow_def Allow_load_def Allow_first_def Allow_take_def split: option.split)

text \<open>One tick of \<open>StartCleanup\<close>: entries not seen since \<open>now - ttl\<close> are deleted.\<close>

definition cleanup :: "int \<Rightarrow> Limiter \<Rightarrow> Limiter" where
  "cleanup now l =
     (let cutoff = now - lm_ttl l
      in l\<lparr>lm_ips := (\<lambda>ip. case lm_ips l ip of
                            None \<Rightarrow> None
                          | Some lmt \<Rightarrow> if il_lastSeen lmt < cutoff then None else Some lmt)\<rparr>)"

definition Acquire :: "Limiter \<Rightarrow> bool \<times> Limiter" where
  "Acquire l =
     (if lm_maxGlobal l \<le> 0 then (True, l\<lparr>lm_active := lm_active l + 1\<rparr>)
      else if lm_active l \<ge> lm_maxGlobal l then (False, l)
      else (True, l\<lparr>lm_active := lm_active l + 1\<rparr>))"

definition Release :: "Limiter \<Rightarrow> Limiter" where
  "Release l = l\<lparr>lm_active := lm_active l - 1\<rparr>"

subsection \<open>What one address can get through\<close>

text \<open>The decisions for the calls of one address, at the times at which they reach the bucket.\<close>

fun allow_run :: "string \<Rightarrow> int list \<Rightarrow> Limiter \<Rightarrow> bool list \<times> Limiter" where
  "allow_run ip [] l = ([], l)"
| "allow_run ip (t # ts) l =
     (case Allow ip t l of (ok, l') \<Rightarrow> (case allow_run ip ts l' of (oks, l'') \<Rightarrow> (ok # oks, l'')))"

definition accepted :: "bool list \<Rightarrow> nat" where
  "accepted oks = count_list oks True"

lemma accepted_simps [simp]:
  "accepted [] = 0" "accepted (True # oks) = Suc (accepted oks)" "accepted (False # oks) = accepted oks"
  by (simp_all add: accepted_def)

lemma allow_cases:
  assumes "allow now l = (ok, l')"
  shows "il_last l' = now" "il_lastSeen l' = now" "il_rate l' = il_rate l" "il_burst l' = il_burst l"
    and "ok \<Longrightarrow> 0 \<le> il_tokens l'"
    and "il_tokens l' + of_bool ok \<le> il_tokens l + Seconds (now - il_last l) * il_rate l"
    and "il_tokens l' + of_bool ok \<le> of_int (il_burst l)"
  using assms by (auto simp: allow_def Let_def split: if_splits)

lemma Seconds_diff: "Seconds (a - b) * r = Seconds (a - c) * r - Seconds (b - c) * (r :: rat)"
  by (simp add: Seconds_def algebra_simps diff_divide_distrib)

lemma Seconds_mono: "a \<le> b \<Longrightarrow> 0 \<le> r \<Longrightarrow> Seconds a * r \<le> Seconds b * (r :: rat)"
  by (intro mult_right_mono) (simp_all add: Seconds_def divide_right_mono)

text \<open>
  The telescoping sum: whatever order the times come in, a run that starts at a bucket accepts at
  most its tokens plus what the rate grants between the bucket's time and the latest call.
\<close>

lemma allow_run_bound:
  assumes "allow_run ip ts l = (oks, l')" "lm_ips l ip = Some b" "0 < lm_maxRate l"
    and "il_rate b = lm_maxRate l" "\<forall>t \<in> set ts. t \<le> T" "True \<in> set oks"
  shows "of_nat (accepted oks) \<le> il_tokens b + Seconds (T - il_last b) * lm_maxRate l"
  using assms
proof (induction ts arbitrary: l b oks l')
  case Nil
  then show ?case by simp
next
  case (Cons t ts)
  obtain ok b1 where a: "allow t b = (ok, b1)" by fastforce
  define l1 where "l1 = l\<lparr>lm_ips := (lm_ips l)(ip \<mapsto> b1)\<rparr>"
  have A: "Allow ip t l = (ok, l1)"
    using Cons.prems a by (simp add: Allow_eq l1_def)
  obtain oks1 l2 where r: "allow_run ip ts l1 = (oks1, l2)" by fastforce
  have oks: "oks = ok # oks1" using Cons.prems(1) A r by simp
  note ac = allow_cases [OF a]
  have step: "il_tokens b1 + of_bool ok \<le> il_tokens b + Seconds (t - il_last b) * lm_maxRate l"
    using ac(6) Cons.prems(4) by simp
  have rate1: "lm_maxRate l1 = lm_maxRate l" by (simp add: l1_def)
  show ?case
  proof (cases "True \<in> set oks1")
    case True
    have "of_nat (accepted oks1) \<le> il_tokens b1 + Seconds (T - il_last b1) * lm_maxRate l1"
      by (rule Cons.IH [OF r]) (use Cons.prems ac True in \<open>simp_all add: l1_def\<close>)
    moreover have "of_nat (accepted oks) = (of_nat (accepted oks1) :: rat) + of_bool ok"
      using oks by (cases ok) simp_all
    moreover have "Seconds (T - t) * lm_maxRate l + Seconds (t - il_last b) * lm_maxRate l
                   = Seconds (T - il_last b) * lm_maxRate l"
      by (simp add: Seconds_diff [of T t _ "il_last b"])
    ultimately show ?thesis using step ac(1) rate1 by simp
  next
    case False
    then have "accepted oks1 = 0" by (simp add: accepted_def)
    moreover have ok using False Cons.prems(6) oks by auto
    ultimately have "of_nat (accepted oks) = (1 :: rat)" using oks by simp
    moreover have "Seconds (t - il_last b) * lm_maxRate l \<le> Seconds (T - il_last b) * lm_maxRate l"
      using Cons.prems(3,5) by (intro Seconds_mono) auto
    ultimately show ?thesis using step ac(5) \<open>ok\<close> by simp
  qed
qed

lemma Allow_new:
  assumes "lm_ips l ip = None" "0 < lm_maxRate l"
  shows "Allow ip t l = (True, l\<lparr>lm_ips := (lm_ips l)(ip \<mapsto>
           \<lparr>il_tokens = of_int (lm_burst l) - 1, il_last = t, il_lastSeen = t,
            il_rate = lm_maxRate l, il_burst = lm_burst l\<rparr>)\<rparr>)"
  using assms by (simp add: Allow_eq newBucket_def)

lemma fresh_limiter [simp]:
  "lm_ips (NewLimiter r b g ttl) = Map.empty" "lm_maxRate (NewLimiter r b g ttl) = r"
  "0 < lm_burst (NewLimiter r b g ttl)" "0 < lm_ttl (NewLimiter r b g ttl)"
  "lm_maxGlobal (NewLimiter r b g ttl) = g" "lm_active (NewLimiter r b g ttl) = 0"
  by (simp_all add: NewLimiter_def)

text \<open>Calls that do not overlap: at most \<open>burst\<close> plus the rate times the elapsed time.\<close>

lemma rate_bound_sequential:
  assumes "0 < r" "allow_run ip (t0 # ts) (NewLimiter r b g ttl) = (oks, l')"
    and "\<forall>t \<in> set ts. t0 \<le> t \<and> t \<le> T" "t0 \<le> T"
  shows "of_nat (accepted oks) \<le> of_int (lm_burst (NewLimiter r b g ttl)) + Seconds (T - t0) * r"
proof -
  let ?l = "NewLimiter r b g ttl"
  define b0 where "b0 = \<lparr>il_tokens = of_int (lm_burst ?l) - 1, il_last = t0, il_lastSeen = t0,
                         il_rate = r, il_burst = lm_burst ?l\<rparr>"
  define l1 where "l1 = ?l\<lparr>lm_ips := (lm_ips ?l)(ip \<mapsto> b0)\<rparr>"
  have A: "Allow ip t0 ?l = (True, l1)"
    using Allow_new [of ?l ip t0] assms(1) by (simp add: l1_def b0_def)
  obtain oks1 l2 where r1: "allow_run ip ts l1 = (oks1, l2)" by fastforce
  have oks: "oks = True # oks1" using assms(2) A r1 by simp
  have nonneg: "0 \<le> Seconds (T - t0) * r" using assms(1,4) by (simp add: Seconds_def)
  show ?thesis
  proof (cases "True \<in> set oks1")
    case True
    have "of_nat (accepted oks1) \<le> il_tokens b0 + Seconds (T - il_last b0) * lm_maxRate l1"
      by (rule allow_run_bound [OF r1]) (use assms True in \<open>simp_all add: l1_def b0_def\<close>)
    then show ?thesis using oks by (simp add: b0_def l1_def)
  next
    case False
    then have "accepted oks1 = 0" by (simp add: accepted_def)
    moreover have "(1 :: rat) \<le> of_int (lm_burst ?l)" using fresh_limiter(3) [of r b g ttl] by linarith
    ultimately show ?thesis using oks nonneg by simp
  qed
qed

subsection \<open>Overlapping calls\<close>

text \<open>
  Any number of goroutines call \<open>Allow\<close> for one address: each reads the clock, then the map, then takes
  the bucket's lock. Calls for other addresses touch other entries. \<open>ar_passed\<close> counts the calls that
  returned true.
\<close>

datatype allow_pc = AP_Idle | AP_Load int | AP_First | AP_Take int

record rate_state =
  ar_lim :: Limiter
  ar_pc :: "nat \<Rightarrow> allow_pc"
  ar_passed :: nat

definition ar_start :: "Limiter \<Rightarrow> rate_state" where
  "ar_start l = \<lparr>ar_lim = l, ar_pc = (\<lambda>g. AP_Idle), ar_passed = 0\<rparr>"

definition ar_goto :: "nat \<Rightarrow> allow_pc \<Rightarrow> Limiter \<Rightarrow> bool \<Rightarrow> rate_state \<Rightarrow> rate_state" where
  "ar_goto g pc l ok s = \<lparr>ar_lim = l, ar_pc = (ar_pc s)(g := pc), ar_passed = ar_passed s + of_bool ok\<rparr>"

inductive allow_step :: "string \<Rightarrow> int \<Rightarrow> int \<Rightarrow> rate_state \<Rightarrow> rate_state \<Rightarrow> bool"
  for ip :: string and t0 T :: int where
  unlimited: "lm_maxRate (ar_lim s) \<le> 0 \<Longrightarrow> ar_pc s g = AP_Idle \<Longrightarrow>
     allow_step ip t0 T s (ar_goto g AP_Idle (ar_lim s) True s)"
| clock: "0 < lm_maxRate (ar_lim s) \<Longrightarrow> ar_pc s g = AP_Idle \<Longrightarrow> t0 \<le> t \<Longrightarrow> t \<le> T \<Longrightarrow>
     allow_step ip t0 T s (ar_goto g (AP_Load t) (ar_lim s) False s)"
| load: "ar_pc s g = AP_Load t \<Longrightarrow> Allow_load ip t (ar_lim s) = (loaded, l') \<Longrightarrow>
     allow_step ip t0 T s (ar_goto g (if loaded then AP_Take t else AP_First) l' False s)"
| first: "ar_pc s g = AP_First \<Longrightarrow>
     allow_step ip t0 T s (ar_goto g AP_Idle (Allow_first ip (ar_lim s)) True s)"
| take_token: "ar_pc s g = AP_Take t \<Longrightarrow> Allow_take ip t (ar_lim s) = (ok, l') \<Longrightarrow>
     allow_step ip t0 T s (ar_goto g AP_Idle l' ok s)"
| other_address: "d \<noteq> ip \<Longrightarrow>
     allow_step ip t0 T s (s\<lparr>ar_lim := (ar_lim s)\<lparr>lm_ips := (lm_ips (ar_lim s))(d := e)\<rparr>\<rparr>)"

text \<open>
  The invariant. The tokens plus the calls passed never exceed the burst plus what the rate granted
  up to the bucket's time; one caller at most is still to pay for the bucket it created.
\<close>

definition creators :: "rate_state \<Rightarrow> nat set" where
  "creators s = {g. ar_pc s g = AP_First}"

definition owed :: "rate_state \<Rightarrow> rat" where
  "owed s = (if creators s = {} then 0 else 1)"

lemma owed_le: "owed s \<le> 1"
  by (simp add: owed_def)

lemma owed_cong: "creators s' = creators s \<Longrightarrow> owed s' = owed s"
  by (simp add: owed_def)

definition rate_inv :: "string \<Rightarrow> int \<Rightarrow> int \<Rightarrow> rat \<Rightarrow> int \<Rightarrow> rate_state \<Rightarrow> bool" where
  "rate_inv ip t0 T r burst s \<longleftrightarrow>
     lm_maxRate (ar_lim s) = r \<and> lm_burst (ar_lim s) = burst \<and>
     (\<forall>g t. ar_pc s g = AP_Load t \<or> ar_pc s g = AP_Take t \<longrightarrow> t0 \<le> t \<and> t \<le> T) \<and>
     (\<forall>g h. ar_pc s g = AP_First \<longrightarrow> ar_pc s h = AP_First \<longrightarrow> g = h) \<and>
     (case lm_ips (ar_lim s) ip of
        None \<Rightarrow> ar_passed s = 0 \<and> creators s = {} \<and> (\<forall>g t. ar_pc s g \<noteq> AP_Take t)
      | Some b \<Rightarrow>
          il_rate b = r \<and> t0 \<le> il_last b \<and> il_last b \<le> T \<and>
          il_tokens b + of_nat (ar_passed s) \<le> of_int burst + Seconds (il_last b - t0) * r \<and>
          of_nat (ar_passed s) + owed s \<le> of_int burst + 1 + Seconds (T - t0) * r)"

lemma rate_inv_start: "0 < r \<Longrightarrow> rate_inv ip t0 T r (lm_burst (NewLimiter r b g ttl)) (ar_start (NewLimiter r b g ttl))"
  by (simp add: rate_inv_def ar_start_def creators_def)

lemma ar_goto_simps [simp]:
  "ar_lim (ar_goto g pc l ok s) = l" "ar_pc (ar_goto g pc l ok s) = (ar_pc s)(g := pc)"
  "ar_passed (ar_goto g pc l ok s) = ar_passed s + of_bool ok"
  by (simp_all add: ar_goto_def)

lemma creators_goto:
  "creators (ar_goto g pc l ok s) = (if pc = AP_First then insert g (creators s) else creators s - {g})"
  by (auto simp: creators_def)

lemma rate_inv_take:
  assumes inv: "rate_inv ip t0 T r burst s" and r: "0 < r" and g: "ar_pc s g = AP_Take t"
    and tk: "Allow_take ip t (ar_lim s) = (ok, l')"
  shows "rate_inv ip t0 T r burst (ar_goto g AP_Idle l' ok s)"
proof -
  obtain b where b: "lm_ips (ar_lim s) ip = Some b" using inv g by (auto simp: rate_inv_def split: option.splits)
  obtain b' where a: "allow t b = (ok, b')" and l': "l' = (ar_lim s)\<lparr>lm_ips := (lm_ips (ar_lim s))(ip \<mapsto> b')\<rparr>"
    using tk b by (auto simp: Allow_take_def split: prod.splits)
  note ac = allow_cases [OF a]
  have t: "t0 \<le> t" "t \<le> T" using inv g by (auto simp: rate_inv_def)
  have i: "il_rate b = r" "il_tokens b + of_nat (ar_passed s) \<le> of_int burst + Seconds (il_last b - t0) * r"
    "of_nat (ar_passed s) + owed s \<le> of_int burst + 1 + Seconds (T - t0) * r"
    using inv b by (auto simp: rate_inv_def)
  have "il_tokens b' + of_bool ok \<le> il_tokens b + Seconds (t - il_last b) * r" using ac(6) i(1) by simp
  moreover have "Seconds (t - il_last b) * r + Seconds (il_last b - t0) * r = Seconds (t - t0) * r"
    by (simp add: Seconds_def algebra_simps diff_divide_distrib)
  ultimately have tok: "il_tokens b' + of_nat (ar_passed s + of_bool ok) \<le> of_int burst + Seconds (t - t0) * r"
    using i(2) by simp
  have mono: "Seconds (t - t0) * r \<le> Seconds (T - t0) * r" using t r by (intro Seconds_mono) simp_all
  have cr: "creators (ar_goto g AP_Idle l' ok s) = creators s" using g by (auto simp: creators_def)
  moreover have "of_nat (ar_passed s + of_bool ok) + owed s \<le> of_int burst + 1 + Seconds (T - t0) * r"
  proof (cases ok)
    case True
    then show ?thesis using tok mono ac(5) owed_le [of s] by simp
  next
    case False
    then show ?thesis using i(3) by simp
  qed
  ultimately show ?thesis using inv b l' ac t tok i(1) owed_cong [OF cr] unfolding rate_inv_def by auto
qed

lemma rate_inv_step:
  assumes "allow_step ip t0 T s s'" "rate_inv ip t0 T r burst s" "0 < r" "0 < burst" "t0 \<le> T"
  shows "rate_inv ip t0 T r burst s'"
  using assms(1,2)
proof (cases rule: allow_step.cases)
  case (unlimited g)
  then show ?thesis using assms(2,3) by (simp add: rate_inv_def)
next
  case (clock g t)
  then have "creators s' = creators s" by (auto simp: creators_def)
  then show ?thesis using assms(2) clock owed_cong [of s' s] by (auto simp: rate_inv_def split: option.splits)
next
  case (load g t loaded l')
  show ?thesis
  proof (cases "lm_ips (ar_lim s) ip")
    case None
    then have l': "\<not> loaded" "l' = (ar_lim s)\<lparr>lm_ips := (lm_ips (ar_lim s))(ip \<mapsto> newBucket t (ar_lim s))\<rparr>"
      using load(3) by (simp_all add: Allow_load_def)
    have none: "ar_passed s = 0" "creators s = {}" "lm_maxRate (ar_lim s) = r" "lm_burst (ar_lim s) = burst"
      and t: "t0 \<le> t" "t \<le> T"
      using assms(2) None load(2) by (auto simp: rate_inv_def)
    have nn: "0 \<le> Seconds (t - t0) * r" "0 \<le> Seconds (T - t0) * r" using t assms(3,5) by (simp_all add: Seconds_def)
    have "creators s' = {g}" using load(1) l'(1) none(2) by (auto simp: creators_def)
    moreover from this have "owed s' = 1" by (simp add: owed_def)
    moreover have "ar_pc s h \<noteq> AP_First" for h using none(2) by (auto simp: creators_def)
    moreover have "(0 :: rat) \<le> of_int burst" using assms(4) by simp
    ultimately show ?thesis
      using assms(2) load(1) l' None none t nn unfolding rate_inv_def by (auto simp: newBucket_def)
  next
    case (Some b)
    then have "loaded" "l' = ar_lim s" using load(3) by (simp_all add: Allow_load_def)
    moreover from this have "creators s' = creators s" using load by (auto simp: creators_def)
    ultimately show ?thesis using assms(2) load(1,2) Some owed_cong [of s' s] by (auto simp: rate_inv_def)
  qed
next
  case (first g)
  then have g: "creators s = {g}" using assms(2) by (auto simp: creators_def rate_inv_def)
  then obtain b where b: "lm_ips (ar_lim s) ip = Some b" using assms(2) by (auto simp: rate_inv_def split: option.splits)
  have "creators s' = {}" using first(1) g by (auto simp: creators_def)
  moreover from this have "owed s' = 0" "owed s = 1" using g by (simp_all add: owed_def)
  ultimately show ?thesis using assms(2) first b g by (auto simp: rate_inv_def Allow_first_def)
next
  case (take_token g t ok l')
  then show ?thesis using rate_inv_take [OF assms(2,3)] by blast
next
  case (other_address d e)
  then have "creators s' = creators s" by (simp add: creators_def)
  then show ?thesis using assms(2) other_address owed_cong [of s' s] by (cases "lm_ips (ar_lim s) ip") (simp_all add: rate_inv_def)
qed

text \<open>
  C29. Rate bound. However the calls of one address overlap, with each other and with the calls of
  other addresses, and in whatever order their clock readings (between \<open>t0\<close> and \<open>T\<close>, and they may run
  backwards) reach the bucket: the limiter lets at most \<open>burst + 1\<close> connections plus the rate times the
  elapsed time through. The one above the burst is the first call's: it stores a full bucket and pays
  for its own connection only later, after others may have emptied it.
\<close>

theorem rate_bound:
  assumes "0 < r" "t0 \<le> T" "(allow_step ip t0 T)\<^sup>*\<^sup>* (ar_start (NewLimiter r b g ttl)) s"
  shows "of_nat (ar_passed s) \<le> of_int (lm_burst (NewLimiter r b g ttl)) + 1 + Seconds (T - t0) * r"
proof -
  let ?burst = "lm_burst (NewLimiter r b g ttl)"
  have "rate_inv ip t0 T r ?burst s"
    using assms(3)
  proof (induction rule: rtranclp_induct)
    case base
    then show ?case using rate_inv_start assms(1) by blast
  next
    case (step s s')
    then show ?case using rate_inv_step assms(1,2) fresh_limiter(3) by blast
  qed
  moreover have "0 \<le> of_int ?burst + 1 + Seconds (T - t0) * r"
    using assms(1,2) fresh_limiter(3) [of r b g ttl] Seconds_mono [of 0 "T - t0" r]
    by (intro add_nonneg_nonneg) (simp_all add: Seconds_def order_less_imp_le)
  moreover have "0 \<le> owed s" by (simp add: owed_def)
  ultimately show ?thesis by (auto simp: rate_inv_def split: option.splits)
qed

text \<open>The bound is reached: burst 1, two callers at the same moment, and both get through.\<close>

definition overtaken :: rate_state where
  "overtaken = \<lparr>ar_lim = (NewLimiter 1 1 0 0)\<lparr>lm_ips := [''a'' \<mapsto>
     \<lparr>il_tokens = -1, il_last = 0, il_lastSeen = 0, il_rate = 1, il_burst = 1\<rparr>]\<rparr>,
     ar_pc = (\<lambda>g. AP_Idle), ar_passed = 2\<rparr>"

lemma overtaken_run: "(allow_step ''a'' 0 0)\<^sup>*\<^sup>* (ar_start (NewLimiter 1 1 0 0)) overtaken"
proof -
  let ?l = "NewLimiter 1 1 0 0"
  let ?b = "\<lambda>k. \<lparr>il_tokens = k, il_last = 0, il_lastSeen = 0, il_rate = 1, il_burst = 1\<rparr>"
  let ?l1 = "?l\<lparr>lm_ips := [''a'' \<mapsto> ?b 1]\<rparr>" and ?l2 = "?l\<lparr>lm_ips := [''a'' \<mapsto> ?b 0]\<rparr>"
  let ?s0 = "ar_start ?l"
  let ?s1 = "ar_goto 0 (AP_Load 0) ?l False ?s0"
  let ?s2 = "ar_goto 1 (AP_Load 0) ?l False ?s1"
  let ?s3 = "ar_goto 0 AP_First ?l1 False ?s2"
  let ?s4 = "ar_goto 1 (AP_Take 0) ?l1 False ?s3"
  let ?s5 = "ar_goto 1 AP_Idle ?l2 True ?s4"
  let ?s6 = "ar_goto 0 AP_Idle (Allow_first ''a'' ?l2) True ?s5"
  have 1: "allow_step ''a'' 0 0 ?s0 ?s1"
    using allow_step.clock [of ?s0 0 0 0 0 "''a''"] by (simp add: ar_start_def)
  have 2: "allow_step ''a'' 0 0 ?s1 ?s2"
    using allow_step.clock [of ?s1 1 0 0 0 "''a''"] by (simp add: ar_start_def)
  have 3: "allow_step ''a'' 0 0 ?s2 ?s3"
    using allow_step.load [of ?s2 0 0 "''a''" False ?l1 0 0]
    by (simp add: ar_start_def Allow_load_def newBucket_def NewLimiter_def)
  have 4: "allow_step ''a'' 0 0 ?s3 ?s4"
    using allow_step.load [of ?s3 1 0 "''a''" True ?l1 0 0] by (simp add: ar_start_def Allow_load_def)
  have 5: "allow_step ''a'' 0 0 ?s4 ?s5"
    using allow_step.take_token [of ?s4 1 0 "''a''" True ?l2 0 0]
    by (simp add: ar_start_def Allow_take_def allow_def Seconds_def)
  have 6: "allow_step ''a'' 0 0 ?s5 ?s6"
    using allow_step.first [of ?s5 0 "''a''" 0 0] by (simp add: ar_start_def)
  have "?s6 = overtaken"
    by (simp add: ar_goto_def ar_start_def overtaken_def Allow_first_def fun_eq_iff)
  have "(allow_step ''a'' 0 0)\<^sup>*\<^sup>* ?s0 ?s1" using 1 by (rule r_into_rtranclp)
  then have "(allow_step ''a'' 0 0)\<^sup>*\<^sup>* ?s0 ?s2" using 2 by (rule rtranclp.rtrancl_into_rtrancl)
  then have "(allow_step ''a'' 0 0)\<^sup>*\<^sup>* ?s0 ?s3" using 3 by (rule rtranclp.rtrancl_into_rtrancl)
  then have "(allow_step ''a'' 0 0)\<^sup>*\<^sup>* ?s0 ?s4" using 4 by (rule rtranclp.rtrancl_into_rtrancl)
  then have "(allow_step ''a'' 0 0)\<^sup>*\<^sup>* ?s0 ?s5" using 5 by (rule rtranclp.rtrancl_into_rtrancl)
  then have "(allow_step ''a'' 0 0)\<^sup>*\<^sup>* ?s0 ?s6" using 6 by (rule rtranclp.rtrancl_into_rtrancl)
  then show ?thesis using \<open>?s6 = overtaken\<close> by simp
qed

theorem rate_bound_witness:
  "(allow_step ''a'' 0 0)\<^sup>*\<^sup>* (ar_start (NewLimiter 1 1 0 0)) overtaken \<and> ar_passed overtaken = 2 \<and>
   of_nat (ar_passed overtaken) \<le> (of_int (lm_burst (NewLimiter 1 1 0 0)) + 1 + Seconds (0 - 0) * 1 :: rat)"
proof -
  have "of_nat (ar_passed overtaken) \<le> (of_int (lm_burst (NewLimiter 1 1 0 0)) + 1 + Seconds (0 - 0) * 1 :: rat)"
    by (rule rate_bound [OF _ _ overtaken_run]) simp_all
  then show ?thesis using overtaken_run by (simp add: overtaken_def)
qed
subsection \<open>The cleanup\<close>

text \<open>Requests and cleanup ticks in the order of their times; the decisions of a run.\<close>

datatype lim_event = Req string int | Tick int

fun ev_time :: "lim_event \<Rightarrow> int" where
  "ev_time (Req _ t) = t"
| "ev_time (Tick t) = t"

fun is_Req :: "lim_event \<Rightarrow> bool" where
  "is_Req (Req _ _) = True"
| "is_Req (Tick _) = False"

fun lim_run :: "lim_event list \<Rightarrow> Limiter \<Rightarrow> bool list" where
  "lim_run [] l = []"
| "lim_run (Req ip t # es) l = (case Allow ip t l of (ok, l') \<Rightarrow> ok # lim_run es l')"
| "lim_run (Tick t # es) l = lim_run es (cleanup t l)"

text \<open>A bucket idle for the whole \<open>ttl\<close> at time \<open>c\<close>, and one that is in use.\<close>

definition bucket_ok :: "Limiter \<Rightarrow> ipLimiter \<Rightarrow> bool" where
  "bucket_ok l b \<longleftrightarrow> 0 \<le> il_tokens b \<and> il_lastSeen b = il_last b \<and> il_rate b = lm_maxRate l \<and>
     il_burst b = lm_burst l"

fun entry_rel :: "int \<Rightarrow> Limiter \<Rightarrow> ipLimiter option \<Rightarrow> ipLimiter option \<Rightarrow> bool" where
  "entry_rel c l None oc = (oc = None)"
| "entry_rel c l (Some b) oc =
     (bucket_ok l b \<and> il_last b \<le> c \<and>
      (oc = Some b \<or> oc = None \<and> il_last b + lm_ttl l < c))"

definition same_but_stale :: "int \<Rightarrow> Limiter \<Rightarrow> Limiter \<Rightarrow> bool" where
  "same_but_stale c l lc \<longleftrightarrow>
     lm_maxRate lc = lm_maxRate l \<and> lm_burst lc = lm_burst l \<and> lm_ttl lc = lm_ttl l \<and>
     (\<forall>ip. entry_rel c l (lm_ips l ip) (lm_ips lc ip))"

lemma entry_rel_later: "entry_rel c l eb oc \<Longrightarrow> c \<le> t \<Longrightarrow> entry_rel t l eb oc"
  by (cases eb) auto

lemma entry_rel_config:
  "lm_maxRate l' = lm_maxRate l \<Longrightarrow> lm_burst l' = lm_burst l \<Longrightarrow> lm_ttl l' = lm_ttl l \<Longrightarrow>
   entry_rel c l' eb oc = entry_rel c l eb oc"
  by (cases eb) (simp_all add: bucket_ok_def)

lemma allow_nonneg:
  assumes "allow t b = (ok, b')" "0 \<le> il_tokens b" "il_last b \<le> t" "0 \<le> il_rate b" "0 \<le> il_burst b"
  shows "0 \<le> il_tokens b'"
  using assms by (auto simp: allow_def Let_def Seconds_def split: if_splits)

lemma allow_bucket_ok:
  "allow t b = (ok, b') \<Longrightarrow> bucket_ok l b \<Longrightarrow> il_last b \<le> t \<Longrightarrow> 0 < lm_maxRate l \<Longrightarrow> 0 < lm_burst l
   \<Longrightarrow> bucket_ok l b' \<and> il_last b' = t"
  using allow_nonneg [of t b ok b'] allow_cases [of t b ok b'] by (simp add: bucket_ok_def)

text \<open>An idle bucket that the rate has filled up again is as good as a new one.\<close>

lemma allow_refilled:
  assumes "bucket_ok l b" "il_last b + lm_ttl l < t" "0 < lm_maxRate l" "0 < lm_burst l"
    and "of_int (lm_burst l) \<le> Seconds (lm_ttl l) * lm_maxRate l"
  shows "allow t b = (True, (newBucket t l)\<lparr>il_tokens := of_int (lm_burst l) - 1\<rparr>)"
proof -
  have "Seconds (lm_ttl l) * lm_maxRate l \<le> Seconds (t - il_last b) * lm_maxRate l"
    using assms(2,3) by (intro Seconds_mono) auto
  then have "of_int (lm_burst l) \<le> il_tokens b + Seconds (t - il_last b) * il_rate b"
    using assms(1,5) by (simp add: bucket_ok_def)
  moreover have "(1 :: rat) \<le> of_int (lm_burst l)" using assms(4) by linarith
  ultimately show ?thesis
    using assms(1) by (cases b) (auto simp: allow_def Let_def newBucket_def bucket_ok_def)
qed

lemma same_but_stale_upd:
  assumes "same_but_stale c l lc" "c \<le> t" "bucket_ok l b" "il_last b = t"
  shows "same_but_stale t (l\<lparr>lm_ips := (lm_ips l)(ip \<mapsto> b)\<rparr>) (lc\<lparr>lm_ips := (lm_ips lc)(ip \<mapsto> b)\<rparr>)"
proof -
  have "entry_rel t l (lm_ips l i) (lm_ips lc i)" for i
    using assms(1,2) by (auto simp: same_but_stale_def intro: entry_rel_later [of c, rotated])
  moreover have "entry_rel t (l\<lparr>lm_ips := m\<rparr>) eb oc = entry_rel t l eb oc" for m eb oc
    by (rule entry_rel_config) simp_all
  moreover have "lm_maxRate lc = lm_maxRate l" "lm_burst lc = lm_burst l" "lm_ttl lc = lm_ttl l"
    using assms(1) by (simp_all add: same_but_stale_def)
  ultimately show ?thesis
    using assms(3,4) by (simp add: same_but_stale_def)
qed

lemma same_but_stale_Req:
  assumes "same_but_stale c l lc" "c \<le> t" "0 < lm_maxRate l" "0 < lm_burst l"
    and "of_int (lm_burst l) \<le> Seconds (lm_ttl l) * lm_maxRate l"
    and "Allow ip t l = (ok, l')" "Allow ip t lc = (okc, lc')"
  shows "okc = ok \<and> same_but_stale t l' lc' \<and> lm_maxRate l' = lm_maxRate l \<and> lm_burst l' = lm_burst l \<and>
         lm_ttl l' = lm_ttl l"
proof -
  have cfg: "lm_maxRate lc = lm_maxRate l" "lm_burst lc = lm_burst l"
    using assms(1) by (simp_all add: same_but_stale_def)
  have rel: "entry_rel c l (lm_ips l ip) (lm_ips lc ip)"
    using assms(1) by (simp add: same_but_stale_def)
  have one: "(1 :: rat) \<le> of_int (lm_burst l)" using assms(4) by linarith
  have "\<exists>b. okc = ok \<and> bucket_ok l b \<and> il_last b = t \<and> l' = l\<lparr>lm_ips := (lm_ips l)(ip \<mapsto> b)\<rparr>
          \<and> lc' = lc\<lparr>lm_ips := (lm_ips lc)(ip \<mapsto> b)\<rparr>"
  proof (cases "lm_ips l ip")
    case None
    let ?b = "\<lparr>il_tokens = of_int (lm_burst l) - 1, il_last = t, il_lastSeen = t,
               il_rate = lm_maxRate l, il_burst = lm_burst l\<rparr>"
    show ?thesis
      by (rule exI [of _ ?b]) (use assms(3,6,7) None rel one cfg in \<open>auto simp: Allow_new bucket_ok_def\<close>)
  next
    case (Some b)
    then have b: "bucket_ok l b" "il_last b \<le> t" using rel assms(2) by auto
    obtain b' where a: "allow t b = (ok, b')" and l': "l' = l\<lparr>lm_ips := (lm_ips l)(ip \<mapsto> b')\<rparr>"
      using assms(3,6) Some by (auto simp: Allow_eq split: prod.splits)
    have b': "bucket_ok l b' \<and> il_last b' = t"
      using allow_bucket_ok [OF a b] assms(3,4) by simp
    have "okc = ok \<and> lc' = lc\<lparr>lm_ips := (lm_ips lc)(ip \<mapsto> b')\<rparr>"
    proof (cases "lm_ips lc ip")
      case None
      then have "il_last b + lm_ttl l < t" using rel Some assms(2) by auto
      then have "allow t b = (True, (newBucket t l)\<lparr>il_tokens := of_int (lm_burst l) - 1\<rparr>)"
        using allow_refilled b(1) assms(3-5) by blast
      then show ?thesis using a None assms(3,7) cfg by (simp add: Allow_eq newBucket_def)
    next
      case (Some b2)
      then have "b2 = b" using rel \<open>lm_ips l ip = Some b\<close> by auto
      then show ?thesis using a Some assms(3,7) cfg by (simp add: Allow_eq)
    qed
    then show ?thesis using b' l' by blast
  qed
  then show ?thesis using same_but_stale_upd [OF assms(1,2)] by auto
qed

lemma same_but_stale_Tick:
  assumes "same_but_stale c l lc" "c \<le> t"
  shows "same_but_stale t l (cleanup t lc)"
proof -
  have "entry_rel t l (lm_ips l i) (lm_ips (cleanup t lc) i)" for i
  proof -
    have "entry_rel c l (lm_ips l i) (lm_ips lc i)" "lm_ttl lc = lm_ttl l"
      using assms(1) by (simp_all add: same_but_stale_def)
    then show ?thesis using assms(2)
      by (cases "lm_ips l i") (auto simp: cleanup_def bucket_ok_def Let_def split: if_splits)
  qed
  moreover have "lm_maxRate (cleanup t lc) = lm_maxRate lc" "lm_burst (cleanup t lc) = lm_burst lc"
    "lm_ttl (cleanup t lc) = lm_ttl lc"
    by (simp_all add: cleanup_def Let_def)
  ultimately show ?thesis using assms(1) by (simp add: same_but_stale_def)
qed

lemma lim_run_stale:
  assumes "same_but_stale c l lc" "0 < lm_maxRate l" "0 < lm_burst l"
    and "of_int (lm_burst l) \<le> Seconds (lm_ttl l) * lm_maxRate l"
    and "sorted (c # map ev_time es)"
  shows "lim_run es lc = lim_run (filter is_Req es) l"
  using assms
proof (induction es arbitrary: c l lc)
  case Nil
  then show ?case by simp
next
  case (Cons e es)
  then have ct: "c \<le> ev_time e" and sorted: "sorted (ev_time e # map ev_time es)" by auto
  show ?case
  proof (cases e)
    case (Req ip t)
    obtain ok l' okc lc' where A: "Allow ip t l = (ok, l')" "Allow ip t lc = (okc, lc')" by fastforce
    have "okc = ok \<and> same_but_stale t l' lc' \<and> lm_maxRate l' = lm_maxRate l \<and> lm_burst l' = lm_burst l \<and>
         lm_ttl l' = lm_ttl l"
      by (rule same_but_stale_Req [OF Cons.prems(1) _ Cons.prems(2-4) A]) (use ct Req in simp)
    then show ?thesis using Cons.IH [of t l' lc'] Cons.prems A Req sorted by simp
  next
    case (Tick t)
    then have "same_but_stale t l (cleanup t lc)"
      using same_but_stale_Tick Cons.prems(1) ct by simp
    then show ?thesis using Cons.IH [of t l] Cons.prems Tick sorted by simp
  qed
qed

text \<open>
  Cleanup changes no decision. When the idle time after which an entry is dropped is long enough
  to refill a bucket (\<open>burst \<le> rate * ttl\<close>), dropping stale entries at any moments between the
  requests leaves every accept and reject decision as it would be without the cleanup.
\<close>

theorem cleanup_transparent:
  assumes "0 < r" "of_int (lm_burst (NewLimiter r b g ttl)) \<le> Seconds (lm_ttl (NewLimiter r b g ttl)) * r"
    and "sorted (map ev_time es)"
  shows "lim_run es (NewLimiter r b g ttl) = lim_run (filter is_Req es) (NewLimiter r b g ttl)"
proof (cases es)
  case Nil
  then show ?thesis by simp
next
  case (Cons e es')
  show ?thesis
    by (rule lim_run_stale [where c = "ev_time e"])
      (use assms Cons in \<open>simp_all add: same_but_stale_def\<close>)
qed

theorem cleanup_transparent_witness:
  "lim_run [Req ''a'' 0, Req ''a'' 1, Tick 2000000003, Req ''a'' 2000000004] (NewLimiter 1 1 0 1000000000)
   = lim_run (filter is_Req [Req ''a'' 0, Req ''a'' 1, Tick 2000000003, Req ''a'' 2000000004])
       (NewLimiter 1 1 0 1000000000)
   \<and> lm_ips (cleanup 2000000003 (snd (Allow ''a'' 1 (snd (Allow ''a'' 0 (NewLimiter 1 1 0 1000000000)))))) ''a'' = None"
proof (rule conjI)
  show "lim_run [Req ''a'' 0, Req ''a'' 1, Tick 2000000003, Req ''a'' 2000000004] (NewLimiter 1 1 0 1000000000)
   = lim_run (filter is_Req [Req ''a'' 0, Req ''a'' 1, Tick 2000000003, Req ''a'' 2000000004])
       (NewLimiter 1 1 0 1000000000)"
    by (rule cleanup_transparent) (simp_all add: NewLimiter_def Seconds_def)
  show "lm_ips (cleanup 2000000003 (snd (Allow ''a'' 1 (snd (Allow ''a'' 0 (NewLimiter 1 1 0 1000000000)))))) ''a'' = None"
    by (simp add: Allow_eq NewLimiter_def newBucket_def allow_def Seconds_def cleanup_def)
qed

text \<open>
  With a slow rate the condition fails and the cleanup lifts the limit: at 0.001 connections per
  second, burst 2 and the default idle time of five minutes, an address gets its whole burst again
  five minutes later (four connections), where the bucket had refused (two connections).
\<close>

theorem cleanup_resets_slow_bucket:
  "lim_run [Req ''a'' 0, Req ''a'' 0, Tick 300000000001, Req ''a'' 300000000001, Req ''a'' 300000000001]
     (NewLimiter (1/1000) 2 0 0) = [True, True, True, True] \<and>
   lim_run [Req ''a'' 0, Req ''a'' 0, Req ''a'' 300000000001, Req ''a'' 300000000001]
     (NewLimiter (1/1000) 2 0 0) = [True, True, False, False]"
  by (simp add: Allow_eq NewLimiter_def newBucket_def allow_def Seconds_def cleanup_def)

subsection \<open>Acquire and Release from many goroutines\<close>

text \<open>
  Each goroutine is before its load of \<open>active\<close>, between the load and the compare-and-swap (with
  the value it loaded), or past it, holding a slot. A failed swap goes back to the load.
\<close>

datatype acq_pc = AtLoad | AtCAS int | Holding

inductive acq_step :: "int \<Rightarrow> int \<times> (nat \<Rightarrow> acq_pc) \<Rightarrow> int \<times> (nat \<Rightarrow> acq_pc) \<Rightarrow> bool"
  for maxGlobal :: int where
  unlimited: "maxGlobal \<le> 0 \<Longrightarrow> pcs g = AtLoad \<Longrightarrow>
     acq_step maxGlobal (active, pcs) (active + 1, pcs(g := Holding))"
| refuse: "0 < maxGlobal \<Longrightarrow> pcs g = AtLoad \<Longrightarrow> maxGlobal \<le> active \<Longrightarrow>
     acq_step maxGlobal (active, pcs) (active, pcs)"
| load: "0 < maxGlobal \<Longrightarrow> pcs g = AtLoad \<Longrightarrow> active < maxGlobal \<Longrightarrow>
     acq_step maxGlobal (active, pcs) (active, pcs(g := AtCAS active))"
| swap: "pcs g = AtCAS active \<Longrightarrow>
     acq_step maxGlobal (active, pcs) (active + 1, pcs(g := Holding))"
| retry: "pcs g = AtCAS cur \<Longrightarrow> cur \<noteq> active \<Longrightarrow>
     acq_step maxGlobal (active, pcs) (active, pcs(g := AtLoad))"
| release: "pcs g = Holding \<Longrightarrow>
     acq_step maxGlobal (active, pcs) (active - 1, pcs(g := AtLoad))"

inductive_cases acq_stepE: "acq_step maxGlobal (active, pcs) s'"

definition holders :: "(nat \<Rightarrow> acq_pc) \<Rightarrow> nat set" where
  "holders pcs = {g. pcs g = Holding}"

definition acq_inv :: "int \<Rightarrow> int \<times> (nat \<Rightarrow> acq_pc) \<Rightarrow> bool" where
  "acq_inv maxGlobal s \<longleftrightarrow>
     (case s of (active, pcs) \<Rightarrow>
        finite (holders pcs) \<and> active = int (card (holders pcs)) \<and>
        (0 < maxGlobal \<longrightarrow> active \<le> maxGlobal \<and> (\<forall>g cur. pcs g = AtCAS cur \<longrightarrow> cur < maxGlobal)))"

lemma holders_hold: "pcs g \<noteq> Holding \<Longrightarrow> holders (pcs(g := Holding)) = insert g (holders pcs)"
  "pcs g \<noteq> Holding \<Longrightarrow> g \<notin> holders pcs"
  by (auto simp: holders_def)

lemma holders_other: "pc \<noteq> Holding \<Longrightarrow> holders (pcs(g := pc)) = holders pcs - {g}"
  by (auto simp: holders_def)

lemma holders_not: "pcs g \<noteq> Holding \<Longrightarrow> holders pcs - {g} = holders pcs"
  by (auto simp: holders_def)

lemma card_release:
  "finite (holders pcs) \<Longrightarrow> pcs g = Holding \<Longrightarrow> int (card (holders pcs - {g})) = int (card (holders pcs)) - 1"
  using card_Suc_Diff1 [of "holders pcs" g] by (simp add: holders_def)

lemma acq_step_inv: "acq_step maxGlobal s s' \<Longrightarrow> acq_inv maxGlobal s \<Longrightarrow> acq_inv maxGlobal s'"
proof (induction rule: acq_step.induct)
  case (unlimited pcs g active)
  then show ?case by (simp add: acq_inv_def holders_hold)
next
  case (swap pcs g active)
  then show ?case by (auto simp: acq_inv_def holders_hold add1_zle_eq)
next
  case (release pcs g active)
  then show ?case by (auto simp: acq_inv_def holders_other card_release)
qed (auto simp: acq_inv_def holders_other holders_not)

text \<open>
  C30. The global cap under contention. In every interleaving of the loads, compare-and-swaps and
  releases of any number of goroutines, the counter is the number of slots held and, when a cap is
  set, never exceeds it.
\<close>

theorem global_cap:
  assumes "(acq_step maxGlobal)\<^sup>*\<^sup>* (0, \<lambda>g. AtLoad) (active, pcs)"
  shows "finite (holders pcs) \<and> active = int (card (holders pcs)) \<and> (0 < maxGlobal \<longrightarrow> active \<le> maxGlobal)"
proof -
  have "acq_inv maxGlobal (active, pcs)"
    using assms
  proof (induction rule: rtranclp_induct)
    case base
    then show ?case by (simp add: acq_inv_def holders_def)
  next
    case (step s s')
    then show ?case using acq_step_inv by blast
  qed
  then show ?thesis by (auto simp: acq_inv_def)
qed

theorem global_cap_witness:
  "\<exists>pcs. (acq_step 1)\<^sup>*\<^sup>* (0, \<lambda>g. AtLoad) (1, pcs) \<and> pcs 0 = AtCAS 0 \<and>
     int (card (holders pcs)) = 1"
proof -
  let ?p0 = "\<lambda>g :: nat. AtLoad"
  let ?p2 = "(?p0(0 := AtCAS 0))(1 := AtCAS 0)"
  have "acq_step 1 (0, ?p0) (0, ?p0(0 := AtCAS 0))" by (rule acq_step.load) simp_all
  moreover have "acq_step 1 (0, ?p0(0 := AtCAS 0)) (0, ?p2)" by (rule acq_step.load) simp_all
  moreover have "acq_step 1 (0, ?p2) (0 + 1, ?p2(1 := Holding))" by (rule acq_step.swap) simp
  ultimately have "(acq_step 1)\<^sup>*\<^sup>* (0, ?p0) (1, ?p2(1 := Holding))"
    by (simp add: converse_rtranclp_into_rtranclp)
  then show ?thesis using global_cap [of 1 1 "?p2(1 := Holding)"] by fastforce
qed

text \<open>The interleaved counter refines the sequential functions: every step is one of their effects.\<close>

lemma acq_step_refines:
  assumes "acq_step (lm_maxGlobal l) (lm_active l, pcs) (active', pcs')" "acq_inv (lm_maxGlobal l) (lm_active l, pcs)"
  shows "active' = lm_active l \<or> Acquire l = (True, l\<lparr>lm_active := active'\<rparr>) \<or>
         l\<lparr>lm_active := active'\<rparr> = Release l"
  using assms(1)
proof (cases rule: acq_step.cases)
  case (swap g)
  then have "0 < lm_maxGlobal l \<longrightarrow> lm_active l < lm_maxGlobal l" using assms(2) by (auto simp: acq_inv_def)
  with swap show ?thesis by (auto simp: Acquire_def)
qed (simp_all add: Acquire_def Release_def)

end
