(* ===== verification/Registries.thy ===== *)
theory Registries
  imports Prelude
begin

text \<open>
  The maps the server keeps behind one lock each: \<open>ControlConnRegistry\<close>
  (\<open>internal/tunnel/ctrl_registry.go\<close>), \<open>ClientRegistry\<close> (\<open>internal/control/registry.go\<close>),
  \<open>KnownHosts\<close> with its file (\<open>internal/control/knownhosts.go\<close>) and the per-tunnel counters
  (\<open>internal/stats/stats.go\<close>). Each is an interpretation of \<open>keyed_store\<close>.
\<close>

subsection \<open>Control connection writers\<close>

record ControlConnRegistry =
  ccr_writers :: "string \<rightharpoonup> ptr"

definition NewControlConnRegistry :: ControlConnRegistry where
  "NewControlConnRegistry = \<lparr>ccr_writers = Map.empty\<rparr>"

definition ConnReg_Register :: "string \<Rightarrow> ptr \<Rightarrow> ControlConnRegistry \<Rightarrow> ControlConnRegistry" where
  "ConnReg_Register clientID w r = r\<lparr>ccr_writers := (ccr_writers r)(clientID \<mapsto> w)\<rparr>"

definition ConnReg_Deregister :: "string \<Rightarrow> ControlConnRegistry \<Rightarrow> ControlConnRegistry" where
  "ConnReg_Deregister clientID r = r\<lparr>ccr_writers := (ccr_writers r)(clientID := None)\<rparr>"

definition ConnReg_Get :: "ControlConnRegistry \<Rightarrow> string \<Rightarrow> ptr option" where
  "ConnReg_Get r clientID = ccr_writers r clientID"

text \<open>\<open>PickAny\<close> takes the first entry of a map iteration: the set of its possible results.\<close>

definition PickAny :: "ControlConnRegistry \<Rightarrow> ptr option set" where
  "PickAny r = (if ccr_writers r = Map.empty then {None} else Some ` ran (ccr_writers r))"

interpretation writers: keyed_store ConnReg_Get ConnReg_Register ConnReg_Deregister
  by unfold_locales (simp_all add: ConnReg_Get_def ConnReg_Register_def ConnReg_Deregister_def)

lemma PickAny_Get:
  "Some w \<in> PickAny r \<longleftrightarrow> (\<exists>c. ConnReg_Get r c = Some w)"
  "None \<in> PickAny r \<longleftrightarrow> (\<forall>c. ConnReg_Get r c = None)"
  by (auto simp: PickAny_def ConnReg_Get_def ran_def)

subsection \<open>Connected clients\<close>

text \<open>
  \<open>cl_cancelFn\<close> and \<open>cl_Conn\<close> are \<open>None\<close> for nil. Cancelled contexts and closed connections
  are recorded in the registry's state by the client pointer and the connection.
\<close>

record Client =
  cl_ID :: string
  cl_Name :: string
  cl_Addr :: string
  cl_RegisteredAt :: int
  cl_lastHeartbeat :: "int option"
  cl_Conn :: "nat option"
  cl_Writer :: ptr
  cl_cancelFn :: "nat option"

record ClientRegistry =
  cr_clients :: "string \<rightharpoonup> ptr"
  cr_heap :: "ptr \<rightharpoonup> Client"
  cr_next :: ptr
  cr_cancelled :: "nat set"
  cr_closed :: "nat set"

definition NewClientRegistry :: ClientRegistry where
  "NewClientRegistry = \<lparr>cr_clients = Map.empty, cr_heap = Map.empty, cr_next = 0,
                        cr_cancelled = {}, cr_closed = {}\<rparr>"

definition SetLastHeartbeat :: "int \<Rightarrow> Client \<Rightarrow> Client" where
  "SetLastHeartbeat t c = c\<lparr>cl_lastHeartbeat := Some t\<rparr>"

text \<open>The zero time stands for a heartbeat that was never stored.\<close>

definition LastHeartbeat :: "Client \<Rightarrow> int" where
  "LastHeartbeat c = (case cl_lastHeartbeat c of None \<Rightarrow> 0 | Some t \<Rightarrow> t)"

definition Clients_put :: "string \<Rightarrow> ptr \<Rightarrow> ClientRegistry \<Rightarrow> ClientRegistry" where
  "Clients_put cid p r = r\<lparr>cr_clients := (cr_clients r)(cid \<mapsto> p)\<rparr>"

definition Clients_Register ::
  "string \<Rightarrow> int \<Rightarrow> string \<Rightarrow> string \<Rightarrow> nat option \<Rightarrow> ptr \<Rightarrow> nat option \<Rightarrow> ClientRegistry
   \<Rightarrow> ptr \<times> ClientRegistry" where
  "Clients_Register uuid now name addr conn w cancelFn r =
     (let client = SetLastHeartbeat now
            \<lparr>cl_ID = uuid, cl_Name = name, cl_Addr = addr, cl_RegisteredAt = now,
             cl_lastHeartbeat = None, cl_Conn = conn, cl_Writer = w, cl_cancelFn = cancelFn\<rparr>;
          p = cr_next r;
          r = r\<lparr>cr_heap := (cr_heap r)(p \<mapsto> client), cr_next := p + 1\<rparr>
      in (p, Clients_put uuid p r))"

definition Clients_Deregister :: "string \<Rightarrow> ClientRegistry \<Rightarrow> ClientRegistry" where
  "Clients_Deregister cid r = r\<lparr>cr_clients := (cr_clients r)(cid := None)\<rparr>"

definition Clients_Get :: "ClientRegistry \<Rightarrow> string \<Rightarrow> ptr option" where
  "Clients_Get r cid = cr_clients r cid"

definition Clients_List :: "ClientRegistry \<Rightarrow> ptr set" where
  "Clients_List r = ran (cr_clients r)"

text \<open>Cancel one client's context and close its connection, each when it is not nil.\<close>

definition cancel_and_close :: "ptr \<Rightarrow> ClientRegistry \<Rightarrow> ClientRegistry" where
  "cancel_and_close p r =
     (case cr_heap r p of
        None \<Rightarrow> r
      | Some c \<Rightarrow>
          r\<lparr>cr_cancelled := cr_cancelled r \<union> set_option (cl_cancelFn c),
            cr_closed := cr_closed r \<union> set_option (cl_Conn c)\<rparr>)"

definition named :: "ClientRegistry \<Rightarrow> string \<Rightarrow> ptr set" where
  "named r name = {p \<in> ran (cr_clients r). map_option cl_Name (cr_heap r p) = Some name}"

text \<open>
  The order in which the matches are cut off is Go's map order; the effects are set unions, so the
  result is the same for every order and the model adds them all at once.
\<close>

definition DisconnectByName :: "string \<Rightarrow> ClientRegistry \<Rightarrow> nat \<times> ClientRegistry" where
  "DisconnectByName name r =
     (card (named r name),
      r\<lparr>cr_cancelled := cr_cancelled r \<union> {f. \<exists>p \<in> named r name. \<exists>c. cr_heap r p = Some c \<and> cl_cancelFn c = Some f},
        cr_closed := cr_closed r \<union> {k. \<exists>p \<in> named r name. \<exists>c. cr_heap r p = Some c \<and> cl_Conn c = Some k}\<rparr>)"

definition Clients_Disconnect :: "string \<Rightarrow> ClientRegistry \<Rightarrow> bool \<times> ClientRegistry" where
  "Clients_Disconnect cid r =
     (case cr_clients r cid of
        None \<Rightarrow> (False, r)
      | Some p \<Rightarrow> (True, cancel_and_close p r))"

interpretation clients: keyed_store Clients_Get Clients_put Clients_Deregister
  by unfold_locales (simp_all add: Clients_Get_def Clients_put_def Clients_Deregister_def)

text \<open>The all-at-once form of \<open>DisconnectByName\<close> is the loop over the matches, in any order.\<close>

lemma cancel_and_close_loop:
  "foldl (\<lambda>r p. cancel_and_close p r) r ps =
   r\<lparr>cr_cancelled := cr_cancelled r \<union> {f. \<exists>p \<in> set ps. \<exists>c. cr_heap r p = Some c \<and> cl_cancelFn c = Some f},
     cr_closed := cr_closed r \<union> {k. \<exists>p \<in> set ps. \<exists>c. cr_heap r p = Some c \<and> cl_Conn c = Some k}\<rparr>"
proof (induction ps arbitrary: r)
  case Nil
  then show ?case by simp
next
  case (Cons p ps)
  have h: "cr_heap (cancel_and_close p r) = cr_heap r"
    by (simp add: cancel_and_close_def split: option.split)
  show ?case
    unfolding foldl_Cons Cons.IH h
    by (cases "cr_heap r p")
      (auto simp: cancel_and_close_def intro!: ClientRegistry.equality)
qed

lemma DisconnectByName_loop:
  assumes "set ps = named r name" "distinct ps"
  shows "DisconnectByName name r = (length ps, foldl (\<lambda>r p. cancel_and_close p r) r ps)"
  using distinct_card [OF assms(2)] by (simp add: DisconnectByName_def cancel_and_close_loop assms(1))

definition clients_ok :: "ClientRegistry \<Rightarrow> bool" where
  "clients_ok r \<longleftrightarrow> finite (dom (cr_clients r)) \<and>
     (\<forall>cid p. cr_clients r cid = Some p \<longrightarrow> (\<exists>c. cr_heap r p = Some c \<and> cl_ID c = cid)) \<and>
     (\<forall>p. p \<in> dom (cr_heap r) \<longrightarrow> p < cr_next r)"

lemma clients_ok_New [inv_intros]: "clients_ok NewClientRegistry"
  by (simp add: clients_ok_def NewClientRegistry_def)

lemma clients_ok_Register [inv_intros]:
  "clients_ok r \<Longrightarrow> clients_ok (snd (Clients_Register u now n a k w f r))"
  by (fastforce simp: clients_ok_def Clients_Register_def Clients_put_def SetLastHeartbeat_def Let_def)

lemma clients_ok_Deregister [inv_intros]: "clients_ok r \<Longrightarrow> clients_ok (Clients_Deregister i r)"
  by (auto simp: clients_ok_def Clients_Deregister_def)

lemma clients_ok_cancel [inv_intros]: "clients_ok r \<Longrightarrow> clients_ok (cancel_and_close p r)"
  by (simp add: clients_ok_def cancel_and_close_def split: option.split)

lemma clients_ok_Disconnect [inv_intros]: "clients_ok r \<Longrightarrow> clients_ok (snd (Clients_Disconnect i r))"
  by (simp add: Clients_Disconnect_def clients_ok_cancel split: option.split)

lemma clients_ok_DisconnectByName [inv_intros]: "clients_ok r \<Longrightarrow> clients_ok (snd (DisconnectByName n r))"
  by (simp add: clients_ok_def DisconnectByName_def)

subsection \<open>Per-tunnel counters\<close>

record TunnelStats =
  ts_ConnectionCount :: "64 word"
  ts_BytesIn :: "64 word"
  ts_BytesOut :: "64 word"

record ServerStats =
  ss_TotalConnections :: "64 word"
  ss_ActiveConnections :: "64 word"
  ss_BytesIn :: "64 word"
  ss_BytesOut :: "64 word"

record StatsRegistry =
  sr_stats :: "string \<rightharpoonup> ptr"
  sr_heap :: "ptr \<rightharpoonup> TunnelStats"
  sr_next :: ptr
  sr_global :: ServerStats

definition NewRegistry :: StatsRegistry where
  "NewRegistry = \<lparr>sr_stats = Map.empty, sr_heap = Map.empty, sr_next = 0,
                  sr_global = \<lparr>ss_TotalConnections = 0, ss_ActiveConnections = 0, ss_BytesIn = 0, ss_BytesOut = 0\<rparr>\<rparr>"

text \<open>\<open>GetOrCreate\<close> takes the read lock, then the write lock: two atomic parts.\<close>

definition Stats_Get :: "StatsRegistry \<Rightarrow> string \<Rightarrow> ptr option" where
  "Stats_Get r i = sr_stats r i"

definition GetOrCreate_locked :: "string \<Rightarrow> StatsRegistry \<Rightarrow> ptr \<times> StatsRegistry" where
  "GetOrCreate_locked i r =
     (case sr_stats r i of
        Some p \<Rightarrow> (p, r)
      | None \<Rightarrow>
          (let p = sr_next r
           in (p, r\<lparr>sr_heap := (sr_heap r)(p \<mapsto> \<lparr>ts_ConnectionCount = 0, ts_BytesIn = 0, ts_BytesOut = 0\<rparr>),
                    sr_next := p + 1, sr_stats := (sr_stats r)(i \<mapsto> p)\<rparr>)))"

definition GetOrCreate :: "string \<Rightarrow> StatsRegistry \<Rightarrow> ptr \<times> StatsRegistry" where
  "GetOrCreate i r =
     (case Stats_Get r i of Some p \<Rightarrow> (p, r) | None \<Rightarrow> GetOrCreate_locked i r)"

definition Stats_Delete :: "string \<Rightarrow> StatsRegistry \<Rightarrow> StatsRegistry" where
  "Stats_Delete i r = r\<lparr>sr_stats := (sr_stats r)(i := None)\<rparr>"

definition Snapshot :: "StatsRegistry \<Rightarrow> string \<rightharpoonup> TunnelStats" where
  "Snapshot r i = (case sr_stats r i of None \<Rightarrow> None | Some p \<Rightarrow> sr_heap r p)"

definition Stats_put :: "string \<Rightarrow> ptr \<Rightarrow> StatsRegistry \<Rightarrow> StatsRegistry" where
  "Stats_put i p r = r\<lparr>sr_stats := (sr_stats r)(i \<mapsto> p)\<rparr>"

interpretation tunnel_stats: keyed_store Stats_Get Stats_put Stats_Delete
  by unfold_locales (simp_all add: Stats_Get_def Stats_put_def Stats_Delete_def)

text \<open>
  What \<open>CountedReader.Read\<close> and \<open>CountedWriter.Write\<close> add when the wrapped call moved \<open>n\<close>
  bytes (Go returns \<open>n \<ge> 0\<close>); the counters are \<open>int64\<close>, so they wrap.
\<close>

definition CountedReader_Read :: "int \<Rightarrow> ptr option \<Rightarrow> StatsRegistry \<Rightarrow> StatsRegistry" where
  "CountedReader_Read n ts r =
     (if n > 0 then
        (let r = r\<lparr>sr_global := (sr_global r)\<lparr>ss_BytesIn := ss_BytesIn (sr_global r) + word_of_int n\<rparr>\<rparr>
         in case ts of
              None \<Rightarrow> r
            | Some p \<Rightarrow>
                r\<lparr>sr_heap := (sr_heap r)(p := map_option (\<lambda>t. t\<lparr>ts_BytesIn := ts_BytesIn t + word_of_int n\<rparr>) (sr_heap r p))\<rparr>)
      else r)"

definition CountedWriter_Write :: "int \<Rightarrow> ptr option \<Rightarrow> StatsRegistry \<Rightarrow> StatsRegistry" where
  "CountedWriter_Write n ts r =
     (if n > 0 then
        (let r = r\<lparr>sr_global := (sr_global r)\<lparr>ss_BytesOut := ss_BytesOut (sr_global r) + word_of_int n\<rparr>\<rparr>
         in case ts of
              None \<Rightarrow> r
            | Some p \<Rightarrow>
                r\<lparr>sr_heap := (sr_heap r)(p := map_option (\<lambda>t. t\<lparr>ts_BytesOut := ts_BytesOut t + word_of_int n\<rparr>) (sr_heap r p))\<rparr>)
      else r)"

datatype stats_op = SFast string | SLocked string | SDelete string
  | SRead int "ptr option" | SWrite int "ptr option"

fun stats_step :: "StatsRegistry \<Rightarrow> stats_op \<Rightarrow> StatsRegistry" where
  "stats_step r (SFast i) = r"
| "stats_step r (SLocked i) = snd (GetOrCreate_locked i r)"
| "stats_step r (SDelete i) = Stats_Delete i r"
| "stats_step r (SRead n p) = CountedReader_Read n p r"
| "stats_step r (SWrite n p) = CountedWriter_Write n p r"

definition stats_ok :: "StatsRegistry \<Rightarrow> bool" where
  "stats_ok r \<longleftrightarrow> (\<forall>p. p \<in> dom (sr_heap r) \<longrightarrow> p < sr_next r) \<and>
     (\<forall>i p. sr_stats r i = Some p \<longrightarrow> p \<in> dom (sr_heap r)) \<and>
     (\<forall>i j p. sr_stats r i = Some p \<longrightarrow> sr_stats r j = Some p \<longrightarrow> i = j)"

lemma stats_ok_New: "stats_ok NewRegistry"
  by (simp add: stats_ok_def NewRegistry_def)

lemma stats_count_frame [simp]:
  "sr_stats (CountedReader_Read n p r) = sr_stats r" "sr_next (CountedReader_Read n p r) = sr_next r"
  "dom (sr_heap (CountedReader_Read n p r)) = dom (sr_heap r)"
  "sr_stats (CountedWriter_Write n p r) = sr_stats r" "sr_next (CountedWriter_Write n p r) = sr_next r"
  "dom (sr_heap (CountedWriter_Write n p r)) = dom (sr_heap r)"
  by (auto simp: CountedReader_Read_def CountedWriter_Write_def Let_def split: option.splits)

lemma stats_ok_step: "stats_ok r \<Longrightarrow> stats_ok (stats_step r e)"
proof (cases e)
  case (SLocked i)
  assume ok: "stats_ok r"
  show ?thesis
  proof (cases "sr_stats r i")
    case None
    have "sr_stats r j \<noteq> Some (sr_next r)" for j
      using ok unfolding stats_ok_def by (metis less_irrefl)
    with ok None SLocked show ?thesis
      by (auto simp: stats_ok_def GetOrCreate_locked_def Let_def less_Suc_eq)
  qed (use ok SLocked in \<open>simp add: GetOrCreate_locked_def\<close>)
qed (auto simp: stats_ok_def Stats_Delete_def)

interpretation stats: machine stats_step stats_ok
  by unfold_locales (rule stats_ok_step)

lemma stats_step_keeps:
  "sr_stats r i = Some p \<Longrightarrow> e \<noteq> SDelete i \<Longrightarrow> sr_stats (stats_step r e) i = Some p"
  by (cases e) (auto simp: GetOrCreate_locked_def Stats_Delete_def Let_def split: option.split)

lemma stats_run_keeps:
  "sr_stats r i = Some p \<Longrightarrow> SDelete i \<notin> set es \<Longrightarrow> sr_stats (foldl stats_step r es) i = Some p"
proof (induction es arbitrary: r)
  case Nil
  then show ?case by simp
next
  case (Cons e es)
  then have "sr_stats (stats_step r e) i = Some p" by (intro stats_step_keeps) auto
  with Cons show ?case by simp
qed

lemma GetOrCreate_locked_returns:
  "GetOrCreate_locked i r = (p, r') \<Longrightarrow> sr_stats r' i = Some p"
  by (auto simp: GetOrCreate_locked_def Let_def split: option.splits)

text \<open>
  One counter per tunnel. The double-checked \<open>GetOrCreate\<close> gives every caller of one tunnel ID
  the same counters, whatever other calls run between the two lookups and after them, as long as
  nobody deletes the entry; and two tunnels never share counters.
\<close>

theorem GetOrCreate_shared:
  "stats_ok (foldl stats_step NewRegistry es) \<and>
   (case GetOrCreate_locked i (foldl stats_step NewRegistry es) of (p, r') \<Rightarrow>
      Snapshot r' i \<noteq> None \<and>
      (\<forall>fs. SDelete i \<notin> set fs \<longrightarrow>
         fst (GetOrCreate i (foldl stats_step r' fs)) = p \<and>
         fst (GetOrCreate_locked i (foldl stats_step r' fs)) = p \<and>
         (\<forall>j. j \<noteq> i \<longrightarrow> fst (GetOrCreate j (foldl stats_step r' fs)) \<noteq> p)))"
proof -
  let ?r = "foldl stats_step NewRegistry es"
  obtain p r' where g: "GetOrCreate_locked i ?r = (p, r')" by fastforce
  have ok: "stats_ok ?r" by (rule stats.run_inv [OF stats_ok_New])
  have ok': "stats_ok r'" using stats_ok_step [OF ok, of "SLocked i"] g by simp
  have p: "sr_stats r' i = Some p" using g by (rule GetOrCreate_locked_returns)
  have snap: "Snapshot r' i \<noteq> None"
    using p ok' by (auto simp: Snapshot_def stats_ok_def)
  have "fst (GetOrCreate i (foldl stats_step r' fs)) = p \<and>
        fst (GetOrCreate_locked i (foldl stats_step r' fs)) = p \<and>
        (\<forall>j. j \<noteq> i \<longrightarrow> fst (GetOrCreate j (foldl stats_step r' fs)) \<noteq> p)"
    if nd: "SDelete i \<notin> set fs" for fs
  proof -
    let ?s = "foldl stats_step r' fs"
    have s: "sr_stats ?s i = Some p" by (rule stats_run_keeps [OF p nd])
    have oks: "stats_ok ?s" by (rule stats.run_inv [OF ok'])
    have "fst (GetOrCreate j ?s) \<noteq> p" if "j \<noteq> i" for j
    proof (cases "sr_stats ?s j")
      case None
      have "p < sr_next ?s" using oks s by (auto simp: stats_ok_def)
      with None show ?thesis
        by (simp add: GetOrCreate_def Stats_Get_def GetOrCreate_locked_def Let_def)
    next
      case (Some q)
      with oks s that show ?thesis by (auto simp: GetOrCreate_def Stats_Get_def stats_ok_def)
    qed
    with s show ?thesis by (simp add: GetOrCreate_def Stats_Get_def GetOrCreate_locked_def)
  qed
  with ok snap g show ?thesis by simp
qed

theorem GetOrCreate_shared_witness:
  "fst (GetOrCreate ''b'' (foldl stats_step (snd (GetOrCreate_locked ''a'' NewRegistry)) [SRead 3 (Some 0), SLocked ''b''])) \<noteq>
   fst (GetOrCreate_locked ''a'' NewRegistry)"
proof -
  let ?fs = "[SRead 3 (Some 0), SLocked ''b'']"
  obtain p r' where g: "GetOrCreate_locked ''a'' NewRegistry = (p, r')" by fastforce
  have nd: "SDelete ''a'' \<notin> set ?fs" by simp
  have T: "\<forall>fs. SDelete ''a'' \<notin> set fs \<longrightarrow>
         fst (GetOrCreate ''a'' (foldl stats_step r' fs)) = p \<and>
         fst (GetOrCreate_locked ''a'' (foldl stats_step r' fs)) = p \<and>
         (\<forall>j. j \<noteq> ''a'' \<longrightarrow> fst (GetOrCreate j (foldl stats_step r' fs)) \<noteq> p)"
    using GetOrCreate_shared [of "[]" "''a''"] by (simp only: foldl.simps(1) g prod.case) (elim conjE)
  show ?thesis unfolding g fst_conv snd_conv
    by (rule T [THEN spec, THEN mp, OF nd, THEN conjunct2, THEN conjunct2, THEN spec, THEN mp]) simp
qed

end
