(* ===== verification/KnownHosts.thy ===== *)
theory KnownHosts
  imports Prelude
begin

text \<open>
  \<open>internal/control/knownhosts.go\<close>: the fingerprints an operator has approved, in memory and in a
  YAML file that every change rewrites through a temporary file and a rename. The file system is a
  map from paths to contents. YAML is a library: \<open>marshal\<close> and \<open>unmarshal\<close> are parameters. What
  can go wrong at each system call is an argument, with whatever a failed \<open>os.WriteFile\<close> left in
  the temporary file.
\<close>

record KnownHosts =
  kh_path :: string
  kh_hosts :: "string \<rightharpoonup> string"

record knownHost =
  kn_Name :: string
  kn_Fingerprint :: string

type_synonym fs = "string \<rightharpoonup> bytes"

datatype kh_error = ReadErr | ParseErr | MarshalErr | WriteTempErr | RenameErr

text \<open>How the file operations of one rewrite go.\<close>

datatype write_outcome = WriteOK | WriteFails "bytes option" | RenameFails

datatype read_outcome = ReadOK | ReadFails

definition load_entry :: "(string \<rightharpoonup> string) \<Rightarrow> knownHost \<Rightarrow> (string \<rightharpoonup> string)" where
  "load_entry hosts h =
     (if kn_Name h \<noteq> [] \<and> kn_Fingerprint h \<noteq> [] then hosts(kn_Name h \<mapsto> kn_Fingerprint h) else hosts)"

definition LoadKnownHosts ::
  "(bytes \<Rightarrow> knownHost list option) \<Rightarrow> read_outcome \<Rightarrow> fs \<Rightarrow> string \<Rightarrow> kh_error + KnownHosts" where
  "LoadKnownHosts unmarshal ro f path =
     (case (ro, f path) of
        (ReadFails, _) \<Rightarrow> Inl ReadErr
      | (ReadOK, None) \<Rightarrow> Inr \<lparr>kh_path = path, kh_hosts = Map.empty\<rparr>
      | (ReadOK, Some data) \<Rightarrow>
          (case unmarshal data of
             None \<Rightarrow> Inl ParseErr
           | Some hs \<Rightarrow> Inr \<lparr>kh_path = path, kh_hosts = foldl load_entry Map.empty hs\<rparr>))"

definition KH_Lookup :: "KnownHosts \<Rightarrow> string \<Rightarrow> string option" where
  "KH_Lookup k name = kh_hosts k name"

text \<open>The entries sorted by name (\<open>sort.Slice\<close> on distinct names).\<close>

definition sorted_entries :: "(string \<rightharpoonup> string) \<Rightarrow> knownHost list" where
  "sorted_entries hosts =
     map (\<lambda>n. \<lparr>kn_Name = n, kn_Fingerprint = the (hosts n)\<rparr>) (sorted_list_of_set (dom hosts))"

definition KH_List :: "KnownHosts \<Rightarrow> knownHost list" where
  "KH_List k = sorted_entries (kh_hosts k)"

definition writeLocked ::
  "(knownHost list \<Rightarrow> bytes option) \<Rightarrow> write_outcome \<Rightarrow> KnownHosts \<Rightarrow> fs \<Rightarrow> kh_error option \<times> fs" where
  "writeLocked marshal wo k f =
     (if kh_path k = [] then (None, f)
      else (case marshal (sorted_entries (kh_hosts k)) of
              None \<Rightarrow> (Some MarshalErr, f)
            | Some data \<Rightarrow>
                (let tmp = kh_path k @ ''.tmp''
                 in case wo of
                      WriteFails left_over \<Rightarrow> (Some WriteTempErr, f(tmp := left_over))
                    | RenameFails \<Rightarrow> (Some RenameErr, f(tmp \<mapsto> data))
                    | WriteOK \<Rightarrow> (None, f(tmp := None, kh_path k \<mapsto> data)))))"

definition KH_put :: "string \<Rightarrow> string \<Rightarrow> KnownHosts \<Rightarrow> KnownHosts" where
  "KH_put name fp k = k\<lparr>kh_hosts := (kh_hosts k)(name \<mapsto> fp)\<rparr>"

definition KH_drop :: "string \<Rightarrow> KnownHosts \<Rightarrow> KnownHosts" where
  "KH_drop name k = k\<lparr>kh_hosts := (kh_hosts k)(name := None)\<rparr>"

definition KH_Add ::
  "(knownHost list \<Rightarrow> bytes option) \<Rightarrow> write_outcome \<Rightarrow> string \<Rightarrow> string \<Rightarrow> KnownHosts \<Rightarrow> fs
   \<Rightarrow> kh_error option \<times> KnownHosts \<times> fs" where
  "KH_Add marshal wo name fp k f =
     (let k' = KH_put name fp k
      in case writeLocked marshal wo k' f of (err, f') \<Rightarrow> (err, k', f'))"

definition KH_Remove ::
  "(knownHost list \<Rightarrow> bytes option) \<Rightarrow> write_outcome \<Rightarrow> string \<Rightarrow> KnownHosts \<Rightarrow> fs
   \<Rightarrow> kh_error option \<times> KnownHosts \<times> fs" where
  "KH_Remove marshal wo name k f =
     (let k' = KH_drop name k
      in case writeLocked marshal wo k' f of (err, f') \<Rightarrow> (err, k', f'))"

interpretation hosts: keyed_store KH_Lookup KH_put KH_drop
  by unfold_locales (simp_all add: KH_Lookup_def KH_put_def KH_drop_def)

text \<open>\<open>ShortFingerprint\<close>: up to 16 characters after the first colon.\<close>

fun index_char :: "char \<Rightarrow> string \<Rightarrow> nat option" where
  "index_char c [] = None"
| "index_char c (x # xs) = (if x = c then Some 0 else map_option Suc (index_char c xs))"

definition ShortFingerprint :: "string \<Rightarrow> string" where
  "ShortFingerprint fp =
     (case index_char CHR '':'' fp of
        Some i \<Rightarrow> if length fp > i + 17 then take (i + 17) fp else fp
      | None \<Rightarrow> fp)"

subsection \<open>What reaches the disk\<close>

text \<open>A reload drops the entries whose name or fingerprint is empty.\<close>

definition nonempty :: "(string \<rightharpoonup> string) \<Rightarrow> (string \<rightharpoonup> string)" where
  "nonempty hosts n = (if n = [] \<or> hosts n = Some [] then None else hosts n)"

lemma foldl_load_entry:
  "distinct (map kn_Name hs) \<Longrightarrow>
   foldl load_entry m hs n =
     (case find (\<lambda>h. kn_Name h = n) hs of
        None \<Rightarrow> m n
      | Some h \<Rightarrow> if n \<noteq> [] \<and> kn_Fingerprint h \<noteq> [] then Some (kn_Fingerprint h) else m n)"
proof (induction hs arbitrary: m)
  case Nil
  then show ?case by simp
next
  case (Cons h hs)
  have "find (\<lambda>h'. kn_Name h' = n) hs = None" if "kn_Name h = n"
    using Cons.prems that by (auto simp: find_None_iff) (metis imageI)
  with Cons show ?case by (auto simp: load_entry_def split: option.split)
qed

lemma find_entries:
  "find (\<lambda>h. kn_Name h = n) (map (\<lambda>n. \<lparr>kn_Name = n, kn_Fingerprint = g n\<rparr>) ns) =
   (if n \<in> set ns then Some \<lparr>kn_Name = n, kn_Fingerprint = g n\<rparr> else None)"
  by (induction ns) auto

lemma load_sorted_entries:
  assumes "finite (dom hosts)"
  shows "foldl load_entry Map.empty (sorted_entries hosts) = nonempty hosts"
proof
  fix n
  have "distinct (map kn_Name (sorted_entries hosts))"
    by (simp add: sorted_entries_def comp_def)
  moreover have "n \<in> dom hosts \<longleftrightarrow> hosts n \<noteq> None" by auto
  ultimately show "foldl load_entry Map.empty (sorted_entries hosts) n = nonempty hosts n"
    using assms
    by (cases "hosts n") (simp_all add: foldl_load_entry sorted_entries_def find_entries nonempty_def)
qed

lemma tmp_path_ne [simp]: "p @ ''.tmp'' \<noteq> p" "p \<noteq> p @ ''.tmp''"
  by simp_all

text \<open>What a reader of the path finds: the decoded file, with a missing file as the empty store.\<close>

definition on_disk :: "(bytes \<Rightarrow> knownHost list option) \<Rightarrow> fs \<Rightarrow> string \<Rightarrow> (string \<rightharpoonup> string) option" where
  "on_disk unmarshal f path =
     (case LoadKnownHosts unmarshal ReadOK f path of Inl _ \<Rightarrow> None | Inr k \<Rightarrow> Some (kh_hosts k))"

lemma on_disk_cases:
  assumes rt: "\<And>hs data. marshal hs = Some data \<Longrightarrow> unmarshal data = Some hs"
    and "kh_path k \<noteq> []" "finite (dom (kh_hosts k))" "writeLocked marshal wo k f = (err, f')"
  shows "on_disk unmarshal f' (kh_path k) =
         (if err = None then Some (nonempty (kh_hosts k)) else on_disk unmarshal f (kh_path k))"
  using assms(2-) rt [of "sorted_entries (kh_hosts k)"]
  by (auto simp: writeLocked_def on_disk_def LoadKnownHosts_def Let_def load_sorted_entries
      split: option.splits write_outcome.splits)

text \<open>One change of the store: an addition or a removal, with how its file operations go.\<close>

datatype kh_change = KAdd string string write_outcome | KRemove string write_outcome

fun kh_apply ::
  "(knownHost list \<Rightarrow> bytes option) \<Rightarrow> kh_change \<Rightarrow> KnownHosts \<times> fs \<Rightarrow> kh_error option \<times> KnownHosts \<times> fs" where
  "kh_apply marshal (KAdd name fp wo) (k, f) = KH_Add marshal wo name fp k f"
| "kh_apply marshal (KRemove name wo) (k, f) = KH_Remove marshal wo name k f"

text \<open>The stores that were current at the successful rewrites of a run, latest last.\<close>

fun kh_run ::
  "(knownHost list \<Rightarrow> bytes option) \<Rightarrow> kh_change list \<Rightarrow> (string \<rightharpoonup> string) \<Rightarrow> KnownHosts \<times> fs
   \<Rightarrow> (string \<rightharpoonup> string) \<times> KnownHosts \<times> fs" where
  "kh_run marshal [] saved s = (saved, s)"
| "kh_run marshal (c # cs) saved s =
     (case kh_apply marshal c s of
        (None, s') \<Rightarrow> kh_run marshal cs (kh_hosts (fst s')) s'
      | (Some e, s') \<Rightarrow> kh_run marshal cs saved s')"

lemma kh_apply_path:
  "kh_apply marshal c (k, f) = (err, k', f') \<Longrightarrow>
   kh_path k' = kh_path k \<and> (finite (dom (kh_hosts k)) \<longrightarrow> finite (dom (kh_hosts k'))) \<and>
   (\<exists>wo. writeLocked marshal wo k' f = (err, f'))"
  by (cases c) (auto simp: KH_Add_def KH_Remove_def KH_put_def KH_drop_def Let_def split: prod.splits)

text \<open>
  C34. The approvals survive a crash. Over every sequence of additions and removals, with write and
  rename failures anywhere in it (a failed write may leave garbage in the temporary file), the file
  always loads, and what it loads is the store of the last call that reported success; a call that
  reported an error changed nothing on disk.
\<close>

theorem known_hosts_durable:
  assumes rt: "\<And>hs data. marshal hs = Some data \<Longrightarrow> unmarshal data = Some hs"
    and "kh_path k \<noteq> []" "finite (dom (kh_hosts k))"
    and "on_disk unmarshal f (kh_path k) = Some (nonempty saved)"
    and "kh_run marshal cs saved (k, f) = (saved', k', f')"
  shows "on_disk unmarshal f' (kh_path k) = Some (nonempty saved')"
  using assms(2-)
proof (induction cs arbitrary: saved k f)
  case Nil
  then show ?case by simp
next
  case (Cons c cs)
  obtain err k1 f1 where a: "kh_apply marshal c (k, f) = (err, k1, f1)"
    by (metis prod_cases3)
  obtain wo where w: "writeLocked marshal wo k1 f = (err, f1)" and p: "kh_path k1 = kh_path k"
    and fin: "finite (dom (kh_hosts k1))"
    using kh_apply_path [OF a] Cons.prems(2) by blast
  have "on_disk unmarshal f1 (kh_path k1) =
        (if err = None then Some (nonempty (kh_hosts k1)) else on_disk unmarshal f (kh_path k1))"
    by (rule on_disk_cases [OF rt _ fin w]) (simp_all add: p Cons.prems(1))
  then show ?case
    using Cons.IH [of k1 f1 "if err = None then kh_hosts k1 else saved"] Cons.prems a fin p
    by (cases err) simp_all
qed

text \<open>A one-line rendering that is its own inverse, in the place of YAML.\<close>

definition toy_marshal :: "knownHost list \<Rightarrow> bytes option" where
  "toy_marshal hs = (case hs of
     [] \<Rightarrow> Some []
   | [h] \<Rightarrow> if length (kn_Name h) < 200 then
             Some (word_of_nat (length (kn_Name h)) # bytes_of_string (kn_Name h @ kn_Fingerprint h))
           else None
   | _ \<Rightarrow> None)"

definition toy_unmarshal :: "bytes \<Rightarrow> knownHost list option" where
  "toy_unmarshal bs = (case bs of
     [] \<Rightarrow> Some []
   | b # r \<Rightarrow> Some [\<lparr>kn_Name = string_of_bytes (take (unat b) r),
                    kn_Fingerprint = string_of_bytes (drop (unat b) r)\<rparr>])"

lemma toy_roundtrip: "toy_marshal hs = Some data \<Longrightarrow> toy_unmarshal data = Some hs"
  by (auto simp: toy_marshal_def toy_unmarshal_def unat_of_nat bytes_of_string_def string_of_bytes_def
      comp_def take_map drop_map split: list.splits if_splits)

theorem known_hosts_durable_witness:
  "\<exists>k' f'. kh_run toy_marshal [KAdd ''a'' ''fp'' WriteOK, KAdd ''a'' ''fq'' (WriteFails (Some [7])), KRemove ''a'' RenameFails]
      Map.empty (\<lparr>kh_path = ''kh'', kh_hosts = Map.empty\<rparr>, Map.empty) = ([''a'' \<mapsto> ''fp''], k', f') \<and>
     on_disk toy_unmarshal f' ''kh'' = Some (nonempty [''a'' \<mapsto> ''fp''])"
proof -
  let ?k = "\<lparr>kh_path = ''kh'', kh_hosts = Map.empty\<rparr>"
  let ?cs = "[KAdd ''a'' ''fp'' WriteOK, KAdd ''a'' ''fq'' (WriteFails (Some [7])), KRemove ''a'' RenameFails]"
  obtain s k' f' where r: "kh_run toy_marshal ?cs Map.empty (?k, Map.empty) = (s, k', f')"
    by (metis prod_cases3)
  have s: "s = [''a'' \<mapsto> ''fp'']"
    using r by (simp add: KH_Add_def KH_Remove_def KH_put_def KH_drop_def writeLocked_def Let_def
        toy_marshal_def sorted_entries_def)
  have "on_disk toy_unmarshal f' (kh_path ?k) = Some (nonempty s)"
    by (rule known_hosts_durable [OF toy_roundtrip _ _ _ r])
      (simp_all add: on_disk_def LoadKnownHosts_def nonempty_def fun_eq_iff)
  then show ?thesis using r s by auto
qed

end
