(* ===== verification/Approver.thy ===== *)
theory Approver
  imports Prelude
begin

text \<open>
  \<open>internal/control/approval.go\<close>: client connections that wait for the operator. \<open>Submit\<close> is
  two atomic parts with a wait between them, so the component is a labelled step relation: the
  registration, the operator's \<open>Decide\<close>, and the return, by a decision taken from the request's
  channel or by the caller's context. A request is reached through a pointer that the map and the
  waiting goroutine share; its channel holds at most one decision.
\<close>

datatype ApprovalDecision = DecisionPending | DecisionApproved | DecisionRejected

record PendingRequest =
  pr_ClientName :: string
  pr_Addr :: string
  pr_Fingerprint :: string
  pr_RequestedAt :: int
  pr_decision :: "ApprovalDecision option"

record Approver =
  ap_pending :: "string \<rightharpoonup> ptr"
  ap_heap :: "ptr \<rightharpoonup> PendingRequest"
  ap_next :: ptr
  ap_waiting :: "ptr set"

definition NewApprover :: Approver where
  "NewApprover = \<lparr>ap_pending = Map.empty, ap_heap = Map.empty, ap_next = 0, ap_waiting = {}\<rparr>"

text \<open>A send in a \<open>select\<close> with a \<open>default\<close> case on a channel of capacity 1.\<close>

definition try_send :: "ApprovalDecision \<Rightarrow> ptr \<Rightarrow> Approver \<Rightarrow> bool \<times> Approver" where
  "try_send d p a =
     (case ap_heap a p of
        None \<Rightarrow> (False, a)
      | Some r \<Rightarrow>
          (if pr_decision r = None then (True, a\<lparr>ap_heap := (ap_heap a)(p \<mapsto> r\<lparr>pr_decision := Some d\<rparr>)\<rparr>)
           else (False, a)))"

text \<open>\<open>Submit\<close> up to its wait: supersede the previous request of this name, register.\<close>

definition Submit_start :: "string \<Rightarrow> string \<Rightarrow> string \<Rightarrow> int \<Rightarrow> Approver \<Rightarrow> ptr \<times> Approver" where
  "Submit_start name addr fp now a =
     (let p = ap_next a;
          req = \<lparr>pr_ClientName = name, pr_Addr = addr, pr_Fingerprint = fp, pr_RequestedAt = now,
                 pr_decision = None\<rparr>;
          a = (case ap_pending a name of None \<Rightarrow> a | Some prev \<Rightarrow> snd (try_send DecisionRejected prev a))
      in (p, a\<lparr>ap_heap := (ap_heap a)(p \<mapsto> req), ap_next := p + 1,
               ap_pending := (ap_pending a)(name \<mapsto> p), ap_waiting := insert p (ap_waiting a)\<rparr>))"

text \<open>The deferred function of \<open>Submit\<close>: delete the entry if it is still this request's.\<close>

definition Submit_cleanup :: "ptr \<Rightarrow> string \<Rightarrow> Approver \<Rightarrow> Approver" where
  "Submit_cleanup p name a =
     (let a = a\<lparr>ap_waiting := ap_waiting a - {p}\<rparr>
      in if ap_pending a name = Some p then a\<lparr>ap_pending := (ap_pending a)(name := None)\<rparr> else a)"

definition Decide :: "string \<Rightarrow> bool \<Rightarrow> Approver \<Rightarrow> bool \<times> Approver" where
  "Decide name approve a =
     (case ap_pending a name of
        None \<Rightarrow> (False, a)
      | Some p \<Rightarrow> try_send (if approve then DecisionApproved else DecisionRejected) p a)"

text \<open>\<open>List\<close>, sorted by name.\<close>

definition Approver_List :: "Approver \<Rightarrow> PendingRequest list" where
  "Approver_List a =
     map (\<lambda>n. (the (ap_heap a (the (ap_pending a n))))\<lparr>pr_decision := None\<rparr>)
       (sorted_list_of_set (dom (ap_pending a)))"

subsection \<open>Steps\<close>

text \<open>The labels record which request a call was about.\<close>

datatype ap_label =
    ASubmit ptr string string string
  | ADecide string bool "ptr option" bool
  | AReturn ptr ApprovalDecision

inductive ap_step :: "Approver \<Rightarrow> ap_label \<Rightarrow> Approver \<Rightarrow> bool" where
  submit: "Submit_start name addr fp now a = (p, a') \<Longrightarrow> ap_step a (ASubmit p name addr fp) a'"
| decide: "Decide name approve a = (ok, a') \<Longrightarrow> ap_step a (ADecide name approve (ap_pending a name) ok) a'"
| return_decided: "p \<in> ap_waiting a \<Longrightarrow> ap_heap a p = Some r \<Longrightarrow> pr_decision r = Some d \<Longrightarrow>
    ap_step a (AReturn p d)
      (Submit_cleanup p (pr_ClientName r) (a\<lparr>ap_heap := (ap_heap a)(p \<mapsto> r\<lparr>pr_decision := None\<rparr>)\<rparr>))"
| return_cancelled: "p \<in> ap_waiting a \<Longrightarrow> ap_heap a p = Some r \<Longrightarrow>
    ap_step a (AReturn p DecisionRejected) (Submit_cleanup p (pr_ClientName r) a)"

inductive ap_run :: "Approver \<Rightarrow> ap_label list \<Rightarrow> Approver \<Rightarrow> bool" where
  start: "ap_run a [] a"
| more: "ap_run a ls a' \<Longrightarrow> ap_step a' l a'' \<Longrightarrow> ap_run a (ls @ [l]) a''"

inductive_cases ap_stepE: "ap_step a l a'"
inductive_cases ap_runE: "ap_run a (ls @ [l]) a'"

text \<open>
  The invariant ties the state to the history: a decision in a channel was put there by the
  operator while the request was the registered one, or by a later submission; the map holds
  waiting requests of its own name; a request that returned is not waiting any more.
\<close>

definition decided :: "ap_label list \<Rightarrow> ptr \<Rightarrow> bool" where
  "decided ls p \<longleftrightarrow> (\<exists>name addr fp. ASubmit p name addr fp \<in> set ls \<and> ADecide name True (Some p) True \<in> set ls)"

lemma decided_mono: "decided ls p \<Longrightarrow> decided (ls @ ks) p"
  by (auto simp: decided_def)

definition request_ok :: "ap_label list \<Rightarrow> ptr \<Rightarrow> PendingRequest \<Rightarrow> bool" where
  "request_ok ls p r \<longleftrightarrow>
     ASubmit p (pr_ClientName r) (pr_Addr r) (pr_Fingerprint r) \<in> set ls \<and>
     pr_decision r \<noteq> Some DecisionPending \<and>
     (pr_decision r = Some DecisionApproved \<longrightarrow> decided ls p)"

definition returns :: "ap_label list \<Rightarrow> ptr \<Rightarrow> nat" where
  "returns ls p = length (filter (\<lambda>l. case l of AReturn q _ \<Rightarrow> q = p | _ \<Rightarrow> False) ls)"

definition reg_name :: "Approver \<Rightarrow> ptr \<Rightarrow> string option" where
  "reg_name a p = map_option pr_ClientName (ap_heap a p)"

definition state_ok :: "Approver \<Rightarrow> bool" where
  "state_ok a \<longleftrightarrow>
     (\<forall>p \<in> dom (ap_heap a). p < ap_next a) \<and>
     ap_waiting a \<subseteq> dom (ap_heap a) \<and>
     (\<forall>name p. ap_pending a name = Some p \<longrightarrow>
        p \<in> ap_waiting a \<and> reg_name a p = Some name)"

lemma state_okD: "state_ok a \<Longrightarrow> ap_pending a n = Some p \<Longrightarrow> p \<in> ap_waiting a \<and> reg_name a p = Some n"
  by (simp add: state_ok_def)

definition ap_inv :: "Approver \<Rightarrow> ap_label list \<Rightarrow> bool" where
  "ap_inv a ls \<longleftrightarrow> state_ok a \<and>
     (\<forall>p r. ap_heap a p = Some r \<longrightarrow> request_ok ls p r) \<and>
     (\<forall>p d. AReturn p d \<in> set ls \<longrightarrow> d \<noteq> DecisionPending \<and> (d = DecisionApproved \<longrightarrow> decided ls p)) \<and>
     (\<forall>p. returns ls p \<le> (if p < ap_next a \<and> p \<notin> ap_waiting a then 1 else 0))"

lemma returns_simps [simp]:
  "returns [] p = 0"
  "returns (ls @ [ASubmit q n x y]) p = returns ls p"
  "returns (ls @ [ADecide n b oq ok]) p = returns ls p"
  "returns (ls @ [AReturn q d]) p = returns ls p + of_bool (q = p)"
  by (simp_all add: returns_def)

lemma request_ok_mono: "request_ok ls p r \<Longrightarrow> request_ok (ls @ ks) p r"
  by (auto simp: request_ok_def decided_mono)

lemma try_send_frame:
  assumes "try_send d p a = (ok, a')"
  shows "ap_pending a' = ap_pending a" "ap_next a' = ap_next a" "ap_waiting a' = ap_waiting a"
    "dom (ap_heap a') = dom (ap_heap a)"
    "map_option pr_ClientName (ap_heap a' q) = map_option pr_ClientName (ap_heap a q)"
    "ap_heap a' q = Some r' \<Longrightarrow> \<exists>r. ap_heap a q = Some r \<and>
       (r' = r \<or> ok \<and> q = p \<and> r' = r\<lparr>pr_decision := Some d\<rparr>)"
  using assms by (auto simp: try_send_def split: option.splits if_splits)

lemma state_ok_try_send:
  assumes "state_ok a" "try_send d p a = (ok, a')"
  shows "state_ok a'"
proof -
  have "reg_name a' q = reg_name a q" for q
    using try_send_frame(5) [OF assms(2)] by (simp add: reg_name_def)
  with assms(1) show ?thesis by (simp add: state_ok_def try_send_frame(1-4) [OF assms(2)])
qed

definition supersede :: "string \<Rightarrow> Approver \<Rightarrow> Approver" where
  "supersede n a = (case ap_pending a n of None \<Rightarrow> a | Some prev \<Rightarrow> snd (try_send DecisionRejected prev a))"

lemma supersede_cases:
  obtains "supersede n a = a" | prev ok where "try_send DecisionRejected prev a = (ok, supersede n a)"
proof (cases "ap_pending a n")
  case None
  then show thesis using that(1) by (simp add: supersede_def)
next
  case (Some prev)
  then show thesis using that(2) [of prev "fst (try_send DecisionRejected prev a)"]
    by (simp add: supersede_def)
qed

lemma supersede_frame:
  "ap_next (supersede n a) = ap_next a" "ap_waiting (supersede n a) = ap_waiting a"
  "state_ok a \<Longrightarrow> state_ok (supersede n a)"
  "ap_heap (supersede n a) q = Some r' \<Longrightarrow>
     \<exists>r. ap_heap a q = Some r \<and> (r' = r \<or> r' = r\<lparr>pr_decision := Some DecisionRejected\<rparr>)"
  by (cases rule: supersede_cases [of n a];
      use try_send_frame state_ok_try_send in fastforce)+

lemma Submit_start_eq:
  "Submit_start n x y now a = (p, a') \<longleftrightarrow> p = ap_next a \<and>
   a' = (let b = supersede n a in b\<lparr>ap_heap := (ap_heap b)(p \<mapsto>
      \<lparr>pr_ClientName = n, pr_Addr = x, pr_Fingerprint = y, pr_RequestedAt = now, pr_decision = None\<rparr>),
      ap_next := p + 1, ap_pending := (ap_pending b)(n \<mapsto> p), ap_waiting := insert p (ap_waiting b)\<rparr>)"
  by (auto simp: Submit_start_def supersede_def Let_def)

lemma state_ok_new_request:
  assumes "state_ok b" "p = ap_next b" "pr_ClientName r = n"
  shows "state_ok (b\<lparr>ap_heap := (ap_heap b)(p \<mapsto> r), ap_next := p + 1,
                    ap_pending := (ap_pending b)(n \<mapsto> p), ap_waiting := insert p (ap_waiting b)\<rparr>)"
proof -
  have "p \<notin> ap_waiting b" using assms(1,2) by (auto simp: state_ok_def)
  then show ?thesis using assms by (auto simp: state_ok_def reg_name_def less_Suc_eq)
qed

lemma state_ok_cleanup:
  assumes "state_ok a" "reg_name a p = Some n"
  shows "state_ok (Submit_cleanup p n a)"
proof -
  have "q = n" if "ap_pending a q = Some p" for q
    using state_okD [OF assms(1) that] assms(2) by simp
  have pend: "ap_pending a q = Some s \<and> s \<noteq> p" if q: "ap_pending (Submit_cleanup p n a) q = Some s" for q s
  proof (cases "ap_pending a n = Some p")
    case True
    then have "q \<noteq> n" "ap_pending a q = Some s"
      using q by (simp_all add: Submit_cleanup_def Let_def split: if_splits)
    then show ?thesis using \<open>ap_pending a q = Some p \<Longrightarrow> q = n\<close> by blast
  next
    case False
    then have "ap_pending a q = Some s" using q by (simp add: Submit_cleanup_def Let_def)
    then show ?thesis using \<open>ap_pending a q = Some p \<Longrightarrow> q = n\<close> False by blast
  qed
  have frame: "ap_heap (Submit_cleanup p n a) = ap_heap a" "ap_next (Submit_cleanup p n a) = ap_next a"
    "ap_waiting (Submit_cleanup p n a) = ap_waiting a - {p}"
    by (simp_all add: Submit_cleanup_def Let_def)
  have "s \<in> ap_waiting a - {p} \<and> reg_name (Submit_cleanup p n a) s = Some q"
    if "ap_pending (Submit_cleanup p n a) q = Some s" for q s
    using pend [OF that] state_okD [OF assms(1), of q s] by (simp add: reg_name_def frame)
  moreover have "\<forall>p\<in>dom (ap_heap a). p < ap_next a" "ap_waiting a - {p} \<subseteq> dom (ap_heap a)"
    using assms(1) by (auto simp: state_ok_def)
  ultimately show ?thesis unfolding state_ok_def frame by blast
qed

lemma ap_inv_submit:
  assumes "ap_inv a ls" "Submit_start n x y now a = (p, a')"
  shows "ap_inv a' (ls @ [ASubmit p n x y])"
proof -
  let ?r = "\<lparr>pr_ClientName = n, pr_Addr = x, pr_Fingerprint = y, pr_RequestedAt = now, pr_decision = None\<rparr>"
  have p: "p = ap_next a" and a': "a' = (supersede n a)\<lparr>ap_heap := (ap_heap (supersede n a))(p \<mapsto> ?r),
      ap_next := p + 1, ap_pending := (ap_pending (supersede n a))(n \<mapsto> p),
      ap_waiting := insert p (ap_waiting (supersede n a))\<rparr>"
    using assms(2) by (simp_all add: Submit_start_eq Let_def)
  have st: "state_ok a'"
    unfolding a' using assms(1) by (intro state_ok_new_request) (simp_all add: ap_inv_def supersede_frame p)
  have req: "request_ok (ls @ [ASubmit p n x y]) q r'" if q: "ap_heap a' q = Some r'" for q r'
  proof (cases "q = p")
    case True
    then show ?thesis using q by (auto simp: a' request_ok_def)
  next
    case False
    then obtain r where r: "ap_heap a q = Some r" "r' = r \<or> r' = r\<lparr>pr_decision := Some DecisionRejected\<rparr>"
      using supersede_frame(4) [of n a q r'] q by (auto simp: a')
    then have "request_ok ls q r" using assms(1) by (simp add: ap_inv_def)
    then have "request_ok ls q r'" using r(2) by (auto simp: request_ok_def)
    then show ?thesis by (rule request_ok_mono)
  qed
  have ret: "returns ls q \<le> (if q < ap_next a' \<and> q \<notin> ap_waiting a' then 1 else 0)" for q
  proof -
    have "returns ls q \<le> (if q < ap_next a \<and> q \<notin> ap_waiting a then 1 else 0)"
      using assms(1) by (simp add: ap_inv_def)
    then show ?thesis by (auto simp: a' p supersede_frame split: if_splits)
  qed
  show ?thesis
    using assms(1) st req ret by (simp add: ap_inv_def decided_mono)
qed

lemma ap_inv_decide:
  assumes "ap_inv a ls" "Decide n b a = (ok, a')"
  shows "ap_inv a' (ls @ [ADecide n b (ap_pending a n) ok])"
proof (cases "ap_pending a n")
  case None
  then have "a' = a" using assms(2) by (simp add: Decide_def)
  then show ?thesis using assms(1) by (auto simp: ap_inv_def intro: request_ok_mono decided_mono)
next
  case (Some p)
  let ?d = "if b then DecisionApproved else DecisionRejected"
  have t: "try_send ?d p a = (ok, a')" using assms(2) Some by (simp add: Decide_def)
  note f = try_send_frame [OF t]
  have "request_ok (ls @ [ADecide n b (Some p) ok]) q r'" if q: "ap_heap a' q = Some r'" for q r'
  proof -
    obtain r where r: "ap_heap a q = Some r" "r' = r \<or> ok \<and> q = p \<and> r' = r\<lparr>pr_decision := Some ?d\<rparr>"
      using f(6) [OF q] by blast
    have "request_ok ls q r" using r(1) assms(1) by (simp add: ap_inv_def)
    moreover have "pr_ClientName r = n" if "q = p"
      using that r(1) state_okD [OF _ Some] assms(1) by (simp add: ap_inv_def reg_name_def)
    ultimately show ?thesis using r(2)
      by (auto simp: request_ok_def decided_mono decided_def split: if_splits)
  qed
  then show ?thesis using assms(1) Some state_ok_try_send [OF _ t]
    by (simp add: ap_inv_def f(2,3) decided_mono)
qed

lemma ap_inv_return:
  assumes "ap_inv a ls" "p \<in> ap_waiting a" "ap_heap a p = Some r"
    and "d = DecisionRejected \<or> pr_decision r = Some d"
    and "r' = r \<or> r' = r\<lparr>pr_decision := None\<rparr>"
  shows "ap_inv (Submit_cleanup p (pr_ClientName r) (a\<lparr>ap_heap := (ap_heap a)(p \<mapsto> r')\<rparr>)) (ls @ [AReturn p d])"
proof -
  let ?b = "a\<lparr>ap_heap := (ap_heap a)(p \<mapsto> r')\<rparr>"
  let ?c = "Submit_cleanup p (pr_ClientName r) ?b"
  have frame: "ap_heap ?c = (ap_heap a)(p \<mapsto> r')" "ap_next ?c = ap_next a" "ap_waiting ?c = ap_waiting a - {p}"
    by (simp_all add: Submit_cleanup_def Let_def)
  have nm: "pr_ClientName r' = pr_ClientName r" using assms(5) by auto
  have "state_ok a" using assms(1) by (simp add: ap_inv_def)
  moreover have "dom (ap_heap ?b) = dom (ap_heap a)" using assms(3) by auto
  moreover have "reg_name ?b q = reg_name a q" for q
    using assms(3) nm by (simp add: reg_name_def)
  ultimately have "state_ok ?b" by (simp add: state_ok_def del: fun_upd_apply)
  then have st: "state_ok ?c" by (rule state_ok_cleanup) (simp add: nm reg_name_def)
  have r: "request_ok ls p r" using assms(1,3) by (simp add: ap_inv_def)
  have req: "request_ok (ls @ [AReturn p d]) q s" if "ap_heap ?c q = Some s" for q s
  proof (cases "q = p")
    case True
    then have "s = r'" using that frame(1) by simp
    then have "request_ok ls q s" using r assms(5) True by (auto simp: request_ok_def)
    then show ?thesis by (rule request_ok_mono)
  next
    case False
    then have "ap_heap a q = Some s" using that frame(1) by simp
    then show ?thesis using assms(1) by (auto simp: ap_inv_def intro: request_ok_mono)
  qed
  have d: "d \<noteq> DecisionPending \<and> (d = DecisionApproved \<longrightarrow> decided ls p)"
    using r assms(4) by (auto simp: request_ok_def)
  have pn: "p < ap_next a" using \<open>state_ok a\<close> assms(3) by (auto simp: state_ok_def)
  have bnd: "returns ls q \<le> (if q < ap_next a \<and> q \<notin> ap_waiting a then 1 else 0)" for q
    using assms(1) by (simp add: ap_inv_def)
  have "returns (ls @ [AReturn p d]) q \<le> (if q < ap_next ?c \<and> q \<notin> ap_waiting ?c then 1 else 0)" for q
    using assms(2) pn bnd [of q] unfolding frame(2,3) by (cases "q = p") (simp_all split: if_splits)
  moreover have "e \<noteq> DecisionPending \<and> (e = DecisionApproved \<longrightarrow> decided (ls @ [AReturn p d]) q)"
    if "AReturn q e \<in> set (ls @ [AReturn p d])" for q e
  proof -
    have "q = p \<and> e = d \<or> AReturn q e \<in> set ls" using that by auto
    then have "e \<noteq> DecisionPending \<and> (e = DecisionApproved \<longrightarrow> decided ls q)"
      using d assms(1) unfolding ap_inv_def by blast
    then show ?thesis using decided_mono by blast
  qed
  ultimately show ?thesis using req st unfolding ap_inv_def by blast
qed

lemma ap_inv_step: "ap_inv a ls \<Longrightarrow> ap_step a l a' \<Longrightarrow> ap_inv a' (ls @ [l])"
proof (erule ap_stepE)
  fix p r assume "ap_inv a ls" "l = AReturn p DecisionRejected" "p \<in> ap_waiting a" "ap_heap a p = Some r"
    and a': "a' = Submit_cleanup p (pr_ClientName r) a"
  moreover have "a\<lparr>ap_heap := (ap_heap a)(p \<mapsto> r)\<rparr> = a"
    using \<open>ap_heap a p = Some r\<close> by (simp add: map_upd_triv)
  ultimately show ?thesis using ap_inv_return [of a ls p r DecisionRejected r] by simp
qed (simp_all add: ap_inv_submit ap_inv_decide ap_inv_return)

lemma ap_run_inv: "ap_run NewApprover ls a \<Longrightarrow> ap_inv a ls"
proof -
  have "ap_inv b ls \<longrightarrow> True" for b by simp
  have "ap_run a0 ls a \<Longrightarrow> a0 = NewApprover \<Longrightarrow> ap_inv a ls" for a0
  proof (induction rule: ap_run.induct)
    case (start a)
    then show ?case by (simp add: ap_inv_def state_ok_def NewApprover_def)
  next
    case (more a ls a' l a'')
    then show ?case using ap_inv_step by blast
  qed
  then show "ap_run NewApprover ls a \<Longrightarrow> ap_inv a ls" by blast
qed

text \<open>
  Only the operator approves. In every run of submissions, decisions, cancellations and returns,
  a waiting connection is told \<open>approved\<close> only when the operator's approval reached its own
  request (the one it submitted, then registered under its name); it is answered at most once, and
  never with \<open>pending\<close>.
\<close>

theorem approved_only_by_operator:
  assumes "ap_run NewApprover ls a" "AReturn p d \<in> set ls"
  shows "d \<noteq> DecisionPending \<and> returns ls p = 1 \<and>
         (d = DecisionApproved \<longrightarrow>
            (\<exists>name addr fp. ASubmit p name addr fp \<in> set ls \<and> ADecide name True (Some p) True \<in> set ls))"
proof -
  have inv: "ap_inv a ls" using ap_run_inv assms(1) by blast
  have "returns ls p \<noteq> 0"
    using assms(2) by (force simp: returns_def filter_empty_conv)
  moreover have "returns ls p \<le> 1"
  proof -
    have "returns ls p \<le> (if p < ap_next a \<and> p \<notin> ap_waiting a then 1 else 0)"
      using inv by (simp add: ap_inv_def)
    then show ?thesis by (simp split: if_splits)
  qed
  ultimately have "returns ls p = 1" by linarith
  with inv assms(2) show ?thesis by (auto simp: ap_inv_def decided_def)
qed

text \<open>A run in which the operator's approval reaches the request it was made for.\<close>

lemma ap_run_submit_decide:
  assumes "Submit_start n x y now NewApprover = (p, a1)" "Decide n True a1 = (ok, a2)"
  shows "ap_run NewApprover [ASubmit p n x y, ADecide n True (ap_pending a1 n) ok] a2"
proof -
  have "ap_run NewApprover ([] @ [ASubmit p n x y]) a1"
    using ap_run.start ap_step.submit [OF assms(1)] by (rule ap_run.more)
  then have "ap_run NewApprover (([] @ [ASubmit p n x y]) @ [ADecide n True (ap_pending a1 n) ok]) a2"
    using ap_step.decide [OF assms(2)] by (rule ap_run.more)
  then show ?thesis by simp
qed

theorem approved_only_by_operator_witness:
  "\<exists>ls a. ap_run NewApprover ls a \<and> AReturn 0 DecisionApproved \<in> set ls \<and>
     (\<exists>addr. ASubmit 0 ''web'' addr ''fp'' \<in> set ls) \<and> returns ls 0 = 1"
proof -
  let ?a1 = "snd (Submit_start ''web'' ''1.2.3.4:1'' ''fp'' 0 NewApprover)"
  let ?a2 = "snd (Decide ''web'' True ?a1)"
  let ?ls = "[ASubmit 0 ''web'' ''1.2.3.4:1'' ''fp'', ADecide ''web'' True (Some 0) True]"
  have s: "Submit_start ''web'' ''1.2.3.4:1'' ''fp'' 0 NewApprover = (0, ?a1)"
    and d: "Decide ''web'' True ?a1 = (True, ?a2)" and p: "ap_pending ?a1 ''web'' = Some 0"
    by (simp_all add: Submit_start_def Let_def NewApprover_def Decide_def try_send_def)
  obtain r where r: "ap_heap ?a2 0 = Some r" "pr_decision r = Some DecisionApproved" "0 \<in> ap_waiting ?a2"
    by (simp add: Submit_start_def Let_def NewApprover_def Decide_def try_send_def)
  have run: "ap_run NewApprover ?ls ?a2" using ap_run_submit_decide [OF s d] p by simp
  obtain a3 where run3: "ap_run NewApprover (?ls @ [AReturn 0 DecisionApproved]) a3"
    using ap_run.more [OF run ap_step.return_decided [OF r(3,1,2)]] by blast
  have "returns (?ls @ [AReturn 0 DecisionApproved]) 0 = 1"
    using approved_only_by_operator [OF run3, of 0 DecisionApproved] by simp
  then show ?thesis using run3 by (intro exI [of _ "?ls @ [AReturn 0 DecisionApproved]"] exI [of _ a3]) simp
qed

text \<open>
  Approval is by name, not by certificate. The operator lists a request for \<open>web\<close> with one
  fingerprint; a second connection under the same name replaces it before the click; the approval
  then goes to the second connection, whose fingerprint the operator never saw, and the first is
  rejected.
\<close>

theorem approval_hits_superseding_request:
  "let a1 = snd (Submit_start ''web'' ''10.0.0.5:900'' ''sha256:good'' 0 NewApprover);
       a2 = snd (Submit_start ''web'' ''10.6.6.6:900'' ''sha256:evil'' 1 a1);
       (ok, a3) = Decide ''web'' True a2
   in map pr_Fingerprint (Approver_List a1) = [''sha256:good''] \<and> ok \<and>
      map_option (\<lambda>r. (pr_Fingerprint r, pr_decision r)) (ap_heap a3 0) = Some (''sha256:good'', Some DecisionRejected) \<and>
      map_option (\<lambda>r. (pr_Fingerprint r, pr_decision r)) (ap_heap a3 1) = Some (''sha256:evil'', Some DecisionApproved)"
  by (simp add: Submit_start_def Let_def NewApprover_def Decide_def try_send_def Approver_List_def)

end
