(* ===== verification/Pool.thy ===== *)
theory Pool
  imports Prelude
begin

text \<open>
  The client's pool of server sessions (\<open>ServerPool\<close> in \<open>internal/client/pool.go\<close>): a slice of
  session pointers and a 64-bit counter that picks them in turn.
\<close>

record ServerPool =
  sp_sessions :: "ptr list"
  sp_counter :: "64 word"

definition NewServerPool :: ServerPool where
  "NewServerPool = \<lparr>sp_sessions = [], sp_counter = 0\<rparr>"

definition Pool_Add :: "ptr \<Rightarrow> ServerPool \<Rightarrow> ServerPool" where
  "Pool_Add s p = p\<lparr>sp_sessions := sp_sessions p @ [s]\<rparr>"

definition Pool_Remove :: "ptr \<Rightarrow> ServerPool \<Rightarrow> ServerPool" where
  "Pool_Remove s p = p\<lparr>sp_sessions := filter (\<lambda>x. x \<noteq> s) (sp_sessions p)\<rparr>"

definition Pick :: "ServerPool \<Rightarrow> ptr option \<times> ServerPool" where
  "Pick p =
     (let n = (word_of_nat (length (sp_sessions p)) :: 64 word)
      in if n = 0 then (None, p)
         else (let i = sp_counter p + 1 - 1
               in (Some (sp_sessions p ! unat (i mod n)), p\<lparr>sp_counter := sp_counter p + 1\<rparr>)))"

definition Pool_List :: "ServerPool \<Rightarrow> ptr list" where
  "Pool_List p = sp_sessions p"

definition Pool_Len :: "ServerPool \<Rightarrow> nat" where
  "Pool_Len p = length (sp_sessions p)"

fun picks :: "nat \<Rightarrow> ServerPool \<Rightarrow> ptr option list" where
  "picks 0 p = []"
| "picks (Suc k) p = (case Pick p of (s, p') \<Rightarrow> s # picks k p')"

lemma Pick_None: "sp_sessions p = [] \<Longrightarrow> Pick p = (None, p)"
  by (simp add: Pick_def)

lemma Pick_nth:
  assumes "sp_sessions p \<noteq> []" "length (sp_sessions p) < 2 ^ 64"
  shows "Pick p = (Some (sp_sessions p ! (unat (sp_counter p) mod length (sp_sessions p))),
                   p\<lparr>sp_counter := sp_counter p + 1\<rparr>)"
proof -
  have u: "unat (word_of_nat (length (sp_sessions p)) :: 64 word) = length (sp_sessions p)"
    using assms(2) by (simp add: unat_of_nat)
  then have "(word_of_nat (length (sp_sessions p)) :: 64 word) \<noteq> 0"
    using assms(1) by (metis length_0_conv unat_0)
  with u show ?thesis by (simp add: Pick_def Let_def unat_mod_distrib)
qed

lemma picks_nth:
  assumes "sp_sessions p \<noteq> []" "length (sp_sessions p) < 2 ^ 64" "unat (sp_counter p) + k \<le> 2 ^ 64"
  shows "picks k p = map (\<lambda>j. Some (sp_sessions p ! ((unat (sp_counter p) + j) mod length (sp_sessions p)))) [0..<k]"
  using assms
proof (induction k arbitrary: p)
  case 0
  then show ?case by simp
next
  case (Suc k)
  let ?p = "p\<lparr>sp_counter := sp_counter p + 1\<rparr>"
  show ?case
  proof (cases k)
    case 0
    then show ?thesis using Suc.prems by (simp add: Pick_nth)
  next
    case (Suc k')
    then have "unat (sp_counter p) + 1 < 2 ^ 64" using Suc.prems(3) by simp
    then have u: "unat (sp_counter p + 1) = unat (sp_counter p) + 1"
      by (simp add: unat_word_ariths)
    have "picks k ?p = map (\<lambda>j. Some (sp_sessions p ! ((unat (sp_counter p) + Suc j) mod length (sp_sessions p)))) [0..<k]"
      using Suc.IH [of ?p] Suc.prems u by simp
    then show ?thesis
      using Suc.prems by (simp add: Pick_nth upt_conv_Cons map_Suc_upt [symmetric] comp_def del: upt_Suc)
  qed
qed

lemma picks_round:
  assumes "sp_sessions p \<noteq> []" "length (sp_sessions p) < 2 ^ 64"
    and "unat (sp_counter p) + length (sp_sessions p) \<le> 2 ^ 64"
  shows "picks (length (sp_sessions p)) p = map Some (rotate (unat (sp_counter p)) (sp_sessions p))"
  by (rule nth_equalityI) (simp_all add: picks_nth [OF assms] nth_rotate)

fun after_picks :: "nat \<Rightarrow> ServerPool \<Rightarrow> ServerPool" where
  "after_picks 0 p = p"
| "after_picks (Suc k) p = after_picks k (snd (Pick p))"

lemma picks_add: "picks (j + k) p = picks j p @ picks k (after_picks j p)"
  by (induction j arbitrary: p) (simp_all split: prod.split)

lemma length_picks [simp]: "length (picks k p) = k"
  by (induction k arbitrary: p) (simp_all split: prod.split)

lemma after_picks_state:
  assumes "sp_sessions p \<noteq> []" "length (sp_sessions p) < 2 ^ 64" "unat (sp_counter p) + k < 2 ^ 64"
  shows "sp_sessions (after_picks k p) = sp_sessions p \<and> unat (sp_counter (after_picks k p)) = unat (sp_counter p) + k"
  using assms
proof (induction k arbitrary: p)
  case (Suc k)
  have u: "unat (sp_counter p + 1) = unat (sp_counter p) + 1"
    using Suc.prems(3) by (simp add: unat_word_ariths)
  then show ?case using Suc.IH [of "p\<lparr>sp_counter := sp_counter p + 1\<rparr>"] Suc.prems by (simp add: Pick_nth)
qed simp

lemma count_list_distinct: "distinct xs \<Longrightarrow> count_list xs x = of_bool (x \<in> set xs)"
  by (induction xs) auto

lemma count_list_rotate:
  "distinct xs \<Longrightarrow> x \<in> set xs \<Longrightarrow> count_list (map Some (rotate c xs)) (Some x) = 1"
  by (subst count_list_distinct) (simp_all add: distinct_map)

lemma picks_fair:
  assumes "distinct (sp_sessions p)" "s \<in> set (sp_sessions p)" "length (sp_sessions p) < 2 ^ 64"
    and "unat (sp_counter p) + q * length (sp_sessions p) + length (sp_sessions p) < 2 ^ 64"
    and "r \<le> length (sp_sessions p)"
  shows "q \<le> count_list (picks (q * length (sp_sessions p) + r) p) (Some s) \<and>
         count_list (picks (q * length (sp_sessions p) + r) p) (Some s) \<le> Suc q"
  using assms
proof (induction q arbitrary: p)
  case 0
  have ne: "sp_sessions p \<noteq> []" using 0 by auto
  have "picks (length (sp_sessions p)) p = picks r p @ picks (length (sp_sessions p) - r) (after_picks r p)"
    using picks_add [of r "length (sp_sessions p) - r" p] 0 by simp
  moreover have "count_list (picks (length (sp_sessions p)) p) (Some s) = 1"
    using picks_round [of p] count_list_rotate 0 ne by simp
  ultimately show ?case by simp
next
  case (Suc q)
  let ?n = "length (sp_sessions p)"
  have ne: "sp_sessions p \<noteq> []" using Suc.prems by auto
  have lt: "unat (sp_counter p) + ?n < 2 ^ 64" using Suc.prems(4) by simp
  note st = after_picks_state [OF ne Suc.prems(3) lt]
  have "picks (Suc q * ?n + r) p = picks ?n p @ picks (q * ?n + r) (after_picks ?n p)"
    using picks_add [of ?n "q * ?n + r" p] by (simp add: algebra_simps)
  moreover have "count_list (picks ?n p) (Some s) = 1"
    using picks_round [of p] count_list_rotate Suc.prems ne lt by simp
  moreover have "q \<le> count_list (picks (q * ?n + r) (after_picks ?n p)) (Some s) \<and>
                 count_list (picks (q * ?n + r) (after_picks ?n p)) (Some s) \<le> Suc q"
    using Suc.IH [of "after_picks ?n p"] Suc.prems st by (simp add: algebra_simps)
  ultimately show ?case by simp
qed

text \<open>
  Round robin is fair. As long as the pool does not change (and the 64-bit counter does not wrap
  within the run), \<open>k\<close> consecutive picks give every one of the \<open>n\<close> sessions either \<open>k div n\<close> or
  one more request; and a pick from a non-empty pool always gives a session of the pool.
\<close>

theorem Pick_fair:
  assumes "distinct (sp_sessions p)" "s \<in> set (sp_sessions p)" "length (sp_sessions p) < 2 ^ 64"
    and "unat (sp_counter p) + k + length (sp_sessions p) < 2 ^ 64"
  shows "k div length (sp_sessions p) \<le> count_list (picks k p) (Some s) \<and>
         count_list (picks k p) (Some s) \<le> Suc (k div length (sp_sessions p)) \<and>
         set (picks k p) \<subseteq> Some ` set (sp_sessions p)"
proof -
  let ?n = "length (sp_sessions p)"
  have ne: "sp_sessions p \<noteq> []" using assms by auto
  have k: "k = k div ?n * ?n + k mod ?n" by simp
  have "unat (sp_counter p) + k div ?n * ?n + ?n < 2 ^ 64"
    using assms(4) k by linarith
  moreover have "k mod ?n \<le> ?n" using ne by (simp add: mod_le_divisor)
  ultimately have "k div ?n \<le> count_list (picks k p) (Some s) \<and> count_list (picks k p) (Some s) \<le> Suc (k div ?n)"
    using picks_fair [OF assms(1-3), of "k div ?n" "k mod ?n"] by simp
  moreover have "set (picks k p) \<subseteq> Some ` set (sp_sessions p)"
    using picks_nth [OF ne assms(3), of k] assms(4) ne by auto
  ultimately show ?thesis by blast
qed

theorem Pick_fair_witness:
  "count_list (picks 7 \<lparr>sp_sessions = [4, 9, 2], sp_counter = 5\<rparr>) (Some 9) \<in> {2, 3}"
  using Pick_fair [of "\<lparr>sp_sessions = [4, 9, 2], sp_counter = 5\<rparr>" 9 7]
  by (auto simp: le_Suc_eq)

end
