(* ===== verification/Backoff.thy ===== *)
theory Backoff
  imports Complex_Main Prelude
begin

text \<open>
  \<open>internal/reconnect\<close>: the exponential backoff of the reconnect loops and the list of tunnels
  a client registers again after a reconnect. Durations are integers (nanoseconds); \<open>float64\<close> is
  modelled by exact rationals, and the conversion back to a duration truncates toward zero. The
  random number of each call, in \<open>[0, 1)\<close>, is an argument.
\<close>

record Backoff =
  bo_Initial :: int
  bo_Max :: int
  bo_Multiplier :: rat
  bo_JitterFraction :: rat
  bo_current :: int

definition NewBackoff :: Backoff where
  "NewBackoff = \<lparr>bo_Initial = 1000000000, bo_Max = 60 * 1000000000, bo_Multiplier = 2,
                 bo_JitterFraction = 1/5, bo_current = 0\<rparr>"

definition Duration :: "rat \<Rightarrow> int" where
  "Duration x = (if x \<ge> 0 then \<lfloor>x\<rfloor> else - \<lfloor>- x\<rfloor>)"

definition Next :: "rat \<Rightarrow> Backoff \<Rightarrow> int \<times> Backoff" where
  "Next rand b =
     (let b = (if bo_current b = 0 then b\<lparr>bo_current := bo_Initial b\<rparr> else b);
          delay = bo_current b;
          nxt = Duration (of_int (bo_current b) * bo_Multiplier b);
          nxt = (if nxt > bo_Max b then bo_Max b else nxt);
          b = b\<lparr>bo_current := nxt\<rparr>
      in if bo_JitterFraction b > 0 then
           (let jitter = Duration (of_int delay * bo_JitterFraction b * (rand * 2 - 1));
                delay = delay + jitter
            in (if delay < 0 then 0 else delay, b))
         else (delay, b))"

definition Backoff_Reset :: "Backoff \<Rightarrow> Backoff" where
  "Backoff_Reset b = b\<lparr>bo_current := 0\<rparr>"

fun delays :: "rat list \<Rightarrow> Backoff \<Rightarrow> int list" where
  "delays [] b = []"
| "delays (u # us) b = (case Next u b of (d, b') \<Rightarrow> d # delays us b')"

subsection \<open>Bounds on the delays\<close>

lemma Duration_of_int [simp]: "Duration (of_int n) = n"
  by (simp add: Duration_def)

lemma Duration_abs: "\<bar>of_int (Duration x)\<bar> \<le> \<bar>x\<bar>"
proof (cases "x \<ge> 0")
  case True
  then show ?thesis by (simp add: Duration_def)
next
  case False
  then have "0 \<le> \<lfloor>- x\<rfloor>" by simp
  moreover have "of_int \<lfloor>- x\<rfloor> \<le> - x" by simp
  ultimately show ?thesis using False by (simp add: Duration_def)
qed

lemma jitter_bound:
  assumes "0 \<le> d" "0 \<le> u" "u \<le> 1"
  shows "5 * \<bar>Duration (of_int d * (1/5) * (u * 2 - 1))\<bar> \<le> d"
proof -
  have "\<bar>u * 2 - 1\<bar> \<le> 1" using assms(2,3) by linarith
  then have "\<bar>of_int d * (1/5) * (u * 2 - 1)\<bar> \<le> of_int d * (1/5) * (1 :: rat)"
    unfolding abs_mult using assms(1) by (intro mult_mono) auto
  then have "\<bar>of_int (Duration (of_int d * (1/5) * (u * 2 - 1)))\<bar> \<le> of_int d * (1/5 :: rat)"
    using Duration_abs [of "of_int d * (1/5) * (u * 2 - 1)"] by linarith
  then have "(5 * \<bar>of_int (Duration (of_int d * (1/5) * (u * 2 - 1)))\<bar> :: rat) \<le> of_int d" by linarith
  then have "(of_int (5 * \<bar>Duration (of_int d * (1/5) * (u * 2 - 1))\<bar>) :: rat) \<le> of_int d" by simp
  then show ?thesis unfolding of_int_le_iff .
qed

text \<open>The delay before jitter of the call number \<open>k\<close>.\<close>

definition base_delay :: "nat \<Rightarrow> int" where
  "base_delay k = min (60 * 1000000000) (1000000000 * 2 ^ k)"

definition standard :: "nat \<Rightarrow> Backoff \<Rightarrow> bool" where
  "standard k b \<longleftrightarrow> bo_Initial b = 1000000000 \<and> bo_Max b = 60 * 1000000000 \<and> bo_Multiplier b = 2 \<and>
     bo_JitterFraction b = 1/5 \<and> (bo_current b = base_delay k \<or> k = 0 \<and> bo_current b = 0)"

lemma base_delay_0 [simp]: "base_delay 0 = 1000000000"
  by (simp add: base_delay_def)

lemma base_delay_pos: "0 < base_delay k"
  by (simp add: base_delay_def)

lemma base_delay_Suc: "base_delay (Suc k) = min (60 * 1000000000) (2 * base_delay k)"
  by (auto simp: base_delay_def min_def)

lemma Next_standard:
  assumes "standard k b" "0 \<le> u" "u \<le> 1" "Next u b = (d, b')"
  shows "5 * \<bar>d - base_delay k\<bar> \<le> base_delay k" "standard (Suc k) b'"
proof -
  let ?j = "Duration (of_int (base_delay k) * (1/5) * (u * 2 - 1))"
  have j: "5 * \<bar>?j\<bar> \<le> base_delay k"
    using base_delay_pos [of k] assms(2,3) by (intro jitter_bound) auto
  then have nonneg: "\<not> base_delay k + ?j < 0" using base_delay_pos [of k] by linarith
  define b1 where "b1 = (if bo_current b = 0 then b\<lparr>bo_current := bo_Initial b\<rparr> else b)"
  have b1: "bo_current b1 = base_delay k" "bo_Max b1 = 60 * 1000000000" "bo_Multiplier b1 = 2"
    "bo_JitterFraction b1 = 1/5" "bo_Initial b1 = 1000000000"
    using assms(1) base_delay_pos [of k] by (auto simp: b1_def standard_def)
  have dbl: "Duration (of_int (base_delay k) * 2) = base_delay k * 2"
    using Duration_of_int [of "base_delay k * 2"] by simp
  have jf: "bo_JitterFraction (b1\<lparr>bo_current := x\<rparr>) = 1/5" for x
    using b1(4) by simp
  have nxt: "(if base_delay k * 2 > 60 * 1000000000 then 60 * 1000000000 else base_delay k * 2) = base_delay (Suc k)"
    by (simp add: base_delay_Suc min_def)
  have "Next u b = (base_delay k + ?j, b1\<lparr>bo_current := base_delay (Suc k)\<rparr>)"
    unfolding Next_def b1_def [symmetric] Let_def
    by (simp only: b1(1-3) dbl nxt jf nonneg if_False zero_less_divide_1_iff if_True zero_less_numeral)
  then show "5 * \<bar>d - base_delay k\<bar> \<le> base_delay k" "standard (Suc k) b'"
    using j assms(4) b1 by (simp_all add: standard_def)
qed

lemma delays_standard:
  "standard k b \<Longrightarrow> \<forall>u \<in> set us. 0 \<le> u \<and> u < 1 \<Longrightarrow> i < length us \<Longrightarrow>
   5 * \<bar>delays us b ! i - base_delay (k + i)\<bar> \<le> base_delay (k + i)"
proof (induction us arbitrary: k b i)
  case Nil
  then show ?case by simp
next
  case (Cons u us)
  obtain d b' where n: "Next u b = (d, b')" by fastforce
  have u: "0 \<le> u" "u \<le> 1" using Cons.prems(2) by auto
  note s = Next_standard [OF Cons.prems(1) u n]
  show ?case
  proof (cases i)
    case 0
    then show ?thesis using s(1) n by simp
  next
    case (Suc j)
    then show ?thesis using Cons.IH [OF s(2), of j] Cons.prems n by simp
  qed
qed

lemma fifth_bounds:
  assumes "5 * \<bar>d - b\<bar> \<le> b" "b \<le> 60000000000" "1000000000 \<le> (b :: int)"
  shows "800000000 \<le> d" "d \<le> 72000000000"
  using assms by (cases "b \<le> d"; simp)+

text \<open>
  C38. The delays grow and stay bounded. With the settings of \<open>NewBackoff\<close>, the delay number \<open>i\<close>
  after the start or after any \<open>Reset\<close> (whatever happened before it) is one second doubled
  \<open>i\<close> times, capped at sixty seconds, give or take a fifth; so it is never below 0.8 and never
  above 72 seconds.
\<close>

theorem backoff_delays:
  assumes "\<forall>u \<in> set us. 0 \<le> u \<and> u < 1" "i < length us" "standard k b"
  shows "5 * \<bar>delays us (Backoff_Reset b) ! i - min 60000000000 (1000000000 * 2 ^ i)\<bar>
           \<le> min 60000000000 (1000000000 * 2 ^ i) \<and>
         800000000 \<le> delays us (Backoff_Reset b) ! i \<and> delays us (Backoff_Reset b) ! i \<le> 72000000000"
proof -
  have "standard 0 (Backoff_Reset b)" using assms(3) by (simp add: standard_def Backoff_Reset_def)
  then have "5 * \<bar>delays us (Backoff_Reset b) ! i - base_delay i\<bar> \<le> base_delay i"
    using delays_standard [of 0 "Backoff_Reset b" us i] assms(1,2) by simp
  moreover have "base_delay i \<le> 60000000000" by (simp add: base_delay_def)
  moreover have "1000000000 \<le> base_delay i" by (simp add: base_delay_def)
  ultimately have "5 * \<bar>delays us (Backoff_Reset b) ! i - base_delay i\<bar> \<le> base_delay i \<and>
         800000000 \<le> delays us (Backoff_Reset b) ! i \<and> delays us (Backoff_Reset b) ! i \<le> 72000000000"
    using fifth_bounds by blast
  then show ?thesis by (simp add: base_delay_def)
qed

theorem backoff_delays_witness:
  "delays [1/2, 0, 3/4] (Backoff_Reset NewBackoff) = [1000000000, 1600000000, 4400000000] \<and>
   delays [1/2, 0, 3/4] (Backoff_Reset NewBackoff) ! 2 \<le> 72000000000"
proof
  have s: "standard 0 NewBackoff" by (simp add: standard_def NewBackoff_def)
  show "delays [1/2, 0, 3/4] (Backoff_Reset NewBackoff) = [1000000000, 1600000000, 4400000000]"
    by (simp add: NewBackoff_def Backoff_Reset_def Next_def Duration_def)
  show "delays [1/2, 0, 3/4] (Backoff_Reset NewBackoff) ! 2 \<le> 72000000000"
    using backoff_delays [OF _ _ s, of "[1/2, 0, 3/4]" 2] by simp
qed

subsection \<open>Tunnels to register again\<close>

record TunnelConfig =
  tc_LocalHost :: string
  tc_LocalPort :: int
  tc_RequestedPort :: int

record HTTPTunnelConfig =
  htc_Hostname :: string
  htc_LocalHost :: string
  htc_LocalPort :: int

record HTTPSTunnelConfig =
  hstc_Hostname :: string
  hstc_LocalHost :: string
  hstc_LocalPort :: int

record ClientConfig =
  cc_Tunnels :: "TunnelConfig list"
  cc_HTTPTunnels :: "HTTPTunnelConfig list"
  cc_HTTPSTunnels :: "HTTPSTunnelConfig list"

definition Config_AddTunnel :: "string \<Rightarrow> int \<Rightarrow> int \<Rightarrow> ClientConfig \<Rightarrow> ClientConfig" where
  "Config_AddTunnel localHost localPort requestedPort c =
     c\<lparr>cc_Tunnels := cc_Tunnels c @
        [\<lparr>tc_LocalHost = localHost, tc_LocalPort = localPort, tc_RequestedPort = requestedPort\<rparr>]\<rparr>"

definition Config_AddHTTPTunnel :: "string \<Rightarrow> string \<Rightarrow> int \<Rightarrow> ClientConfig \<Rightarrow> ClientConfig" where
  "Config_AddHTTPTunnel hostname localHost localPort c =
     c\<lparr>cc_HTTPTunnels := cc_HTTPTunnels c @
        [\<lparr>htc_Hostname = hostname, htc_LocalHost = localHost, htc_LocalPort = localPort\<rparr>]\<rparr>"

definition Config_AddHTTPSTunnel :: "string \<Rightarrow> string \<Rightarrow> int \<Rightarrow> ClientConfig \<Rightarrow> ClientConfig" where
  "Config_AddHTTPSTunnel hostname localHost localPort c =
     c\<lparr>cc_HTTPSTunnels := cc_HTTPSTunnels c @
        [\<lparr>hstc_Hostname = hostname, hstc_LocalHost = localHost, hstc_LocalPort = localPort\<rparr>]\<rparr>"

end
