(* ===== verification/Heartbeat.thy ===== *)
theory Heartbeat
  imports Prelude
begin

text \<open>
  \<open>internal/control/heartbeat.go\<close>: the loop that pings a client every \<open>HeartbeatInterval\<close> and
  cancels it when it is dead. Each pass of the loop sees the time of the tick, the client's last
  heartbeat (the handler stores it on every Pong) and whether the write went through; the loop's own
  state is the counter \<open>missed\<close>.
\<close>

definition HeartbeatInterval :: int where
  "HeartbeatInterval = 10 * 1000000000"

definition maxMissed :: int where
  "maxMissed = 2"

record hb_tick =
  ht_now :: int
  ht_last :: int
  ht_write_ok :: bool

datatype hb_result = HB_Ping "64 word" | HB_WriteFailed | HB_Timeout

definition heartbeat_tick :: "int \<Rightarrow> hb_tick \<Rightarrow> hb_result \<times> int" where
  "heartbeat_tick missed t =
     (if ht_now t - ht_last t > HeartbeatInterval * (maxMissed + 1) \<and> missed \<ge> maxMissed then (HB_Timeout, missed)
      else if \<not> ht_write_ok t then (HB_WriteFailed, missed)
      else (HB_Ping (word_of_int missed), missed + 1))"

fun StartHeartbeat :: "int \<Rightarrow> hb_tick list \<Rightarrow> hb_result list" where
  "StartHeartbeat missed [] = []"
| "StartHeartbeat missed (t # ts) =
     (case heartbeat_tick missed t of
        (HB_Ping s, missed') \<Rightarrow> HB_Ping s # StartHeartbeat missed' ts
      | (r, _) \<Rightarrow> [r])"

definition stale :: "hb_tick \<Rightarrow> bool" where
  "stale t \<longleftrightarrow> ht_now t - ht_last t > 3 * HeartbeatInterval"

text \<open>
  What the loop does, without its state: the number of pings it sends before it ends, and what ends
  it. A tick ends it when the write fails, or, from the third tick on, when the last Pong is too old.
\<close>

definition ends_at :: "nat \<Rightarrow> hb_tick \<Rightarrow> bool" where
  "ends_at i t \<longleftrightarrow> 2 \<le> i \<and> stale t \<or> \<not> ht_write_ok t"

definition pings :: "hb_tick list \<Rightarrow> nat" where
  "pings ts = length (takeWhile (\<lambda>(i, t). \<not> ends_at i t) (enumerate 0 ts))"

definition heartbeat_spec :: "hb_tick list \<Rightarrow> hb_result list" where
  "heartbeat_spec ts =
     map (\<lambda>i. HB_Ping (word_of_nat i)) [0..<pings ts] @
     (if pings ts < length ts
      then [if 2 \<le> pings ts \<and> stale (ts ! pings ts) then HB_Timeout else HB_WriteFailed] else [])"

text \<open>The same for ticks that are numbered from \<open>k\<close> on.\<close>

definition pings_from :: "nat \<Rightarrow> hb_tick list \<Rightarrow> nat" where
  "pings_from k ts = length (takeWhile (\<lambda>(i, t). \<not> ends_at i t) (enumerate k ts))"

lemma pings_from_simps [simp]:
  "pings_from k [] = 0" "pings_from k (t # ts) = (if ends_at k t then 0 else Suc (pings_from (Suc k) ts))"
  by (simp_all add: pings_from_def)

lemma heartbeat_tick_cases:
  "heartbeat_tick (int k) t =
     (if 2 \<le> k \<and> stale t then (HB_Timeout, int k)
      else if \<not> ht_write_ok t then (HB_WriteFailed, int k) else (HB_Ping (word_of_nat k), int (Suc k)))"
  by (auto simp: heartbeat_tick_def stale_def maxMissed_def mult.commute)

lemma StartHeartbeat_from:
  "StartHeartbeat (int k) ts =
     map (\<lambda>i. HB_Ping (word_of_nat i)) [k..<k + pings_from k ts] @
     (if pings_from k ts < length ts
      then [if 2 \<le> k + pings_from k ts \<and> stale (ts ! pings_from k ts) then HB_Timeout else HB_WriteFailed] else [])"
proof (induction ts arbitrary: k)
  case Nil
  then show ?case by simp
next
  case (Cons t ts)
  show ?case
  proof (cases "ends_at k t")
    case True
    then show ?thesis by (auto simp: heartbeat_tick_cases ends_at_def)
  next
    case False
    let ?n = "pings_from (Suc k) ts"
    have "heartbeat_tick (int k) t = (HB_Ping (word_of_nat k), int (Suc k))"
      using False by (auto simp: heartbeat_tick_cases ends_at_def)
    moreover have "[k..<k + Suc ?n] = k # [Suc k..<Suc k + ?n]" by (simp add: upt_rec)
    ultimately show ?thesis using False Cons.IH [of "Suc k"] by simp
  qed
qed

text \<open>Pongs that keep coming: at every tick from the third on the last one is recent enough.\<close>

definition responsive :: "hb_tick list \<Rightarrow> bool" where
  "responsive ts \<longleftrightarrow> (\<forall>i < length ts. 2 \<le> i \<longrightarrow> \<not> stale (ts ! i))"

lemma pings_from_spec:
  "pings_from k ts \<le> length ts" "i < pings_from k ts \<Longrightarrow> \<not> ends_at (k + i) (ts ! i)"
  "pings_from k ts < length ts \<Longrightarrow> ends_at (k + pings_from k ts) (ts ! pings_from k ts)"
proof (induction ts arbitrary: k i)
  case (Cons t ts)
  { case 1 show ?case using Cons.IH(1) [of "Suc k"] by simp
  next
    case 2
    then show ?case using Cons.IH(2) [of "i - 1" "Suc k"] by (cases i) (auto split: if_splits)
  next
    case 3
    then show ?case using Cons.IH(3) [of "Suc k"] by (auto split: if_splits) }
qed simp_all

text \<open>
  C37. The heartbeat, exactly. Whatever the times of the ticks, the Pongs and the results of the
  writes: the loop sends pings numbered from zero until the first tick at which the write fails or,
  from the third tick on, the last Pong is more than three intervals old; it cancels the client
  there. So the counter of missed pings, which no Pong resets, only holds the verdict back during the
  first two ticks: a client that is dead from the start is cancelled at the third tick, not before;
  and a client whose Pongs keep coming is never timed out.
\<close>

theorem heartbeat_exact:
  "StartHeartbeat 0 ts = heartbeat_spec ts \<and>
   (pings ts < length ts \<longrightarrow> ends_at (pings ts) (ts ! pings ts)) \<and>
   (\<forall>i < pings ts. \<not> ends_at i (ts ! i)) \<and>
   (HB_Timeout \<in> set (StartHeartbeat 0 ts) \<longleftrightarrow>
      (\<exists>i < length ts. 2 \<le> i \<and> stale (ts ! i) \<and> (\<forall>j < i. \<not> ends_at j (ts ! j)))) \<and>
   (responsive ts \<longrightarrow> HB_Timeout \<notin> set (StartHeartbeat 0 ts))"
proof -
  have p: "pings ts = pings_from 0 ts" by (simp add: pings_def pings_from_def)
  note spec = pings_from_spec [where k = 0 and ts = ts, unfolded p [symmetric], simplified]
  have run: "StartHeartbeat 0 ts = heartbeat_spec ts"
    using StartHeartbeat_from [of 0 ts] by (simp add: heartbeat_spec_def p)
  have "HB_Timeout \<in> set (heartbeat_spec ts) \<longleftrightarrow> pings ts < length ts \<and> 2 \<le> pings ts \<and> stale (ts ! pings ts)"
    by (auto simp: heartbeat_spec_def)
  moreover have "\<dots> \<longleftrightarrow> (\<exists>i < length ts. 2 \<le> i \<and> stale (ts ! i) \<and> (\<forall>j < i. \<not> ends_at j (ts ! j)))"
  proof
    assume "\<exists>i < length ts. 2 \<le> i \<and> stale (ts ! i) \<and> (\<forall>j < i. \<not> ends_at j (ts ! j))"
    then obtain i where i: "i < length ts" "2 \<le> i" "stale (ts ! i)" "\<forall>j < i. \<not> ends_at j (ts ! j)" by blast
    have "pings ts = i"
      using i spec(2) [of i] spec(3) by (metis ends_at_def linorder_neqE_nat order.strict_trans)
    then show "pings ts < length ts \<and> 2 \<le> pings ts \<and> stale (ts ! pings ts)" using i by simp
  qed (use spec(2) in blast)
  ultimately have "HB_Timeout \<in> set (StartHeartbeat 0 ts) \<longleftrightarrow>
      (\<exists>i < length ts. 2 \<le> i \<and> stale (ts ! i) \<and> (\<forall>j < i. \<not> ends_at j (ts ! j)))" using run by simp
  then show ?thesis using run spec(2,3) by (auto simp: responsive_def)
qed

text \<open>
  A client that is stale from the start: two pings go out, the third tick cancels. A client that
  registered at time 5 and never answers: three pings, cancelled at the fourth tick.
\<close>

definition silent_ticks :: "int \<Rightarrow> int \<Rightarrow> nat \<Rightarrow> hb_tick list" where
  "silent_ticks pong t0 n =
     map (\<lambda>i. \<lparr>ht_now = t0 + (int i + 1) * HeartbeatInterval, ht_last = pong, ht_write_ok = True\<rparr>) [0..<n]"

theorem heartbeat_exact_witness:
  "StartHeartbeat 0 (silent_ticks (5 - 60000000000) 5 6) = [HB_Ping 0, HB_Ping 1, HB_Timeout] \<and>
   StartHeartbeat 0 (silent_ticks 5 5 6) = [HB_Ping 0, HB_Ping 1, HB_Ping 2, HB_Timeout]"
proof -
  have "pings (silent_ticks (5 - 60000000000) 5 6) = 2" "pings (silent_ticks 5 5 6) = 3"
    by (simp_all add: pings_def silent_ticks_def ends_at_def stale_def HeartbeatInterval_def upt_rec)
  moreover have "StartHeartbeat 0 (silent_ticks (5 - 60000000000) 5 6) = heartbeat_spec (silent_ticks (5 - 60000000000) 5 6)"
    "StartHeartbeat 0 (silent_ticks 5 5 6) = heartbeat_spec (silent_ticks 5 5 6)"
    using heartbeat_exact by blast+
  ultimately show ?thesis
    by (simp add: heartbeat_spec_def silent_ticks_def stale_def HeartbeatInterval_def upt_rec)
qed

end
