(* ===== verification/EventBus.thy ===== *)
theory EventBus
  imports Prelude "HOL-Library.Sublist"
begin

text \<open>
  \<open>internal/admin/events.go\<close>: a broadcaster in which every subscriber has a channel of bounded
  capacity and a full channel loses the event. Channels live in a heap by their address; a send on
  or a second close of a closed channel would panic, which the model makes a state of its own.
\<close>

record Event =
  ev_Type :: string
  ev_Name :: string
  ev_Addr :: string
  ev_Detail :: string
  ev_Time :: int

record chan =
  ch_buf :: "Event list"
  ch_cap :: nat
  ch_closed :: bool

record EventBus =
  eb_subscribers :: "ptr set"
  eb_bufSize :: nat
  eb_chans :: "ptr \<rightharpoonup> chan"
  eb_next :: ptr
  eb_panic :: bool

definition NewEventBus :: "int \<Rightarrow> EventBus" where
  "NewEventBus bufSize =
     \<lparr>eb_subscribers = {}, eb_bufSize = nat (if bufSize \<le> 0 then 16 else bufSize), eb_chans = Map.empty,
      eb_next = 0, eb_panic = False\<rparr>"

text \<open>The non-blocking send: a closed channel panics, a full one drops.\<close>

definition send_nb :: "Event \<Rightarrow> chan \<Rightarrow> chan" where
  "send_nb ev c = (if length (ch_buf c) < ch_cap c then c\<lparr>ch_buf := ch_buf c @ [ev]\<rparr> else c)"

text \<open>\<open>time.Time\<close> zero is 0; the order in which the subscribers are served does not matter.\<close>

definition Publish :: "int \<Rightarrow> Event \<Rightarrow> EventBus \<Rightarrow> EventBus" where
  "Publish now ev b =
     (let ev = (if ev_Time ev = 0 then ev\<lparr>ev_Time := now\<rparr> else ev)
      in b\<lparr>eb_chans := (\<lambda>p. if p \<in> eb_subscribers b then map_option (send_nb ev) (eb_chans b p) else eb_chans b p),
           eb_panic := (eb_panic b \<or> (\<exists>p \<in> eb_subscribers b. \<exists>c. eb_chans b p = Some c \<and> ch_closed c))\<rparr>)"

definition Subscribe :: "EventBus \<Rightarrow> ptr \<times> EventBus" where
  "Subscribe b =
     (let p = eb_next b
      in (p, b\<lparr>eb_chans := (eb_chans b)(p \<mapsto> \<lparr>ch_buf = [], ch_cap = eb_bufSize b, ch_closed = False\<rparr>),
               eb_next := p + 1, eb_subscribers := insert p (eb_subscribers b)\<rparr>))"

text \<open>The cleanup function: delete under the lock, then close.\<close>

definition Unsubscribe_delete :: "ptr \<Rightarrow> EventBus \<Rightarrow> EventBus" where
  "Unsubscribe_delete p b = b\<lparr>eb_subscribers := eb_subscribers b - {p}\<rparr>"

definition Unsubscribe_close :: "ptr \<Rightarrow> EventBus \<Rightarrow> EventBus" where
  "Unsubscribe_close p b =
     (case eb_chans b p of
        None \<Rightarrow> b
      | Some c \<Rightarrow>
          b\<lparr>eb_chans := (eb_chans b)(p \<mapsto> c\<lparr>ch_closed := True\<rparr>),
            eb_panic := (eb_panic b \<or> ch_closed c)\<rparr>)"

definition Receive :: "ptr \<Rightarrow> EventBus \<Rightarrow> Event option \<times> EventBus" where
  "Receive p b =
     (case eb_chans b p of
        Some c \<Rightarrow>
          (case ch_buf c of
             [] \<Rightarrow> (None, b)
           | e # es \<Rightarrow> (Some e, b\<lparr>eb_chans := (eb_chans b)(p \<mapsto> c\<lparr>ch_buf := es\<rparr>)\<rparr>))
      | None \<Rightarrow> (None, b))"

subsection \<open>What a subscriber sees\<close>

text \<open>The operations of other goroutines and of the observed subscriber, in lock order.\<close>

datatype bus_op = BPublish Event | BSubscribe | BReceive ptr | BDelete ptr | BClose ptr

fun bus_step :: "EventBus \<Rightarrow> bus_op \<Rightarrow> EventBus" where
  "bus_step b (BPublish ev) = Publish (ev_Time ev) ev b"
| "bus_step b BSubscribe = snd (Subscribe b)"
| "bus_step b (BReceive p) = snd (Receive p b)"
| "bus_step b (BDelete p) = Unsubscribe_delete p b"
| "bus_step b (BClose p) = Unsubscribe_close p b"

definition buf_of :: "EventBus \<Rightarrow> ptr \<Rightarrow> Event list" where
  "buf_of b p = (case eb_chans b p of None \<Rightarrow> [] | Some c \<Rightarrow> ch_buf c)"

text \<open>What \<open>p\<close> received in a run, and what was published in it.\<close>

fun received :: "ptr \<Rightarrow> bus_op list \<Rightarrow> EventBus \<Rightarrow> Event list" where
  "received p [] b = []"
| "received p (BReceive q # es) b =
     (if q = p then (case fst (Receive q b) of None \<Rightarrow> [] | Some e \<Rightarrow> [e]) else []) @
     received p es (snd (Receive q b))"
| "received p (e # es) b = received p es (bus_step b e)"

fun published :: "bus_op list \<Rightarrow> Event list" where
  "published [] = []"
| "published (BPublish ev # es) = ev # published es"
| "published (e # es) = published es"

definition subscribed :: "nat \<Rightarrow> ptr \<Rightarrow> EventBus \<Rightarrow> bool" where
  "subscribed cap p b \<longleftrightarrow> p \<in> eb_subscribers b \<and> p < eb_next b \<and>
     (\<exists>c. eb_chans b p = Some c \<and> ch_cap c = cap \<and> length (ch_buf c) \<le> cap)"

lemma Publish_buf:
  "subscribed cap p b \<Longrightarrow>
   buf_of (Publish (ev_Time ev) ev b) p = (if length (buf_of b p) < cap then buf_of b p @ [ev] else buf_of b p)
   \<and> subscribed cap p (Publish (ev_Time ev) ev b)"
  by (cases "eb_chans b p") (auto simp: subscribed_def buf_of_def Publish_def send_nb_def Let_def)

lemma other_step:
  assumes "subscribed cap p b" "e \<noteq> BDelete p" "e \<noteq> BReceive p" "\<And>ev. e \<noteq> BPublish ev"
  shows "buf_of (bus_step b e) p = buf_of b p \<and> subscribed cap p (bus_step b e)"
  using assms by (cases e)
    (auto simp: subscribed_def buf_of_def Subscribe_def Receive_def Unsubscribe_delete_def
       Unsubscribe_close_def Let_def split: option.splits list.splits)

lemma Receive_buf:
  "subscribed cap p b \<Longrightarrow>
   (case Receive p b of (r, b') \<Rightarrow> set_option r = set (take 1 (buf_of b p)) \<and>
      buf_of b p = (case r of None \<Rightarrow> [] | Some e \<Rightarrow> [e]) @ buf_of b' p \<and> subscribed cap p b')"
  by (auto simp: subscribed_def buf_of_def Receive_def split: option.splits list.splits)

lemma received_subseq:
  assumes "subscribed cap p b" "BDelete p \<notin> set es"
  shows "subseq (received p es b @ buf_of (foldl bus_step b es) p) (buf_of b p @ published es)"
  using assms
proof (induction es arbitrary: b)
  case Nil
  then show ?case by simp
next
  case (Cons e es)
  show ?case
  proof (cases e)
    case (BPublish ev)
    let ?b = "Publish (ev_Time ev) ev b"
    have p: "subscribed cap p ?b" "subseq (buf_of ?b p) (buf_of b p @ [ev])"
      using Publish_buf [OF Cons.prems(1), of ev] by auto
    have "subseq (received p es ?b @ buf_of (foldl bus_step ?b es) p) (buf_of ?b p @ published es)"
      using Cons.IH [OF p(1)] Cons.prems(2) by simp
    also have "subseq (buf_of ?b p @ published es) ((buf_of b p @ [ev]) @ published es)"
      using p(2) by (rule list_emb_append_mono) simp
    finally (subseq_order.trans) show ?thesis using BPublish by simp
  next
    case (BReceive q)
    show ?thesis
    proof (cases "q = p")
      case True
      obtain r b' where r: "Receive p b = (r, b')" by fastforce
      have x: "buf_of b p = (case r of None \<Rightarrow> [] | Some e \<Rightarrow> [e]) @ buf_of b' p" "subscribed cap p b'"
        using Receive_buf [OF Cons.prems(1)] r by auto
      have "subseq (received p es b' @ buf_of (foldl bus_step b' es) p) (buf_of b' p @ published es)"
        using Cons.IH [OF x(2)] Cons.prems(2) by simp
      then show ?thesis using BReceive True r x(1) by (simp add: subseq_append')
    next
      case False
      then have "e \<noteq> BReceive p" using BReceive by simp
      then show ?thesis using other_step [OF Cons.prems(1), of e] Cons.IH [of "bus_step b e"] Cons.prems(2) BReceive False
        by simp
    qed
  next
    case BSubscribe
    then show ?thesis using other_step [OF Cons.prems(1), of e] Cons.IH [of "bus_step b e"] Cons.prems(2) by simp
  next
    case (BDelete q)
    then show ?thesis using other_step [OF Cons.prems(1), of e] Cons.IH [of "bus_step b e"] Cons.prems(2) by simp
  next
    case (BClose q)
    then show ?thesis using other_step [OF Cons.prems(1), of e] Cons.IH [of "bus_step b e"] Cons.prems(2) by simp
  qed
qed

text \<open>When what is waiting and what is still to come fits the channel, nothing is lost.\<close>

lemma received_all:
  assumes "subscribed cap p b" "BDelete p \<notin> set es" "length (buf_of b p) + length (published es) \<le> cap"
  shows "received p es b @ buf_of (foldl bus_step b es) p = buf_of b p @ published es"
  using assms
proof (induction es arbitrary: b)
  case Nil
  then show ?case by simp
next
  case (Cons e es)
  have other: "received p es (bus_step b e) @ buf_of (foldl bus_step (bus_step b e) es) p = buf_of b p @ published es"
    if "e \<noteq> BReceive p" "\<And>ev. e \<noteq> BPublish ev" "published (e # es) = published es"
  proof -
    have "e \<noteq> BDelete p" using Cons.prems(2) by auto
    then have "buf_of (bus_step b e) p = buf_of b p \<and> subscribed cap p (bus_step b e)"
      using other_step [OF Cons.prems(1)] that(1,2) by blast
    then show ?thesis using Cons.IH [of "bus_step b e"] Cons.prems(2,3) that(3) by simp
  qed
  show ?case
  proof (cases e)
    case (BPublish ev)
    then show ?thesis using Publish_buf [OF Cons.prems(1), of ev] Cons.IH [of "bus_step b e"] Cons.prems(2,3) by simp
  next
    case (BReceive q)
    show ?thesis
    proof (cases "q = p")
      case True
      obtain r b' where r: "Receive p b = (r, b')" by fastforce
      then have x: "buf_of b p = (case r of None \<Rightarrow> [] | Some e \<Rightarrow> [e]) @ buf_of b' p" "subscribed cap p b'"
        using Receive_buf [OF Cons.prems(1)] by auto
      then have "length (buf_of b' p) \<le> length (buf_of b p)" by simp
      then show ?thesis using BReceive True r x Cons.IH [OF x(2)] Cons.prems(2,3) by simp
    qed (use other BReceive in simp)
  qed (use other in simp_all)
qed

lemma received_bounded:
  "subscribed cap p b \<Longrightarrow> BDelete p \<notin> set es \<Longrightarrow> length (buf_of (foldl bus_step b es) p) \<le> cap"
proof (induction es arbitrary: b)
  case Nil
  then show ?case by (auto simp: subscribed_def buf_of_def)
next
  case (Cons e es)
  have "subscribed cap p (bus_step b e)"
  proof (cases e)
    case (BReceive q)
    then show ?thesis using Receive_buf [OF Cons.prems(1)] other_step [OF Cons.prems(1), of e] Cons.prems(2)
      by (cases "q = p") (auto split: prod.splits)
  qed (use Publish_buf [OF Cons.prems(1)] other_step [OF Cons.prems(1), of e] Cons.prems(2) in auto)
  then show ?case using Cons.IH Cons.prems(2) by simp
qed

text \<open>
  C36. The event stream of a subscriber. Whatever other subscribers and publishers do, and however
  slow they are, what one subscriber has received followed by what waits in its channel is a
  subsequence, in order, of what was published since it subscribed; the channel never holds more than
  the bus's buffer size; and as long as no more than that was published, nothing is lost.
\<close>

theorem subscriber_sees_in_order:
  assumes "Subscribe b = (p, b')" "BDelete p \<notin> set es"
  shows "subseq (received p es b' @ buf_of (foldl bus_step b' es) p) (published es) \<and>
         length (buf_of (foldl bus_step b' es) p) \<le> eb_bufSize b \<and>
         (length (published es) \<le> eb_bufSize b \<longrightarrow>
            received p es b' @ buf_of (foldl bus_step b' es) p = published es)"
proof -
  have s: "subscribed (eb_bufSize b) p b'" "buf_of b' p = []"
    using assms(1) by (auto simp: Subscribe_def Let_def subscribed_def buf_of_def)
  show ?thesis
    using received_subseq [OF s(1) assms(2)] received_all [OF s(1) assms(2)] received_bounded [OF s(1) assms(2)] s(2)
    by simp
qed

definition demo_event :: "string \<Rightarrow> Event" where
  "demo_event t = \<lparr>ev_Type = t, ev_Name = [], ev_Addr = [], ev_Detail = [], ev_Time = 1\<rparr>"

theorem subscriber_sees_in_order_witness:
  "received 0 [BPublish (demo_event ''a''), BReceive 0, BPublish (demo_event ''b''), BReceive 0]
     (snd (Subscribe (NewEventBus 1))) = [demo_event ''a'', demo_event ''b'']
   \<and> subseq (received 0 [BPublish (demo_event ''a''), BPublish (demo_event ''b''), BReceive 0] (snd (Subscribe (NewEventBus 1))))
       [demo_event ''a'', demo_event ''b'']"
proof (rule conjI)
  show "received 0 [BPublish (demo_event ''a''), BReceive 0, BPublish (demo_event ''b''), BReceive 0]
     (snd (Subscribe (NewEventBus 1))) = [demo_event ''a'', demo_event ''b'']"
    by (simp add: demo_event_def NewEventBus_def Subscribe_def Receive_def Publish_def send_nb_def Let_def)
  let ?es = "[BPublish (demo_event ''a''), BPublish (demo_event ''b''), BReceive 0]"
  have "Subscribe (NewEventBus 1) = (0, snd (Subscribe (NewEventBus 1)))"
    by (simp add: NewEventBus_def Subscribe_def Let_def)
  then have "subseq (received 0 ?es (snd (Subscribe (NewEventBus 1))) @
      buf_of (foldl bus_step (snd (Subscribe (NewEventBus 1))) ?es) 0) (published ?es)"
    using subscriber_sees_in_order [of "NewEventBus 1" 0 "snd (Subscribe (NewEventBus 1))" ?es] by simp
  then have "subseq (received 0 ?es (snd (Subscribe (NewEventBus 1)))) (published ?es)"
    by (rule list_emb_appendD [THEN exE]) (auto intro: subseq_rev_drop_many)
  then show "subseq (received 0 ?es (snd (Subscribe (NewEventBus 1)))) [demo_event ''a'', demo_event ''b'']"
    by simp
qed

end
