(* ===== verification/SocksMux.thy ===== *)
theory SocksMux
  imports Prelude "HOL-Library.Sublist"
begin

text \<open>
  \<open>internal/tunnel/socks_mux.go\<close>: the channels multiplexed over one control connection. The map
  holds pointers that the relays share, so channels live in a heap. Every method takes the lock, looks
  up or detaches channels, releases the lock and only then acts on what it found; other methods can
  run in between, so a method that closes channels is a step that detaches them (they are then in
  \<open>sm_closing\<close>) and one closing step per channel.

  \<open>Recv\<close> and \<open>recvW\<close> are the ends of an \<open>io.Pipe\<close>, which has no buffer: a write stays pending
  until the reader has taken all of it or the pipe is closed. \<open>sch_read\<close> is what the reader has
  taken so far. \<open>sm_deliver\<close> holds the local variables of the calls of \<open>Deliver\<close> that run: the
  goroutine has looked its channel up, released the lock, and has not begun the write yet.
\<close>

type_synonym ready = "bool \<times> string"

record SOCKSChannel =
  sch_ConnID :: string
  sch_ReadyCh :: "ready option"
  sch_pending :: "bytes option"
  sch_read :: bytes
  sch_wclosed :: bool
  sch_done :: bool

record SOCKSMux =
  sm_channels :: "string \<rightharpoonup> ptr"
  sm_heap :: "ptr \<rightharpoonup> SOCKSChannel"
  sm_next :: ptr
  sm_wg :: int
  sm_closing :: "ptr set"
  sm_deliver :: "nat \<rightharpoonup> ptr \<times> bytes"

datatype mux_error = AlreadyRegistered string | UnknownChannel string | ClosedPipe

definition NewSOCKSMux :: SOCKSMux where
  "NewSOCKSMux = \<lparr>sm_channels = Map.empty, sm_heap = Map.empty, sm_next = 0, sm_wg = 0, sm_closing = {},
     sm_deliver = Map.empty\<rparr>"

definition NewChannel :: "string \<Rightarrow> SOCKSMux \<Rightarrow> (mux_error + ptr) \<times> SOCKSMux" where
  "NewChannel connID m =
     (let ch = \<lparr>sch_ConnID = connID, sch_ReadyCh = None, sch_pending = None, sch_read = [],
                sch_wclosed = False, sch_done = False\<rparr>;
          p = sm_next m
      in case sm_channels m connID of
           Some _ \<Rightarrow> (Inl (AlreadyRegistered connID), m)
         | None \<Rightarrow>
             (Inr p, m\<lparr>sm_channels := (sm_channels m)(connID \<mapsto> p), sm_heap := (sm_heap m)(p \<mapsto> ch),
                       sm_next := p + 1, sm_wg := sm_wg m + 1\<rparr>))"

text \<open>\<open>Remove\<close> and \<open>DeliverClose\<close> have the same body; this is its part under the lock.\<close>

definition detach :: "string \<Rightarrow> SOCKSMux \<Rightarrow> SOCKSMux" where
  "detach connID m =
     (case sm_channels m connID of
        None \<Rightarrow> m
      | Some p \<Rightarrow> m\<lparr>sm_channels := (sm_channels m)(connID := None), sm_closing := insert p (sm_closing m)\<rparr>)"

text \<open>
  \<open>ch.Close()\<close>, \<open>recvW.Close()\<close> and \<open>wg.Done()\<close>. Closing the pipe makes a pending write return
  with an error. \<open>Close\<close> runs its body once.
\<close>

definition close_channel :: "SOCKSChannel \<Rightarrow> SOCKSChannel" where
  "close_channel ch = ch\<lparr>sch_done := True, sch_wclosed := True, sch_pending := None\<rparr>"

definition finish_close :: "ptr \<Rightarrow> SOCKSMux \<Rightarrow> SOCKSMux" where
  "finish_close p m =
     m\<lparr>sm_heap := (sm_heap m)(p := map_option close_channel (sm_heap m p)),
       sm_wg := sm_wg m - 1, sm_closing := sm_closing m - {p}\<rparr>"

definition Mux_Remove :: "string \<Rightarrow> SOCKSMux \<Rightarrow> SOCKSMux" where
  "Mux_Remove connID m =
     (case sm_channels m connID of
        None \<Rightarrow> m
      | Some p \<Rightarrow> finish_close p (detach connID m))"

definition DeliverClose :: "string \<Rightarrow> SOCKSMux \<Rightarrow> SOCKSMux" where
  "DeliverClose connID m = Mux_Remove connID m"

definition detach_all :: "SOCKSMux \<Rightarrow> SOCKSMux" where
  "detach_all m = m\<lparr>sm_channels := Map.empty, sm_closing := sm_closing m \<union> ran (sm_channels m)\<rparr>"

text \<open>\<open>CloseAll\<close> closes in the order of the slice \<open>ps\<close>, a listing of the map's values.\<close>

definition CloseAll :: "ptr list \<Rightarrow> SOCKSMux \<Rightarrow> SOCKSMux" where
  "CloseAll ps m = foldl (\<lambda>m p. finish_close p m) (detach_all m) ps"

text \<open>\<open>DrainAndClose\<close>: either the wait group was seen at zero in time, or everything is closed.\<close>

definition DrainAndClose :: "bool \<Rightarrow> ptr list \<Rightarrow> SOCKSMux \<Rightarrow> SOCKSMux" where
  "DrainAndClose timed_out ps m = (if timed_out then CloseAll ps m else m)"

definition Mux_Get :: "string \<Rightarrow> SOCKSMux \<Rightarrow> ptr option" where
  "Mux_Get connID m = sm_channels m connID"

text \<open>\<open>DeliverReady\<close>: a non-blocking send on a channel of capacity 1.\<close>

definition DeliverReady :: "string \<Rightarrow> bool \<Rightarrow> string \<Rightarrow> SOCKSMux \<Rightarrow> mux_error option \<times> SOCKSMux" where
  "DeliverReady connID success errMsg m =
     (case sm_channels m connID of
        None \<Rightarrow> (Some (UnknownChannel connID), m)
      | Some p \<Rightarrow>
          (None, m\<lparr>sm_heap := (sm_heap m)(p := map_option
             (\<lambda>ch. if sch_ReadyCh ch = None then ch\<lparr>sch_ReadyCh := Some (success, errMsg)\<rparr> else ch) (sm_heap m p))\<rparr>))"

text \<open>
  \<open>Deliver\<close> in its two parts: the lookup, and the write to the pipe of the channel found, which
  starts only when no other write is pending (\<open>None\<close>: it has to wait).
\<close>

definition Deliver_lookup :: "string \<Rightarrow> SOCKSMux \<Rightarrow> mux_error + ptr" where
  "Deliver_lookup connID m =
     (case sm_channels m connID of None \<Rightarrow> Inl (UnknownChannel connID) | Some p \<Rightarrow> Inr p)"

definition Pipe_write :: "bytes \<Rightarrow> SOCKSChannel \<Rightarrow> (mux_error option \<times> SOCKSChannel) option" where
  "Pipe_write data ch =
     (if sch_wclosed ch then Some (Some ClosedPipe, ch)
      else (case sch_pending ch of
              Some _ \<Rightarrow> None
            | None \<Rightarrow> Some (None, ch\<lparr>sch_pending := Some data\<rparr>)))"

definition Deliver_start :: "nat \<Rightarrow> string \<Rightarrow> bytes \<Rightarrow> SOCKSMux \<Rightarrow> mux_error + SOCKSMux" where
  "Deliver_start g connID data m =
     (case Deliver_lookup connID m of
        Inl e \<Rightarrow> Inl e
      | Inr p \<Rightarrow> Inr (m\<lparr>sm_deliver := (sm_deliver m)(g \<mapsto> (p, data))\<rparr>))"

definition Deliver_write :: "nat \<Rightarrow> SOCKSMux \<Rightarrow> (mux_error option \<times> SOCKSMux) option" where
  "Deliver_write g m =
     (case sm_deliver m g of
        None \<Rightarrow> None
      | Some (p, data) \<Rightarrow>
         (case sm_heap m p of
            None \<Rightarrow> None
          | Some ch \<Rightarrow>
             (case Pipe_write data ch of
                None \<Rightarrow> None
              | Some (e, ch') \<Rightarrow>
                  Some (e, m\<lparr>sm_heap := (sm_heap m)(p \<mapsto> ch'), sm_deliver := (sm_deliver m)(g := None)\<rparr>))))"

text \<open>
  A read with a buffer of \<open>n\<close> bytes: a pending write gives up to \<open>n\<close> of them, and the write
  returns when all are gone; a closed pipe gives \<open>EOF\<close>; otherwise the reader waits.
\<close>

datatype read_result = Got bytes | PipeEOF

definition Pipe_read :: "nat \<Rightarrow> SOCKSChannel \<Rightarrow> (read_result \<times> SOCKSChannel) option" where
  "Pipe_read n ch =
     (if sch_wclosed ch then Some (PipeEOF, ch)
      else (case sch_pending ch of
              None \<Rightarrow> None
            | Some data \<Rightarrow>
                Some (Got (take n data),
                      ch\<lparr>sch_read := sch_read ch @ take n data,
                         sch_pending := (if length data \<le> n then None else Some (drop n data))\<rparr>)))"

subsection \<open>Every interleaving\<close>

text \<open>
  \<open>Deliver\<close> is two steps of a goroutine \<open>g\<close>: the lookup under the read lock and, when the pipe takes
  it, the write to the channel that the lookup found, whatever became of the map since; \<open>LFail\<close> is the
  error of a write to a channel closed in between. \<open>LUnknown\<close> is a call for an unregistered ID.
\<close>

datatype mux_label =
    LNew string | LDetach string | LDetachAll | LFinish ptr | LReady string bool string
  | LDeliver nat string bytes | LUnknown nat string bytes | LWrite nat | LFail nat | LRead ptr nat

inductive mux_step :: "SOCKSMux \<Rightarrow> mux_label \<Rightarrow> SOCKSMux \<Rightarrow> bool" where
  new: "mux_step m (LNew c) (snd (NewChannel c m))"
| detach: "mux_step m (LDetach c) (detach c m)"
| detach_all: "mux_step m LDetachAll (detach_all m)"
| finish: "p \<in> sm_closing m \<Longrightarrow> mux_step m (LFinish p) (finish_close p m)"
| ready: "mux_step m (LReady c ok e) (snd (DeliverReady c ok e m))"
| deliver: "sm_deliver m g = None \<Longrightarrow> Deliver_start g c data m = Inr m' \<Longrightarrow> mux_step m (LDeliver g c data) m'"
| unknown: "sm_deliver m g = None \<Longrightarrow> Deliver_start g c data m = Inl e \<Longrightarrow> mux_step m (LUnknown g c data) m"
| pipe_write: "Deliver_write g m = Some (None, m') \<Longrightarrow> mux_step m (LWrite g) m'"
| pipe_fail: "Deliver_write g m = Some (Some e, m') \<Longrightarrow> mux_step m (LFail g) m'"
| pipe_read: "sm_heap m p = Some ch \<Longrightarrow> Pipe_read n ch = Some (Got bs, ch') \<Longrightarrow>
    mux_step m (LRead p n) (m\<lparr>sm_heap := (sm_heap m)(p \<mapsto> ch')\<rparr>)"

inductive mux_run :: "SOCKSMux \<Rightarrow> mux_label list \<Rightarrow> SOCKSMux \<Rightarrow> bool" where
  mux_start: "mux_run m [] m"
| mux_more: "mux_run m ls m' \<Longrightarrow> mux_step m' l m'' \<Longrightarrow> mux_run m (ls @ [l]) m''"

inductive_cases mux_stepE: "mux_step m l m'"

definition mux_inv :: "SOCKSMux \<Rightarrow> bool" where
  "mux_inv m \<longleftrightarrow>
     finite (dom (sm_channels m)) \<and> finite (sm_closing m) \<and>
     sm_wg m = int (card (dom (sm_channels m))) + int (card (sm_closing m)) \<and>
     (\<forall>c p. sm_channels m c = Some p \<longrightarrow> p \<notin> sm_closing m \<and>
        (\<exists>ch. sm_heap m p = Some ch \<and> sch_ConnID ch = c \<and> \<not> sch_done ch)) \<and>
     (\<forall>p \<in> sm_closing m. \<exists>ch. sm_heap m p = Some ch \<and> \<not> sch_done ch) \<and>
     (\<forall>p ch. sm_heap m p = Some ch \<longrightarrow> p < sm_next m \<and> sch_wclosed ch = sch_done ch \<and>
        (\<not> sch_done ch \<longrightarrow> p \<in> sm_closing m \<or> sm_channels m (sch_ConnID ch) = Some p))"

lemma mux_inv_parts:
  assumes "mux_inv m"
  shows "finite (dom (sm_channels m))" "finite (sm_closing m)"
    "sm_wg m = int (card (dom (sm_channels m))) + int (card (sm_closing m))"
    "sm_channels m c = Some p \<Longrightarrow> p \<notin> sm_closing m"
    "sm_channels m c = Some p \<Longrightarrow> \<exists>ch. sm_heap m p = Some ch \<and> sch_ConnID ch = c \<and> \<not> sch_done ch"
    "p \<in> sm_closing m \<Longrightarrow> \<exists>ch. sm_heap m p = Some ch \<and> \<not> sch_done ch"
    "sm_heap m p = Some ch \<Longrightarrow> p < sm_next m"
    "sm_heap m p = Some ch \<Longrightarrow> sch_wclosed ch = sch_done ch"
    "sm_heap m p = Some ch \<Longrightarrow> \<not> sch_done ch \<Longrightarrow> p \<in> sm_closing m \<or> sm_channels m (sch_ConnID ch) = Some p"
  using assms unfolding mux_inv_def by blast+

lemma mux_invI:
  assumes "finite (dom (sm_channels m))" "finite (sm_closing m)"
    "sm_wg m = int (card (dom (sm_channels m))) + int (card (sm_closing m))"
    "\<And>c p. sm_channels m c = Some p \<Longrightarrow> p \<notin> sm_closing m"
    "\<And>c p. sm_channels m c = Some p \<Longrightarrow> \<exists>ch. sm_heap m p = Some ch \<and> sch_ConnID ch = c \<and> \<not> sch_done ch"
    "\<And>p. p \<in> sm_closing m \<Longrightarrow> \<exists>ch. sm_heap m p = Some ch \<and> \<not> sch_done ch"
    "\<And>p ch. sm_heap m p = Some ch \<Longrightarrow> p < sm_next m"
    "\<And>p ch. sm_heap m p = Some ch \<Longrightarrow> sch_wclosed ch = sch_done ch"
    "\<And>p ch. sm_heap m p = Some ch \<Longrightarrow> \<not> sch_done ch \<Longrightarrow> p \<in> sm_closing m \<or> sm_channels m (sch_ConnID ch) = Some p"
  shows "mux_inv m"
  using assms unfolding mux_inv_def by blast

lemma mux_inv_New: "mux_inv NewSOCKSMux"
  by (simp add: mux_inv_def NewSOCKSMux_def)

lemma mux_inv_fresh: "mux_inv m \<Longrightarrow> sm_heap m (sm_next m) = None"
  unfolding mux_inv_def by (metis less_irrefl not_None_eq)

lemma mux_inv_NewChannel: "mux_inv m \<Longrightarrow> mux_inv (snd (NewChannel c m))"
proof (cases "sm_channels m c")
  case None
  assume inv: "mux_inv m"
  note fresh = mux_inv_fresh [OF inv]
  have old: "sm_channels m d \<noteq> Some (sm_next m)" "sm_next m \<notin> sm_closing m" for d
    using inv fresh unfolding mux_inv_def by (metis option.distinct(1))+
  let ?n = "sm_next m"
  let ?ch = "\<lparr>sch_ConnID = c, sch_ReadyCh = None, sch_pending = None, sch_read = [],
                sch_wclosed = False, sch_done = False\<rparr>"
  have new: "snd (NewChannel c m) = m\<lparr>sm_channels := (sm_channels m)(c \<mapsto> ?n),
      sm_heap := (sm_heap m)(?n \<mapsto> ?ch), sm_next := ?n + 1, sm_wg := sm_wg m + 1\<rparr>"
    using None by (simp add: NewChannel_def Let_def)
  note parts = mux_inv_parts [OF inv]
  have "c \<notin> dom (sm_channels m)" using None by auto
  then have card: "int (card (insert c (dom (sm_channels m)))) = int (card (dom (sm_channels m))) + 1"
    using parts(1) by simp
  show ?thesis unfolding new
  proof (rule mux_invI, goal_cases)
    case (5 d p) then show ?case using parts(5) [of d p] fresh old by (auto split: if_splits)
  next
    case (6 p) then show ?case using parts(6) [of p] old by auto
  next
    case (7 p ch) then show ?case using parts(7) [of p ch] by (auto simp: less_Suc_eq split: if_splits)
  next
    case (9 p ch) then show ?case using parts(9) [of p ch] None by (auto split: if_splits)
  qed (use parts(1-4,8) card old in \<open>auto split: if_splits\<close>)
qed (simp add: NewChannel_def)

lemma mux_inv_inj:
  "mux_inv m \<Longrightarrow> sm_channels m c = Some p \<Longrightarrow> sm_channels m d = Some p \<Longrightarrow> c = d"
  unfolding mux_inv_def by (metis option.inject)

lemma card_dom_remove:
  "finite (dom f) \<Longrightarrow> f c = Some p \<Longrightarrow> int (card (dom f - {c})) = int (card (dom f)) - 1"
  using card_Suc_Diff1 [of "dom f" c] by (simp add: domI)

lemma mux_inv_detach: "mux_inv m \<Longrightarrow> mux_inv (detach c m)"
proof (cases "sm_channels m c")
  case (Some p)
  assume inv: "mux_inv m"
  have p: "p \<notin> sm_closing m" using inv Some by (simp add: mux_inv_def)
  have inj: "sm_channels m d \<noteq> Some p" if "d \<noteq> c" for d
    using mux_inv_inj [OF inv Some] that by metis
  have "finite (dom (sm_channels m))" using inv by (simp add: mux_inv_def)
  then have card: "int (card (dom (sm_channels m) - {c})) = int (card (dom (sm_channels m))) - 1"
    using Some by (rule card_dom_remove)
  note parts = mux_inv_parts [OF inv]
  have det: "detach c m = m\<lparr>sm_channels := (sm_channels m)(c := None), sm_closing := insert p (sm_closing m)\<rparr>"
    using Some by (simp add: detach_def)
  show ?thesis unfolding det
  proof (rule mux_invI, goal_cases)
    case (4 d q) then show ?case using parts(4) [of d q] inj [of d] by (auto split: if_splits)
  next
    case (5 d q) then show ?case using parts(5) [of d q] by (auto split: if_splits)
  next
    case (6 q) then show ?case using parts(5) [OF Some] parts(6) [of q] by auto
  next
    case (9 q ch) then show ?case using parts(9) [of q ch] Some by (auto split: if_splits)
  qed (use parts(1-3,7,8) p card in auto)
qed (simp add: detach_def)

lemma ran_card:
  assumes "finite (dom f)" "\<And>c d p. f c = Some p \<Longrightarrow> f d = Some p \<Longrightarrow> c = d"
  shows "finite (ran f)" "card (ran f) = card (dom f)"
proof -
  have "ran f = (\<lambda>c. the (f c)) ` dom f" by (force simp: ran_def)
  moreover have "inj_on (\<lambda>c. the (f c)) (dom f)"
    using assms(2) by (auto simp: inj_on_def)
  ultimately show "finite (ran f)" "card (ran f) = card (dom f)"
    using assms(1) by (simp_all add: card_image)
qed

lemma mux_inv_detach_all: "mux_inv m \<Longrightarrow> mux_inv (detach_all m)"
proof -
  assume inv: "mux_inv m"
  have fin: "finite (dom (sm_channels m))" using inv by (simp add: mux_inv_def)
  note ran = ran_card [OF fin mux_inv_inj [OF inv]]
  have disj: "sm_closing m \<inter> ran (sm_channels m) = {}"
    using inv by (auto simp: mux_inv_def ran_def)
  note parts = mux_inv_parts [OF inv]
  have un: "int (card (sm_closing m \<union> ran (sm_channels m))) = sm_wg m"
    using card_Un_disjoint [OF parts(2) ran(1) disj] ran(2) parts(3) by simp
  show ?thesis unfolding detach_all_def
  proof (rule mux_invI, goal_cases)
    case (6 q) then show ?case using parts(5) [of _ q] parts(6) [of q] by (auto simp: ran_def)
  next
    case (9 q ch) then show ?case using parts(9) [of q ch] by (auto simp: ran_def)
  qed (use parts(2,7,8) ran un in auto)
qed

lemma mux_inv_finish: "mux_inv m \<Longrightarrow> p \<in> sm_closing m \<Longrightarrow> mux_inv (finish_close p m)"
proof -
  assume inv: "mux_inv m" and p: "p \<in> sm_closing m"
  have fin: "finite (sm_closing m)" using inv by (simp add: mux_inv_def)
  have card: "int (card (sm_closing m - {p})) = int (card (sm_closing m)) - 1"
    using card_Suc_Diff1 [OF fin p] by simp
  note parts = mux_inv_parts [OF inv]
  obtain ch where ch: "sm_heap m p = Some ch" "\<not> sch_done ch" using parts(6) [OF p] by blast
  have reg: "sm_channels m c \<noteq> Some p" for c using parts(4) p by blast
  have fc: "finish_close p m = m\<lparr>sm_heap := (sm_heap m)(p \<mapsto> close_channel ch),
       sm_wg := sm_wg m - 1, sm_closing := sm_closing m - {p}\<rparr>"
    using ch by (simp add: finish_close_def)
  show ?thesis unfolding fc
  proof (rule mux_invI, goal_cases)
    case (5 d q) then show ?case using parts(5) [of d q] reg [of d] by (auto split: if_splits)
  next
    case (6 q) then show ?case using parts(6) [of q] by auto
  next
    case (7 q c) then show ?case using parts(7) ch(1) by (auto split: if_splits)
  next
    case (8 q c) then show ?case using parts(8) by (auto simp: close_channel_def split: if_splits)
  next
    case (9 q c) then show ?case using parts(9) by (auto simp: close_channel_def split: if_splits)
  qed (use parts(1-4) card in auto)
qed

text \<open>Steps on one channel's pipe or ready slot keep what the invariant reads.\<close>

definition same_status :: "SOCKSChannel \<Rightarrow> SOCKSChannel \<Rightarrow> bool" where
  "same_status ch ch' \<longleftrightarrow> sch_ConnID ch' = sch_ConnID ch \<and> sch_done ch' = sch_done ch \<and>
     sch_wclosed ch' = sch_wclosed ch"

lemma mux_inv_upd:
  assumes inv: "mux_inv m" and p: "sm_heap m p = Some ch" and s: "same_status ch ch'"
  shows "mux_inv (m\<lparr>sm_heap := (sm_heap m)(p \<mapsto> ch')\<rparr>)"
proof -
  note parts = mux_inv_parts [OF inv]
  have s': "sch_ConnID ch' = sch_ConnID ch" "sch_done ch' = sch_done ch" "sch_wclosed ch' = sch_wclosed ch"
    using s by (simp_all add: same_status_def)
  show ?thesis
  proof (rule mux_invI, goal_cases)
    case (5 d q) then show ?case using parts(5) [of d q] p s' by auto
  next
    case (6 q) then show ?case using parts(6) [of q] p s' by auto
  next
    case (7 q c) then show ?case using parts(7) p by (auto split: if_splits)
  next
    case (8 q c) then show ?case using parts(8) p s' by (auto split: if_splits)
  next
    case (9 q c) then show ?case using parts(9) p s' by (auto split: if_splits)
  qed (use parts(1-4) in auto)
qed

lemma same_status_pipe:
  "Pipe_write d ch = Some (None, ch') \<Longrightarrow> same_status ch ch'"
  "Pipe_read n ch = Some (Got bs, ch') \<Longrightarrow> same_status ch ch'"
  by (auto simp: Pipe_write_def Pipe_read_def same_status_def split: if_splits option.splits)

lemma mux_inv_deliver_field [simp]: "mux_inv (m\<lparr>sm_deliver := d\<rparr>) = mux_inv m"
  by (simp add: mux_inv_def)

lemma Deliver_startD:
  "Deliver_start g c data m = Inr m' \<Longrightarrow>
   \<exists>p. sm_channels m c = Some p \<and> m' = m\<lparr>sm_deliver := (sm_deliver m)(g \<mapsto> (p, data))\<rparr>"
  by (auto simp: Deliver_start_def Deliver_lookup_def split: option.splits)

lemma Deliver_writeE:
  assumes "Deliver_write g m = Some (e, m')"
  obtains p data ch ch' where "sm_deliver m g = Some (p, data)" "sm_heap m p = Some ch"
    "Pipe_write data ch = Some (e, ch')"
    "m' = m\<lparr>sm_heap := (sm_heap m)(p \<mapsto> ch'), sm_deliver := (sm_deliver m)(g := None)\<rparr>"
  using assms by (auto simp: Deliver_write_def split: option.splits)

lemma Pipe_write_failed: "Pipe_write data ch = Some (Some e, ch') \<Longrightarrow> ch' = ch \<and> sch_wclosed ch"
  by (auto simp: Pipe_write_def split: if_splits option.splits)

lemma mux_inv_write:
  assumes "Deliver_write g m = Some (e, m')" "mux_inv m"
  shows "mux_inv m'"
proof -
  obtain p data ch ch' where w: "sm_heap m p = Some ch" "Pipe_write data ch = Some (e, ch')"
    "m' = m\<lparr>sm_heap := (sm_heap m)(p \<mapsto> ch'), sm_deliver := (sm_deliver m)(g := None)\<rparr>"
    using Deliver_writeE [OF assms(1)] by metis
  have "same_status ch ch'" using w(2) by (auto simp: Pipe_write_def same_status_def split: if_splits option.splits)
  then have "mux_inv (m\<lparr>sm_heap := (sm_heap m)(p \<mapsto> ch')\<rparr>)" by (rule mux_inv_upd [OF assms(2) w(1)])
  then have "mux_inv (m\<lparr>sm_heap := (sm_heap m)(p \<mapsto> ch')\<rparr>\<lparr>sm_deliver := (sm_deliver m)(g := None)\<rparr>)"
    by (simp only: mux_inv_deliver_field)
  then show ?thesis by (simp add: w(3))
qed

lemma mux_inv_ready: "mux_inv m \<Longrightarrow> mux_inv (snd (DeliverReady c ok e m))"
proof (cases "sm_channels m c")
  case (Some p)
  assume inv: "mux_inv m"
  then obtain ch where ch: "sm_heap m p = Some ch" using Some mux_inv_parts(5) by blast
  have "same_status ch (if sch_ReadyCh ch = None then ch\<lparr>sch_ReadyCh := Some (ok, e)\<rparr> else ch)"
    by (simp add: same_status_def)
  then show ?thesis using mux_inv_upd [OF inv ch] Some ch by (simp add: DeliverReady_def)
qed (simp add: DeliverReady_def)

lemma mux_inv_step: "mux_step m l m' \<Longrightarrow> mux_inv m \<Longrightarrow> mux_inv m'"
proof (induction rule: mux_step.induct)
  case (deliver m g c data m')
  then show ?case using Deliver_startD [of g c data m m'] by auto
next
  case (pipe_read m p ch n bs ch')
  then show ?case using mux_inv_upd same_status_pipe(2) by blast
qed (simp_all add: mux_inv_NewChannel mux_inv_detach mux_inv_detach_all mux_inv_finish mux_inv_ready
       mux_inv_write)

lemma mux_inv_mux_run: "mux_run m ls m' \<Longrightarrow> mux_inv m \<Longrightarrow> mux_inv m'"
  by (induction rule: mux_run.induct) (auto intro: mux_inv_step)

subsection \<open>Teardown\<close>

definition live :: "SOCKSMux \<Rightarrow> ptr set" where
  "live m = {p. \<exists>ch. sm_heap m p = Some ch \<and> \<not> sch_done ch}"

lemma live_eq: "mux_inv m \<Longrightarrow> live m = sm_closing m \<union> ran (sm_channels m)"
proof
  assume inv: "mux_inv m"
  note parts = mux_inv_parts [OF inv]
  show "live m \<subseteq> sm_closing m \<union> ran (sm_channels m)"
    using parts(9) by (fastforce simp: live_def ran_def)
  show "sm_closing m \<union> ran (sm_channels m) \<subseteq> live m"
    using parts(5,6) by (fastforce simp: live_def ran_def)
qed

lemma wg_live: "mux_inv m \<Longrightarrow> finite (live m) \<and> sm_wg m = int (card (live m))"
proof -
  assume inv: "mux_inv m"
  note parts = mux_inv_parts [OF inv]
  note ran = ran_card [OF parts(1) mux_inv_inj [OF inv]]
  have "sm_closing m \<inter> ran (sm_channels m) = {}" using parts(4) by (auto simp: ran_def)
  then show ?thesis
    using card_Un_disjoint [OF parts(2) ran(1)] ran parts(2,3) by (simp add: live_eq [OF inv])
qed

definition finishes :: "mux_label list \<Rightarrow> ptr \<Rightarrow> nat" where
  "finishes ls p = length (filter (\<lambda>l. l = LFinish p) ls)"

text \<open>
  What a step does to the heap: a channel stays, with its ID; the only new one is that of
  \<open>NewChannel\<close>, at a fresh address; and only the step that closes a channel marks it done.
\<close>

lemma Deliver_write_heap:
  "Deliver_write g m = Some (e, m') \<Longrightarrow> sm_heap m p = Some ch \<Longrightarrow>
   \<exists>ch'. sm_heap m' p = Some ch' \<and> same_status ch ch'"
  by (erule Deliver_writeE) (auto simp: Pipe_write_def same_status_def split: if_splits option.splits)

lemma step_heap:
  "mux_step m l m' \<Longrightarrow> mux_inv m \<Longrightarrow> sm_heap m p = Some ch \<Longrightarrow>
   \<exists>ch'. sm_heap m' p = Some ch' \<and> sch_ConnID ch' = sch_ConnID ch \<and> sch_done ch' = (sch_done ch \<or> l = LFinish p)"
proof (induction rule: mux_step.induct)
  case (new m c)
  then show ?case using mux_inv_fresh [of m]
    by (cases "sm_channels m c") (auto simp: NewChannel_def Let_def)
next
  case (detach m c)
  then show ?case by (cases "sm_channels m c") (auto simp: detach_def)
next
  case (finish q m)
  then show ?case by (auto simp: finish_close_def close_channel_def)
next
  case (ready m c ok e)
  then show ?case by (cases "sm_channels m c") (auto simp: DeliverReady_def simp del: map_option_eq_Some)
next
  case (deliver m g c data m')
  then show ?case using Deliver_startD [of g c data m m'] by auto
next
  case (pipe_write g m m')
  then show ?case using Deliver_write_heap [of g m None m' p ch] by (auto simp: same_status_def)
next
  case (pipe_fail g m e m')
  then show ?case using Deliver_write_heap [of g m "Some e" m' p ch] by (auto simp: same_status_def)
next
  case (pipe_read m q ch n bs ch')
  then show ?case using same_status_pipe(2) [of n ch bs ch'] by (auto simp: same_status_def)
qed (auto simp: detach_all_def)

lemma Deliver_write_dom: "Deliver_write g m = Some (e, m') \<Longrightarrow> sm_heap m p = None \<Longrightarrow> sm_heap m' p = None"
  by (erule Deliver_writeE) auto

lemma step_heap_new:
  "mux_step m l m' \<Longrightarrow> sm_heap m p = None \<Longrightarrow>
   sm_heap m' p = None \<or> (\<exists>ch. sm_heap m' p = Some ch \<and> \<not> sch_done ch \<and> l = LNew (sch_ConnID ch) \<and>
       \<not> sch_wclosed ch \<and> sch_read ch = [] \<and> sch_pending ch = None \<and> p = sm_next m)"
proof (induction rule: mux_step.induct)
  case (new m c)
  then show ?case by (cases "sm_channels m c") (auto simp: NewChannel_def Let_def)
next
  case (detach m c)
  then show ?case by (cases "sm_channels m c") (auto simp: detach_def)
next
  case (ready m c ok e)
  then show ?case by (cases "sm_channels m c") (auto simp: DeliverReady_def)
next
  case (deliver m g c data m')
  then show ?case using Deliver_startD [of g c data m m'] by auto
qed (auto simp: detach_all_def finish_close_def Deliver_write_dom)

lemma finish_live: "mux_step m l m' \<Longrightarrow> l = LFinish p \<Longrightarrow> mux_inv m \<Longrightarrow> \<exists>ch. sm_heap m p = Some ch \<and> \<not> sch_done ch"
  by (erule mux_stepE) (use mux_inv_parts(6) in auto)

lemma finishes_once:
  assumes "mux_run NewSOCKSMux ls m"
  shows "mux_inv m \<and> (case sm_heap m p of None \<Rightarrow> finishes ls p = 0
                       | Some ch \<Rightarrow> finishes ls p = of_bool (sch_done ch))"
proof -
  have "mux_run m0 ls m \<Longrightarrow> m0 = NewSOCKSMux \<Longrightarrow> mux_inv m \<and>
     (case sm_heap m p of None \<Rightarrow> finishes ls p = 0 | Some ch \<Rightarrow> finishes ls p = of_bool (sch_done ch))" for m0
  proof (induction rule: mux_run.induct)
    case (mux_start m)
    moreover have "sm_heap NewSOCKSMux p = None" by (simp add: NewSOCKSMux_def)
    ultimately show ?case by (simp add: mux_inv_New finishes_def)
  next
    case (mux_more m ls m' l m'')
    then have inv: "mux_inv m'" and step: "mux_step m' l m''" by auto
    have app: "finishes (ls @ [l]) p = finishes ls p + of_bool (l = LFinish p)"
      by (simp add: finishes_def)
    show ?case
    proof (cases "sm_heap m' p")
      case None
      then show ?thesis using mux_more step_heap_new [OF step None] finish_live [OF step _ inv, of p] app mux_inv_step [OF step inv]
        by auto
    next
      case (Some ch)
      obtain ch' where c: "sm_heap m'' p = Some ch'" "sch_done ch' = (sch_done ch \<or> l = LFinish p)"
        using step_heap [OF step inv Some] by blast
      have "l = LFinish p \<Longrightarrow> \<not> sch_done ch" using finish_live [OF step _ inv, of p] Some by auto
      then show ?thesis using mux_more Some c app mux_inv_step [OF step inv] by auto
    qed
  qed
  then show ?thesis using assms by blast
qed

text \<open>
  C15. The wait group and the teardown. In every interleaving of the mux's methods, the wait group is
  the number of channels not yet closed, so it never goes negative; no channel is closed twice,
  whichever of \<open>Remove\<close>, \<open>DeliverClose\<close> and \<open>CloseAll\<close> race for it; every registered channel is
  open and registered under its own ID; and when the count reaches zero, which is what
  \<open>DrainAndClose\<close> waits for, nothing is registered and every channel is closed.
\<close>

theorem mux_teardown:
  assumes "mux_run NewSOCKSMux ls m"
  shows "sm_wg m = int (card (live m)) \<and> finishes ls p \<le> 1 \<and>
         (\<forall>c q. Mux_Get c m = Some q \<longrightarrow> q \<in> live m \<and> map_option sch_ConnID (sm_heap m q) = Some c) \<and>
         (sm_wg m = 0 \<longrightarrow> sm_channels m = Map.empty \<and>
            (\<forall>q ch. sm_heap m q = Some ch \<longrightarrow> sch_done ch \<and> sch_wclosed ch \<and> finishes ls q = 1))"
proof -
  have inv: "mux_inv m" and fin: "case sm_heap m q of None \<Rightarrow> finishes ls q = 0 | Some ch \<Rightarrow> finishes ls q = of_bool (sch_done ch)" for q
    using finishes_once [OF assms] by auto
  note parts = mux_inv_parts [OF inv]
  have le: "finishes ls p \<le> 1" using fin [of p] by (auto split: option.splits)
  have get: "q \<in> live m \<and> map_option sch_ConnID (sm_heap m q) = Some c" if "Mux_Get c m = Some q" for c q
    using parts(5) that by (auto simp: Mux_Get_def live_def)
  have zero: "sm_channels m = Map.empty \<and> (\<forall>q ch. sm_heap m q = Some ch \<longrightarrow> sch_done ch \<and> sch_wclosed ch \<and> finishes ls q = 1)"
    if "sm_wg m = 0"
  proof -
    have "live m = {}" using wg_live [OF inv] that by auto
    then have "sch_done ch" if "sm_heap m q = Some ch" for q ch using that by (auto simp: live_def)
    moreover have "ran (sm_channels m) = {}" using live_eq [OF inv] \<open>live m = {}\<close> by blast
    then have "sm_channels m = Map.empty" by (simp add: ran_def fun_eq_iff) (metis not_None_eq)
    ultimately show ?thesis using parts(8) fin by (fastforce split: option.splits)
  qed
  show ?thesis using wg_live [OF inv] le get zero by blast
qed

lemma mux_run_snoc: "mux_run m ls m' \<Longrightarrow> mux_step m' l m'' \<Longrightarrow> ls' = ls @ [l] \<Longrightarrow> mux_run m ls' m''"
  by (simp add: mux_more)

definition demo_mux :: SOCKSMux where
  "demo_mux = finish_close 0 (detach ''a'' (snd (NewChannel ''a'' NewSOCKSMux)))"

lemma demo_mux_run: "mux_run NewSOCKSMux [LNew ''a'', LDetach ''a'', LFinish 0] demo_mux"
  unfolding demo_mux_def
  by (rule mux_run_snoc [OF mux_run_snoc [OF mux_run_snoc [OF mux_start mux_step.new] mux_step.detach] mux_step.finish])
    (simp_all add: detach_def NewChannel_def NewSOCKSMux_def Let_def)

theorem mux_teardown_witness:
  "sm_wg demo_mux = 0 \<and> sm_channels demo_mux = Map.empty \<and> map_option sch_done (sm_heap demo_mux 0) = Some True"
proof -
  have "sm_wg demo_mux = 0" "sm_heap demo_mux 0 \<noteq> None"
    by (simp_all add: demo_mux_def finish_close_def detach_def NewChannel_def NewSOCKSMux_def Let_def)
  then show ?thesis using mux_teardown [OF demo_mux_run, of 0] by auto
qed

subsection \<open>The byte stream of a channel\<close>

text \<open>
  What the calls of \<open>Deliver\<close> hand over, read off the trace alone: a call is given an ID and a payload
  when it starts, and counts for that ID when its write begins.
\<close>

type_synonym calls = "(nat \<rightharpoonup> string \<times> bytes) \<times> (string \<Rightarrow> bytes list)"

fun note_call :: "calls \<Rightarrow> mux_label \<Rightarrow> calls" where
  "note_call (run, out) (LDeliver g c data) = (run(g \<mapsto> (c, data)), out)"
| "note_call (run, out) (LWrite g) =
     (run(g := None), (case run g of None \<Rightarrow> out | Some (c, data) \<Rightarrow> out(c := out c @ [data])))"
| "note_call (run, out) (LFail g) = (run(g := None), out)"
| "note_call (run, out) l = (run, out)"

definition calls_of :: "mux_label list \<Rightarrow> calls" where
  "calls_of ls = foldl note_call (Map.empty, \<lambda>c. []) ls"

definition delivered :: "string \<Rightarrow> mux_label list \<Rightarrow> bytes list" where
  "delivered c ls = snd (calls_of ls) c"

definition registrations :: "string \<Rightarrow> mux_label list \<Rightarrow> nat" where
  "registrations c ls = count_list ls (LNew c)"

definition unread :: "SOCKSChannel \<Rightarrow> bytes" where
  "unread ch = (case sch_pending ch of None \<Rightarrow> [] | Some d \<Rightarrow> d)"

definition stream_ok :: "SOCKSChannel \<Rightarrow> bytes \<Rightarrow> bool" where
  "stream_ok ch w \<longleftrightarrow> prefix (sch_read ch) w \<and> (\<not> sch_wclosed ch \<longrightarrow> w = sch_read ch @ unread ch)"

lemma stream_ok_write: "stream_ok ch w \<Longrightarrow> Pipe_write d ch = Some (None, ch') \<Longrightarrow> stream_ok ch' (w @ d)"
  by (auto simp: stream_ok_def unread_def Pipe_write_def split: if_splits option.splits)

lemma stream_ok_read: "stream_ok ch w \<Longrightarrow> Pipe_read n ch = Some (Got bs, ch') \<Longrightarrow> stream_ok ch' w"
  by (auto simp: stream_ok_def unread_def Pipe_read_def take_is_prefix split: if_splits option.splits)

lemma stream_ok_close: "stream_ok ch w \<Longrightarrow> stream_ok (close_channel ch) w"
  by (simp add: stream_ok_def close_channel_def)

lemma stream_ok_ready: "stream_ok (ch\<lparr>sch_ReadyCh := r\<rparr>) w = stream_ok ch w"
  by (simp add: stream_ok_def unread_def)

definition hits :: "SOCKSMux \<Rightarrow> mux_label \<Rightarrow> ptr \<Rightarrow> bytes list" where
  "hits m l p = (case l of LWrite g \<Rightarrow> (case sm_deliver m g of Some (q, d) \<Rightarrow> if q = p then [d] else [] | None \<Rightarrow> [])
                         | _ \<Rightarrow> [])"

lemma stream_step:
  "mux_step m l m' \<Longrightarrow> mux_inv m \<Longrightarrow> sm_heap m p = Some ch \<Longrightarrow> stream_ok ch w \<Longrightarrow>
   \<exists>ch'. sm_heap m' p = Some ch' \<and> stream_ok ch' (w @ concat (hits m l p))"
proof (induction rule: mux_step.induct)
  case (new m c)
  then show ?case using mux_inv_fresh [of m]
    by (cases "sm_channels m c") (auto simp: NewChannel_def Let_def hits_def)
next
  case (detach m c)
  then show ?case by (cases "sm_channels m c") (auto simp: detach_def hits_def)
next
  case (finish q m)
  then show ?case by (auto simp: finish_close_def stream_ok_close hits_def)
next
  case (ready m c ok e)
  then show ?case
    by (cases "sm_channels m c") (auto simp: DeliverReady_def stream_ok_ready hits_def simp del: map_option_eq_Some)
next
  case (deliver m g c data m')
  then show ?case using Deliver_startD [of g c data m m'] by (auto simp: hits_def)
next
  case (pipe_write g m m')
  obtain q d c c' where "sm_deliver m g = Some (q, d)" "sm_heap m q = Some c" "Pipe_write d c = Some (None, c')"
    "m' = m\<lparr>sm_heap := (sm_heap m)(q \<mapsto> c'), sm_deliver := (sm_deliver m)(g := None)\<rparr>"
    using Deliver_writeE [OF pipe_write(1)] by metis
  then show ?case using pipe_write stream_ok_write [of ch w d c'] by (auto simp: hits_def)
next
  case (pipe_fail g m e m')
  obtain q d c c' where "sm_heap m q = Some c" "Pipe_write d c = Some (Some e, c')"
    "m' = m\<lparr>sm_heap := (sm_heap m)(q \<mapsto> c'), sm_deliver := (sm_deliver m)(g := None)\<rparr>"
    using Deliver_writeE [OF pipe_fail(1)] by metis
  then show ?case using pipe_fail Pipe_write_failed [of d c e c'] by (auto simp: hits_def)
next
  case (pipe_read m q ch n bs ch')
  then show ?case using stream_ok_read by (auto simp: hits_def)
qed (auto simp: detach_all_def hits_def)

text \<open>
  The trace and the goroutines agree: a running call is the trace's, and the channel it found carries
  the ID it was called with.
\<close>

definition calls_inv :: "SOCKSMux \<Rightarrow> mux_label list \<Rightarrow> bool" where
  "calls_inv m ls \<longleftrightarrow>
     (\<forall>g. (case sm_deliver m g of
             None \<Rightarrow> fst (calls_of ls) g = None
           | Some (p, d) \<Rightarrow> (\<exists>ch. sm_heap m p = Some ch \<and> fst (calls_of ls) g = Some (sch_ConnID ch, d))))"

lemma calls_of_Nil [simp]: "calls_of [] = (Map.empty, \<lambda>c. [])"
  by (simp add: calls_of_def)

lemma calls_of_snoc [simp]: "calls_of (ls @ [l]) = note_call (calls_of ls) l"
  by (simp add: calls_of_def)

lemma note_call_quiet:
  assumes "\<And>g c d. l \<noteq> LDeliver g c d" "\<And>g. l \<noteq> LWrite g" "\<And>g. l \<noteq> LFail g"
  shows "note_call t l = t"
  using assms by (cases t; cases l) auto

lemma step_quiet:
  "mux_step m l m' \<Longrightarrow> (\<And>g c d. l \<noteq> LDeliver g c d) \<Longrightarrow> (\<And>g. l \<noteq> LWrite g) \<Longrightarrow> (\<And>g. l \<noteq> LFail g) \<Longrightarrow>
   sm_deliver m' = sm_deliver m"
  by (induction rule: mux_step.induct)
    (auto simp: NewChannel_def detach_def detach_all_def finish_close_def DeliverReady_def Let_def
      split: option.splits)

lemma calls_inv_step:
  assumes step: "mux_step m l m'" and inv: "mux_inv m" and calls: "calls_inv m ls"
  shows "calls_inv m' (ls @ [l])"
proof -
  obtain run out where t: "calls_of ls = (run, out)" by force
  have agree: "case sm_deliver m g of None \<Rightarrow> run g = None
      | Some (p, d) \<Rightarrow> (\<exists>ch. sm_heap m' p = Some ch \<and> run g = Some (sch_ConnID ch, d))" for g
  proof (cases "sm_deliver m g")
    case (Some a)
    obtain p d where a: "a = (p, d)" by force
    obtain ch where ch: "sm_heap m p = Some ch" "run g = Some (sch_ConnID ch, d)"
      using calls Some a t by (auto simp: calls_inv_def dest!: spec [of _ g])
    then show ?thesis using step_heap [OF step inv ch(1)] Some a by auto
  qed (use calls t in \<open>auto simp: calls_inv_def dest!: spec [of _ g]\<close>)
  have agreeN: "sm_deliver m g = None \<Longrightarrow> run g = None"
    and agreeS: "sm_deliver m g = Some (p, d) \<Longrightarrow> \<exists>ch. sm_heap m' p = Some ch \<and> run g = Some (sch_ConnID ch, d)" for g p d
    using agree [of g] by simp_all
  have known: "\<exists>ch. sm_heap m' p = Some ch \<and> sch_ConnID ch = c" if "sm_channels m c = Some p" for c p
    using mux_inv_parts(5) [OF inv that] step_heap [OF step inv] by metis
  show ?thesis
  proof (cases "\<exists>g. l = LWrite g \<or> l = LFail g \<or> (\<exists>c d. l = LDeliver g c d)")
    case True
    then obtain g where "l = LWrite g \<or> l = LFail g \<or> (\<exists>c d. l = LDeliver g c d)" by blast
    then consider "l = LWrite g" | "l = LFail g" | c d where "l = LDeliver g c d" by blast
    then show ?thesis
    proof cases
      case 1
      then have "Deliver_write g m = Some (None, m')" using step by (auto elim: mux_stepE)
      then have "sm_deliver m' = (sm_deliver m)(g := None)" by (auto elim!: Deliver_writeE)
      then show ?thesis using agreeN agreeS 1 t by (simp add: calls_inv_def split: option.splits)
    next
      case 2
      then obtain e where "Deliver_write g m = Some (Some e, m')" using step by (auto elim: mux_stepE)
      then have "sm_deliver m' = (sm_deliver m)(g := None)" by (auto elim!: Deliver_writeE)
      then show ?thesis using agreeN agreeS 2 t by (simp add: calls_inv_def split: option.splits)
    next
      case (3 c d)
      then have "Deliver_start g c d m = Inr m'" using step by (auto elim: mux_stepE)
      then obtain p where p: "sm_channels m c = Some p" "sm_deliver m' = (sm_deliver m)(g \<mapsto> (p, d))"
        using Deliver_startD by fastforce
      then show ?thesis using agreeN agreeS 3 t known [OF p(1)] by (auto simp: calls_inv_def split: option.splits)
    qed
  next
    case False
    then have "calls_of (ls @ [l]) = (run, out)" "sm_deliver m' = sm_deliver m"
      using note_call_quiet [of l] step_quiet [OF step] t by auto
    then show ?thesis using agreeN agreeS by (simp add: calls_inv_def split: option.splits)
  qed
qed

text \<open>A begun write counts for the ID of the channel it went to.\<close>

lemma delivered_step:
  assumes "mux_step m l m'" "calls_inv m ls"
  shows "delivered c (ls @ [l]) = delivered c ls \<and> (\<forall>p ch. sm_heap m p = Some ch \<longrightarrow> hits m l p = [])
         \<or> (\<exists>q d ch. sm_heap m q = Some ch \<and> hits m l = (\<lambda>p. if q = p then [d] else []) \<and>
              delivered c (ls @ [l]) = delivered c ls @ (if sch_ConnID ch = c then [d] else []))"
proof (cases "\<exists>g. l = LWrite g")
  case True
  then obtain g where g: "l = LWrite g" by blast
  obtain q d ch where q: "sm_deliver m g = Some (q, d)" "sm_heap m q = Some ch"
    using assms(1) g by (auto elim!: mux_stepE Deliver_writeE)
  obtain run out where t: "calls_of ls = (run, out)" by force
  have "run g = Some (sch_ConnID ch, d)"
    using assms(2) q t by (auto simp: calls_inv_def dest!: spec [of _ g])
  then have "delivered c (ls @ [l]) = delivered c ls @ (if sch_ConnID ch = c then [d] else [])"
    by (simp add: delivered_def t g)
  moreover have "hits m l = (\<lambda>p. if q = p then [d] else [])" using g q by (auto simp: hits_def)
  ultimately show ?thesis using q(2) by blast
next
  case False
  then have "hits m l p = []" for p by (auto simp: hits_def split: mux_label.splits)
  moreover have "snd (note_call t l) = snd t" for t using False by (cases t; cases l) auto
  ultimately show ?thesis by (simp add: delivered_def)
qed

lemma registrations_snoc: "registrations c (ls @ [l]) = registrations c ls + (if l = LNew c then 1 else 0)"
  by (simp add: registrations_def)

text \<open>
  What holds of the channels of one ID: each got a subsequence of the deliveries for the ID, and all
  of them when the ID was registered once, as then there is only one such channel.
\<close>

definition of_id :: "SOCKSMux \<Rightarrow> string \<Rightarrow> ptr \<Rightarrow> bool" where
  "of_id m c p \<longleftrightarrow> map_option sch_ConnID (sm_heap m p) = Some c"

definition id_inv :: "string \<Rightarrow> SOCKSMux \<Rightarrow> mux_label list \<Rightarrow> bool" where
  "id_inv c m ls \<longleftrightarrow>
     (\<forall>p. of_id m c p \<longrightarrow> 1 \<le> registrations c ls) \<and>
     (\<forall>p q. of_id m c p \<longrightarrow> of_id m c q \<longrightarrow> p \<noteq> q \<longrightarrow> 2 \<le> registrations c ls) \<and>
     (delivered c ls \<noteq> [] \<longrightarrow> (\<exists>p. of_id m c p)) \<and>
     (\<forall>p ch. sm_heap m p = Some ch \<longrightarrow> sch_ConnID ch = c \<longrightarrow>
        (\<exists>ws. stream_ok ch (concat ws) \<and> subseq ws (delivered c ls) \<and>
              (registrations c ls \<le> 1 \<longrightarrow> ws = delivered c ls)))"

lemma of_id_step:
  assumes step: "mux_step m l m'" and inv: "mux_inv m"
  shows "of_id m c p \<Longrightarrow> of_id m' c p"
    and "of_id m' c p \<Longrightarrow> of_id m c p \<or> l = LNew c \<and> p = sm_next m \<and> sm_heap m p = None"
proof -
  show "of_id m c p \<Longrightarrow> of_id m' c p"
    using step_heap [OF step inv, of p] by (auto simp: of_id_def)
  show "of_id m' c p \<Longrightarrow> of_id m c p \<or> l = LNew c \<and> p = sm_next m \<and> sm_heap m p = None"
    using step_heap [OF step inv, of p] step_heap_new [OF step, of p]
    by (cases "sm_heap m p") (auto simp: of_id_def)
qed

lemma id_invD:
  assumes "id_inv c m ls"
  shows "of_id m c p \<Longrightarrow> 1 \<le> registrations c ls"
    and "of_id m c p \<Longrightarrow> of_id m c q \<Longrightarrow> p \<noteq> q \<Longrightarrow> 2 \<le> registrations c ls"
    and "delivered c ls \<noteq> [] \<Longrightarrow> \<exists>p. of_id m c p"
    and "sm_heap m p = Some ch \<Longrightarrow> sch_ConnID ch = c \<Longrightarrow>
      \<exists>ws. stream_ok ch (concat ws) \<and> subseq ws (delivered c ls) \<and> (registrations c ls \<le> 1 \<longrightarrow> ws = delivered c ls)"
  using assms unfolding id_inv_def by blast+

lemma id_inv_channel:
  assumes step: "mux_step m l m'" and inv: "mux_inv m" and calls: "calls_inv m ls" and id: "id_inv c m ls"
    and ch': "sm_heap m' p = Some ch'" "sch_ConnID ch' = c"
  shows "\<exists>ws. stream_ok ch' (concat ws) \<and> subseq ws (delivered c (ls @ [l])) \<and>
              (registrations c (ls @ [l]) \<le> 1 \<longrightarrow> ws = delivered c (ls @ [l]))"
proof (cases "sm_heap m p")
  case None
  then have l: "l = LNew c" "stream_ok ch' (concat [])"
    using step_heap_new [OF step None] ch' by (auto simp: stream_ok_def unread_def)
  then have same: "delivered c (ls @ [l]) = delivered c ls"
    by (cases "calls_of ls") (simp add: delivered_def)
  have "delivered c ls = []" if "registrations c (ls @ [l]) \<le> 1"
  proof (rule ccontr)
    assume "delivered c ls \<noteq> []"
    then obtain q where "of_id m c q" using id_invD(3) [OF id] by blast
    then show False using id_invD(1) [OF id, of q] that l(1) by (simp add: registrations_snoc)
  qed
  then show ?thesis using l(2) same by (intro exI [of _ "[]"]) simp
next
  case (Some ch)
  have chc: "sch_ConnID ch = c" using step_heap [OF step inv Some] ch' by auto
  obtain ws where ws: "stream_ok ch (concat ws)" "subseq ws (delivered c ls)"
    "registrations c ls \<le> 1 \<longrightarrow> ws = delivered c ls"
    using id_invD(4) [OF id Some chc] by blast
  have ok: "stream_ok ch' (concat (ws @ hits m l p))"
    using stream_step [OF step inv Some ws(1)] ch'(1) by simp
  have mono: "registrations c ls \<le> registrations c (ls @ [l])" by (simp add: registrations_snoc)
  from delivered_step [OF step calls, of c] show ?thesis
  proof (elim disjE exE conjE)
    assume "delivered c (ls @ [l]) = delivered c ls" "\<forall>p ch. sm_heap m p = Some ch \<longrightarrow> hits m l p = []"
    then show ?thesis using ws ok Some mono by (intro exI [of _ ws]) auto
  next
    fix q d qch
    assume q: "sm_heap m q = Some qch" "hits m l = (\<lambda>p. if q = p then [d] else [])"
      "delivered c (ls @ [l]) = delivered c ls @ (if sch_ConnID qch = c then [d] else [])"
    show ?thesis
    proof (cases "q = p")
      case True
      then show ?thesis using q Some chc ok ws mono
        by (intro exI [of _ "ws @ [d]"]) (auto intro: list_emb_append_mono)
    next
      case False
      have "2 \<le> registrations c ls" if "sch_ConnID qch = c"
        using id_invD(2) [OF id, of p q] False Some chc q(1) that by (simp add: of_id_def)
      then show ?thesis using q False ok ws mono
        by (intro exI [of _ ws]) (auto intro: subseq_rev_drop_many list_emb_append2)
    qed
  qed
qed

lemma id_inv_step:
  assumes step: "mux_step m l m'" and inv: "mux_inv m" and calls: "calls_inv m ls" and id: "id_inv c m ls"
  shows "id_inv c m' (ls @ [l])"
proof -
  note origin = of_id_step(2) [OF step inv, of c]
  have regs: "1 \<le> registrations c (ls @ [l])" if "of_id m' c p" for p
    using origin [OF that] id_invD(1) [OF id] by (auto simp: registrations_snoc)
  have two: "2 \<le> registrations c (ls @ [l])" if "of_id m' c p" "of_id m' c q" "p \<noteq> q" for p q
    using origin [OF that(1)] origin [OF that(2)] that(3) id_invD(1) [OF id, of p] id_invD(1) [OF id, of q]
      id_invD(2) [OF id, of p q]
    by (auto simp: registrations_snoc)
  have some: "\<exists>p. of_id m' c p" if grown: "delivered c (ls @ [l]) \<noteq> []"
  proof (cases "delivered c ls = []")
    case True
    then obtain q ch d where "sm_heap m q = Some ch" "sch_ConnID ch = c"
      using delivered_step [OF step calls, of c] grown by (auto split: if_splits)
    then show ?thesis using of_id_step(1) [OF step inv, of c q] by (auto simp: of_id_def)
  next
    case False
    then show ?thesis using id_invD(3) [OF id] of_id_step(1) [OF step inv] by blast
  qed
  show ?thesis
    unfolding id_inv_def using regs two some id_inv_channel [OF step inv calls id] by blast
qed

lemma mux_run_streams:
  "mux_run m0 ls m \<Longrightarrow> m0 = NewSOCKSMux \<Longrightarrow> mux_inv m \<and> calls_inv m ls \<and> id_inv c m ls"
proof (induction rule: mux_run.induct)
  case (mux_start m)
  then have "sm_heap m = Map.empty" "sm_deliver m = Map.empty" by (simp_all add: NewSOCKSMux_def)
  then show ?case using mux_inv_New mux_start
    by (simp add: calls_inv_def id_inv_def of_id_def delivered_def)
next
  case (mux_more m ls m' l m'')
  then show ?case using mux_inv_step calls_inv_step id_inv_step by blast
qed

text \<open>
  C14. Each channel is an ordered byte stream of the deliveries for its ID. In every interleaving of
  registrations, calls of \<open>Deliver\<close> (each two steps: the lookup of the ID, and later the write to the
  channel found), reads and teardowns: what the reader of a channel has read is a prefix of the
  payloads handed to \<open>Deliver\<close> for the channel's ID, in the order in which their writes began; nothing
  is lost, reordered, doubled or taken from another ID. While the channel is open, the rest is exactly
  what the writer under way still holds; closing a channel cuts that rest off, and its writer gets an
  error. When an ID is registered again after a removal, each of its channels gets a subsequence of the
  deliveries.
\<close>

theorem mux_stream:
  assumes "mux_run NewSOCKSMux ls m" "sm_heap m p = Some ch"
  shows "\<exists>ws. subseq ws (delivered (sch_ConnID ch) ls) \<and>
           (registrations (sch_ConnID ch) ls \<le> 1 \<longrightarrow> ws = delivered (sch_ConnID ch) ls) \<and>
           prefix (sch_read ch) (concat ws) \<and>
           (\<not> sch_done ch \<longrightarrow> concat ws = sch_read ch @ unread ch)"
proof -
  have inv: "mux_inv m" "id_inv (sch_ConnID ch) m ls" using mux_run_streams [OF assms(1) refl] by auto
  show ?thesis
    using id_invD(4) [OF inv(2) assms(2) refl] mux_inv_parts(8) [OF inv(1) assms(2)]
    by (auto simp: stream_ok_def)
qed

definition demo_trace :: "mux_label list" where
  "demo_trace = [LNew ''a'', LNew ''b'', LDeliver 0 ''a'' [1, 2, 3], LDeliver 1 ''b'' [9], LWrite 0, LRead 0 2]"

definition demo_stream :: SOCKSMux where
  "demo_stream =
     (let m = snd (NewChannel ''b'' (snd (NewChannel ''a'' NewSOCKSMux)));
          ch = the (sm_heap m 0)\<lparr>sch_read := [1, 2], sch_pending := Some [3]\<rparr>
      in m\<lparr>sm_heap := (sm_heap m)(0 \<mapsto> ch), sm_deliver := [1 \<mapsto> (1, [9])]\<rparr>)"

lemmas demo_mux_simps = NewChannel_def NewSOCKSMux_def Deliver_start_def Deliver_lookup_def Deliver_write_def
  Pipe_write_def Pipe_read_def Let_def

lemma demo_stream_run: "mux_run NewSOCKSMux demo_trace demo_stream"
proof -
  let ?m2 = "snd (NewChannel ''b'' (snd (NewChannel ''a'' NewSOCKSMux)))"
  let ?m4 = "?m2\<lparr>sm_deliver := [0 \<mapsto> (0, [1, 2, 3]), 1 \<mapsto> (1, [9])]\<rparr>"
  let ?ch = "the (sm_heap ?m2 0)"
  let ?m5 = "?m4\<lparr>sm_heap := (sm_heap ?m2)(0 \<mapsto> ?ch\<lparr>sch_pending := Some [1, 2, 3]\<rparr>), sm_deliver := [1 \<mapsto> (1, [9])]\<rparr>"
  have r2: "mux_run NewSOCKSMux [LNew ''a'', LNew ''b''] ?m2"
    using mux_run_snoc [OF mux_run_snoc [OF mux_start mux_step.new] mux_step.new] by simp
  have s3: "mux_step ?m2 (LDeliver 0 ''a'' [1, 2, 3]) (?m2\<lparr>sm_deliver := [0 \<mapsto> (0, [1, 2, 3])]\<rparr>)"
    by (rule mux_step.deliver) (simp_all add: demo_mux_simps)
  have s4: "mux_step (?m2\<lparr>sm_deliver := [0 \<mapsto> (0, [1, 2, 3])]\<rparr>) (LDeliver 1 ''b'' [9]) ?m4"
    by (rule mux_step.deliver) (simp_all add: demo_mux_simps)
  have s5: "mux_step ?m4 (LWrite 0) ?m5"
    by (rule mux_step.pipe_write) (simp add: demo_mux_simps fun_upd_twist)
  have s6: "mux_step ?m5 (LRead 0 2) demo_stream"
    using mux_step.pipe_read [of ?m5 0 "?ch\<lparr>sch_pending := Some [1, 2, 3]\<rparr>" 2 "[1, 2]"
        "?ch\<lparr>sch_read := [1, 2], sch_pending := Some [3]\<rparr>"]
    by (simp add: demo_mux_simps demo_stream_def)
  show ?thesis unfolding demo_trace_def
    by (rule mux_run_snoc [OF mux_run_snoc [OF mux_run_snoc [OF mux_run_snoc [OF r2 s3 refl] s4 refl] s5 refl] s6]) simp
qed

theorem mux_stream_witness:
  "map_option sch_read (sm_heap demo_stream 0) = Some [1, 2] \<and> [1, 2, 3] = concat (delivered ''a'' demo_trace)"
proof -
  obtain ch where ch: "sm_heap demo_stream 0 = Some ch" "sch_ConnID ch = ''a''" "\<not> sch_done ch"
    "sch_read ch = [1, 2]" "unread ch = [3]"
    by (simp add: demo_stream_def demo_mux_simps unread_def)
  have "registrations ''a'' demo_trace \<le> 1" by (simp add: registrations_def demo_trace_def)
  then show ?thesis using mux_stream [OF demo_stream_run ch(1)] ch by auto
qed

end
