(* ===== verification/Relay.thy ===== *)
theory Relay
  imports Messages "HOL-Library.Sublist"
begin

text \<open>
  The two relays: \<open>RelayMuxChannel\<close> (\<open>internal/tunnel/relay_mux.go\<close>), which turns what a local
  connection sends into \<open>SOCKSData\<close> frames and one closing frame, and \<open>RelayBiDirectional\<close>
  (\<open>internal/tunnel/relay.go\<close>), which splices two connections. Both are goroutines that
  communicate, so both are step relations: one step is one call of one goroutine.
\<close>

subsection \<open>RelayMuxChannel\<close>

text \<open>
  Goroutine A reads chunks and pushes them into \<open>outSend\<close> (capacity 64), which it closes at the
  end; the mux writer sends them as frames until a write fails, after which it only drains; the
  function itself waits for the writer, sends the closing frame, waits for goroutine B and returns.
  \<open>rm_unread\<close> holds the results of the reads to come, one chunk per \<open>Read\<close> (an empty one for
  \<open>n = 0\<close>), and then the end or an error.
\<close>

datatype a_state = A_Reading | A_Holding bytes | A_Done
datatype w_state = W_Run | W_Drain | W_Done
datatype m_state = M_WaitWriter | M_WaitRecv | M_Returned

record relay_mux =
  rm_unread :: "bytes list"
  rm_a :: a_state
  rm_outSend :: "bytes list"
  rm_w :: w_state
  rm_main :: m_state
  rm_recvDone :: bool
  rm_frames :: "(MsgType \<times> payload) list"
  rm_failed :: bool

definition MuxChannelBuffer :: nat where
  "MuxChannelBuffer = 64"

definition data_frame :: "string \<Rightarrow> bytes \<Rightarrow> MsgType \<times> payload" where
  "data_frame connID c = (MsgSOCKSData, P_SOCKSData \<lparr>SD_ConnID = connID, SD_Payload = c\<rparr>)"

definition close_frame :: "MsgType \<Rightarrow> string \<Rightarrow> MsgType \<times> payload" where
  "close_frame closeMsg connID = (closeMsg, P_SOCKSClose \<lparr>SCl_ConnID = connID\<rparr>)"

definition RelayMux_start :: "bytes list \<Rightarrow> relay_mux" where
  "RelayMux_start chunks =
     \<lparr>rm_unread = chunks, rm_a = A_Reading, rm_outSend = [], rm_w = W_Run, rm_main = M_WaitWriter,
      rm_recvDone = False, rm_frames = [], rm_failed = False\<rparr>"

inductive RelayMuxChannel :: "MsgType \<Rightarrow> string \<Rightarrow> relay_mux \<Rightarrow> relay_mux \<Rightarrow> bool"
  for closeMsg :: MsgType and connID :: string where
  read: "rm_a s = A_Reading \<Longrightarrow> rm_unread s = c # cs \<Longrightarrow>
    RelayMuxChannel closeMsg connID s (s\<lparr>rm_unread := cs, rm_a := (if c = [] then A_Reading else A_Holding c)\<rparr>)"
| read_end: "rm_a s = A_Reading \<Longrightarrow> rm_unread s = [] \<Longrightarrow>
    RelayMuxChannel closeMsg connID s (s\<lparr>rm_a := A_Done\<rparr>)"
| push: "rm_a s = A_Holding c \<Longrightarrow> length (rm_outSend s) < MuxChannelBuffer \<Longrightarrow>
    RelayMuxChannel closeMsg connID s (s\<lparr>rm_a := A_Reading, rm_outSend := rm_outSend s @ [c]\<rparr>)"
| write_ok: "rm_w s = W_Run \<Longrightarrow> rm_outSend s = c # cs \<Longrightarrow>
    RelayMuxChannel closeMsg connID s (s\<lparr>rm_outSend := cs, rm_frames := rm_frames s @ [data_frame connID c]\<rparr>)"
| write_fails: "rm_w s = W_Run \<Longrightarrow> rm_outSend s = c # cs \<Longrightarrow>
    RelayMuxChannel closeMsg connID s (s\<lparr>rm_outSend := cs, rm_w := W_Drain, rm_failed := True\<rparr>)"
| drain: "rm_w s = W_Drain \<Longrightarrow> rm_outSend s = c # cs \<Longrightarrow>
    RelayMuxChannel closeMsg connID s (s\<lparr>rm_outSend := cs\<rparr>)"
| writer_end: "rm_w s \<noteq> W_Done \<Longrightarrow> rm_outSend s = [] \<Longrightarrow> rm_a s = A_Done \<Longrightarrow>
    RelayMuxChannel closeMsg connID s (s\<lparr>rm_w := W_Done\<rparr>)"
| close_ok: "rm_main s = M_WaitWriter \<Longrightarrow> rm_w s = W_Done \<Longrightarrow>
    RelayMuxChannel closeMsg connID s (s\<lparr>rm_main := M_WaitRecv, rm_frames := rm_frames s @ [close_frame closeMsg connID]\<rparr>)"
| close_fails: "rm_main s = M_WaitWriter \<Longrightarrow> rm_w s = W_Done \<Longrightarrow>
    RelayMuxChannel closeMsg connID s (s\<lparr>rm_main := M_WaitRecv, rm_failed := True\<rparr>)"
| recv_end: "\<not> rm_recvDone s \<Longrightarrow> RelayMuxChannel closeMsg connID s (s\<lparr>rm_recvDone := True\<rparr>)"
| return: "rm_main s = M_WaitRecv \<Longrightarrow> rm_recvDone s \<Longrightarrow>
    RelayMuxChannel closeMsg connID s (s\<lparr>rm_main := M_Returned\<rparr>)"

inductive_cases RelayMuxChannelE: "RelayMuxChannel closeMsg connID s s'"

definition held :: "a_state \<Rightarrow> bytes list" where
  "held a = (case a of A_Holding c \<Rightarrow> [c] | _ \<Rightarrow> [])"

lemma held_simps [simp]: "held A_Reading = []" "held A_Done = []" "held (A_Holding c) = [c]"
  by (simp_all add: held_def)

abbreviation payloads :: "bytes list \<Rightarrow> bytes list" where
  "payloads cs \<equiv> filter (\<lambda>c. c \<noteq> []) cs"

text \<open>What has been sent, given that no write failed or that one did.\<close>

definition relay_inv :: "MsgType \<Rightarrow> string \<Rightarrow> bytes list \<Rightarrow> relay_mux \<Rightarrow> bool" where
  "relay_inv closeMsg connID chunks s \<longleftrightarrow>
     (\<exists>sent.
        (rm_frames s = map (data_frame connID) sent \<or>
         rm_main s \<noteq> M_WaitWriter \<and> rm_frames s = map (data_frame connID) sent @ [close_frame closeMsg connID]) \<and>
        prefix sent (payloads chunks) \<and>
        (\<not> rm_failed s \<longrightarrow>
           payloads chunks = sent @ rm_outSend s @ held (rm_a s) @ payloads (rm_unread s) \<and>
           (rm_main s \<noteq> M_WaitWriter \<longrightarrow> rm_frames s = map (data_frame connID) sent @ [close_frame closeMsg connID]))) \<and>
     length (rm_outSend s) \<le> MuxChannelBuffer \<and>
     (rm_a s = A_Done \<longrightarrow> rm_unread s = []) \<and>
     (rm_w s = W_Run \<longrightarrow> \<not> rm_failed s) \<and> (rm_w s = W_Drain \<longrightarrow> rm_failed s) \<and>
     (rm_w s = W_Done \<longrightarrow> rm_outSend s = [] \<and> rm_a s = A_Done) \<and>
     (rm_main s \<noteq> M_WaitWriter \<longrightarrow> rm_w s = W_Done)"

lemma relay_inv_start: "relay_inv closeMsg connID chunks (RelayMux_start chunks)"
  by (simp add: relay_inv_def RelayMux_start_def)

lemma relay_inv_step:
  "RelayMuxChannel closeMsg connID s s' \<Longrightarrow> relay_inv closeMsg connID chunks s \<Longrightarrow> relay_inv closeMsg connID chunks s'"
proof (induction rule: RelayMuxChannel.induct)
  case (write_ok s c cs)
  then have w: "rm_main s = M_WaitWriter" and nf: "\<not> rm_failed s" by (auto simp: relay_inv_def)
  obtain sent where sent: "rm_frames s = map (data_frame connID) sent" "prefix sent (payloads chunks)"
    "payloads chunks = sent @ rm_outSend s @ held (rm_a s) @ payloads (rm_unread s)"
    using write_ok w nf by (auto simp: relay_inv_def)
  then show ?case using write_ok w nf
    unfolding relay_inv_def by (intro conjI exI [of _ "sent @ [c]"]) auto
qed (auto simp: relay_inv_def)

lemma relay_inv_run:
  "(RelayMuxChannel closeMsg connID)\<^sup>*\<^sup>* (RelayMux_start chunks) s \<Longrightarrow> relay_inv closeMsg connID chunks s"
  by (induction rule: rtranclp_induct) (auto intro: relay_inv_start relay_inv_step)

text \<open>The relay stops: every step takes something from this measure.\<close>

definition relay_measure :: "relay_mux \<Rightarrow> nat" where
  "relay_measure s =
     4 * length (rm_unread s) + (case rm_a s of A_Reading \<Rightarrow> 1 | A_Holding _ \<Rightarrow> 3 | A_Done \<Rightarrow> 0) +
     length (rm_outSend s) + (case rm_w s of W_Run \<Rightarrow> 1 | W_Drain \<Rightarrow> 1 | W_Done \<Rightarrow> 0) +
     (case rm_main s of M_WaitWriter \<Rightarrow> 2 | M_WaitRecv \<Rightarrow> 1 | M_Returned \<Rightarrow> 0) + of_bool (\<not> rm_recvDone s)"

lemma relay_measure_step: "RelayMuxChannel closeMsg connID s s' \<Longrightarrow> relay_measure s' < relay_measure s"
proof (induction rule: RelayMuxChannel.induct)
  case (writer_end s)
  then show ?case by (cases "rm_w s") (simp_all add: relay_measure_def)
qed (simp_all add: relay_measure_def)

text \<open>Nothing blocks but the wait for goroutine B.\<close>

lemma relay_progress:
  assumes "relay_inv closeMsg connID chunks s" "\<nexists>s'. RelayMuxChannel closeMsg connID s s'"
  shows "rm_main s = M_Returned"
proof -
  have rd: "rm_recvDone s" using assms(2) RelayMuxChannel.recv_end by blast
  have nw: "rm_main s \<noteq> M_WaitRecv" using assms(2) RelayMuxChannel.return rd by blast
  have a: "rm_a s \<noteq> A_Reading"
    using assms(2) RelayMuxChannel.read RelayMuxChannel.read_end by (cases "rm_unread s") blast+
  have q: "rm_outSend s = [] \<or> rm_w s = W_Done"
    using assms(2) RelayMuxChannel.write_ok RelayMuxChannel.drain
    by (cases "rm_outSend s"; cases "rm_w s") blast+
  have "rm_w s = W_Done"
  proof (rule ccontr)
    assume n: "rm_w s \<noteq> W_Done"
    then have e: "rm_outSend s = []" using q by simp
    have "rm_a s \<noteq> A_Holding c" for c
      using assms(2) RelayMuxChannel.push [of s c] e by (auto simp: MuxChannelBuffer_def)
    then have "rm_a s = A_Done" using a by (cases "rm_a s") auto
    then show False using n e assms(2) RelayMuxChannel.writer_end by blast
  qed
  then show ?thesis using nw assms(2) RelayMuxChannel.close_ok by (cases "rm_main s") blast+
qed

text \<open>
  C16. What a relay sends. Whatever its goroutines' interleaving and wherever writes fail: the frames
  sent are data frames carrying the chunks read, in order, none twice, followed by at most one closing
  frame, always last; when no write failed and the function is past its first wait, they are all the
  chunks and the closing frame; the queue never exceeds its capacity; a relay that cannot move has
  returned; and every run is finite.
\<close>

theorem relay_frames:
  assumes "(RelayMuxChannel closeMsg connID)\<^sup>*\<^sup>* (RelayMux_start chunks) s"
  shows "(\<exists>sent. prefix sent (payloads chunks) \<and>
            (rm_frames s = map (data_frame connID) sent \<or>
             rm_frames s = map (data_frame connID) sent @ [close_frame closeMsg connID])) \<and>
         (\<not> rm_failed s \<and> rm_main s \<noteq> M_WaitWriter \<longrightarrow>
            rm_frames s = map (data_frame connID) (payloads chunks) @ [close_frame closeMsg connID]) \<and>
         length (rm_outSend s) \<le> MuxChannelBuffer \<and>
         (rm_main s \<noteq> M_Returned \<longrightarrow> (\<exists>s'. RelayMuxChannel closeMsg connID s s')) \<and>
         (\<forall>s'. RelayMuxChannel closeMsg connID s s' \<longrightarrow> relay_measure s' < relay_measure s)"
proof -
  have inv: "relay_inv closeMsg connID chunks s" using assms by (rule relay_inv_run)
  moreover have "payloads chunks = sent" if "\<not> rm_failed s" "rm_main s \<noteq> M_WaitWriter"
    "payloads chunks = sent @ rm_outSend s @ held (rm_a s) @ payloads (rm_unread s)" for sent
    using inv that by (auto simp: relay_inv_def)
  ultimately show ?thesis
    using relay_progress [OF inv] relay_measure_step unfolding relay_inv_def by blast
qed

lemma demo_relay:
  "(RelayMuxChannel MsgSOCKSClose ''c'')\<^sup>*\<^sup>* (RelayMux_start [])
     \<lparr>rm_unread = [], rm_a = A_Done, rm_outSend = [], rm_w = W_Done, rm_main = M_WaitRecv,
      rm_recvDone = False, rm_frames = [close_frame MsgSOCKSClose ''c''], rm_failed = False\<rparr>"
proof -
  let ?s0 = "RelayMux_start []"
  let ?s1 = "?s0\<lparr>rm_a := A_Done\<rparr>"
  let ?s2 = "?s1\<lparr>rm_w := W_Done\<rparr>"
  have "RelayMuxChannel MsgSOCKSClose ''c'' ?s0 ?s1"
    by (rule RelayMuxChannel.read_end) (simp_all add: RelayMux_start_def)
  moreover have "RelayMuxChannel MsgSOCKSClose ''c'' ?s1 ?s2"
    by (rule RelayMuxChannel.writer_end) (simp_all add: RelayMux_start_def)
  moreover have "RelayMuxChannel MsgSOCKSClose ''c'' ?s2
      (?s2\<lparr>rm_main := M_WaitRecv, rm_frames := rm_frames ?s2 @ [close_frame MsgSOCKSClose ''c'']\<rparr>)"
    by (rule RelayMuxChannel.close_ok) (simp_all add: RelayMux_start_def)
  ultimately show ?thesis
    by (simp add: RelayMux_start_def converse_rtranclp_into_rtranclp)
qed

theorem relay_frames_witness:
  "\<exists>s'. RelayMuxChannel MsgSOCKSClose ''c''
     \<lparr>rm_unread = [], rm_a = A_Done, rm_outSend = [], rm_w = W_Done, rm_main = M_WaitRecv,
      rm_recvDone = False, rm_frames = [close_frame MsgSOCKSClose ''c''], rm_failed = False\<rparr> s'"
  using relay_frames [OF demo_relay] by simp

subsection \<open>RelayBiDirectional\<close>

text \<open>
  The goroutines of a splice: one per direction, one that waits for the context and sets deadlines in
  the past, and the caller, which waits for both directions and closes the connections. For a
  direction, \<open>dir_left\<close> is what its source will still deliver, chunk by chunk, and \<open>dir_src\<close> what
  comes then: the end of the stream, an error, or silence. \<open>dir_end\<close> is why \<open>io.CopyBuffer\<close>
  returned.
\<close>

datatype src_end = Src_EOF | Src_Error | Src_Silent

datatype copy_end = E_EOF | E_ReadError | E_WriteError | E_Deadline

datatype dir_pc = D_Read | D_Write bytes | D_HalfClose | D_Once | D_Send | D_Exit

record direction =
  dir_left :: "bytes list"
  dir_src :: src_end
  dir_tcp :: bool
  dir_pc :: dir_pc
  dir_copied :: bytes
  dir_end :: "copy_end option"
  dir_halfclosed :: bool

datatype splice_main = P_Wait1 | P_Wait2 | P_CloseA | P_CloseB | P_Return | P_End
datatype deadliner = G_Wait | G_SetA | G_SetB | G_End

record relay_bi =
  rb_toA :: direction
  rb_toB :: direction
  rb_cancelled :: bool
  rb_g :: deadliner
  rb_pastA :: bool
  rb_pastB :: bool
  rb_queue :: nat
  rb_main :: splice_main
  rb_closedA :: bool
  rb_closedB :: bool

definition dir_start :: "bool \<Rightarrow> bytes list \<Rightarrow> src_end \<Rightarrow> direction" where
  "dir_start tcp chunks src =
     \<lparr>dir_left = chunks, dir_src = src, dir_tcp = tcp, dir_pc = D_Read, dir_copied = [], dir_end = None,
      dir_halfclosed = False\<rparr>"

definition RelayBi_start :: "direction \<Rightarrow> direction \<Rightarrow> relay_bi" where
  "RelayBi_start toA toB =
     \<lparr>rb_toA = toA, rb_toB = toB, rb_cancelled = False, rb_g = G_Wait, rb_pastA = False, rb_pastB = False,
      rb_queue = 0, rb_main = P_Wait1, rb_closedA = False, rb_closedB = False\<rparr>"

definition copy_returns :: "copy_end \<Rightarrow> direction \<Rightarrow> direction" where
  "copy_returns e d = d\<lparr>dir_pc := D_HalfClose, dir_end := Some e\<rparr>"

text \<open>
  What \<open>io.CopyBuffer\<close> gets from the two connections: a chunk, the source's end or an error, and for
  a write that the destination takes some bytes or fails. None of it is in the goroutine's hands.
\<close>

inductive dir_io :: "bool \<Rightarrow> bool \<Rightarrow> direction \<Rightarrow> direction \<Rightarrow> bool" for src_past dst_past :: bool where
  data: "dir_pc d = D_Read \<Longrightarrow> \<not> src_past \<Longrightarrow> dir_left d = c # cs \<Longrightarrow>
    dir_io src_past dst_past d (d\<lparr>dir_left := cs, dir_pc := (if c = [] then D_Read else D_Write c)\<rparr>)"
| eof: "dir_pc d = D_Read \<Longrightarrow> \<not> src_past \<Longrightarrow> dir_left d = [] \<Longrightarrow> dir_src d = Src_EOF \<Longrightarrow>
    dir_io src_past dst_past d (copy_returns E_EOF d)"
| read_error: "dir_pc d = D_Read \<Longrightarrow> \<not> src_past \<Longrightarrow> dir_left d = [] \<Longrightarrow> dir_src d = Src_Error \<Longrightarrow>
    dir_io src_past dst_past d (copy_returns E_ReadError d)"
| takes: "dir_pc d = D_Write c \<Longrightarrow> \<not> dst_past \<Longrightarrow> 0 < n \<Longrightarrow> n \<le> length c \<Longrightarrow>
    dir_io src_past dst_past d
      (d\<lparr>dir_copied := dir_copied d @ take n c, dir_pc := (if n = length c then D_Read else D_Write (drop n c))\<rparr>)"
| write_error: "dir_pc d = D_Write c \<Longrightarrow> \<not> dst_past \<Longrightarrow>
    dir_io src_past dst_past d (copy_returns E_WriteError d)"

text \<open>
  What the goroutine does without them: a read or write past its deadline returns, and after the copy
  come the half-close, \<open>once.Do(cancel)\<close> and the send on \<open>done\<close>.
\<close>

definition dir_step :: "bool \<Rightarrow> bool \<Rightarrow> direction \<Rightarrow> direction option" where
  "dir_step src_past dst_past d =
     (case dir_pc d of
        D_Read \<Rightarrow> if src_past then Some (copy_returns E_Deadline d) else None
      | D_Write c \<Rightarrow> if dst_past then Some (copy_returns E_Deadline d) else None
      | D_HalfClose \<Rightarrow> Some (d\<lparr>dir_pc := D_Once, dir_halfclosed := dir_tcp d\<rparr>)
      | D_Once \<Rightarrow> Some (d\<lparr>dir_pc := D_Send\<rparr>)
      | D_Send \<Rightarrow> Some (d\<lparr>dir_pc := D_Exit\<rparr>)
      | D_Exit \<Rightarrow> None)"

text \<open>The effect of that step on what the goroutines share; \<open>done\<close> has room for two.\<close>

definition dir_shared :: "direction \<Rightarrow> relay_bi \<Rightarrow> relay_bi" where
  "dir_shared d s =
     (case dir_pc d of
        D_Once \<Rightarrow> s\<lparr>rb_cancelled := True\<rparr>
      | D_Send \<Rightarrow> s\<lparr>rb_queue := rb_queue s + 1\<rparr>
      | _ \<Rightarrow> s)"

definition send_blocks :: "direction \<Rightarrow> relay_bi \<Rightarrow> bool" where
  "send_blocks d s \<longleftrightarrow> dir_pc d = D_Send \<and> 2 \<le> rb_queue s"

definition deadline_step :: "relay_bi \<Rightarrow> relay_bi option" where
  "deadline_step s =
     (case rb_g s of
        G_Wait \<Rightarrow> if rb_cancelled s then Some (s\<lparr>rb_g := G_SetA\<rparr>) else None
      | G_SetA \<Rightarrow> Some (s\<lparr>rb_g := G_SetB, rb_pastA := True\<rparr>)
      | G_SetB \<Rightarrow> Some (s\<lparr>rb_g := G_End, rb_pastB := True\<rparr>)
      | G_End \<Rightarrow> None)"

definition main_step :: "relay_bi \<Rightarrow> relay_bi option" where
  "main_step s =
     (case rb_main s of
        P_Wait1 \<Rightarrow> if rb_queue s = 0 then None else Some (s\<lparr>rb_queue := rb_queue s - 1, rb_main := P_Wait2\<rparr>)
      | P_Wait2 \<Rightarrow> if rb_queue s = 0 then None else Some (s\<lparr>rb_queue := rb_queue s - 1, rb_main := P_CloseA\<rparr>)
      | P_CloseA \<Rightarrow> Some (s\<lparr>rb_closedA := True, rb_main := P_CloseB\<rparr>)
      | P_CloseB \<Rightarrow> Some (s\<lparr>rb_closedB := True, rb_main := P_Return\<rparr>)
      | P_Return \<Rightarrow> Some (s\<lparr>rb_cancelled := True, rb_main := P_End\<rparr>)
      | P_End \<Rightarrow> None)"

datatype splice_actor = Relay_A | Relay_B | Deadliner | Caller

definition splice_step :: "splice_actor \<Rightarrow> relay_bi \<Rightarrow> relay_bi option" where
  "splice_step who s =
     (case who of
        Relay_A \<Rightarrow>
          (if send_blocks (rb_toA s) s then None
           else map_option (\<lambda>d. dir_shared (rb_toA s) (s\<lparr>rb_toA := d\<rparr>))
                  (dir_step (rb_pastB s) (rb_pastA s) (rb_toA s)))
      | Relay_B \<Rightarrow>
          (if send_blocks (rb_toB s) s then None
           else map_option (\<lambda>d. dir_shared (rb_toB s) (s\<lparr>rb_toB := d\<rparr>))
                  (dir_step (rb_pastA s) (rb_pastB s) (rb_toB s)))
      | Deadliner \<Rightarrow> deadline_step s
      | Caller \<Rightarrow> main_step s)"

inductive RelayBiDirectional :: "bool \<Rightarrow> relay_bi \<Rightarrow> relay_bi \<Rightarrow> bool" for ctx_ends :: bool where
  own: "splice_step who s = Some s' \<Longrightarrow> RelayBiDirectional ctx_ends s s'"
| io_A: "dir_io (rb_pastB s) (rb_pastA s) (rb_toA s) d \<Longrightarrow> RelayBiDirectional ctx_ends s (s\<lparr>rb_toA := d\<rparr>)"
| io_B: "dir_io (rb_pastA s) (rb_pastB s) (rb_toB s) d \<Longrightarrow> RelayBiDirectional ctx_ends s (s\<lparr>rb_toB := d\<rparr>)"
| ctx_done: "ctx_ends \<Longrightarrow> \<not> rb_cancelled s \<Longrightarrow> RelayBiDirectional ctx_ends s (s\<lparr>rb_cancelled := True\<rparr>)"

text \<open>One direction: what was copied, and why the copy ended.\<close>

definition in_hand :: "dir_pc \<Rightarrow> bytes" where
  "in_hand pc = (case pc of D_Write c \<Rightarrow> c | _ \<Rightarrow> [])"

definition copying :: "dir_pc \<Rightarrow> bool" where
  "copying pc \<longleftrightarrow> (case pc of D_Read \<Rightarrow> True | D_Write _ \<Rightarrow> True | _ \<Rightarrow> False)"

definition signalled :: "dir_pc \<Rightarrow> bool" where
  "signalled pc \<longleftrightarrow> pc = D_Send \<or> pc = D_Exit"

definition dir_inv :: "bytes list \<Rightarrow> direction \<Rightarrow> bool" where
  "dir_inv chunks d \<longleftrightarrow>
     prefix (dir_copied d) (concat chunks) \<and>
     (copying (dir_pc d) \<longrightarrow> concat chunks = dir_copied d @ in_hand (dir_pc d) @ concat (dir_left d)) \<and>
     (dir_end d = None \<longleftrightarrow> copying (dir_pc d)) \<and>
     (dir_end d = Some E_EOF \<longrightarrow> concat chunks = dir_copied d)"

lemma pc_simps [simp]:
  "in_hand D_Read = []" "in_hand (D_Write c) = c" "copying D_Read" "copying (D_Write c)"
  "\<not> copying D_HalfClose" "\<not> copying D_Once" "\<not> copying D_Send" "\<not> copying D_Exit"
  "\<not> signalled D_Read" "\<not> signalled (D_Write c)" "\<not> signalled D_HalfClose" "\<not> signalled D_Once"
  "signalled D_Send" "signalled D_Exit"
  by (simp_all add: in_hand_def copying_def signalled_def)

lemma dir_inv_start: "dir_inv chunks (dir_start tcp chunks src)"
  by (simp add: dir_inv_def dir_start_def)

lemma dir_inv_io: "dir_io sp dp d d' \<Longrightarrow> dir_inv chunks d \<Longrightarrow> dir_inv chunks d'"
proof (induction rule: dir_io.induct)
  case (takes d c n)
  have "c @ x = take n c @ drop n c @ x" for x by (metis append.assoc append_take_drop_id)
  then have all: "concat chunks = (dir_copied d @ take n c) @ (drop n c @ concat (dir_left d))"
    using takes by (simp add: dir_inv_def)
  then have pre: "prefix (dir_copied d @ take n c) (concat chunks)" by (rule prefixI)
  have none: "dir_end d = None" using takes by (simp add: dir_inv_def)
  show ?case
  proof (cases "n = length c")
    case True
    then show ?thesis using all pre none by (simp add: dir_inv_def)
  next
    case False
    show ?thesis using pre none unfolding dir_inv_def
      by (simp add: False all del: append_assoc)
  qed
next
  case (data d c cs)
  have all: "concat chunks = dir_copied d @ c @ concat cs" and none: "dir_end d = None"
    using data by (simp_all add: dir_inv_def)
  show ?case unfolding dir_inv_def all by (cases "c = []") (simp_all add: none)
qed (simp_all add: dir_inv_def copy_returns_def)

lemma dir_inv_own: "dir_step sp dp d = Some d' \<Longrightarrow> dir_inv chunks d \<Longrightarrow> dir_inv chunks d'"
  by (auto simp: dir_step_def dir_inv_def copy_returns_def split: dir_pc.splits if_splits)

lemma dir_io_pc:
  "dir_io sp dp d d' \<Longrightarrow> copying (dir_pc d) \<and> \<not> signalled (dir_pc d') \<and> dir_pc d' \<noteq> D_Exit"
  by (induction rule: dir_io.induct) (auto simp: copy_returns_def)

text \<open>A direction ended by itself when its copy returned, but not for the deadline.\<close>

definition ended_itself :: "direction \<Rightarrow> bool" where
  "ended_itself d \<longleftrightarrow> dir_end d \<noteq> None \<and> dir_end d \<noteq> Some E_Deadline"

lemma dir_io_end:
  "dir_io sp dp d d' \<Longrightarrow> dir_end d = None \<Longrightarrow> dir_end d' = None \<or> ended_itself d'"
  by (induction rule: dir_io.induct) (auto simp: copy_returns_def ended_itself_def)

lemma dir_step_end:
  "dir_step sp dp d = Some d' \<Longrightarrow>
   dir_end d' = dir_end d \<and> \<not> copying (dir_pc d) \<or> dir_end d' = Some E_Deadline \<and> copying (dir_pc d) \<and> (sp \<or> dp)"
  by (auto simp: dir_step_def copy_returns_def split: dir_pc.splits if_splits)

lemma dir_step_pc:
  "dir_step sp dp d = Some d' \<Longrightarrow>
   (dir_pc d' = D_Exit \<longleftrightarrow> dir_pc d = D_Send) \<and> (signalled (dir_pc d') \<longleftrightarrow> dir_pc d = D_Once \<or> dir_pc d = D_Send) \<and>
   dir_pc d \<noteq> D_Exit"
  by (auto simp: dir_step_def copy_returns_def split: dir_pc.splits if_splits)

subsubsection \<open>The tokens on \<open>done\<close>\<close>

definition received :: "splice_main \<Rightarrow> nat" where
  "received m = (case m of P_Wait1 \<Rightarrow> 0 | P_Wait2 \<Rightarrow> 1 | _ \<Rightarrow> 2)"

definition exited :: "direction \<Rightarrow> nat" where
  "exited d = (if dir_pc d = D_Exit then 1 else 0)"

definition token_inv :: "relay_bi \<Rightarrow> bool" where
  "token_inv s \<longleftrightarrow>
     rb_queue s + received (rb_main s) = exited (rb_toA s) + exited (rb_toB s) \<and>
     (rb_closedA s \<longleftrightarrow> rb_main s \<in> {P_CloseB, P_Return, P_End}) \<and>
     (rb_closedB s \<longleftrightarrow> rb_main s \<in> {P_Return, P_End}) \<and> (rb_main s = P_End \<longrightarrow> rb_cancelled s)"

lemma dir_shared_simps [simp]:
  "rb_toA (dir_shared d s) = rb_toA s" "rb_toB (dir_shared d s) = rb_toB s"
  "rb_g (dir_shared d s) = rb_g s" "rb_pastA (dir_shared d s) = rb_pastA s" "rb_pastB (dir_shared d s) = rb_pastB s"
  "rb_main (dir_shared d s) = rb_main s" "rb_closedA (dir_shared d s) = rb_closedA s"
  "rb_closedB (dir_shared d s) = rb_closedB s"
  "rb_cancelled (dir_shared d s) = (rb_cancelled s \<or> dir_pc d = D_Once)"
  "rb_queue (dir_shared d s) = rb_queue s + (if dir_pc d = D_Send then 1 else 0)"
  by (auto simp: dir_shared_def split: dir_pc.splits)

lemma exited_step: "dir_step sp dp d = Some d' \<Longrightarrow> exited d = 0 \<and> exited d' = (if dir_pc d = D_Send then 1 else 0)"
  using dir_step_pc [of sp dp d d'] by (simp add: exited_def)

lemma exited_io: "dir_io sp dp d d' \<Longrightarrow> exited d = 0 \<and> exited d' = 0"
  using dir_io_pc [of sp dp d d'] by (auto simp: exited_def)

lemma splice_stepE:
  assumes "splice_step who s = Some s'"
  obtains d where "dir_step (rb_pastB s) (rb_pastA s) (rb_toA s) = Some d" "s' = dir_shared (rb_toA s) (s\<lparr>rb_toA := d\<rparr>)"
  | d where "dir_step (rb_pastA s) (rb_pastB s) (rb_toB s) = Some d" "s' = dir_shared (rb_toB s) (s\<lparr>rb_toB := d\<rparr>)"
  | "deadline_step s = Some s'"
  | "main_step s = Some s'"
  using assms by (cases who) (auto simp: splice_step_def split: if_splits)

lemma deadline_step_keeps:
  "deadline_step s = Some s' \<Longrightarrow> rb_toA s' = rb_toA s \<and> rb_toB s' = rb_toB s \<and> rb_queue s' = rb_queue s \<and>
     rb_main s' = rb_main s \<and> rb_closedA s' = rb_closedA s \<and> rb_closedB s' = rb_closedB s \<and>
     rb_cancelled s' = rb_cancelled s"
  by (auto simp: deadline_step_def split: deadliner.splits if_splits)

lemma main_step_token: "main_step s = Some s' \<Longrightarrow> token_inv s \<Longrightarrow> token_inv s'"
  by (auto simp: main_step_def token_inv_def received_def split: splice_main.splits if_splits)

lemma token_inv_step: "RelayBiDirectional ctx_ends s s' \<Longrightarrow> token_inv s \<Longrightarrow> token_inv s'"
proof (induction rule: RelayBiDirectional.induct)
  case (own who s s')
  show ?case
  proof (rule splice_stepE [OF own(1)], goal_cases)
    case (1 d)
    then show ?case using own(2) exited_step [OF 1(1)] by (auto simp: token_inv_def)
  next
    case (2 d)
    then show ?case using own(2) exited_step [OF 2(1)] by (auto simp: token_inv_def)
  next
    case 3
    then show ?case using own(2) deadline_step_keeps [OF 3] by (simp add: token_inv_def)
  next
    case 4
    then show ?case using own(2) by (rule main_step_token)
  qed
next
  case (io_A s d)
  then show ?case using exited_io [OF io_A(1)] by (simp add: token_inv_def)
next
  case (io_B s d)
  then show ?case using exited_io [OF io_B(1)] by (simp add: token_inv_def)
qed (simp add: token_inv_def)

subsubsection \<open>Why a copy was cut\<close>

definition dir_cancel_inv :: "bool \<Rightarrow> direction \<Rightarrow> bool" where
  "dir_cancel_inv cancelled d \<longleftrightarrow>
     (signalled (dir_pc d) \<longrightarrow> cancelled) \<and> (dir_end d = Some E_Deadline \<longrightarrow> cancelled) \<and>
     (dir_end d = None \<longleftrightarrow> copying (dir_pc d))"

definition cancel_inv :: "bool \<Rightarrow> relay_bi \<Rightarrow> bool" where
  "cancel_inv ctx_ends s \<longleftrightarrow>
     dir_cancel_inv (rb_cancelled s) (rb_toA s) \<and> dir_cancel_inv (rb_cancelled s) (rb_toB s) \<and>
     (rb_g s \<noteq> G_Wait \<or> rb_pastA s \<or> rb_pastB s \<longrightarrow> rb_cancelled s) \<and>
     (rb_g s = G_End \<longrightarrow> rb_pastA s \<and> rb_pastB s) \<and> (rb_g s = G_SetB \<longrightarrow> rb_pastA s) \<and>
     (rb_cancelled s \<longrightarrow> ctx_ends \<or> ended_itself (rb_toA s) \<or> ended_itself (rb_toB s))"

lemma dir_cancel_io:
  "dir_io sp dp d d' \<Longrightarrow> dir_cancel_inv cancelled d \<Longrightarrow>
   dir_cancel_inv cancelled d' \<and> \<not> ended_itself d"
  by (induction rule: dir_io.induct) (auto simp: dir_cancel_inv_def copy_returns_def ended_itself_def)

lemma dir_cancel_step:
  "dir_step sp dp d = Some d' \<Longrightarrow> sp \<or> dp \<longrightarrow> cancelled \<Longrightarrow> dir_cancel_inv cancelled d \<Longrightarrow>
   dir_cancel_inv (cancelled \<or> dir_pc d = D_Once) d' \<and> (ended_itself d \<longrightarrow> ended_itself d') \<and>
   (dir_pc d = D_Once \<longrightarrow> cancelled \<or> ended_itself d')"
  by (cases "dir_pc d"; cases cancelled)
    (auto simp: dir_step_def dir_cancel_inv_def copy_returns_def ended_itself_def split: if_splits)

lemma dir_cancel_mono: "dir_cancel_inv cancelled d \<Longrightarrow> dir_cancel_inv (cancelled \<or> x) d"
  by (auto simp: dir_cancel_inv_def)

lemma deadline_step_cancel: "deadline_step s = Some s' \<Longrightarrow> cancel_inv ctx_ends s \<Longrightarrow> cancel_inv ctx_ends s'"
  by (auto simp: deadline_step_def cancel_inv_def split: deadliner.splits if_splits)

lemma received_both: "received (rb_main s) = 2 \<Longrightarrow> token_inv s \<Longrightarrow> dir_pc (rb_toA s) = D_Exit \<and> dir_pc (rb_toB s) = D_Exit"
  by (auto simp: token_inv_def exited_def split: if_splits)

lemma main_step_cancel:
  assumes "main_step s = Some s'" "token_inv s" "cancel_inv ctx_ends s"
  shows "cancel_inv ctx_ends s'"
proof (cases "rb_main s = P_Return")
  case True
  then have "dir_pc (rb_toA s) = D_Exit" using received_both [OF _ assms(2)] by (simp add: received_def)
  then have "rb_cancelled s" using assms(3) by (auto simp: cancel_inv_def dir_cancel_inv_def)
  then show ?thesis using assms(1,3) True by (auto simp: main_step_def cancel_inv_def)
next
  case False
  then show ?thesis using assms(1,3) by (auto simp: main_step_def cancel_inv_def split: splice_main.splits if_splits)
qed

lemma cancel_inv_step:
  "RelayBiDirectional ctx_ends s s' \<Longrightarrow> token_inv s \<Longrightarrow> cancel_inv ctx_ends s \<Longrightarrow> cancel_inv ctx_ends s'"
proof (induction rule: RelayBiDirectional.induct)
  case (own who s s')
  have past: "rb_pastA s \<or> rb_pastB s \<longrightarrow> rb_cancelled s" using own(3) by (auto simp: cancel_inv_def)
  show ?case
  proof (rule splice_stepE [OF own(1)], goal_cases)
    case (1 d)
    have "dir_cancel_inv (rb_cancelled s \<or> dir_pc (rb_toA s) = D_Once) d \<and>
        (ended_itself (rb_toA s) \<longrightarrow> ended_itself d) \<and>
        (dir_pc (rb_toA s) = D_Once \<longrightarrow> rb_cancelled s \<or> ended_itself d)"
      by (rule dir_cancel_step [OF 1(1)]) (use own(3) past in \<open>auto simp: cancel_inv_def\<close>)
    then show ?case using own(3) dir_cancel_mono 1(2) by (auto simp: cancel_inv_def)
  next
    case (2 d)
    have "dir_cancel_inv (rb_cancelled s \<or> dir_pc (rb_toB s) = D_Once) d \<and>
        (ended_itself (rb_toB s) \<longrightarrow> ended_itself d) \<and>
        (dir_pc (rb_toB s) = D_Once \<longrightarrow> rb_cancelled s \<or> ended_itself d)"
      by (rule dir_cancel_step [OF 2(1)]) (use own(3) past in \<open>auto simp: cancel_inv_def\<close>)
    then show ?case using own(3) dir_cancel_mono 2(2) by (auto simp: cancel_inv_def)
  next
    case 3
    then show ?case using own(3) by (rule deadline_step_cancel)
  next
    case 4
    then show ?case using own(2,3) by (rule main_step_cancel)
  qed
next
  case (io_A s d)
  then show ?case using dir_cancel_io [OF io_A(1), of "rb_cancelled s"] by (auto simp: cancel_inv_def)
next
  case (io_B s d)
  then show ?case using dir_cancel_io [OF io_B(1), of "rb_cancelled s"] by (auto simp: cancel_inv_def)
next
  case (ctx_done s)
  then show ?case using dir_cancel_mono [of False _ True] by (auto simp: cancel_inv_def)
qed

subsubsection \<open>Progress\<close>

text \<open>What the splice still has to do; every step, the connections' included, takes from it.\<close>

definition pc_weight :: "dir_pc \<Rightarrow> nat" where
  "pc_weight pc = (case pc of D_Read \<Rightarrow> 5 | D_Write c \<Rightarrow> 5 + length c | D_HalfClose \<Rightarrow> 3 | D_Once \<Rightarrow> 2
                             | D_Send \<Rightarrow> 1 | D_Exit \<Rightarrow> 0)"

definition dir_weight :: "direction \<Rightarrow> nat" where
  "dir_weight d = pc_weight (dir_pc d) + (\<Sum>c\<leftarrow>dir_left d. 1 + length c)"

definition splice_measure :: "relay_bi \<Rightarrow> nat" where
  "splice_measure s =
     dir_weight (rb_toA s) + dir_weight (rb_toB s) + of_bool (\<not> rb_cancelled s) +
     (case rb_g s of G_Wait \<Rightarrow> 3 | G_SetA \<Rightarrow> 2 | G_SetB \<Rightarrow> 1 | G_End \<Rightarrow> 0) +
     (case rb_main s of P_Wait1 \<Rightarrow> 5 | P_Wait2 \<Rightarrow> 4 | P_CloseA \<Rightarrow> 3 | P_CloseB \<Rightarrow> 2 | P_Return \<Rightarrow> 1 | P_End \<Rightarrow> 0)"

lemma dir_weight_io: "dir_io sp dp d d' \<Longrightarrow> dir_weight d' < dir_weight d"
  by (induction rule: dir_io.induct) (auto simp: dir_weight_def pc_weight_def copy_returns_def)

lemma dir_weight_step: "dir_step sp dp d = Some d' \<Longrightarrow> dir_weight d' < dir_weight d"
  by (auto simp: dir_step_def dir_weight_def pc_weight_def copy_returns_def split: dir_pc.splits if_splits)

lemma splice_measure_step: "RelayBiDirectional ctx_ends s s' \<Longrightarrow> splice_measure s' < splice_measure s"
proof (induction rule: RelayBiDirectional.induct)
  case (own who s s')
  show ?case
  proof (rule splice_stepE [OF own(1)], goal_cases)
    case (1 d)
    then show ?case using dir_weight_step [OF 1(1)] by (simp add: splice_measure_def)
  next
    case (2 d)
    then show ?case using dir_weight_step [OF 2(1)] by (simp add: splice_measure_def)
  next
    case 3
    then show ?case by (auto simp: splice_measure_def deadline_step_def split: deadliner.splits if_splits)
  next
    case 4
    then show ?case by (auto simp: splice_measure_def main_step_def split: splice_main.splits if_splits)
  qed
qed (auto simp: splice_measure_def dest: dir_weight_io)

definition splice_stuck :: "relay_bi \<Rightarrow> bool" where
  "splice_stuck s \<longleftrightarrow> (\<forall>who. splice_step who s = None)"

lemma dir_step_None:
  "dir_step sp dp d = None \<Longrightarrow> dir_pc d = D_Exit \<or> dir_pc d = D_Read \<and> \<not> sp \<or> (\<exists>c. dir_pc d = D_Write c) \<and> \<not> dp"
  by (auto simp: dir_step_def split: dir_pc.splits if_splits)

lemma send_room: "token_inv s \<Longrightarrow> \<not> send_blocks (rb_toA s) s \<and> \<not> send_blocks (rb_toB s) s"
  by (auto simp: token_inv_def send_blocks_def exited_def split: if_splits)

text \<open>Only a copy can be stuck, and only while its context lives and no direction has ended.\<close>

lemma splice_progress:
  assumes tok: "token_inv s" and can: "cancel_inv ctx_ends s" and stuck: "splice_stuck s"
    and going: "rb_cancelled s \<or> dir_end (rb_toA s) \<noteq> None \<or> dir_end (rb_toB s) \<noteq> None"
  shows "rb_main s = P_End"
proof -
  have no: "splice_step who s = None" for who using stuck by (simp add: splice_stuck_def)
  have a: "dir_step (rb_pastB s) (rb_pastA s) (rb_toA s) = None"
    using no [of Relay_A] send_room [OF tok] by (simp add: splice_step_def)
  have b: "dir_step (rb_pastA s) (rb_pastB s) (rb_toB s) = None"
    using no [of Relay_B] send_room [OF tok] by (simp add: splice_step_def)
  have "rb_cancelled s"
    using going can dir_step_None [OF a] dir_step_None [OF b] by (auto simp: cancel_inv_def dir_cancel_inv_def)
  then have "rb_g s = G_End"
    using no [of Deadliner] by (auto simp: splice_step_def deadline_step_def split: deadliner.splits)
  then have "rb_pastA s" "rb_pastB s" using can by (auto simp: cancel_inv_def)
  then have "dir_pc (rb_toA s) = D_Exit" "dir_pc (rb_toB s) = D_Exit"
    using dir_step_None [OF a] dir_step_None [OF b] by auto
  then have "rb_queue s + received (rb_main s) = 2" using tok by (simp add: token_inv_def exited_def)
  then show ?thesis
    using no [of Caller] by (auto simp: splice_step_def main_step_def received_def split: splice_main.splits if_splits)
qed

lemma splice_run_inv:
  assumes "(RelayBiDirectional ctx_ends)\<^sup>*\<^sup>* (RelayBi_start (dir_start ta bs rb) (dir_start tb as ra)) s"
  shows "token_inv s" "cancel_inv ctx_ends s" "dir_inv bs (rb_toA s)" "dir_inv as (rb_toB s)"
proof -
  have "token_inv s \<and> cancel_inv ctx_ends s \<and> dir_inv bs (rb_toA s) \<and> dir_inv as (rb_toB s)"
    using assms
  proof (induction rule: rtranclp_induct)
    case base
    then show ?case
      by (simp add: RelayBi_start_def token_inv_def received_def exited_def cancel_inv_def dir_cancel_inv_def dir_inv_start)
        (simp add: dir_start_def)
  next
    case (step s s')
    have dirs: "dir_inv bs (rb_toA s') \<and> dir_inv as (rb_toB s')"
      using step(2,3) dir_inv_own dir_inv_io deadline_step_keeps
      by (auto elim!: RelayBiDirectional.cases splice_stepE simp: main_step_def split: splice_main.splits if_splits)
    then show ?case using step token_inv_step cancel_inv_step by blast
  qed
  then show "token_inv s" "cancel_inv ctx_ends s" "dir_inv bs (rb_toA s)" "dir_inv as (rb_toB s)" by auto
qed

text \<open>
  C17. The splice of two connections, in every interleaving of its four goroutines with what the
  connections do, for any chunks the two sources deliver and whatever comes after them. Each direction
  has copied a prefix of what its source sent, in order; a copy that returned because its source ended
  has copied all of it; a copy is cut by the deadline only when the surrounding context ended or the
  other direction's copy has returned for a reason of its own (the end of its source, a read error or
  a write error). The connections are closed only after both copying goroutines have exited, and both
  are closed when the function returns. Once the context is cancelled or one copy has returned, no peer can hold
  the splice: until the function has returned, one of its goroutines has a step that waits for no
  connection; and every step, of a goroutine or a connection, takes something from a measure.
\<close>

theorem relay_bi_safe:
  assumes "(RelayBiDirectional ctx_ends)\<^sup>*\<^sup>* (RelayBi_start (dir_start ta bs rb) (dir_start tb as ra)) s"
  shows "prefix (dir_copied (rb_toA s)) (concat bs) \<and> prefix (dir_copied (rb_toB s)) (concat as) \<and>
         (dir_end (rb_toA s) = Some E_EOF \<longrightarrow> dir_copied (rb_toA s) = concat bs) \<and>
         (dir_end (rb_toB s) = Some E_EOF \<longrightarrow> dir_copied (rb_toB s) = concat as) \<and>
         (dir_end (rb_toA s) = Some E_Deadline \<longrightarrow> ctx_ends \<or> ended_itself (rb_toB s)) \<and>
         (dir_end (rb_toB s) = Some E_Deadline \<longrightarrow> ctx_ends \<or> ended_itself (rb_toA s)) \<and>
         (rb_closedA s \<or> rb_closedB s \<longrightarrow> dir_pc (rb_toA s) = D_Exit \<and> dir_pc (rb_toB s) = D_Exit) \<and>
         (rb_main s = P_End \<longrightarrow> rb_closedA s \<and> rb_closedB s \<and> rb_cancelled s) \<and>
         (rb_cancelled s \<or> dir_end (rb_toA s) \<noteq> None \<or> dir_end (rb_toB s) \<noteq> None \<longrightarrow>
            rb_main s = P_End \<or> (\<exists>who s'. splice_step who s = Some s')) \<and>
         (\<forall>s'. RelayBiDirectional ctx_ends s s' \<longrightarrow> splice_measure s' < splice_measure s)"
proof -
  note inv = splice_run_inv [OF assms]
  have copied: "prefix (dir_copied (rb_toA s)) (concat bs)" "prefix (dir_copied (rb_toB s)) (concat as)"
    "dir_end (rb_toA s) = Some E_EOF \<Longrightarrow> dir_copied (rb_toA s) = concat bs"
    "dir_end (rb_toB s) = Some E_EOF \<Longrightarrow> dir_copied (rb_toB s) = concat as"
    using inv(3,4) by (simp_all add: dir_inv_def)
  have cut: "dir_end (rb_toA s) = Some E_Deadline \<Longrightarrow> ctx_ends \<or> ended_itself (rb_toB s)"
    "dir_end (rb_toB s) = Some E_Deadline \<Longrightarrow> ctx_ends \<or> ended_itself (rb_toA s)"
    using inv(2) by (auto simp: cancel_inv_def dir_cancel_inv_def ended_itself_def)
  have closed: "dir_pc (rb_toA s) = D_Exit \<and> dir_pc (rb_toB s) = D_Exit" if "rb_closedA s \<or> rb_closedB s"
    using received_both [OF _ inv(1)] that inv(1) by (auto simp: token_inv_def received_def)
  have return: "rb_main s = P_End \<Longrightarrow> rb_closedA s \<and> rb_closedB s \<and> rb_cancelled s"
    using inv(1) by (simp add: token_inv_def)
  show ?thesis
    using copied cut closed return splice_progress [OF inv(1,2)] splice_measure_step [of ctx_ends s]
    by (auto simp: splice_stuck_def)
qed

text \<open>Runs of the goroutines alone, for concrete cases.\<close>

fun splice_steps :: "splice_actor list \<Rightarrow> relay_bi \<Rightarrow> relay_bi option" where
  "splice_steps [] s = Some s"
| "splice_steps (w # ws) s = (case splice_step w s of None \<Rightarrow> None | Some s' \<Rightarrow> splice_steps ws s')"

lemma splice_steps_run: "splice_steps ws s = Some s' \<Longrightarrow> (RelayBiDirectional ctx_ends)\<^sup>*\<^sup>* s s'"
proof (induction ws arbitrary: s)
  case (Cons w ws)
  then obtain t where t: "splice_step w s = Some t" "splice_steps ws t = Some s'" by (auto split: option.splits)
  show ?case using RelayBiDirectional.own [OF t(1)] Cons.IH [OF t(2)] by (rule converse_rtranclp_into_rtranclp)
qed simp

definition cut_schedule :: "splice_actor list" where
  "cut_schedule = [Relay_B, Relay_B, Relay_B, Deadliner, Deadliner, Deadliner, Relay_A, Relay_A, Relay_A, Relay_A,
     Caller, Caller, Caller, Caller, Caller]"

definition half_closed_start :: "bytes \<Rightarrow> relay_bi" where
  "half_closed_start reply = RelayBi_start (dir_start True [reply] Src_EOF) (dir_start True [] Src_EOF)"

lemma relay_cut_run:
  "\<exists>s. (RelayBiDirectional False)\<^sup>*\<^sup>* (half_closed_start reply) s \<and> rb_main s = P_End \<and>
       dir_copied (rb_toA s) = [] \<and> dir_left (rb_toA s) = [reply] \<and> dir_end (rb_toA s) = Some E_Deadline"
proof -
  let ?s0 = "half_closed_start reply"
  let ?s1 = "?s0\<lparr>rb_toB := copy_returns E_EOF (rb_toB ?s0)\<rparr>"
  have "dir_io False False (rb_toB ?s0) (copy_returns E_EOF (rb_toB ?s0))"
    by (rule dir_io.eof) (simp_all add: half_closed_start_def RelayBi_start_def dir_start_def)
  then have first: "RelayBiDirectional False ?s0 ?s1"
    by (intro RelayBiDirectional.io_B) (simp add: half_closed_start_def RelayBi_start_def)
  have "\<exists>s. splice_steps cut_schedule ?s1 = Some s \<and> rb_main s = P_End \<and>
      dir_copied (rb_toA s) = [] \<and> dir_left (rb_toA s) = [reply] \<and> dir_end (rb_toA s) = Some E_Deadline"
    by (simp add: cut_schedule_def half_closed_start_def RelayBi_start_def dir_start_def copy_returns_def
        splice_step_def dir_step_def dir_shared_def send_blocks_def deadline_step_def main_step_def)
  then show ?thesis using first splice_steps_run converse_rtranclp_into_rtranclp by metis
qed

theorem relay_bi_safe_witness:
  "\<exists>s. (RelayBiDirectional False)\<^sup>*\<^sup>* (half_closed_start [1, 2]) s \<and> rb_closedA s \<and> rb_closedB s \<and>
     dir_pc (rb_toB s) = D_Exit \<and> prefix (dir_copied (rb_toA s)) [1, 2] \<and> ended_itself (rb_toB s)"
proof -
  obtain s where s: "(RelayBiDirectional False)\<^sup>*\<^sup>* (half_closed_start [1, 2]) s" "rb_main s = P_End"
    "dir_end (rb_toA s) = Some E_Deadline"
    using relay_cut_run by blast
  show ?thesis using relay_bi_safe [OF s(1) [unfolded half_closed_start_def]] s by auto
qed

text \<open>
  There is no grace period for the other direction. A peer that sends its request and half-closes
  its side can lose the whole reply: with the surrounding context still live, the relay can return
  with none of the reply copied, although it was there to be read.
\<close>

theorem relay_half_close_loses_reply:
  "\<exists>s. (RelayBiDirectional False)\<^sup>*\<^sup>* (half_closed_start reply) s \<and> rb_main s = P_End \<and>
       dir_copied (rb_toA s) = [] \<and> dir_left (rb_toA s) = [reply] \<and> dir_end (rb_toA s) = Some E_Deadline"
  by (rule relay_cut_run)

text \<open>The first copy to return need not have copied its whole stream: its destination can fail.\<close>

lemma relay_write_error_cuts:
  assumes "reply \<noteq> []"
  shows "\<exists>s. (RelayBiDirectional False)\<^sup>*\<^sup>*
            (RelayBi_start (dir_start True [reply] Src_EOF) (dir_start True [] Src_Silent)) s \<and>
          \<not> rb_cancelled s \<and> dir_end (rb_toA s) = Some E_WriteError \<and> dir_copied (rb_toA s) = []"
proof -
  let ?s0 = "RelayBi_start (dir_start True [reply] Src_EOF) (dir_start True [] Src_Silent)"
  let ?d1 = "(dir_start True [reply] Src_EOF)\<lparr>dir_left := [], dir_pc := D_Write reply\<rparr>"
  let ?s1 = "?s0\<lparr>rb_toA := ?d1\<rparr>"
  let ?s2 = "?s1\<lparr>rb_toA := copy_returns E_WriteError ?d1\<rparr>"
  have "RelayBiDirectional False ?s0 ?s1"
    using RelayBiDirectional.io_A [OF dir_io.data [of "rb_toA ?s0" "rb_pastB ?s0" reply "[]" "rb_pastA ?s0"], of False] assms
    by (simp add: RelayBi_start_def dir_start_def)
  moreover have "RelayBiDirectional False ?s1 ?s2"
    using RelayBiDirectional.io_A [OF dir_io.write_error [of "rb_toA ?s1" reply "rb_pastA ?s1" "rb_pastB ?s1"], of False]
    by (simp add: RelayBi_start_def dir_start_def)
  ultimately have "(RelayBiDirectional False)\<^sup>*\<^sup>* ?s0 ?s2" by simp
  then show ?thesis by (intro exI [of _ ?s2]) (simp add: RelayBi_start_def dir_start_def copy_returns_def)
qed

end
