(* ===== verification/Sni.thy ===== *)
theory Sni
  imports Framing GoNet "HOL-Library.Monad_Syntax"
begin

text \<open>
  The SNI parser of \<open>internal/tunnel/https_proxy.go\<close>: \<open>peekSNI\<close>,
  \<open>parseSNIFromClientHello\<close> and \<open>parseSNIExtension\<close>. It runs on bytes any stranger may send, so
  an index or slice out of range, which panics in Go, is a value here (\<open>None\<close>), and the first
  thing shown is that it never occurs. \<open>unicode.ToLower\<close> on a name with bytes outside ASCII is a
  parameter (\<open>uni\<close>).
\<close>

subsection \<open>Checked indexing\<close>

definition at :: "bytes \<Rightarrow> nat \<Rightarrow> byte option" where
  "at data i = (if i < length data then Some (data ! i) else None)"

definition slice :: "bytes \<Rightarrow> nat \<Rightarrow> nat \<Rightarrow> bytes option" where
  "slice data i j = (if i \<le> j \<and> j \<le> length data then Some (take (j - i) (drop i data)) else None)"

definition Uint16 :: "bytes \<Rightarrow> nat \<Rightarrow> nat option" where
  "Uint16 data i = map_option be_dec (slice data i (i + 2))"

definition ToLower :: "(string \<Rightarrow> string) \<Rightarrow> string \<Rightarrow> string" where
  "ToLower uni s = (if \<forall>c \<in> set s. char_code c < 128 then map lower_char s else uni s)"

subsection \<open>The parsers\<close>

text \<open>The loop over the names of a server_name extension, from \<open>pos\<close>; \<open>e\<close> is \<open>end\<close>.\<close>

function names_loop :: "(string \<Rightarrow> string) \<Rightarrow> bytes \<Rightarrow> nat \<Rightarrow> nat \<Rightarrow> string option" where
  "names_loop uni data e pos =
     (if pos + 3 \<le> e then
        do {
          nameType \<leftarrow> at data pos;
          nameLen \<leftarrow> Uint16 data (pos + 1);
          let p = pos + 3;
          if p + nameLen > e then Some []
          else if nameType = 0 then do { s \<leftarrow> slice data p (p + nameLen); Some (ToLower uni (string_of_bytes s)) }
          else names_loop uni data e (p + nameLen)
        }
      else Some [])"
  by pat_completeness auto
termination by (relation "measure (\<lambda>(uni, data, e, pos). e - pos)") auto

definition parseSNIExtension :: "(string \<Rightarrow> string) \<Rightarrow> bytes \<Rightarrow> string option" where
  "parseSNIExtension uni data =
     (if length data < 2 then Some []
      else do {
        listLen \<leftarrow> Uint16 data 0;
        let e = 2 + listLen;
        let e = (if length data < e then length data else e);
        names_loop uni data e 2
      })"

function ext_loop :: "(string \<Rightarrow> string) \<Rightarrow> bytes \<Rightarrow> nat \<Rightarrow> nat \<Rightarrow> string option" where
  "ext_loop uni data e pos =
     (if pos + 4 \<le> e then
        do {
          extType \<leftarrow> Uint16 data pos;
          extDataLen \<leftarrow> Uint16 data (pos + 2);
          let p = pos + 4;
          if p + extDataLen > e then Some []
          else if extType = 0 then do { d \<leftarrow> slice data p (p + extDataLen); parseSNIExtension uni d }
          else ext_loop uni data e (p + extDataLen)
        }
      else Some [])"
  by pat_completeness auto
termination by (relation "measure (\<lambda>(uni, data, e, pos). e - pos)") auto

declare names_loop.simps [simp del] ext_loop.simps [simp del]

text \<open>
  Skipping a field with a one-byte or two-byte length before it: the session ID, the cipher suites
  and the compression methods. The inner \<open>None\<close> is the early return with an empty name.
\<close>

definition skip8 :: "bytes \<Rightarrow> nat \<Rightarrow> nat option option" where
  "skip8 data pos =
     (if length data < pos + 1 then Some None
      else do {
        b \<leftarrow> at data pos;
        let pos = pos + 1;
        if pos + unat b > length data then Some None else Some (Some (pos + unat b))
      })"

definition skip16 :: "bytes \<Rightarrow> nat \<Rightarrow> nat option option" where
  "skip16 data pos =
     (if length data < pos + 2 then Some None
      else do {
        n \<leftarrow> Uint16 data pos;
        let pos = pos + 2;
        if pos + n > length data then Some None else Some (Some (pos + n))
      })"

definition extensions :: "(string \<Rightarrow> string) \<Rightarrow> bytes \<Rightarrow> nat \<Rightarrow> string option" where
  "extensions uni data pos =
     (if length data < pos + 2 then Some []
      else do {
        extLen \<leftarrow> Uint16 data pos;
        let pos = pos + 2;
        let e = pos + extLen;
        let e = (if length data < e then length data else e);
        ext_loop uni data e pos
      })"

definition parseSNIFromClientHello :: "(string \<Rightarrow> string) \<Rightarrow> bytes \<Rightarrow> string option" where
  "parseSNIFromClientHello uni data =
     (if length data < 4 then Some []
      else do {
        t \<leftarrow> at data 0;
        if t \<noteq> 1 then Some []
        else if length data < 4 + 2 + 32 then Some []
        else do {
          sess \<leftarrow> skip8 data (4 + (2 + 32));
          case sess of None \<Rightarrow> Some [] | Some pos \<Rightarrow> do {
            cipher \<leftarrow> skip16 data pos;
            case cipher of None \<Rightarrow> Some [] | Some pos \<Rightarrow> do {
              comp \<leftarrow> skip8 data pos;
              case comp of None \<Rightarrow> Some [] | Some pos \<Rightarrow> extensions uni data pos
            }
          }
        }
      })"

datatype sni_error = HeaderShort | BadRecordLength nat | RecordTooLarge | RecordShort

definition maxSNIPeekBytes :: nat where
  "maxSNIPeekBytes = 65536"

text \<open>
  \<open>peekSNI\<close> on a stream: the bytes peeked, the name or the error (an outer \<open>None\<close> is a panic),
  and the stream after the call.
\<close>

definition peekSNI ::
  "(string \<Rightarrow> string) \<Rightarrow> bytes \<Rightarrow> (bytes \<times> (sni_error + string) \<times> bytes) option" where
  "peekSNI uni r =
     (case ReadFull 5 r of
        None \<Rightarrow> Some ([], Inl HeaderShort, [])
      | Some (hdr, r1) \<Rightarrow>
          do {
            t \<leftarrow> at hdr 0;
            if t \<noteq> 0x16 then Some (hdr, Inr [], r1)
            else do {
              recLen \<leftarrow> Uint16 hdr 3;
              if recLen = 0 \<or> recLen > 16384 then Some (hdr, Inl (BadRecordLength recLen), r1)
              else if 5 + recLen > maxSNIPeekBytes then Some (hdr, Inl RecordTooLarge, r1)
              else (case ReadFull recLen r1 of
                      None \<Rightarrow> Some (hdr, Inl RecordShort, [])
                    | Some (body, r2) \<Rightarrow> do {
                        sni \<leftarrow> parseSNIFromClientHello uni body;
                        Some (hdr @ body, Inr sni, r2)
                      })
            }
          })"

subsection \<open>No index is out of range\<close>

lemma at_Some [simp]: "i < length data \<Longrightarrow> at data i = Some (data ! i)"
  by (simp add: at_def)

lemma slice_Some [simp]: "i \<le> j \<Longrightarrow> j \<le> length data \<Longrightarrow> slice data i j = Some (take (j - i) (drop i data))"
  by (simp add: slice_def)

lemma Uint16_Some [simp]: "i + 2 \<le> length data \<Longrightarrow> \<exists>n < 65536. Uint16 data i = Some n"
  using be16.dec_less [of "take 2 (drop i data)"] by (auto simp: Uint16_def)

lemma Uint16_E:
  assumes "i + 2 \<le> length data"
  obtains n where "Uint16 data i = Some n" "n < 65536"
  using Uint16_Some [OF assms] by blast

lemma names_loop_safe: "e \<le> length data \<Longrightarrow> names_loop uni data e pos \<noteq> None"
proof (induction uni data e pos rule: names_loop.induct)
  case (1 uni data e pos)
  show ?case
  proof (cases "pos + 3 \<le> e")
    case True
    then obtain n where n: "Uint16 data (pos + 1) = Some n"
      using 1(2) by (auto intro: Uint16_E [of "pos + 1" data])
    have "at data pos = Some (data ! pos)" using True 1(2) by simp
    then show ?thesis using 1(1) [OF True _ n] 1(2) True n
      by (subst names_loop.simps) (auto simp: Let_def)
  next
    case False
    then show ?thesis by (simp add: names_loop.simps)
  qed
qed

lemma parseSNIExtension_safe: "parseSNIExtension uni data \<noteq> None"
proof (cases "length data < 2")
  case False
  then obtain n where "Uint16 data 0 = Some n" using Uint16_E [of 0 data] by auto
  then show ?thesis using False names_loop_safe by (simp add: parseSNIExtension_def Let_def)
qed (simp add: parseSNIExtension_def)

lemma ext_loop_safe: "e \<le> length data \<Longrightarrow> ext_loop uni data e pos \<noteq> None"
proof (induction uni data e pos rule: ext_loop.induct)
  case (1 uni data e pos)
  show ?case
  proof (cases "pos + 4 \<le> e")
    case True
    obtain t where t: "Uint16 data pos = Some t"
      using True 1(2) Uint16_E [of pos data] by auto
    obtain n where n: "Uint16 data (pos + 2) = Some n"
      using True 1(2) Uint16_E [of "pos + 2" data] by auto
    then show ?thesis using 1(1) [OF True t n] 1(2) True t n parseSNIExtension_safe
      by (subst ext_loop.simps) (auto simp: Let_def)
  next
    case False
    then show ?thesis by (simp add: ext_loop.simps)
  qed
qed

lemma skip8_safe: "skip8 data pos \<noteq> None"
  by (simp add: skip8_def at_def Let_def)

lemma skip16_safe: "skip16 data pos \<noteq> None"
proof (cases "length data < pos + 2")
  case False
  then obtain n where "Uint16 data pos = Some n" using Uint16_E [of pos data] by auto
  then show ?thesis using False by (simp add: skip16_def Let_def)
qed (simp add: skip16_def)

lemma extensions_safe: "extensions uni data pos \<noteq> None"
proof (cases "length data < pos + 2")
  case False
  then obtain n where "Uint16 data pos = Some n" using Uint16_E [of pos data] by auto
  then show ?thesis using False by (simp add: extensions_def Let_def ext_loop_safe)
qed (simp add: extensions_def)

lemma parseSNIFromClientHello_safe: "parseSNIFromClientHello uni data \<noteq> None"
proof (cases "length data < 4")
  case False
  then have ne: "data \<noteq> []" by auto
  obtain s where s: "skip8 data 38 = Some s" using skip8_safe by blast
  show ?thesis
  proof (cases s)
    case (Some pos)
    obtain c where c: "skip16 data pos = Some c" using skip16_safe by blast
    show ?thesis
    proof (cases c)
      case (Some pos')
      obtain k where "skip8 data pos' = Some k" using skip8_safe by blast
      then show ?thesis
        using False ne s \<open>s = Some pos\<close> c Some extensions_safe
        by (cases k) (simp_all add: parseSNIFromClientHello_def)
    qed (use False ne s Some c in \<open>simp add: parseSNIFromClientHello_def\<close>)
  qed (use False ne s in \<open>simp add: parseSNIFromClientHello_def\<close>)
qed (simp add: parseSNIFromClientHello_def)

lemma peekSNI_total: "peekSNI uni r \<noteq> None"
proof (cases "ReadFull 5 r")
  case (Some hr)
  obtain hdr r1 where hr: "hr = (hdr, r1)" by fastforce
  then have len: "length hdr = 5" using Some ReadFull_SomeD by blast
  then obtain n where n: "Uint16 hdr 3 = Some n" using Uint16_E [of 3 hdr] by auto
  show ?thesis
  proof (cases "ReadFull n r1")
    case (Some br)
    obtain name where "parseSNIFromClientHello uni (fst br) = Some name"
      using parseSNIFromClientHello_safe by blast
    then show ?thesis using Some \<open>ReadFull 5 r = Some hr\<close> hr n len by (cases br) (simp add: peekSNI_def)
  qed (use Some hr n len in \<open>simp add: peekSNI_def del: ReadFull_None\<close>)
qed (simp add: peekSNI_def del: ReadFull_None)

text \<open>
  C20. The parser is safe on any input and keeps every byte. Whatever a peer sends, \<open>peekSNI\<close>
  returns (no index or slice is ever out of range, and both loops end); it reads at most 16389 bytes;
  and when it returns no error, the bytes to replay followed by what is still unread are exactly what
  the peer sent.
\<close>

theorem peekSNI_safe:
  "\<exists>peeked res rest. peekSNI uni r = Some (peeked, res, rest) \<and> length peeked \<le> 16389 \<and>
     (case res of Inl _ \<Rightarrow> True | Inr _ \<Rightarrow> peeked @ rest = r)"
proof (cases "ReadFull 5 r")
  case (Some hr)
  obtain hdr r1 where hr: "hr = (hdr, r1)" by fastforce
  have len: "length hdr = 5" and r: "r = hdr @ r1" using Some hr ReadFull_SomeD by blast+
  then obtain n where n: "Uint16 hdr 3 = Some n" using Uint16_E [of 3 hdr] by auto
  show ?thesis
  proof (cases "ReadFull n r1")
    case None
    then show ?thesis using Some hr len r n by (simp add: peekSNI_def del: ReadFull_None)
  next
    case (Some br)
    obtain body r2 where br: "br = (body, r2)" by fastforce
    have r1: "r1 = body @ r2" "length body = n" using Some br ReadFull_SomeD by blast+
    obtain name where "parseSNIFromClientHello uni body = Some name"
      using parseSNIFromClientHello_safe by blast
    then show ?thesis using Some \<open>ReadFull 5 r = Some hr\<close> hr br len n r r1 by (simp add: peekSNI_def)
  qed
qed (simp add: peekSNI_def del: ReadFull_None)

subsection \<open>The name a well-formed ClientHello gives\<close>

text \<open>Building the message: lists of names and of extensions, each with its length before it.\<close>

definition name_enc :: "byte \<times> bytes \<Rightarrow> bytes" where
  "name_enc nm = fst nm # be_enc 2 (length (snd nm)) @ snd nm"

definition names_enc :: "(byte \<times> bytes) list \<Rightarrow> bytes" where
  "names_enc ns = (let b = concat (map name_enc ns) in be_enc 2 (length b) @ b)"

definition ext_enc :: "nat \<times> bytes \<Rightarrow> bytes" where
  "ext_enc x = be_enc 2 (fst x) @ be_enc 2 (length (snd x)) @ snd x"

record client_hello =
  hello_len :: bytes
  hello_version :: bytes
  hello_random :: bytes
  hello_session :: bytes
  hello_ciphers :: bytes
  hello_compression :: bytes
  hello_extensions :: "(nat \<times> bytes) list"

definition exts_enc :: "client_hello \<Rightarrow> bytes" where
  "exts_enc h = concat (map ext_enc (hello_extensions h))"

definition hello_enc :: "client_hello \<Rightarrow> bytes" where
  "hello_enc h =
     1 # hello_len h @ hello_version h @ hello_random h @
     word_of_nat (length (hello_session h)) # hello_session h @
     be_enc 2 (length (hello_ciphers h)) @ hello_ciphers h @
     word_of_nat (length (hello_compression h)) # hello_compression h @
     be_enc 2 (length (exts_enc h)) @ exts_enc h"

definition hello_ok :: "client_hello \<Rightarrow> bool" where
  "hello_ok h \<longleftrightarrow> length (hello_len h) = 3 \<and> length (hello_version h) = 2 \<and> length (hello_random h) = 32 \<and>
     length (hello_session h) < 256 \<and> length (hello_ciphers h) < 65536 \<and> length (hello_compression h) < 256 \<and>
     length (exts_enc h) < 65536 \<and> (\<forall>(t, d) \<in> set (hello_extensions h). t < 65536)"

text \<open>The specification: the first name of type 0 in the first extension of type 0, lower-cased.\<close>

definition first_host :: "(string \<Rightarrow> string) \<Rightarrow> (byte \<times> bytes) list \<Rightarrow> string" where
  "first_host uni ns =
     (case find (\<lambda>nm. fst nm = 0) ns of None \<Rightarrow> [] | Some nm \<Rightarrow> ToLower uni (string_of_bytes (snd nm)))"

lemma at_mid: "i = length pre \<Longrightarrow> at (pre @ b # post) i = Some b"
  by (simp add: at_def)

lemma slice_mid: "i = length pre \<Longrightarrow> j = i + length xs \<Longrightarrow> slice (pre @ xs @ post) i j = Some xs"
  by (simp add: slice_def)

lemma Uint16_mid: "i = length pre \<Longrightarrow> v < 65536 \<Longrightarrow> Uint16 (pre @ be_enc 2 v @ post) i = Some v"
  using be16.dec_enc [of v] by (simp add: Uint16_def slice_mid)

lemma length_name_enc: "length (name_enc nm) = 3 + length (snd nm)"
  by (simp add: name_enc_def)

lemma length_ext_enc: "length (ext_enc x) = 4 + length (snd x)"
  by (simp add: ext_enc_def)

lemma names_loop_enc:
  "length (concat (map name_enc ns)) < 65536 \<Longrightarrow>
   names_loop uni (pre @ concat (map name_enc ns) @ post)
     (length pre + length (concat (map name_enc ns))) (length pre) = Some (first_host uni ns)"
proof (induction ns arbitrary: pre)
  case Nil
  then show ?case by (simp add: names_loop.simps first_host_def)
next
  case (Cons nm ns)
  obtain t d where nm: "nm = (t, d)" by fastforce
  let ?rest = "concat (map name_enc ns)"
  let ?data = "pre @ (t # be_enc 2 (length d) @ d @ ?rest) @ post"
  have len: "length d < 65536" "length ?rest < 65536" using Cons.prems nm by (simp_all add: length_name_enc)
  have a: "at ?data (length pre) = Some t" by (simp add: at_mid)
  have u: "Uint16 ?data (length pre + 1) = Some (length d)"
    using Uint16_mid [of "length pre + 1" "pre @ [t]" "length d" "d @ ?rest @ post"] len by simp
  have s: "slice ?data (length pre + 3) (length pre + 3 + length d) = Some d"
    using slice_mid [of "length pre + 3" "pre @ t # be_enc 2 (length d)" _ d "?rest @ post"] by simp
  let ?X = "pre @ t # be_enc 2 (length d) @ d"
  have IH0: "names_loop uni (?X @ ?rest @ post) (length ?X + length ?rest) (length ?X) = Some (first_host uni ns)"
    by (rule Cons.IH [OF len(2)])
  have data: "?X @ ?rest @ post = ?data" and lx: "length ?X = length pre + 3 + length d" by simp_all
  note IH = IH0 [unfolded data lx]
  have "names_loop uni ?data (length pre + 3 + length d + length ?rest) (length pre) =
        (if t = 0 then Some (ToLower uni (string_of_bytes d)) else Some (first_host uni ns))"
    by (subst names_loop.simps) (simp only: a u s IH Let_def bind.bind_lunit, simp)
  moreover have "length pre + length (concat (map name_enc (nm # ns))) = length pre + 3 + length d + length ?rest"
    by (simp add: nm length_name_enc)
  moreover have "pre @ concat (map name_enc (nm # ns)) @ post = ?data" by (simp add: nm name_enc_def)
  moreover have "first_host uni (nm # ns) = (if t = 0 then ToLower uni (string_of_bytes d) else first_host uni ns)"
    by (simp add: nm first_host_def)
  ultimately show ?case by (simp only:) simp
qed

lemma parseSNIExtension_enc:
  assumes "length (concat (map name_enc ns)) < 65536"
  shows "parseSNIExtension uni (names_enc ns) = Some (first_host uni ns)"
proof -
  let ?b = "concat (map name_enc ns)"
  have "Uint16 (names_enc ns) 0 = Some (length ?b)"
    using Uint16_mid [of 0 "[]" "length ?b" ?b] assms by (simp add: names_enc_def Let_def)
  moreover have "names_loop uni (names_enc ns) (2 + length ?b) 2 = Some (first_host uni ns)"
    using names_loop_enc [OF assms, of uni "be_enc 2 (length ?b)" "[]"] by (simp add: names_enc_def Let_def)
  moreover have "length (names_enc ns) = 2 + length ?b" by (simp add: names_enc_def Let_def)
  ultimately show ?thesis by (simp add: parseSNIExtension_def Let_def)
qed

definition sni_spec :: "(string \<Rightarrow> string) \<Rightarrow> (nat \<times> bytes) list \<Rightarrow> string option" where
  "sni_spec uni exts =
     (case find (\<lambda>x. fst x = 0) exts of None \<Rightarrow> Some [] | Some x \<Rightarrow> parseSNIExtension uni (snd x))"

lemma ext_loop_enc:
  "length (concat (map ext_enc exts)) < 65536 \<Longrightarrow> \<forall>(t, d) \<in> set exts. t < 65536 \<Longrightarrow>
   ext_loop uni (pre @ concat (map ext_enc exts) @ post)
     (length pre + length (concat (map ext_enc exts))) (length pre) = sni_spec uni exts"
proof (induction exts arbitrary: pre)
  case Nil
  then show ?case by (simp add: ext_loop.simps sni_spec_def)
next
  case (Cons x exts)
  obtain t d where x: "x = (t, d)" by fastforce
  let ?rest = "concat (map ext_enc exts)"
  let ?data = "pre @ (be_enc 2 t @ be_enc 2 (length d) @ d @ ?rest) @ post"
  have len: "length d < 65536" "length ?rest < 65536" "t < 65536"
    using Cons.prems x by (simp_all add: length_ext_enc)
  have a: "Uint16 ?data (length pre) = Some t"
    using Uint16_mid [of "length pre" pre t "be_enc 2 (length d) @ d @ ?rest @ post"] len(3) by simp
  have u: "Uint16 ?data (length pre + 2) = Some (length d)"
    using Uint16_mid [of "length pre + 2" "pre @ be_enc 2 t" "length d" "d @ ?rest @ post"] len by simp
  have s: "slice ?data (length pre + 4) (length pre + 4 + length d) = Some d"
    using slice_mid [of "length pre + 4" "pre @ be_enc 2 t @ be_enc 2 (length d)" _ d "?rest @ post"] by simp
  let ?X = "pre @ be_enc 2 t @ be_enc 2 (length d) @ d"
  have IH0: "ext_loop uni (?X @ ?rest @ post) (length ?X + length ?rest) (length ?X) = sni_spec uni exts"
    using Cons.prems(2) by (intro Cons.IH [OF len(2)]) simp
  have data: "?X @ ?rest @ post = ?data" and lx: "length ?X = length pre + 4 + length d" by simp_all
  note IH = IH0 [unfolded data lx]
  have "ext_loop uni ?data (length pre + 4 + length d + length ?rest) (length pre) =
        (if t = 0 then parseSNIExtension uni d else sni_spec uni exts)"
    by (subst ext_loop.simps) (simp only: a u s IH Let_def bind.bind_lunit, simp)
  moreover have "length pre + length (concat (map ext_enc (x # exts))) = length pre + 4 + length d + length ?rest"
    by (simp add: x length_ext_enc)
  moreover have "pre @ concat (map ext_enc (x # exts)) @ post = ?data" by (simp add: x ext_enc_def)
  moreover have "sni_spec uni (x # exts) = (if t = 0 then parseSNIExtension uni d else sni_spec uni exts)"
    by (simp add: x sni_spec_def)
  ultimately show ?case by (simp only:)
qed

lemma skip8_mid:
  "i = length pre \<Longrightarrow> length xs < 256 \<Longrightarrow>
   skip8 (pre @ word_of_nat (length xs) # xs @ post) i = Some (Some (i + 1 + length xs))"
  by (simp add: skip8_def at_mid Let_def unat_of_nat)

lemma skip16_mid:
  "i = length pre \<Longrightarrow> length xs < 65536 \<Longrightarrow>
   skip16 (pre @ be_enc 2 (length xs) @ xs @ post) i = Some (Some (i + 2 + length xs))"
  using Uint16_mid [of i pre "length xs" "xs @ post"] by (simp add: skip16_def Let_def)

lemma parse_hello:
  assumes "hello_ok h"
  shows "parseSNIFromClientHello uni (hello_enc h) = sni_spec uni (hello_extensions h)"
proof -
  let ?x = "exts_enc h"
  let ?p1 = "1 # hello_len h @ hello_version h @ hello_random h"
  let ?p2 = "?p1 @ word_of_nat (length (hello_session h)) # hello_session h"
  let ?p3 = "?p2 @ be_enc 2 (length (hello_ciphers h)) @ hello_ciphers h"
  let ?p4 = "?p3 @ word_of_nat (length (hello_compression h)) # hello_compression h"
  let ?p5 = "?p4 @ be_enc 2 (length ?x)"
  have ok: "length ?p1 = 38" "length (hello_session h) < 256" "length (hello_ciphers h) < 65536"
    "length (hello_compression h) < 256" "length ?x < 65536" "\<forall>(t, d) \<in> set (hello_extensions h). t < 65536"
    using assms by (auto simp: hello_ok_def)
  have enc: "hello_enc h = ?p5 @ ?x" by (simp add: hello_enc_def)
  have s1: "skip8 (hello_enc h) 38 = Some (Some (length ?p2))"
    using skip8_mid [of 38 ?p1 "hello_session h"] ok by (simp add: hello_enc_def)
  have s2: "skip16 (hello_enc h) (length ?p2) = Some (Some (length ?p3))"
    using skip16_mid [of "length ?p2" ?p2 "hello_ciphers h"] ok(3) by (simp add: hello_enc_def)
  have s3: "skip8 (hello_enc h) (length ?p3) = Some (Some (length ?p4))"
    using skip8_mid [of "length ?p3" ?p3 "hello_compression h"] ok(4) by (simp add: hello_enc_def)
  have e: "extensions uni (hello_enc h) (length p) = sni_spec uni (hello_extensions h)"
    if p: "hello_enc h = p @ be_enc 2 (length ?x) @ ?x" for p
  proof -
    have "Uint16 (hello_enc h) (length p) = Some (length ?x)"
      unfolding p using ok(5) by (intro Uint16_mid) simp_all
    moreover have "ext_loop uni (hello_enc h) (length p + 2 + length ?x) (length p + 2) = sni_spec uni (hello_extensions h)"
      using ext_loop_enc [of "hello_extensions h" uni "p @ be_enc 2 (length ?x)" "[]"] ok(5,6)
      unfolding p exts_enc_def by simp
    moreover have "length (hello_enc h) = length p + 2 + length ?x" unfolding p by simp
    ultimately show ?thesis by (simp add: extensions_def Let_def)
  qed
  have e: "extensions uni (hello_enc h) (length ?p4) = sni_spec uni (hello_extensions h)"
    by (rule e) (simp add: enc)
  have h: "at (hello_enc h) 0 = Some 1" by (simp add: hello_enc_def at_def)
  obtain p2 p3 p4 where "skip8 (hello_enc h) 38 = Some (Some p2)" "skip16 (hello_enc h) p2 = Some (Some p3)"
    "skip8 (hello_enc h) p3 = Some (Some p4)" "extensions uni (hello_enc h) p4 = sni_spec uni (hello_extensions h)"
    using s1 s2 s3 e by blast
  moreover have "38 \<le> length (hello_enc h)" using ok(1) unfolding enc by simp
  ultimately show ?thesis
    by (simp add: parseSNIFromClientHello_def h)
qed

text \<open>
  C21. The routed name is the name in the message. For every well-formed ClientHello record (any
  lengths the format allows, any other extensions before the server name, any other name types before
  the host name), \<open>peekSNI\<close> returns the first host name of the first server_name extension,
  lower-cased, and no name when there is no such extension.
\<close>

theorem peekSNI_finds_name:
  assumes "hello_ok h" "length (hello_enc h) \<le> 16384" "length ver = 2"
    and "\<forall>d. find (\<lambda>x. fst x = 0) (hello_extensions h) = Some (0, d) \<longrightarrow>
           d = names_enc ns \<and> length (concat (map name_enc ns)) < 65536"
  shows "peekSNI uni (0x16 # ver @ be_enc 2 (length (hello_enc h)) @ hello_enc h @ tl_bytes) =
         Some (0x16 # ver @ be_enc 2 (length (hello_enc h)) @ hello_enc h,
               Inr (if find (\<lambda>x. fst x = 0) (hello_extensions h) = None then [] else first_host uni ns), tl_bytes)"
proof -
  let ?b = "hello_enc h"
  let ?hdr = "0x16 # ver @ be_enc 2 (length ?b)"
  have r1: "ReadFull 5 (?hdr @ ?b @ tl_bytes) = Some (?hdr, ?b @ tl_bytes)"
    using assms(3) by (intro ReadFull_append) simp
  have r2: "ReadFull (length ?b) (?b @ tl_bytes) = Some (?b, tl_bytes)" by simp
  have u: "Uint16 ?hdr 3 = Some (length ?b)"
    using Uint16_mid [of 3 "0x16 # ver" "length ?b" "[]"] assms(2,3) by simp
  have ne: "length ?b \<noteq> 0" by (simp add: hello_enc_def)
  have spec: "sni_spec uni (hello_extensions h) =
      Some (if find (\<lambda>x. fst x = 0) (hello_extensions h) = None then [] else first_host uni ns)"
  proof (cases "find (\<lambda>x. fst x = 0) (hello_extensions h)")
    case (Some x)
    then have "fst x = 0" by (auto simp: find_Some_iff)
    then obtain d where "x = (0, d)" by (cases x) auto
    then show ?thesis using Some assms(4) parseSNIExtension_enc by (simp add: sni_spec_def)
  qed (simp add: sni_spec_def)
  have "peekSNI uni (?hdr @ ?b @ tl_bytes) = Some (?hdr @ ?b, Inr (if find (\<lambda>x. fst x = 0) (hello_extensions h) = None then [] else first_host uni ns), tl_bytes)"
    unfolding peekSNI_def r1 option.case prod.case u
    using ne assms(2) by (simp add: r2 parse_hello [OF assms(1)] spec maxSNIPeekBytes_def)
  then show ?thesis by simp
qed

definition demo_hello :: client_hello where
  "demo_hello =
     \<lparr>hello_len = [0, 0, 0], hello_version = [3, 3], hello_random = replicate 32 7, hello_session = [],
      hello_ciphers = [19, 1], hello_compression = [0],
      hello_extensions = [(10, [1, 2]), (0, names_enc [(0, bytes_of_string ''Ab.IO'')])]\<rparr>"

theorem peekSNI_finds_name_witness:
  "\<exists>peeked. peekSNI (\<lambda>s. s) (0x16 # [3, 1] @ be_enc 2 (length (hello_enc demo_hello)) @ hello_enc demo_hello @ [9, 9]) =
     Some (peeked, Inr ''ab.io'', [9, 9])"
proof -
  have h: "first_host (\<lambda>s. s) [(0, bytes_of_string ''Ab.IO'')] = ''ab.io''"
    by (simp add: first_host_def ToLower_def char_code_def lower_char_def char_of_def bit_0)
  have f: "find (\<lambda>x. fst x = 0) (hello_extensions demo_hello) = Some (0, names_enc [(0, bytes_of_string ''Ab.IO'')])"
    by (simp add: demo_hello_def)
  have "peekSNI (\<lambda>s. s) (0x16 # [3, 1] @ be_enc 2 (length (hello_enc demo_hello)) @ hello_enc demo_hello @ [9, 9]) =
     Some (0x16 # [3, 1] @ be_enc 2 (length (hello_enc demo_hello)) @ hello_enc demo_hello,
           Inr (if find (\<lambda>x. fst x = 0) (hello_extensions demo_hello) = None then [] else first_host (\<lambda>s. s) [(0, bytes_of_string ''Ab.IO'')]), [9, 9])"
  proof (rule peekSNI_finds_name)
    show "hello_ok demo_hello"
      by (simp add: hello_ok_def demo_hello_def exts_enc_def length_ext_enc names_enc_def name_enc_def)
    show "length (hello_enc demo_hello) \<le> 16384"
      by (simp add: hello_enc_def demo_hello_def exts_enc_def length_ext_enc names_enc_def name_enc_def)
  qed (simp_all add: f length_name_enc)
  then show ?thesis using f h by simp
qed

end
