(* ===== verification/SocksNegotiate.thy ===== *)
theory SocksNegotiate
  imports Framing Validation GoIP
begin

text \<open>
  \<open>internal/socks/proto.go\<close> and \<open>sendSOCKSReply\<close> of \<open>internal/socks/server.go\<close>: the SOCKS5
  handshake (RFC 1928, RFC 1929) as a parser of the bytes the peer sends. A phase returns its result,
  the bytes written to the peer, and the rest of the stream. Two writes are checked by the code;
  whether they succeed is an argument (\<open>w1\<close>, \<open>w2\<close>).
\<close>

definition socks5Version :: byte where "socks5Version = 5"
definition authNone :: byte where "authNone = 0"
definition authPassword :: byte where "authPassword = 2"
definition authNoAccept :: byte where "authNoAccept = 0xFF"
definition cmdConnect :: byte where "cmdConnect = 1"
definition atypIPv4 :: byte where "atypIPv4 = 1"
definition atypDomain :: byte where "atypDomain = 3"
definition atypIPv6 :: byte where "atypIPv6 = 4"
definition repSuccess :: byte where "repSuccess = 0"
definition repGeneralFailure :: byte where "repGeneralFailure = 1"
definition repConnRefused :: byte where "repConnRefused = 5"
definition repCmdNotSupported :: byte where "repCmdNotSupported = 7"
definition repAddrNotSupported :: byte where "repAddrNotSupported = 8"

lemmas socks_consts = socks5Version_def authNone_def authPassword_def authNoAccept_def cmdConnect_def
  atypIPv4_def atypDomain_def atypIPv6_def repSuccess_def repGeneralFailure_def repConnRefused_def
  repCmdNotSupported_def repAddrNotSupported_def

datatype socks_error =
    ShortRead | BadVersion byte | ZeroMethods | NoAcceptableMethod | MethodWriteFailed
  | BadAuthVersion byte | AuthFailed | AuthWriteFailed
  | BadRequestVersion byte | BadCommand byte | BadAddressType byte | InvalidTarget validation_error

type_synonym 'a phase = "(socks_error + 'a) \<times> bytes \<times> bytes"

definition IPv4zero :: IP where
  "IPv4zero = v4InV6Prefix @ [0, 0, 0, 0]"

definition sendSOCKSReply :: "byte \<Rightarrow> IP \<Rightarrow> int \<Rightarrow> bytes" where
  "sendSOCKSReply rep boundAddr boundPort =
     (let addr = (if length boundAddr = 0 then IPv4zero else boundAddr);
          addr = (case To4 addr of Some ip4 \<Rightarrow> ip4 | None \<Rightarrow> addr)
      in [socks5Version, rep, 0, atypIPv4] @ take 4 addr @ be_enc 2 (unat (word_of_int boundPort :: 16 word)))"

subsection \<open>Phase 1: method negotiation\<close>

fun select_method :: "bool \<Rightarrow> bytes \<Rightarrow> byte" where
  "select_method authRequired [] = authNoAccept"
| "select_method authRequired (m # ms) =
     (if authRequired \<and> m = authPassword then authPassword
      else if \<not> authRequired \<and> m = authNone then authNone
      else select_method authRequired ms)"

definition greeting :: "bool \<Rightarrow> bool \<Rightarrow> bytes \<Rightarrow> byte phase" where
  "greeting w1 authRequired s =
     (case ReadFull 2 s of
        None \<Rightarrow> (Inl ShortRead, [], [])
      | Some (hdr, s1) \<Rightarrow>
          if hdr ! 0 \<noteq> socks5Version then (Inl (BadVersion (hdr ! 0)), [], s1)
          else if unat (hdr ! 1) = 0 then (Inl ZeroMethods, [socks5Version, authNoAccept], s1)
          else (case ReadFull (unat (hdr ! 1)) s1 of
                  None \<Rightarrow> (Inl ShortRead, [], [])
                | Some (methods, s2) \<Rightarrow>
                    (let m = select_method authRequired methods
                     in if m = authNoAccept then (Inl NoAcceptableMethod, [socks5Version, authNoAccept], s2)
                        else if \<not> w1 then (Inl MethodWriteFailed, [], s2)
                        else (Inr m, [socks5Version, m], s2))))"

subsection \<open>Phase 2: user name and password\<close>

definition sub_auth :: "bool \<Rightarrow> string \<Rightarrow> string \<Rightarrow> bytes \<Rightarrow> unit phase" where
  "sub_auth w2 authUser authPass s =
     (case ReadFull 2 s of
        None \<Rightarrow> (Inl ShortRead, [], [])
      | Some (authHdr, s1) \<Rightarrow>
          if authHdr ! 0 \<noteq> 1 then (Inl (BadAuthVersion (authHdr ! 0)), [1, 1], s1)
          else (case ReadFull (unat (authHdr ! 1)) s1 of
                  None \<Rightarrow> (Inl ShortRead, [], [])
                | Some (uBuf, s2) \<Rightarrow>
                    (case ReadFull 1 s2 of
                       None \<Rightarrow> (Inl ShortRead, [], [])
                     | Some (pLenBuf, s3) \<Rightarrow>
                         (case ReadFull (unat (pLenBuf ! 0)) s3 of
                            None \<Rightarrow> (Inl ShortRead, [], [])
                          | Some (pBuf, s4) \<Rightarrow>
                              if ConstantTimeCompare (string_of_bytes uBuf) authUser \<noteq> 1
                                 \<or> ConstantTimeCompare (string_of_bytes pBuf) authPass \<noteq> 1
                              then (Inl AuthFailed, [1, 1], s4)
                              else if \<not> w2 then (Inl AuthWriteFailed, [], s4)
                              else (Inr (), [1, 0], s4)))))"

subsection \<open>Phase 3: the CONNECT request\<close>

text \<open>The address, by its type.\<close>

definition read_host :: "byte \<Rightarrow> bytes \<Rightarrow> string phase" where
  "read_host atyp s =
     (if atyp = atypIPv4 then
        (case ReadFull 4 s of None \<Rightarrow> (Inl ShortRead, [], []) | Some (a, r) \<Rightarrow> (Inr (IP_String a), [], r))
      else if atyp = atypDomain then
        (case ReadFull 1 s of
           None \<Rightarrow> (Inl ShortRead, [], [])
         | Some (lenBuf, s1) \<Rightarrow>
             (case ReadFull (unat (lenBuf ! 0)) s1 of
                None \<Rightarrow> (Inl ShortRead, [], [])
              | Some (d, r) \<Rightarrow> (Inr (string_of_bytes d), [], r)))
      else if atyp = atypIPv6 then
        (case ReadFull 16 s of None \<Rightarrow> (Inl ShortRead, [], []) | Some (a, r) \<Rightarrow> (Inr (IP_String a), [], r))
      else (Inl (BadAddressType atyp), sendSOCKSReply repAddrNotSupported [] 0, s))"

definition connect_request :: "bytes \<Rightarrow> (string \<times> int) phase" where
  "connect_request s =
     (case ReadFull 4 s of
        None \<Rightarrow> (Inl ShortRead, [], [])
      | Some (reqHdr, s1) \<Rightarrow>
          if reqHdr ! 0 \<noteq> socks5Version
          then (Inl (BadRequestVersion (reqHdr ! 0)), sendSOCKSReply repGeneralFailure [] 0, s1)
          else if reqHdr ! 1 \<noteq> cmdConnect
          then (Inl (BadCommand (reqHdr ! 1)), sendSOCKSReply repCmdNotSupported [] 0, s1)
          else (case read_host (reqHdr ! 3) s1 of
                  (Inl e, out, s2) \<Rightarrow> (Inl e, out, s2)
                | (Inr targetHost, _, s2) \<Rightarrow>
                    (case ReadFull 2 s2 of
                       None \<Rightarrow> (Inl ShortRead, [], [])
                     | Some (portBuf, s3) \<Rightarrow>
                         (let targetPort = int (be_dec portBuf)
                          in case ValidateTarget targetHost targetPort 1 of
                               Some e \<Rightarrow> (Inl (InvalidTarget e), sendSOCKSReply repGeneralFailure [] 0, s3)
                             | None \<Rightarrow> (Inr (targetHost, targetPort), [], s3)))))"

definition NegotiateSOCKS5 :: "bool \<Rightarrow> bool \<Rightarrow> string \<Rightarrow> string \<Rightarrow> bytes \<Rightarrow> (string \<times> int) phase" where
  "NegotiateSOCKS5 w1 w2 authUser authPass s =
     (let authRequired = (authUser \<noteq> [] \<and> authPass \<noteq> [])
      in case greeting w1 authRequired s of
           (Inl e, out, r) \<Rightarrow> (Inl e, out, r)
         | (Inr m, out1, s1) \<Rightarrow>
             (case (if m = authPassword then sub_auth w2 authUser authPass s1 else (Inr (), [], s1)) of
                (Inl e, out2, r) \<Rightarrow> (Inl e, out1 @ out2, r)
              | (Inr _, out2, s2) \<Rightarrow>
                  (case connect_request s2 of
                     (res, out3, r) \<Rightarrow> (res, out1 @ out2 @ out3, r))))"

subsection \<open>What success means\<close>

lemma length_2: "length xs = 2 \<Longrightarrow> xs = [xs ! 0, xs ! 1]"
  by (cases xs; cases "tl xs") auto

lemma length_4: "length xs = 4 \<Longrightarrow> xs = [xs ! 0, xs ! 1, xs ! 2, xs ! 3]"
  by (rule nth_equalityI) (simp_all add: nth_Cons numeral_eq_Suc split: nat.split)

lemma select_method_cases:
  "select_method req ms \<noteq> authNoAccept \<Longrightarrow>
   select_method req ms = (if req then authPassword else authNone) \<and> select_method req ms \<in> set ms"
  by (induction ms) (auto simp: socks_consts split: if_splits)

lemma select_method_in:
  "(if req then authPassword else authNone) \<in> set ms \<Longrightarrow> select_method req ms = (if req then authPassword else authNone)"
  by (induction ms) auto

lemma greeting_Inr:
  assumes "greeting w1 req s = (Inr m, out, s2)"
  shows "\<exists>methods. s = [5, word_of_nat (length methods)] @ methods @ s2 \<and> 0 < length methods \<and> length methods < 256 \<and>
    m = (if req then authPassword else authNone) \<and> m \<in> set methods \<and> out = [5, m]"
proof -
  obtain hdr s1 methods where h: "ReadFull 2 s = Some (hdr, s1)" "hdr ! 0 = socks5Version" "unat (hdr ! 1) \<noteq> 0"
    "ReadFull (unat (hdr ! 1)) s1 = Some (methods, s2)" "select_method req methods \<noteq> authNoAccept"
    "m = select_method req methods" "out = [socks5Version, m]"
    using assms by (auto simp: greeting_def Let_def split: option.splits if_splits)
  have "s = hdr @ s1" "length hdr = 2" using ReadFull_SomeD [OF h(1)] by auto
  moreover have m: "s1 = methods @ s2" "length methods = unat (hdr ! 1)" using ReadFull_SomeD [OF h(4)] by auto
  moreover have "word_of_nat (length methods) = hdr ! 1" using m(2) by simp
  moreover have "unat (hdr ! 1) < 256" using unsigned_less [of "hdr ! 1"] by simp
  ultimately show ?thesis
    using length_2 [of hdr] h select_method_cases [OF h(5)]
    by (intro exI [of _ methods]) (auto simp: socks5Version_def)
qed

lemma sub_auth_Inr:
  assumes "sub_auth w2 u p s = (Inr x, out, r)"
  shows "s = [1, word_of_nat (length u)] @ bytes_of_string u @ [word_of_nat (length p)] @ bytes_of_string p @ r \<and>
    length u < 256 \<and> length p < 256 \<and> out = [1, 0]"
proof -
  obtain hdr s1 ub s2 pl s3 pb where h: "ReadFull 2 s = Some (hdr, s1)" "hdr ! 0 = 1"
    "ReadFull (unat (hdr ! 1)) s1 = Some (ub, s2)" "ReadFull 1 s2 = Some (pl, s3)"
    "ReadFull (unat (pl ! 0)) s3 = Some (pb, r)" "string_of_bytes ub = u" "string_of_bytes pb = p" "out = [1, 0]"
    using assms by (auto simp: sub_auth_def split: option.splits if_splits)
  have "s = hdr @ s1" "length hdr = 2" using ReadFull_SomeD [OF h(1)] by auto
  moreover have u: "s1 = ub @ s2" "length ub = unat (hdr ! 1)" using ReadFull_SomeD [OF h(3)] by auto
  moreover have "s2 = pl @ s3" "length pl = 1" using ReadFull_SomeD [OF h(4)] by auto
  moreover have p: "s3 = pb @ r" "length pb = unat (pl ! 0)" using ReadFull_SomeD [OF h(5)] by auto
  moreover have "word_of_nat (length u) = hdr ! 1" "word_of_nat (length p) = pl ! 0"
    using u(2) p(2) h(6,7) by auto
  moreover have "unat (hdr ! 1) < 256" "unat (pl ! 0) < 256" using unsigned_less [of "hdr ! 1"] unsigned_less [of "pl ! 0"] by simp_all
  moreover have "ub = bytes_of_string u" "pb = bytes_of_string p" using h(6,7) by auto
  moreover have "pl = [pl ! 0]" using \<open>length pl = 1\<close> by (cases pl) auto
  ultimately show ?thesis
    using length_2 [of hdr] h(2,8) by (metis append.assoc append_Cons append_Nil length_string_of_bytes h(6,7))
qed

text \<open>A target as the request encodes it.\<close>

datatype socks_addr = V4 bytes | Domain string | V6 bytes

fun addr_ok :: "socks_addr \<Rightarrow> bool" where
  "addr_ok (V4 a) = (length a = 4)"
| "addr_ok (Domain d) = (length d < 256)"
| "addr_ok (V6 a) = (length a = 16)"

fun enc_addr :: "socks_addr \<Rightarrow> bytes" where
  "enc_addr (V4 a) = atypIPv4 # a"
| "enc_addr (Domain d) = atypDomain # word_of_nat (length d) # bytes_of_string d"
| "enc_addr (V6 a) = atypIPv6 # a"

fun host_of :: "socks_addr \<Rightarrow> string" where
  "host_of (V4 a) = IP_String a"
| "host_of (Domain d) = d"
| "host_of (V6 a) = IP_String a"

lemma read_host_enc:
  "addr_ok a \<Longrightarrow> \<exists>t x. enc_addr a = t # x \<and> read_host t (x @ r) = (Inr (host_of a), [], r)"
  by (cases a)
    (simp_all add: read_host_def socks_consts ReadFull_append [of "[word_of_nat n]" 1 for n, simplified] unat_of_nat)

lemma read_host_Inr:
  assumes "read_host t s = (Inr h, out, r)"
  shows "\<exists>a. addr_ok a \<and> t # s = enc_addr a @ r \<and> h = host_of a"
proof -
  have "t = atypIPv4 \<or> t = atypDomain \<or> t = atypIPv6"
    using assms by (auto simp: read_host_def split: if_splits)
  then show ?thesis
  proof (elim disjE)
    assume t: "t = atypIPv4"
    then obtain a where "ReadFull 4 s = Some (a, r)" "h = IP_String a"
      using assms by (auto simp: read_host_def split: option.splits)
    then show ?thesis using t by (intro exI [of _ "V4 a"]) (auto dest: ReadFull_SomeD)
  next
    assume t: "t = atypIPv6"
    then obtain a where "ReadFull 16 s = Some (a, r)" "h = IP_String a"
      using assms by (auto simp: read_host_def socks_consts split: option.splits)
    then show ?thesis using t by (intro exI [of _ "V6 a"]) (auto dest: ReadFull_SomeD)
  next
    assume t: "t = atypDomain"
    then obtain lb s1 d where l: "ReadFull 1 s = Some (lb, s1)" "ReadFull (unat (lb ! 0)) s1 = Some (d, r)"
      "h = string_of_bytes d"
      using assms by (auto simp: read_host_def socks_consts split: option.splits)
    have "s = lb @ s1" "length lb = 1" using ReadFull_SomeD [OF l(1)] by auto
    moreover have "s1 = d @ r" "length d = unat (lb ! 0)" using ReadFull_SomeD [OF l(2)] by auto
    moreover have "unat (lb ! 0) < 256" using unsigned_less [of "lb ! 0"] by simp
    moreover have "lb = [lb ! 0]" using \<open>length lb = 1\<close> by (cases lb) auto
    moreover have "word_of_nat (length d) = lb ! 0" using \<open>length d = unat (lb ! 0)\<close> by simp
    ultimately show ?thesis using t l(3)
      by (intro exI [of _ "Domain h"]) (metis addr_ok.simps(2) append_Cons append_Nil bytes_of_string_of_bytes enc_addr.simps(2) host_of.simps(2) length_string_of_bytes)
  qed
qed

lemma connect_request_enc:
  assumes "addr_ok a" "port < 65536" "ValidateTarget (host_of a) (int port) 1 = None"
  shows "connect_request ([5, 1, rsv] @ enc_addr a @ be_enc 2 port @ r) = (Inr (host_of a, int port), [], r)"
proof -
  obtain t x where e: "enc_addr a = t # x" "read_host t (x @ be_enc 2 port @ r) = (Inr (host_of a), [], be_enc 2 port @ r)"
    using read_host_enc [OF assms(1)] by blast
  have "ReadFull 4 ([5, 1, rsv, t] @ x @ be_enc 2 port @ r) = Some ([5, 1, rsv, t], x @ be_enc 2 port @ r)"
    by (rule ReadFull_append) simp
  moreover have "be_dec (be_enc 2 port) = port" using be16.dec_enc [of port] assms(2) by simp
  moreover have "ReadFull 2 (be_enc 2 port @ r) = Some (be_enc 2 port, r)" by simp
  ultimately show ?thesis
    using e assms(3) by (simp add: connect_request_def socks5Version_def cmdConnect_def)
qed

lemma connect_request_Inr:
  assumes "connect_request s = (Inr (h, p), out, r)"
  shows "\<exists>rsv a pb. addr_ok a \<and> length pb = 2 \<and> s = [5, 1, rsv] @ enc_addr a @ pb @ r \<and> h = host_of a \<and>
    p = int (be_dec pb) \<and> ValidateTarget h p 1 = None \<and> out = []"
proof -
  obtain hdr s1 out2 s2 pb where c: "ReadFull 4 s = Some (hdr, s1)" "hdr ! 0 = 5" "hdr ! 1 = 1"
    "read_host (hdr ! 3) s1 = (Inr h, out2, s2)" "ReadFull 2 s2 = Some (pb, r)" "p = int (be_dec pb)"
    "ValidateTarget h p 1 = None" "out = []"
    using assms
    by (auto simp: connect_request_def Let_def socks_consts split: option.splits if_splits prod.splits sum.splits)
  obtain a where a: "addr_ok a" "hdr ! 3 # s1 = enc_addr a @ s2" "h = host_of a"
    using read_host_Inr [OF c(4)] by blast
  have "s = hdr @ s1" "length hdr = 4" using ReadFull_SomeD [OF c(1)] by auto
  then have "s = [5, 1, hdr ! 2] @ (hdr ! 3 # s1)" using length_4 [of hdr] c(2,3) by simp
  moreover have "s2 = pb @ r" "length pb = 2" using ReadFull_SomeD [OF c(5)] by auto
  ultimately show ?thesis using a c by auto
qed

definition auth_bytes :: "string \<Rightarrow> string \<Rightarrow> bytes" where
  "auth_bytes u p = (if u \<noteq> [] \<and> p \<noteq> [] then
     [1, word_of_nat (length u)] @ bytes_of_string u @ [word_of_nat (length p)] @ bytes_of_string p else [])"

text \<open>
  C18. What a successful handshake proves about the peer. \<open>NegotiateSOCKS5\<close> succeeds only on a
  stream that starts with a greeting offering the required method, then (when a user name and a
  password are configured) exactly these credentials, then a CONNECT request; the target it returns is
  the one encoded there and passes validation with a port between 1 and 65535; the replies are the
  method selection and the authentication success; and nothing of what follows the request is consumed.
\<close>

theorem NegotiateSOCKS5_sound:
  assumes "NegotiateSOCKS5 w1 w2 authUser authPass s = (Inr (h, p), out, r)"
  shows "\<exists>methods rsv a pb.
     s = [5, word_of_nat (length methods)] @ methods @ auth_bytes authUser authPass @ [5, 1, rsv] @ enc_addr a @ pb @ r \<and>
     length methods < 256 \<and>
     (if authUser \<noteq> [] \<and> authPass \<noteq> [] then 2 \<in> set methods \<and> out = [5, 2, 1, 0]
      else 0 \<in> set methods \<and> out = [5, 0]) \<and>
     addr_ok a \<and> h = host_of a \<and> length pb = 2 \<and> p = int (be_dec pb) \<and>
     ValidateDomain h = None \<and> 1 \<le> p \<and> p \<le> 65535"
proof -
  let ?req = "authUser \<noteq> [] \<and> authPass \<noteq> []"
  obtain m out1 s1 x out2 s2 out3 where g: "greeting w1 ?req s = (Inr m, out1, s1)"
    "(if m = authPassword then sub_auth w2 authUser authPass s1 else (Inr (), [], s1)) = (Inr x, out2, s2)"
    "connect_request s2 = (Inr (h, p), out3, r)" "out = out1 @ out2 @ out3"
    using assms by (auto simp: NegotiateSOCKS5_def Let_def split: prod.splits sum.splits)
  obtain methods where ms: "s = [5, word_of_nat (length methods)] @ methods @ s1" "length methods < 256"
    "m = (if ?req then authPassword else authNone)" "m \<in> set methods" "out1 = [5, m]"
    using greeting_Inr [OF g(1)] by blast
  obtain rsv a pb where c: "addr_ok a" "length pb = 2" "s2 = [5, 1, rsv] @ enc_addr a @ pb @ r" "h = host_of a"
    "p = int (be_dec pb)" "ValidateTarget h p 1 = None" "out3 = []"
    using connect_request_Inr [OF g(3)] by blast
  have "s1 = auth_bytes authUser authPass @ s2 \<and> out2 = (if ?req then [1, 0] else [])"
  proof (cases ?req)
    case True
    then have "sub_auth w2 authUser authPass s1 = (Inr x, out2, s2)" using g(2) ms(3) by simp
    then show ?thesis using sub_auth_Inr True by (auto simp: auth_bytes_def)
  next
    case False
    then show ?thesis using g(2) ms(3) by (auto simp: auth_bytes_def socks_consts)
  qed
  moreover have "ValidateDomain h = None" "1 \<le> p" "p \<le> 65535" using c(6) by (simp_all add: ValidateTarget_None)
  ultimately show ?thesis
    using ms c(1-5) c(7) g(4)
    by (intro exI [of _ methods] exI [of _ rsv] exI [of _ a] exI [of _ pb]) (cases ?req; simp add: socks_consts)
qed

lemma greeting_enc:
  assumes "0 < length methods" "length methods < 256" "(if req then authPassword else authNone) \<in> set methods"
  shows "greeting True req ([5, word_of_nat (length methods)] @ methods @ s) =
         (Inr (if req then authPassword else authNone), [5, if req then authPassword else authNone], s)"
proof -
  have "ReadFull 2 ([5, word_of_nat (length methods)] @ methods @ s) = Some ([5, word_of_nat (length methods)], methods @ s)"
    by (rule ReadFull_append) simp
  moreover have "unat (word_of_nat (length methods) :: byte) = length methods"
    using assms(2) by (simp add: unat_of_nat)
  moreover have "(if req then authPassword else authNone) \<noteq> authNoAccept" by (simp add: socks_consts)
  ultimately show ?thesis
    using assms select_method_in [OF assms(3)] by (simp add: greeting_def socks5Version_def Let_def)
qed

lemma sub_auth_enc:
  assumes "length u < 256" "length p < 256"
  shows "sub_auth True u p ([1, word_of_nat (length u)] @ bytes_of_string u @ [word_of_nat (length p)] @ bytes_of_string p @ r)
         = (Inr (), [1, 0], r)"
proof -
  have "ReadFull 2 ([1, word_of_nat (length u)] @ bytes_of_string u @ [word_of_nat (length p)] @ bytes_of_string p @ r)
        = Some ([1, word_of_nat (length u)], bytes_of_string u @ [word_of_nat (length p)] @ bytes_of_string p @ r)"
    by (rule ReadFull_append) simp
  moreover have "ReadFull 1 ([word_of_nat (length p)] @ bytes_of_string p @ r) = Some ([word_of_nat (length p)], bytes_of_string p @ r)"
    by (rule ReadFull_append) simp
  moreover have "unat (word_of_nat (length u) :: byte) = length u" "unat (word_of_nat (length p) :: byte) = length p"
    using assms by (simp_all add: unat_of_nat)
  ultimately show ?thesis by (simp add: sub_auth_def)
qed

text \<open>
  C19. Every well-formed client is served. A greeting whose method list contains the required one
  (anywhere in it), the configured credentials when there are any, and a CONNECT request for a valid
  target give exactly this target, the exact replies, and the rest of the stream for the relay.
\<close>

theorem NegotiateSOCKS5_complete:
  assumes "length methods < 256" "(if authUser \<noteq> [] \<and> authPass \<noteq> [] then 2 else 0) \<in> set methods"
    and "length authUser < 256" "length authPass < 256"
    and "addr_ok a" "port < 65536" "ValidateTarget (host_of a) (int port) 1 = None"
  shows "NegotiateSOCKS5 True True authUser authPass
      ([5, word_of_nat (length methods)] @ methods @ auth_bytes authUser authPass @
       [5, 1, rsv] @ enc_addr a @ be_enc 2 port @ r) =
    (Inr (host_of a, int port),
     (if authUser \<noteq> [] \<and> authPass \<noteq> [] then [5, 2, 1, 0] else [5, 0]), r)"
proof -
  let ?req = "authUser \<noteq> [] \<and> authPass \<noteq> []"
  let ?m = "if ?req then authPassword else authNone"
  let ?rest = "[5, 1, rsv] @ enc_addr a @ be_enc 2 port @ r"
  have "?m \<in> set methods" using assms(2) by (auto simp: socks_consts split: if_splits)
  moreover from this have "0 < length methods" by auto
  ultimately have g: "greeting True ?req ([5, word_of_nat (length methods)] @ methods @ auth_bytes authUser authPass @ ?rest)
      = (Inr ?m, [5, ?m], auth_bytes authUser authPass @ ?rest)"
    using greeting_enc assms(1) by blast
  have c: "connect_request ?rest = (Inr (host_of a, int port), [], r)"
    using connect_request_enc assms(5-7) by blast
  have s: "(if ?m = authPassword then sub_auth True authUser authPass (auth_bytes authUser authPass @ ?rest)
            else (Inr (), [], auth_bytes authUser authPass @ ?rest)) = (Inr (), if ?req then [1, 0] else [], ?rest)"
  proof (cases ?req)
    case True
    then show ?thesis using sub_auth_enc [OF assms(3,4), of ?rest] by (simp add: auth_bytes_def)
  next
    case False
    then show ?thesis by (auto simp: auth_bytes_def socks_consts)
  qed
  show ?thesis
    unfolding NegotiateSOCKS5_def Let_def g prod.case sum.case s c by (simp add: socks_consts)
qed

definition demo_socks :: bytes where
  "demo_socks = [5, 2, 0, 2] @ auth_bytes ''u'' ''pw'' @ [5, 1, 0] @ enc_addr (V4 [10, 0, 0, 7]) @ be_enc 2 443 @ [22, 3]"

lemma v4_target_ok:
  assumes "length q = 4" "1 \<le> p" "p \<le> 65535"
  shows "ValidateTarget (host_of (V4 q)) p 1 = None"
proof -
  have "v4_string q \<noteq> []" by (simp add: v4_string_def)
  then show ?thesis using ParseIP_v4_string [OF assms(1)] assms by (simp add: ValidateTarget_None ValidateDomain_def)
qed

lemma demo_target: "ValidateTarget (host_of (V4 [10, 0, 0, 7])) (int 443) 1 = None"
  by (rule v4_target_ok) simp_all

theorem NegotiateSOCKS5_complete_witness:
  "NegotiateSOCKS5 True True ''u'' ''pw'' demo_socks = (Inr (host_of (V4 [10, 0, 0, 7]), 443), [5, 2, 1, 0], [22, 3])"
  using NegotiateSOCKS5_complete [of "[0, 2]" "''u''" "''pw''" "V4 [10, 0, 0, 7]" 443 0 "[22, 3]"] demo_target
  by (simp add: demo_socks_def)

lemma demo_socks_run:
  "NegotiateSOCKS5 True True [] [] ([5, 1] @ [0] @ [5, 1, 0] @ enc_addr (V4 [10, 0, 0, 7]) @ be_enc 2 443 @ [])
   = (Inr (host_of (V4 [10, 0, 0, 7]), 443), [5, 0], [])"
proof -
  have g: "greeting True False ([5, word_of_nat (length [0])] @ [0] @ [5, 1, 0] @ enc_addr (V4 [10, 0, 0, 7]) @ be_enc 2 443)
      = (Inr authNone, [5, authNone], [5, 1, 0] @ enc_addr (V4 [10, 0, 0, 7]) @ be_enc 2 443)"
    using greeting_enc [of "[0]" False] by (simp add: socks_consts)
  then show ?thesis
    using connect_request_enc [of "V4 [10, 0, 0, 7]" 443 0 "[]"] demo_target
    by (simp add: NegotiateSOCKS5_def socks_consts)
qed

theorem NegotiateSOCKS5_sound_witness:
  "ValidateDomain (host_of (V4 [10, 0, 0, 7])) = None \<and>
   (\<exists>a. addr_ok a \<and> host_of a = host_of (V4 [10, 0, 0, 7]))"
  using NegotiateSOCKS5_sound [OF demo_socks_run] by (elim exE conjE) metis

end
