(* ===== verification/GoIPv6.thy ===== *)
theory GoIPv6
  imports GoIP
begin

text \<open>
  The round trip of the IPv6 text form: \<open>net.ParseIP\<close> reads back what \<open>net.IP.String\<close> writes, with the
  longest run of zero groups written as \<open>::\<close>.
\<close>

subsection \<open>Groups\<close>

lemma show_hex_not_Nil [simp]: "show_hex n \<noteq> []"
  by (subst show_hex.simps) simp

lemma char_code_hex_char: "d < 16 \<Longrightarrow> char_code (hex_char d) = (if d < 10 then 48 + d else 87 + d)"
  by (simp add: hex_char_def char_code_def digit_char_def)

lemma show_hex_chars: "c \<in> set (show_hex n) \<Longrightarrow> \<exists>d < 16. c = hex_char d"
proof (induction n rule: show_hex.induct)
  case (1 n)
  show ?case
  proof (cases "c = hex_char (n mod 16)")
    case True
    then show ?thesis by (intro exI [of _ "n mod 16"]) simp
  next
    case False
    with 1(2) have "\<not> n < 16" "c \<in> set (show_hex (n div 16))"
      by (subst (asm) show_hex.simps; simp split: if_splits)+
    then show ?thesis using 1(1) by blast
  qed
qed

lemma hex_val_hex_char: "d < 16 \<Longrightarrow> hex_val (hex_char d) = Some d"
  by (auto simp: hex_val_def Let_def char_code_hex_char is_digit_def)

lemma hex_char_not [simp]:
  "d < 16 \<Longrightarrow> hex_char d \<noteq> CHR '':''" "d < 16 \<Longrightarrow> hex_char d \<noteq> CHR ''.''" "d < 16 \<Longrightarrow> hex_char d \<noteq> CHR ''%''"
  "d < 16 \<Longrightarrow> hex_char d \<noteq> CHR ''[''" "d < 16 \<Longrightarrow> hex_char d \<noteq> CHR '']''"
  using char_code_hex_char [of d] by (auto simp: char_code_def split: if_splits)

lemma show_hex_notin [simp]:
  "CHR '':'' \<notin> set (show_hex n)" "CHR ''.'' \<notin> set (show_hex n)" "CHR ''%'' \<notin> set (show_hex n)"
  "CHR ''['' \<notin> set (show_hex n)" "CHR '']'' \<notin> set (show_hex n)"
  using show_hex_chars [of _ n] hex_char_not by fastforce+

lemma hex_prefix_snoc:
  assumes "hex_prefix (xs @ rest) = (length xs, v, rest)" "d < 16" "\<forall>c \<in> set xs. hex_val c \<noteq> None"
    and "rest = [] \<or> hex_val (hd rest) = None"
  shows "hex_prefix (xs @ hex_char d # rest) = (Suc (length xs), v * 16 + d, rest)"
  using assms
proof (induction xs arbitrary: v)
  case Nil
  then show ?case by (cases rest) (simp_all add: hex_val_hex_char)
next
  case (Cons c cs)
  obtain k where k: "hex_val c = Some k" using Cons.prems(3) by auto
  obtain n w r where r: "hex_prefix (cs @ rest) = (n, w, r)" by (cases "hex_prefix (cs @ rest)")
  have "(case hex_prefix (cs @ rest) of (n, v, r) \<Rightarrow> (Suc n, k * 16 ^ n + v, r)) = (Suc (length cs), v, rest)"
    using Cons.prems(1) k by simp
  then have n: "n = length cs" "v = k * 16 ^ n + w" "r = rest" unfolding r by auto
  have "hex_prefix (cs @ hex_char d # rest) = (Suc (length cs), w * 16 + d, rest)"
    using Cons.IH [of w] Cons.prems(2-4) r n by simp
  then show ?case using k n by (simp add: algebra_simps)
qed

lemma hex_prefix_show_hex:
  "rest = [] \<or> hex_val (hd rest) = None \<Longrightarrow> hex_prefix (show_hex g @ rest) = (length (show_hex g), g, rest)"
proof (induction g arbitrary: rest rule: show_hex.induct)
  case (1 n)
  have base: "hex_prefix rest = (0, 0, rest)" using 1(2) by (cases rest) auto
  show ?case
  proof (cases "n < 16")
    case True
    then show ?thesis using base by (subst (1 2) show_hex.simps) (simp add: hex_val_hex_char)
  next
    case False
    have "hex_prefix (show_hex (n div 16) @ rest) = (length (show_hex (n div 16)), n div 16, rest)"
      using 1(1) [OF False] 1(2) by simp
    moreover have "\<forall>c \<in> set (show_hex (n div 16)). hex_val c \<noteq> None"
      using show_hex_chars hex_val_hex_char by fastforce
    ultimately have "hex_prefix (show_hex (n div 16) @ hex_char (n mod 16) # rest) =
        (Suc (length (show_hex (n div 16))), n div 16 * 16 + n mod 16, rest)"
      using 1(2) by (intro hex_prefix_snoc) simp_all
    then show ?thesis using False by (subst (1 2) show_hex.simps) simp
  qed
qed

lemma show_hex_length: "0 < k \<Longrightarrow> g < 16 ^ k \<Longrightarrow> length (show_hex g) \<le> k"
proof (induction k arbitrary: g)
  case 0
  then show ?case by simp
next
  case (Suc k)
  show ?case
  proof (cases "g < 16")
    case True
    then show ?thesis by (subst show_hex.simps) simp
  next
    case False
    then have "k \<noteq> 0" using Suc.prems(2) by (cases k) auto
    moreover have "g div 16 < 16 ^ k" using Suc.prems(2) by (simp add: less_mult_imp_div_less mult.commute)
    ultimately show ?thesis using Suc.IH [of "g div 16"] False by (subst show_hex.simps) simp
  qed
qed

text \<open>What a group becomes, and the groups of an address.\<close>

definition group_bytes :: "nat \<Rightarrow> bytes" where
  "group_bytes g = [word_of_nat (g div 256), word_of_nat g]"

definition groups_bytes :: "nat list \<Rightarrow> bytes" where
  "groups_bytes gs = concat (map group_bytes gs)"

lemma groups_bytes_simps [simp]:
  "groups_bytes [] = []" "groups_bytes (g # gs) = group_bytes g @ groups_bytes gs"
  "groups_bytes (gs @ hs) = groups_bytes gs @ groups_bytes hs"
  by (simp_all add: groups_bytes_def)

lemma groups_bytes_length [simp]: "length (groups_bytes gs) = 2 * length gs"
  by (induction gs) (simp_all add: group_bytes_def)

lemma groups_bytes_zeros: "groups_bytes (replicate n 0) = replicate (2 * n) 0"
  by (induction n) (simp_all add: group_bytes_def)

lemma group_bytes_pair: "group_bytes (unat (a :: byte) * 256 + unat (b :: byte)) = [a, b]"
proof -
  have z: "(256 :: byte) = 0" by simp
  have "(unat a * 256 + unat b) div 256 = unat a" using unat_byte_le [of b] by simp
  moreover have "(word_of_nat (unat a * 256 + unat b) :: byte) = b"
    by (simp only: of_nat_add of_nat_mult of_nat_numeral z mult_zero_right add_0) simp
  ultimately show ?thesis by (simp add: group_bytes_def)
qed

lemma groups_bytes_v6_groups:
  assumes "length ip = 16"
  shows "groups_bytes (v6_groups ip) = ip"
proof -
  have "groups_bytes (v6_groups ip) = map ((!) ip) [0..<length ip]"
    by (simp add: assms v6_groups_def upt_rec group_bytes_pair) (simp add: numeral_eq_Suc)
  then show ?thesis by (simp only: map_nth)
qed

lemma v6_groups_props: "length (v6_groups ip) = 8" "\<forall>g \<in> set (v6_groups ip). g < 65536"
proof -
  have "unat a * 256 + unat b < 65536" for a b :: byte using unat_byte_le [of a] unat_byte_le [of b] by linarith
  then show "\<forall>g \<in> set (v6_groups ip). g < 65536" by (auto simp: v6_groups_def)
qed (simp add: v6_groups_def)

subsection \<open>Reading groups\<close>

definition v6_join :: "nat list \<Rightarrow> string" where
  "v6_join xs = (case xs of [] \<Rightarrow> [] | x # rest \<Rightarrow> show_hex x @ concat (map (\<lambda>g. CHR '':'' # show_hex g) rest))"

lemma v6_join_simps [simp]:
  "v6_join [] = []" "v6_join [x] = show_hex x" "v6_join (x # y # ys) = show_hex x @ CHR '':'' # v6_join (y # ys)"
  by (simp_all add: v6_join_def)

lemma show_hex_head: "\<exists>c cs. show_hex n = c # cs \<and> c \<noteq> CHR '':'' \<and> c \<noteq> CHR ''[''"
  using show_hex_not_Nil [of n] show_hex_notin [of n] by (cases "show_hex n") auto

lemma v6_join_head: "xs \<noteq> [] \<Longrightarrow> \<exists>c cs. v6_join xs = c # cs \<and> c \<noteq> CHR '':'' \<and> c \<noteq> CHR ''[''"
  using show_hex_head [of "hd xs"] by (cases xs) (auto simp: v6_join_def)

lemma not_hex_val [simp]: "hex_val CHR '':'' = None"
  by (simp add: hex_val_def Let_def char_code_def)

text \<open>One step of the loop on a group that another group, or an ellipsis, follows; and the last group.\<close>

lemma parse_v6_last:
  assumes "length ip < 16" "g < 65536"
  shows "parse_v6_loop ip ell (show_hex g) = expand_v6 (ip @ group_bytes g) ell"
  using assms hex_prefix_show_hex [of "[]" g] show_hex_length [of 4 g]
  by (subst parse_v6_loop.simps) (simp add: group_bytes_def)

lemma parse_v6_step:
  assumes "length ip < 16" "g < 65536" "d \<noteq> CHR '':''"
  shows "parse_v6_loop ip ell (show_hex g @ CHR '':'' # d # ds) = parse_v6_loop (ip @ group_bytes g) ell (d # ds)"
  using assms hex_prefix_show_hex [of "CHR '':'' # d # ds" g] show_hex_length [of 4 g]
  by (subst parse_v6_loop.simps) (simp add: group_bytes_def Let_def)

lemma parse_v6_ellipsis:
  assumes "length ip < 16" "g < 65536"
  shows "parse_v6_loop ip None (show_hex g @ CHR '':'' # CHR '':'' # ds) =
     (let ip' = ip @ group_bytes g in if ds = [] then expand_v6 ip' (Some (length ip')) else parse_v6_loop ip' (Some (length ip')) ds)"
  using assms hex_prefix_show_hex [of "CHR '':'' # CHR '':'' # ds" g] show_hex_length [of 4 g]
  by (subst parse_v6_loop.simps) (simp add: group_bytes_def Let_def)

lemma group_bytes_length [simp]: "length (group_bytes g) = 2"
  by (simp add: group_bytes_def)

lemma parse_v6_join:
  "xs \<noteq> [] \<Longrightarrow> \<forall>g \<in> set xs. g < 65536 \<Longrightarrow> length ip + 2 * length xs \<le> 16 \<Longrightarrow>
   parse_v6_loop ip ell (v6_join xs) = expand_v6 (ip @ groups_bytes xs) ell"
proof (induction xs arbitrary: ip)
  case Nil
  then show ?case by simp
next
  case (Cons x xs)
  show ?case
  proof (cases xs)
    case Nil
    then show ?thesis using Cons.prems by (simp add: parse_v6_last)
  next
    case (Cons y ys)
    obtain d ds where d: "v6_join (y # ys) = d # ds" "d \<noteq> CHR '':''" using v6_join_head [of "y # ys"] by auto
    have "parse_v6_loop ip ell (v6_join (x # xs)) = parse_v6_loop (ip @ group_bytes x) ell (v6_join xs)"
      using Cons.prems d by (simp add: Cons parse_v6_step)
    then show ?thesis using Cons.IH [of "ip @ group_bytes x"] Cons.prems Cons by simp
  qed
qed

lemma parse_v6_join_ellipsis:
  "xs \<noteq> [] \<Longrightarrow> \<forall>g \<in> set xs. g < 65536 \<Longrightarrow> length ip + 2 * length xs \<le> 16 \<Longrightarrow>
   parse_v6_loop ip None (v6_join xs @ CHR '':'' # CHR '':'' # ds) =
     (let ip' = ip @ groups_bytes xs in if ds = [] then expand_v6 ip' (Some (length ip')) else parse_v6_loop ip' (Some (length ip')) ds)"
proof (induction xs arbitrary: ip)
  case Nil
  then show ?case by simp
next
  case (Cons x xs)
  show ?case
  proof (cases xs)
    case Nil
    then show ?thesis using Cons.prems by (simp add: parse_v6_ellipsis)
  next
    case (Cons y ys)
    obtain d cs where d: "v6_join (y # ys) = d # cs" "d \<noteq> CHR '':''" using v6_join_head [of "y # ys"] by auto
    have "parse_v6_loop ip None (v6_join (x # xs) @ CHR '':'' # CHR '':'' # ds) =
        parse_v6_loop (ip @ group_bytes x) None (v6_join xs @ CHR '':'' # CHR '':'' # ds)"
      using Cons.prems d parse_v6_step [of ip x d None "cs @ CHR '':'' # CHR '':'' # ds"] by (simp add: Cons)
    then show ?thesis using Cons.IH [of "ip @ group_bytes x"] Cons.prems Cons by simp
  qed
qed

subsection \<open>The run of zero groups\<close>

lemma foldl_invariant: "P a \<Longrightarrow> (\<And>a x. x \<in> set xs \<Longrightarrow> P a \<Longrightarrow> P (f a x)) \<Longrightarrow> P (foldl f a xs)"
  by (induction xs arbitrary: a) simp_all

lemma takeWhile_replicate: "takeWhile (\<lambda>g. g = z) xs = replicate (length (takeWhile (\<lambda>g. g = z) xs)) z"
  by (induction xs) simp_all

lemma zero_run_from: "drop i gs = replicate (zero_run_from gs i) 0 @ drop (i + zero_run_from gs i) gs"
proof -
  let ?t = "takeWhile (\<lambda>g. g = 0) (drop i gs)"
  have "drop i gs = ?t @ dropWhile (\<lambda>g. g = 0) (drop i gs)" by (rule takeWhile_dropWhile_id [symmetric])
  also have "?t = replicate (zero_run_from gs i) 0" unfolding zero_run_from_def by (rule takeWhile_replicate)
  also have "dropWhile (\<lambda>g. g = 0) (drop i gs) = drop (zero_run_from gs i) (drop i gs)"
    unfolding zero_run_from_def by (rule dropWhile_eq_drop)
  also have "\<dots> = drop (i + zero_run_from gs i) gs" by (simp add: add.commute)
  finally show ?thesis .
qed

lemma zero_run_spec:
  assumes "zero_run gs = (s, e)" "length gs = 8"
  shows "s = 255 \<or> s + 2 \<le> e \<and> e \<le> 8 \<and> gs = take s gs @ replicate (e - s) 0 @ drop e gs"
proof -
  let ?P = "\<lambda>(s, e). s = 255 \<or> s + 2 \<le> e \<and> e \<le> 8 \<and> drop s gs = replicate (e - s) 0 @ drop e gs"
  have run: "i + zero_run_from gs i \<le> 8" if "i < 8" for i
  proof -
    have "zero_run_from gs i \<le> length (drop i gs)"
      unfolding zero_run_from_def by (rule length_takeWhile_le)
    then show ?thesis using that assms(2) by simp
  qed
  have step: "?P (let l = zero_run_from gs i in if 2 \<le> l \<and> e - s < l then (i, i + l) else (s, e))"
    if "?P (s, e)" "i < 8" for s e i
    using that(1) run [OF that(2)] zero_run_from [of i gs] by (simp only: Let_def split: if_split) simp
  have "?P (zero_run gs)"
    unfolding zero_run_def by (rule foldl_invariant) (simp, use step in \<open>simp split: prod.split_asm\<close>)
  then have "s = 255 \<or> s + 2 \<le> e \<and> e \<le> 8 \<and> drop s gs = replicate (e - s) 0 @ drop e gs"
    unfolding assms(1) by simp
  then show ?thesis using append_take_drop_id [of s gs] by metis
qed

subsection \<open>The round trip\<close>

lemma v6_join_notin [simp]: "CHR ''.'' \<notin> set (v6_join xs)" "CHR ''%'' \<notin> set (v6_join xs)"
  "CHR ''['' \<notin> set (v6_join xs)" "CHR '']'' \<notin> set (v6_join xs)"
  by (cases xs; simp add: v6_join_def)+

lemma v6_string_join:
  "v6_string ip = (case zero_run (v6_groups ip) of (s, e) \<Rightarrow>
     if s = 255 then v6_join (v6_groups ip)
     else v6_join (take s (v6_groups ip)) @ ''::'' @ v6_join (drop e (v6_groups ip)))"
  unfolding v6_string_def v6_join_def Let_def ..

lemma v6_string_notin [simp]: "CHR ''.'' \<notin> set (v6_string ip)" "CHR ''%'' \<notin> set (v6_string ip)"
  "CHR ''['' \<notin> set (v6_string ip)" "CHR '']'' \<notin> set (v6_string ip)"
  by (cases "zero_run (v6_groups ip)"; simp add: v6_string_join)+

lemma addr_family_colon:
  "CHR '':'' \<in> set s \<Longrightarrow> CHR ''.'' \<notin> set s \<Longrightarrow> CHR ''%'' \<notin> set s \<Longrightarrow> addr_family s = Some CHR '':''"
  by (induction s) auto

lemma parse_v6_no_prefix: "c \<noteq> CHR '':'' \<Longrightarrow> CHR ''%'' \<notin> set (c # cs) \<Longrightarrow> parse_v6 (c # cs) = parse_v6_loop [] None (c # cs)"
  by (cases cs) (simp_all add: parse_v6_def numeral_2_eq_2)

lemma expand_ellipsis:
  "length a + length b + 2 \<le> 16 \<Longrightarrow>
   expand_v6 (a @ b) (Some (length a)) = Some (a @ replicate (16 - (length a + length b)) 0 @ b)"
  by (simp add: expand_v6_def)

lemma parse_v6_string:
  assumes "length ip = 16"
  shows "parse_v6 (v6_string ip) = Some ip"
proof -
  let ?gs = "v6_groups ip"
  note gs = v6_groups_props [of ip] and bytes = groups_bytes_v6_groups [OF assms]
  obtain s e where z: "zero_run ?gs = (s, e)" by (cases "zero_run ?gs")
  show ?thesis
  proof (cases "s = 255")
    case True
    have "?gs \<noteq> []" using gs(1) by auto
    then obtain c cs where c: "v6_join ?gs = c # cs" "c \<noteq> CHR '':''" using v6_join_head by blast
    have "parse_v6 (v6_join ?gs) = parse_v6_loop [] None (v6_join ?gs)"
      using c parse_v6_no_prefix [of c cs] v6_join_notin(2) [of ?gs] by simp
    also have "\<dots> = expand_v6 (groups_bytes ?gs) None"
      using parse_v6_join [of ?gs "[]" None] gs \<open>?gs \<noteq> []\<close> by simp
    finally show ?thesis using z True bytes assms by (simp add: v6_string_join expand_v6_def)
  next
    case False
    let ?a = "take s ?gs" and ?b = "drop e ?gs"
    have r: "s + 2 \<le> e" "e \<le> 8" and split: "?gs = ?a @ replicate (e - s) 0 @ ?b"
      using zero_run_spec [OF z gs(1)] False by blast+
    have str: "v6_string ip = v6_join ?a @ CHR '':'' # CHR '':'' # v6_join ?b"
      using z False by (simp add: v6_string_join)
    have len: "length ?a = s" "length ?b = 8 - e" using gs(1) r by simp_all
    have "groups_bytes ?gs = groups_bytes ?a @ replicate (2 * (e - s)) 0 @ groups_bytes ?b"
      by (subst split) (simp add: groups_bytes_zeros del: append_take_drop_id)
    then have ip: "ip = groups_bytes ?a @ replicate (2 * (e - s)) 0 @ groups_bytes ?b" using bytes by simp
    have "expand_v6 (groups_bytes ?a @ groups_bytes ?b) (Some (2 * s)) =
        Some (groups_bytes ?a @ replicate (16 - (2 * s + 2 * (8 - e))) 0 @ groups_bytes ?b)"
      using expand_ellipsis [of "groups_bytes ?a" "groups_bytes ?b"] len r by simp
    moreover have "16 - (2 * s + 2 * (8 - e)) = 2 * (e - s)" using r by simp
    ultimately have expand: "expand_v6 (groups_bytes ?a @ groups_bytes ?b) (Some (2 * s)) = Some ip"
      using ip by simp
    have small: "\<forall>g \<in> set ?a. g < 65536" "\<forall>g \<in> set ?b. g < 65536"
      using gs(2) by (auto dest: in_set_takeD in_set_dropD)
    show ?thesis
    proof (cases "s = 0")
      case True
      show ?thesis
      proof (cases "?b = []")
        case True
        then have "ip = replicate 16 0" using ip \<open>s = 0\<close> len r by simp
        then show ?thesis using str \<open>s = 0\<close> True by (simp add: parse_v6_def)
      next
        case False
        have "parse_v6 (v6_string ip) = parse_v6_loop [] (Some 0) (v6_join ?b)"
          using str \<open>s = 0\<close> v6_join_head [OF False] v6_join_notin(2) [of ?b]
          by (auto simp: parse_v6_def)
        also have "\<dots> = expand_v6 (groups_bytes ?b) (Some 0)"
          using parse_v6_join [OF False small(2), of "[]" "Some 0"] len r by simp
        finally show ?thesis using expand \<open>s = 0\<close> by simp
      qed
    next
      case False
      then have a: "?a \<noteq> []" using len by (metis length_0_conv)
      obtain c cs where c: "v6_join ?a = c # cs" "c \<noteq> CHR '':''" using v6_join_head [OF a] by blast
      have "parse_v6 (v6_string ip) = parse_v6_loop [] None (v6_string ip)"
        using c parse_v6_no_prefix [of c] v6_string_notin(2) [of ip] str by simp
      also have "\<dots> = (if v6_join ?b = [] then expand_v6 (groups_bytes ?a) (Some (2 * s))
          else parse_v6_loop (groups_bytes ?a) (Some (2 * s)) (v6_join ?b))"
        using parse_v6_join_ellipsis [OF a small(1), of "[]" "v6_join ?b"] str len r by (simp add: Let_def)
      also have "\<dots> = expand_v6 (groups_bytes ?a @ groups_bytes ?b) (Some (2 * s))"
      proof (cases "?b = []")
        case True
        then show ?thesis by simp
      next
        case False
        then show ?thesis
          using v6_join_head [OF False] parse_v6_join [OF False small(2), of "groups_bytes ?a" "Some (2 * s)"] len r
          by auto
      qed
      finally show ?thesis using expand by simp
    qed
  qed
qed

theorem ParseIP_v6_string: "length ip = 16 \<Longrightarrow> ParseIP (v6_string ip) = Some ip"
  using addr_family_colon [OF v6_string_colon v6_string_notin(1,2)] parse_v6_string [of ip]
  by (simp add: ParseIP_def)

text \<open>\<open>ParseIP\<close> returns 16-byte addresses only.\<close>

lemma parse_v4_loop_length: "parse_v4_loop fs val dig s = Some gs \<Longrightarrow> length fs \<le> 3 \<Longrightarrow> length gs = 4"
  by (induction fs val dig s rule: parse_v4_loop.induct) (auto simp: Let_def split: if_splits)

lemma parse_v4_fields_length: "parse_v4_fields s = Some q \<Longrightarrow> length q = 4"
  using parse_v4_loop_length [of "[]"] by (auto simp: parse_v4_fields_def)

lemma expand_v6_length:
  "expand_v6 ip ell = Some r \<Longrightarrow> length ip \<le> 16 \<Longrightarrow> length r = 16"
  by (auto simp: expand_v6_def split: if_splits option.splits)

text \<open>One turn of the loop: it ends with an address of at most 16 bytes, or goes on with two bytes more.\<close>

lemma parse_v6_loop_turn:
  assumes "parse_v6_loop ip ell s = Some r" "even (length ip)" "length ip \<le> 16"
  shows "(\<exists>ip' ell'. length ip' \<le> 16 \<and> expand_v6 ip' ell' = Some r) \<or>
    (\<exists>a b ell' t. length t < length s \<and> length ip \<le> 14 \<and> parse_v6_loop (ip @ [a, b]) ell' t = Some r)"
proof (cases "length ip = 16")
  case True
  then have "expand_v6 ip ell = Some r" using assms(1) by (subst (asm) parse_v6_loop.simps) (simp split: if_splits)
  with True show ?thesis by (intro disjI1 exI [of _ ip] exI [of _ ell]) simp
next
  case False
  then have le: "length ip \<le> 14" using assms(2,3) by presburger
  obtain n v rest where h: "hex_prefix s = (n, v, rest)" by (cases "hex_prefix s")
  let ?ip = "ip @ [word_of_nat (v div 256), word_of_nat v]"
  have s: "length s = n + length rest" by (rule hex_prefix_rest [OF h])
  note step = assms(1) [unfolded parse_v6_loop.simps [of ip ell s] h]
  show ?thesis
  proof (cases rest)
    case Nil
    then have "expand_v6 ?ip ell = Some r" using step le by (simp split: if_splits)
    then show ?thesis using le by (intro disjI1 exI [of _ ?ip] exI [of _ ell]) simp
  next
    case (Cons c cs)
    show ?thesis
    proof (cases "c = CHR ''.''")
      case True
      then obtain q where "parse_v4_fields s = Some q" "expand_v6 (ip @ q) ell = Some r" "length ip + 4 \<le> 16"
        using step le Cons by (auto split: if_splits option.splits)
      then show ?thesis
        using parse_v4_fields_length [of s q] by (intro disjI1 exI [of _ "ip @ q"] exI [of _ ell]) simp
    next
      case False
      then obtain d ds where cs: "c = CHR '':''" "cs = d # ds" "0 < n"
        using step le Cons by (cases cs) (auto split: if_splits)
      then consider "ds = []" "expand_v6 ?ip (Some (length ?ip)) = Some r"
        | "parse_v6_loop ?ip (Some (length ?ip)) ds = Some r" | "parse_v6_loop ?ip ell cs = Some r"
        using step le Cons by (auto simp: Let_def split: if_splits)
      then show ?thesis
      proof cases
        case 1
        then show ?thesis using le by (intro disjI1 exI [of _ ?ip] exI [of _ "Some (length ?ip)"]) simp
      next
        case 2
        moreover have "length ds < length s" using s Cons cs by simp
        ultimately show ?thesis using le by blast
      next
        case 3
        moreover have "length cs < length s" using s Cons cs by simp
        ultimately show ?thesis using le by blast
      qed
    qed
  qed
qed

lemma parse_v6_loop_length:
  "parse_v6_loop ip ell s = Some r \<Longrightarrow> even (length ip) \<Longrightarrow> length ip \<le> 16 \<Longrightarrow> length r = 16"
proof (induction "length s" arbitrary: ip ell s rule: less_induct)
  case less
  show ?case
    using parse_v6_loop_turn [OF less.prems]
  proof (elim disjE exE conjE)
    fix ip' ell' assume "length ip' \<le> 16" "expand_v6 ip' ell' = Some r"
    then show ?thesis by (rule expand_v6_length [rotated])
  next
    fix a b ell' t
    assume "length t < length s" "length ip \<le> 14" "parse_v6_loop (ip @ [a, b]) ell' t = Some r"
    then show ?thesis using less.hyps [of t "ip @ [a, b]" ell'] less.prems(2) by simp
  qed
qed

lemma ParseIP_length: "ParseIP s = Some ip \<Longrightarrow> length ip = 16"
  using parse_v4_fields_length [of s] parse_v6_loop_length [of "[]"]
  by (auto simp: ParseIP_def parse_v6_def v4InV6Prefix_def split: if_splits option.splits)

text \<open>What \<open>IP.String\<close> writes, \<open>ParseIP\<close> reads back, in 16-byte form.\<close>

definition To16 :: "IP \<Rightarrow> IP" where
  "To16 ip = (if length ip = 4 then v4InV6Prefix @ ip else ip)"

theorem ParseIP_IP_String:
  assumes "length ip = 4 \<or> length ip = 16"
  shows "ParseIP (IP_String ip) = Some (To16 ip)"
proof (cases "To4 ip")
  case None
  then have "length ip = 16" using assms by (auto simp: To4_def)
  then show ?thesis using None ParseIP_v6_string [of ip] by (simp add: IP_String_def To16_def)
next
  case (Some q)
  then have "length q = 4" by (auto simp: To4_def split: if_splits)
  moreover have "v4InV6Prefix @ q = To16 ip"
  proof (cases "length ip = 4")
    case True
    then show ?thesis using Some by (simp add: To4_def To16_def)
  next
    case False
    then have "take 12 ip = v4InV6Prefix" "drop 12 ip = q" using Some by (auto simp: To4_def split: if_splits)
    then show ?thesis using append_take_drop_id [of 12 ip] False by (simp add: To16_def)
  qed
  ultimately show ?thesis using Some ParseIP_v4_string [of q] by (simp add: IP_String_def)
qed

end
