(* ===== verification/Egress.thy ===== *)
theory Egress
  imports Validation GoIPv6
begin

unbundle bit_operations_syntax

text \<open>
  The exit node's dialling (\<open>isBlockedTargetIP\<close> and \<open>newSOCKSDialer\<close> of
  \<open>internal/control/handler.go\<close>). The dialer of Go's \<open>net\<close> package splits the address, resolves
  the host and tries the addresses it got, calling the \<open>Control\<close> hook with each one before it
  connects; the resolver and the network are parameters (\<open>resolve\<close>, \<open>os\<close>).
\<close>

definition isBlockedTargetIP :: "IP \<Rightarrow> bool" where
  "isBlockedTargetIP ip \<longleftrightarrow>
     IsLoopback ip \<or> IsPrivate ip \<or> IsLinkLocalUnicast ip \<or> IsLinkLocalMulticast ip \<or>
     IsUnspecified ip \<or> IsMulticast ip"

text \<open>The hook: \<open>True\<close> when it returns no error.\<close>

definition dialer_Control :: "bool \<Rightarrow> string \<Rightarrow> bool" where
  "dialer_Control allowPrivate address =
     (if allowPrivate then True
      else (case SplitHostPort address of
              Inl _ \<Rightarrow> False
            | Inr (host, _) \<Rightarrow>
                (case ParseIP host of
                   None \<Rightarrow> False
                 | Some ip \<Rightarrow> \<not> isBlockedTargetIP ip)))"

definition JoinHostPort :: "string \<Rightarrow> string \<Rightarrow> string" where
  "JoinHostPort host port =
     (if CHR '':'' \<in> set host then CHR ''['' # host @ '']:'' @ port else host @ CHR '':'' # port)"

fun dial_first :: "bool \<Rightarrow> (IP \<Rightarrow> string \<Rightarrow> bool) \<Rightarrow> string \<Rightarrow> IP list \<Rightarrow> IP option" where
  "dial_first allowPrivate os port [] = None"
| "dial_first allowPrivate os port (ip # ips) =
     (if dialer_Control allowPrivate (JoinHostPort (IP_String ip) port) \<and> os ip port then Some ip
      else dial_first allowPrivate os port ips)"

definition DialContext ::
  "bool \<Rightarrow> (string \<Rightarrow> IP list) \<Rightarrow> (IP \<Rightarrow> string \<Rightarrow> bool) \<Rightarrow> string \<Rightarrow> IP option" where
  "DialContext allowPrivate resolve os address =
     (case SplitHostPort address of
        Inl _ \<Rightarrow> None
      | Inr (host, port) \<Rightarrow>
          dial_first allowPrivate os port
            (case ParseIP host of Some ip \<Rightarrow> [ip] | None \<Rightarrow> resolve host))"

subsection \<open>Masks and ranges\<close>

lemma bit_nat_less: "n < 2 ^ m \<Longrightarrow> bit (n :: nat) k \<Longrightarrow> k < m"
  by (metis bit_take_bit_iff take_bit_nat_eq_self)

lemma and_high_nat: "k \<le> 8 \<Longrightarrow> n < 256 \<Longrightarrow> n AND push_bit k (mask (8 - k)) = n div 2 ^ k * (2 ^ k :: nat)"
proof (rule bit_eqI)
  fix j
  assume k: "k \<le> 8" and n: "n < 256"
  have d: "n div 2 ^ k * 2 ^ k = push_bit k (drop_bit k n)" by (simp add: push_bit_eq_mult drop_bit_eq_div)
  have "bit n j \<Longrightarrow> j < 8" using bit_nat_less [of n 8 j] n by simp
  then show "bit (n AND push_bit k (mask (8 - k))) j \<longleftrightarrow> bit (n div 2 ^ k * 2 ^ k) j"
    unfolding d using k by (auto simp: bit_and_iff bit_push_bit_iff bit_mask_iff bit_drop_bit_eq)
qed

text \<open>Comparing the high bits of a byte, under a mask of ones and then \<open>k\<close> zeros.\<close>

lemma and_high_eq:
  fixes x :: byte
  assumes "k \<le> 8" "2 ^ k * v < 256" "m = push_bit k (mask (8 - k))" "m < 256"
  shows "x AND word_of_nat m = word_of_nat (2 ^ k * v) \<longleftrightarrow> unat x div 2 ^ k = v"
proof -
  have "unat x < 256" using unsigned_less [of x] by simp
  moreover have "unat (word_of_nat m :: byte) = m" by (subst unat_of_nat) (use assms(4) in simp)
  ultimately have "unat (x AND word_of_nat m) = unat x div 2 ^ k * 2 ^ k"
    using and_high_nat [OF assms(1)] assms(3) by (simp add: unsigned_and_eq)
  moreover have "unat (word_of_nat (2 ^ k * v) :: byte) = 2 ^ k * v"
    by (subst unat_of_nat) (use assms(2) in simp)
  ultimately have "unat (x AND word_of_nat m) = unat (word_of_nat (2 ^ k * v) :: byte) \<longleftrightarrow> unat x div 2 ^ k = v"
    by (auto simp: mult.commute)
  then show ?thesis by (simp only: word_unat_eq_iff [symmetric])
qed

lemma masks:
  fixes x :: byte
  shows "x AND 240 = 16 \<longleftrightarrow> 16 \<le> unat x \<and> unat x \<le> 31" "x AND 240 = 224 \<longleftrightarrow> 224 \<le> unat x \<and> unat x \<le> 239"
    "x AND 254 = 252 \<longleftrightarrow> 252 \<le> unat x \<and> unat x \<le> 253" "x AND 192 = 128 \<longleftrightarrow> 128 \<le> unat x \<and> unat x \<le> 191"
proof -
  have m: "(240 :: nat) = push_bit 4 (mask (8 - 4))" "(254 :: nat) = push_bit 1 (mask (8 - 1))" "(192 :: nat) = push_bit 6 (mask (8 - 6))"
    by (simp_all add: push_bit_eq_mult mask_eq_exp_minus_1)
  have eqs: "x AND 240 = 16 \<longleftrightarrow> unat x div 16 = 1" "x AND 240 = 224 \<longleftrightarrow> unat x div 16 = 14"
    "x AND 254 = 252 \<longleftrightarrow> unat x div 2 = 126" "x AND 192 = 128 \<longleftrightarrow> unat x div 64 = 2"
    using and_high_eq [of 4 1 240 x] and_high_eq [of 4 14 240 x] and_high_eq [of 1 126 254 x]
      and_high_eq [of 6 2 192 x] m by simp_all
  show "x AND 240 = 16 \<longleftrightarrow> 16 \<le> unat x \<and> unat x \<le> 31" "x AND 240 = 224 \<longleftrightarrow> 224 \<le> unat x \<and> unat x \<le> 239"
    "x AND 254 = 252 \<longleftrightarrow> 252 \<le> unat x \<and> unat x \<le> 253" "x AND 192 = 128 \<longleftrightarrow> 128 \<le> unat x \<and> unat x \<le> 191"
    unfolding eqs by linarith+
qed

text \<open>The IPv4 ranges the guard is about, by their octets.\<close>

definition internal_v4 :: "nat \<Rightarrow> nat \<Rightarrow> nat \<Rightarrow> nat \<Rightarrow> bool" where
  "internal_v4 a b c d \<longleftrightarrow>
     a = 127 \<or> a = 10 \<or> a = 172 \<and> 16 \<le> b \<and> b \<le> 31 \<or> a = 192 \<and> b = 168 \<or> a = 169 \<and> b = 254 \<or>
     224 \<le> a \<and> a \<le> 239 \<or> a = 0 \<and> b = 0 \<and> c = 0 \<and> d = 0"

lemma unat_byte_eq: "n < 256 \<Longrightarrow> (x :: byte) = word_of_nat n \<longleftrightarrow> unat x = n"
proof
  assume n: "n < 256" and u: "unat x = n"
  have "word_of_nat (unat x) = x" by simp
  then show "x = word_of_nat n" using u by simp
next
  assume n: "n < 256" and "x = word_of_nat n"
  then show "unat x = n" by (simp add: unat_of_nat)
qed

text \<open>
  The IPv6 ranges, by the first 16-bit group: unique local \<open>fc00::/7\<close>, link-local \<open>fe80::/10\<close>,
  multicast \<open>ff00::/8\<close>; and \<open>::\<close> and \<open>::1\<close>.
\<close>

definition internal_v6 :: "bytes \<Rightarrow> bool" where
  "internal_v6 ip \<longleftrightarrow>
     (let g = unat (ip ! 0) * 256 + unat (ip ! 1)
      in 64512 \<le> g \<and> g \<le> 65023 \<or> 65152 \<le> g \<and> g \<le> 65215 \<or> 65280 \<le> g) \<or>
     take 15 ip = replicate 15 0 \<and> unat (ip ! 15) \<le> 1"

text \<open>An IPv4 address counts in its 4-byte and in its IPv4-mapped form.\<close>

definition internal :: "IP \<Rightarrow> bool" where
  "internal ip =
     (case To4 ip of
        Some q \<Rightarrow> internal_v4 (unat (q ! 0)) (unat (q ! 1)) (unat (q ! 2)) (unat (q ! 3))
      | None \<Rightarrow> internal_v6 ip)"

lemma isBlocked_v4:
  assumes "To4 ip = Some q" "length q = 4"
  shows "isBlockedTargetIP ip \<longleftrightarrow>
         internal_v4 (unat (q ! 0)) (unat (q ! 1)) (unat (q ! 2)) (unat (q ! 3))"
proof -
  let ?a = "q ! 0" and ?b = "q ! 1" and ?c = "q ! 2" and ?d = "q ! 3"
  have q: "q = [?a, ?b, ?c, ?d]"
    using assms(2) by (intro nth_equalityI) (auto simp: less_Suc_eq numeral_eq_Suc)
  have eq: "?a = 127 \<longleftrightarrow> unat ?a = 127" "?a = 10 \<longleftrightarrow> unat ?a = 10" "?a = 172 \<longleftrightarrow> unat ?a = 172"
    "?a = 192 \<longleftrightarrow> unat ?a = 192" "?b = 168 \<longleftrightarrow> unat ?b = 168" "?a = 169 \<longleftrightarrow> unat ?a = 169"
    "?b = 254 \<longleftrightarrow> unat ?b = 254" "?a = 224 \<longleftrightarrow> unat ?a = 224"
    using unat_byte_eq [of 127 ?a] unat_byte_eq [of 10 ?a] unat_byte_eq [of 172 ?a] unat_byte_eq [of 192 ?a]
      unat_byte_eq [of 168 ?b] unat_byte_eq [of 169 ?a] unat_byte_eq [of 254 ?b] unat_byte_eq [of 224 ?a] by simp_all
  have zero: "q = [0, 0, 0, 0] \<longleftrightarrow> unat ?a = 0 \<and> unat ?b = 0 \<and> unat ?c = 0 \<and> unat ?d = 0"
    by (subst q) (simp add: unat_eq_0)
  show ?thesis
    using assms(1)
    by (simp add: isBlockedTargetIP_def IsLoopback_def IsPrivate_def IsLinkLocalUnicast_def
        IsLinkLocalMulticast_def IsUnspecified_def IsMulticast_def internal_v4_def eq zero masks del: One_nat_def)
      (rule iffI; elim disjE conjE; simp)
qed

lemma group_ranges:
  fixes a b :: nat
  assumes "a \<le> 255" "b \<le> 255"
  shows "64512 \<le> a * 256 + b \<and> a * 256 + b \<le> 65023 \<longleftrightarrow> 252 \<le> a \<and> a \<le> 253"
    "65152 \<le> a * 256 + b \<and> a * 256 + b \<le> 65215 \<longleftrightarrow> a = 254 \<and> 128 \<le> b \<and> b \<le> 191"
    "65280 \<le> a * 256 + b \<longleftrightarrow> a = 255"
proof -
  consider "a \<le> 251" | "a = 252" | "a = 253" | "a = 254" | "a = 255" using assms(1) by linarith
  then show "64512 \<le> a * 256 + b \<and> a * 256 + b \<le> 65023 \<longleftrightarrow> 252 \<le> a \<and> a \<le> 253"
    "65152 \<le> a * 256 + b \<and> a * 256 + b \<le> 65215 \<longleftrightarrow> a = 254 \<and> 128 \<le> b \<and> b \<le> 191"
    "65280 \<le> a * 256 + b \<longleftrightarrow> a = 255"
    by (cases; use assms(2) in auto)+
qed

lemma isBlocked_v6:
  assumes "To4 ip = None" "length ip = 16"
  shows "isBlockedTargetIP ip \<longleftrightarrow> internal_v6 ip"
proof -
  let ?a = "ip ! 0" and ?b = "ip ! 1" and ?z = "ip ! 15"
  have eq: "?a = 254 \<longleftrightarrow> unat ?a = 254" "?a = 255 \<longleftrightarrow> unat ?a = 255" "?z = 0 \<longleftrightarrow> unat ?z = 0" "?z = 1 \<longleftrightarrow> unat ?z = 1"
    using unat_byte_eq [of 254 ?a] unat_byte_eq [of 255 ?a] unat_byte_eq [of 0 ?z] unat_byte_eq [of 1 ?z] by simp_all
  have "take 16 ip = take 15 ip @ [?z]" using assms(2) take_Suc_conv_app_nth [of 15 ip] by simp
  then have ip: "ip = take 15 ip @ [?z]" using assms(2) by simp
  have ends: "ip = replicate 15 0 @ [1] \<longleftrightarrow> take 15 ip = replicate 15 0 \<and> ?z = 1"
    "ip = replicate 15 0 @ [0] \<longleftrightarrow> take 15 ip = replicate 15 0 \<and> ?z = 0"
    using assms(2) by (subst ip, simp)+
  have zeros: "replicate 16 (0 :: byte) = replicate 15 0 @ [0]" by (simp add: numeral_eq_Suc)
  have low: "unat ?z \<le> 1 \<longleftrightarrow> unat ?z = 0 \<or> unat ?z = 1" by linarith
  have b: "unat ?a \<le> 255" "unat ?b \<le> 255" using unat_byte_le by blast+
  let ?g = "unat ?a * 256 + unat ?b"
  have g: "64512 \<le> ?g \<and> ?g \<le> 65023 \<longleftrightarrow> 252 \<le> unat ?a \<and> unat ?a \<le> 253"
    "65152 \<le> ?g \<and> ?g \<le> 65215 \<longleftrightarrow> unat ?a = 254 \<and> 128 \<le> unat ?b \<and> unat ?b \<le> 191" "65280 \<le> ?g \<longleftrightarrow> unat ?a = 255"
    using group_ranges [OF b] by blast+
  show ?thesis
    using assms
    by (simp only: isBlockedTargetIP_def IsLoopback_def IsPrivate_def IsLinkLocalUnicast_def option.case
        IsLinkLocalMulticast_def IsUnspecified_def IsMulticast_def internal_v6_def masks zeros ends g eq low Let_def) blast
qed

lemma isBlocked_internal:
  assumes "length ip = 4 \<or> length ip = 16"
  shows "isBlockedTargetIP (To16 ip) \<longleftrightarrow> internal ip"
proof (cases "To4 ip")
  case None
  then have "length ip = 16" "To16 ip = ip" using assms by (auto simp: To4_def To16_def)
  then show ?thesis using None isBlocked_v6 [of ip] by (simp add: internal_def)
next
  case (Some q)
  then have "length q = 4" "To4 (To16 ip) = Some q" by (auto simp: To4_def To16_def v4InV6Prefix_def split: if_splits)
  then show ?thesis using Some isBlocked_v4 [of "To16 ip" q] by (simp add: internal_def)
qed

lemma v4_string_no_colon [simp]: "CHR '':'' \<notin> set (v4_string q)" "CHR ''['' \<notin> set (v4_string q)"
  "CHR '']'' \<notin> set (v4_string q)"
  by (simp_all add: v4_string_def)

subsection \<open>The hook\<close>

lemma IP_String_no_bracket [simp]: "CHR ''['' \<notin> set (IP_String ip)" "CHR '']'' \<notin> set (IP_String ip)"
  by (simp_all add: IP_String_def split: option.splits)

lemma SplitHostPort_JoinHostPort:
  assumes "CHR ''['' \<notin> set h" "CHR '']'' \<notin> set h"
    and "CHR '':'' \<notin> set p" "CHR ''['' \<notin> set p" "CHR '']'' \<notin> set p"
  shows "SplitHostPort (JoinHostPort h p) = Inr (h, p)"
proof (cases "CHR '':'' \<in> set h")
  case False
  then show ?thesis using assms SplitHostPort_plain [of h p] by (simp add: JoinHostPort_def)
next
  case True
  let ?s = "(CHR ''['' # h @ [CHR '']'']) @ CHR '':'' # p"
  have "last_index_of CHR '':'' ?s = Some (length h + 2)"
    using last_index_of_colon [OF assms(3), of "CHR ''['' # h @ [CHR '']'']"] by simp
  moreover have "index_of CHR '']'' ?s = Some (Suc (length h))"
    using assms(2) by (simp add: index_of_append)
  ultimately show ?thesis
    using True assms by (simp add: JoinHostPort_def SplitHostPort_def)
qed

lemma Control_public:
  assumes "length ip = 4 \<or> length ip = 16" "CHR '':'' \<notin> set port" "CHR ''['' \<notin> set port" "CHR '']'' \<notin> set port"
  shows "dialer_Control False (JoinHostPort (IP_String ip) port) \<longleftrightarrow> \<not> internal ip"
  using assms SplitHostPort_JoinHostPort [of "IP_String ip" port] ParseIP_IP_String [OF assms(1)]
    isBlocked_internal [OF assms(1)]
  by (simp add: dialer_Control_def)

text \<open>The dialer is a search for the first address that is not internal and answers.\<close>

lemma dial_first_find:
  assumes "\<forall>ip \<in> set ips. length ip = 4 \<or> length ip = 16"
    and "CHR '':'' \<notin> set port" "CHR ''['' \<notin> set port" "CHR '']'' \<notin> set port"
  shows "dial_first False os port ips = find (\<lambda>ip. \<not> internal ip \<and> os ip port) ips"
  using assms by (induction ips) (simp_all add: Control_public)

lemma SplitHostPort_port: "SplitHostPort (hostport h p) = Inr (h', port) \<Longrightarrow> port = show_int p"
  using last_index_of_colon [of "show_int p" h]
  by (auto simp: hostport_def SplitHostPort_def Let_def split: if_splits option.splits)

text \<open>The addresses a target stands for, and the dialer as a search in them.\<close>

definition targets :: "(string \<Rightarrow> IP list) \<Rightarrow> string \<Rightarrow> int \<Rightarrow> IP list" where
  "targets resolve host p =
     (case SplitHostPort (hostport host p) of
        Inl _ \<Rightarrow> []
      | Inr (h, _) \<Rightarrow> (case ParseIP h of Some ip \<Rightarrow> [ip] | None \<Rightarrow> resolve h))"

lemma DialContext_targets: "DialContext allow resolve os (hostport host p) = dial_first allow os (show_int p) (targets resolve host p)"
  using SplitHostPort_port [of host p]
  by (auto simp: DialContext_def targets_def split: sum.splits prod.splits)

lemma targets_length:
  assumes "\<forall>h. \<forall>ip \<in> set (resolve h). length ip = 4 \<or> length ip = 16"
  shows "\<forall>ip \<in> set (targets resolve host p). length ip = 4 \<or> length ip = 16"
  using assms ParseIP_length by (auto simp: targets_def split: sum.splits option.splits prod.splits)

lemma targets_v4 [simp]: "length q = 4 \<Longrightarrow> targets resolve (v4_string q) p = [v4InV6Prefix @ q]"
  using ParseIP_v4_string [of q] SplitHostPort_plain [of "v4_string q" "show_int p"]
  by (simp add: hostport_def targets_def)

lemma internal_mapped [simp]: "length q = 4 \<Longrightarrow> internal (v4InV6Prefix @ q) \<longleftrightarrow> internal q"
  by (simp add: internal_def To4_def [of q])

lemma dial_first_Some:
  "dial_first allow os port ips = Some ip \<Longrightarrow>
   ip \<in> set ips \<and> dialer_Control allow (JoinHostPort (IP_String ip) port) \<and> os ip port"
  by (induction ips) (auto split: if_splits)

lemma DialContext_v4:
  "length q = 4 \<Longrightarrow> os (v4InV6Prefix @ q) (show_int p) \<Longrightarrow>
   DialContext False resolve os (hostport (v4_string q) p) = (if internal q then None else Some (v4InV6Prefix @ q))"
  using Control_public [of "v4InV6Prefix @ q" "show_int p"]
  by (simp add: DialContext_targets) (simp add: v4InV6Prefix_def)

text \<open>An address the guard may let through. IP addresses have 4 or 16 bytes.\<close>

definition permitted :: "bool \<Rightarrow> IP \<Rightarrow> bool" where
  "permitted allowPrivate ip \<longleftrightarrow> allowPrivate \<or> (length ip = 4 \<or> length ip = 16 \<longrightarrow> \<not> internal ip)"

lemma DialContext_Some:
  assumes "DialContext allow resolve os (hostport host p) = Some ip"
  shows "ip \<in> set (targets resolve host p) \<and> permitted allow ip \<and> os ip (show_int p)"
  using dial_first_Some [OF assms [unfolded DialContext_targets]] Control_public [of ip "show_int p"]
  by (cases allow) (auto simp: permitted_def)

text \<open>
  C7. The egress guard. With private targets not allowed, whatever the requested host is and whatever
  it resolves to, in any order, the dialer tries exactly the addresses that are not internal and
  connects to the first of them that answers: it never connects to an address in the loopback, private (RFC
  1918 and unique local), link-local, multicast or unspecified ranges, be it IPv4, IPv4 written
  as a mapped IPv6 address, or IPv6; and an IPv4 literal outside these ranges is dialled as it is.
  The resolver is only assumed to return 4-byte and 16-byte addresses.
\<close>

theorem ssrf_guard:
  assumes "\<forall>h. \<forall>ip \<in> set (resolve h). length ip = 4 \<or> length ip = 16"
  shows "DialContext False resolve os (hostport host p) =
      find (\<lambda>ip. \<not> internal ip \<and> os ip (show_int p)) (targets resolve host p) \<and>
    (DialContext False resolve os (hostport host p) = Some ip \<longrightarrow>
      ip \<in> set (targets resolve host p) \<and> \<not> internal ip \<and> os ip (show_int p)) \<and>
    (length q = 4 \<and> os (v4InV6Prefix @ q) (show_int p) \<longrightarrow>
      DialContext False resolve os (hostport (v4_string q) p) = (if internal q then None else Some (v4InV6Prefix @ q)))"
proof -
  have find: "DialContext False resolve os (hostport h p) =
      find (\<lambda>ip. \<not> internal ip \<and> os ip (show_int p)) (targets resolve h p)" for h
    unfolding DialContext_targets by (rule dial_first_find [OF targets_length [OF assms]]) simp_all
  show ?thesis unfolding find by (auto simp: find_Some_iff)
qed

text \<open>A name that resolves to a link-local, a mapped private and a public address; a metadata-service literal.\<close>

theorem ssrf_guard_witness:
  "let resolve = (\<lambda>h. [[254, 128, 0, 0, 0, 0, 0, 0, 0, 0, 0, 0, 0, 0, 0, 1], v4InV6Prefix @ [10, 0, 0, 1], [8, 8, 8, 8]])
   in DialContext False resolve (\<lambda>_ _. True) (hostport ''x'' 80) = Some [8, 8, 8, 8] \<and>
      DialContext False resolve (\<lambda>_ _. True) (hostport (v4_string [169, 254, 169, 254]) 80) = None"
proof -
  let ?resolve = "\<lambda>h :: string. [[254, 128, 0, 0, 0, 0, 0, 0, 0, 0, 0, 0, 0, 0, 0, 1], v4InV6Prefix @ [10, 0, 0, 1], [8, 8, 8, 8 :: byte]]"
  have prefix: "v4InV6Prefix = [0, 0, 0, 0, 0, 0, 0, 0, 0, 0, 255, 255]"
    by (simp add: v4InV6Prefix_def numeral_eq_Suc)
  have len: "\<forall>h. \<forall>ip \<in> set (?resolve h). length ip = 4 \<or> length ip = 16" by (simp add: v4InV6Prefix_def)
  have "SplitHostPort (hostport ''x'' 80) = Inr (''x'', show_int 80)"
    unfolding hostport_def by (rule SplitHostPort_plain) simp_all
  moreover have "ParseIP ''x'' = None" by (simp add: ParseIP_def)
  moreover have "internal ([254, 128, 0, 0, 0, 0, 0, 0, 0, 0, 0, 0, 0, 0, 0, 1])" "internal (v4InV6Prefix @ [10, 0, 0, 1])" "\<not> internal [8, 8, 8, 8]"
    "internal [169, 254, 169, 254]"
    by (simp_all add: internal_def internal_v6_def internal_v4_def To4_def prefix)
  ultimately show ?thesis
    using ssrf_guard [OF len, where os = "\<lambda>_ _. True" and host = "''x''" and p = 80, THEN conjunct1]
      ssrf_guard [OF len, where os = "\<lambda>_ _. True" and q = "[169, 254, 169, 254]" and p = 80, THEN conjunct2, THEN conjunct2]
    by (simp add: Let_def targets_def)
qed

subsection \<open>IPv6 targets\<close>

lemma v6_string_head: "\<exists>c cs. v6_string ip = c # cs \<and> c \<noteq> CHR ''[''"
  using v6_string_colon [of ip] v6_string_notin(3) [of ip] by (cases "v6_string ip") auto

text \<open>
  IPv6 targets. The SOCKS handler formats its target with "%s:%d", without the brackets an IPv6
  address needs; such a target is therefore never dialled, whatever the resolver and the network
  are and whether or not private targets are allowed. An IPv4 literal is dialled.
\<close>

theorem v6_target_never_dialled:
  "DialContext allow resolve os (hostport (v6_string ip) p) = None \<and>
   DialContext True resolve (\<lambda>_ _. True) (hostport (v4_string [a, b, c, d]) p) =
     Some (v4InV6Prefix @ [a, b, c, d])"
proof
  obtain c cs where h: "v6_string ip = c # cs" "c \<noteq> CHR ''[''" using v6_string_head by blast
  have "SplitHostPort (hostport (v6_string ip) p) = Inl TooManyColons"
    unfolding hostport_def using v6_string_colon [of ip] h
    by (intro SplitHostPort_colons) auto
  then show "DialContext allow resolve os (hostport (v6_string ip) p) = None"
    by (simp add: DialContext_def)
next
  have s: "SplitHostPort (hostport (v4_string [a, b, c, d]) p) = Inr (v4_string [a, b, c, d], show_int p)"
    unfolding hostport_def by (intro SplitHostPort_plain) simp_all
  then show "DialContext True resolve (\<lambda>_ _. True) (hostport (v4_string [a, b, c, d]) p) =
     Some (v4InV6Prefix @ [a, b, c, d])"
    using ParseIP_v4_string [of "[a, b, c, d]"] by (simp add: DialContext_def dialer_Control_def)
qed

end
