(* ===== verification/ControlHandler.thy ===== *)
theory ControlHandler
  imports ManagerInv Registries SocksMux Relay Egress Messages Framing
begin

text \<open>
  \<open>internal/control/handler.go\<close>: the server's side of one control connection, from the
  registration handshake through the message loop to the cleanup, with the goroutines it starts for
  SOCKS targets. The handler shares the tunnel manager and two registries with every other
  connection (record \<open>server\<close>), so its atomic calls interleave with theirs: the model is a step
  function over events, one event per call of the handler, of one of its goroutines or of somebody
  else. The gob decoder, the resolver, the network and the text of error values are parameters
  (\<open>ctrl_cfg\<close>); what a call finds in its environment (bytes read, clock, UUID, whether a write
  went through) is in the events.
\<close>

subsection \<open>State\<close>

datatype handler_error =
    Err_Target validation_error
  | Err_Mux mux_error
  | Err_Dial string

record ctrl_cfg =
  cfg_gob :: "MsgType \<Rightarrow> bytes \<Rightarrow> payload option"
  cfg_errtext :: "handler_error \<Rightarrow> string"
  cfg_resolve :: "string \<Rightarrow> IP list"
  cfg_authToken :: string
  cfg_dataAddr :: string
  allowPrivateSOCKSTargets :: bool

record server =
  sv_mgr :: "Manager option"
  sv_cc :: "ControlConnRegistry option"
  sv_reg :: ClientRegistry

text \<open>Where the goroutine of one SOCKS request is: dialling and relaying hold a channel.\<close>

datatype socks_phase = T_Start | T_Dial ptr | T_Relay ptr | T_Defer | T_Done

record socks_task =
  st_sc :: SOCKSConnect
  st_phase :: socks_phase

datatype handler_phase = L_Loop | L_Cleanup nat | L_Gone

text \<open>
  \<open>hs_out\<close> is what the handler and its SOCKS goroutines wrote to the connection, \<open>hs_deliver\<close> the channel whose pipe the loop is
  writing to, \<open>hs_listening\<close> the entries whose accept loop was started, and \<open>hs_opened\<close> every
  listener the handler got from \<open>net.Listen\<close>.
\<close>

record session =
  hs_client :: ptr
  hs_id :: string
  hs_conn :: nat
  hs_cancel :: nat
  hs_phase :: handler_phase
  hs_mux :: SOCKSMux
  hs_deliver :: "ptr option"
  hs_out :: "payload list"
  hs_tasks :: "socks_task list"
  hs_listening :: "TunnelEntry list"
  hs_opened :: "listener list"

definition send :: "bool \<Rightarrow> payload \<Rightarrow> session \<Rightarrow> session" where
  "send ok p s = (if ok then s\<lparr>hs_out := hs_out s @ [p]\<rparr> else s)"

definition close_conn :: "nat \<Rightarrow> server \<Rightarrow> server" where
  "close_conn k sv = sv\<lparr>sv_reg := (sv_reg sv)\<lparr>cr_closed := insert k (cr_closed (sv_reg sv))\<rparr>\<rparr>"

definition cancel_ctx :: "nat \<Rightarrow> server \<Rightarrow> server" where
  "cancel_ctx f sv = sv\<lparr>sv_reg := (sv_reg sv)\<lparr>cr_cancelled := insert f (cr_cancelled (sv_reg sv))\<rparr>\<rparr>"

subsection \<open>Registration\<close>

record reg_input =
  ri_deadline_ok :: bool
  ri_write_ok :: bool
  ri_read :: "read_error + Envelope"
  ri_clear_ok :: bool
  ri_uuid :: string
  ri_now :: int
  ri_conn :: nat
  ri_addr :: string
  ri_writer :: ptr
  ri_cancel :: nat

definition register_msg :: "ctrl_cfg \<Rightarrow> payload" where
  "register_msg cfg = P_ClientRegister
     \<lparr>CR_AuthToken = cfg_authToken cfg, CR_Name = ''server'', CR_Version = ''0.1.0''\<rparr>"

text \<open>The name the client goes by, when its answer accepts the registration.\<close>

definition register_answer :: "ctrl_cfg \<Rightarrow> reg_input \<Rightarrow> string option" where
  "register_answer cfg i =
     (case ri_read i of
        Inl _ \<Rightarrow> None
      | Inr env \<Rightarrow>
          (if Env_Type env \<noteq> MsgRegisterResp then None
           else (case cfg_gob cfg MsgRegisterResp (Env_Payload env) of
                   Some (P_RegisterResp resp) \<Rightarrow>
                     (if RR_Status resp \<noteq> ''ok'' then None
                      else if RR_ServerID resp = [] then Some (ri_addr i) else Some (RR_ServerID resp))
                 | _ \<Rightarrow> None)))"

definition HandleControlConn_register ::
  "ctrl_cfg \<Rightarrow> reg_input \<Rightarrow> server \<Rightarrow> payload list \<times> session option \<times> server" where
  "HandleControlConn_register cfg i sv =
     (if \<not> ri_deadline_ok i \<or> \<not> ri_write_ok i then ([], None, close_conn (ri_conn i) sv)
      else (case register_answer cfg i of
              None \<Rightarrow> ([register_msg cfg], None, close_conn (ri_conn i) sv)
            | Some clientName \<Rightarrow>
                (let (p, reg) = Clients_Register (ri_uuid i) (ri_now i) clientName (ri_addr i)
                       (Some (ri_conn i)) (ri_writer i) (Some (ri_cancel i)) (sv_reg sv);
                     sv1 = sv\<lparr>sv_reg := reg\<rparr>
                 in if \<not> ri_clear_ok i then
                      ([register_msg cfg], None,
                       close_conn (ri_conn i) (cancel_ctx (ri_cancel i)
                         (sv1\<lparr>sv_reg := Clients_Deregister (ri_uuid i) (sv_reg sv1)\<rparr>)))
                    else
                      ([register_msg cfg],
                       Some \<lparr>hs_client = p, hs_id = ri_uuid i, hs_conn = ri_conn i, hs_cancel = ri_cancel i,
                             hs_phase = L_Loop, hs_mux = NewSOCKSMux, hs_deliver = None,
                             hs_out = [register_msg cfg], hs_tasks = [], hs_listening = [], hs_opened = []\<rparr>,
                       sv1\<lparr>sv_cc := map_option (ConnReg_Register (ri_uuid i) (ri_writer i)) (sv_cc sv1)\<rparr>))))"

subsection \<open>Tunnel requests\<close>

record loop_input =
  li_done :: bool
  li_read :: "read_error + Envelope"
  li_now :: int
  li_uuid :: string
  li_listen :: "string \<Rightarrow> string + (listener \<times> int)"
  li_write :: bool

definition tunnel_error :: "string \<Rightarrow> payload" where
  "tunnel_error e = P_TunnelResp
     \<lparr>TR_TunnelID = [], TR_PublicPort = 0, TR_ServerDataAddr = [], TR_Status = ''error'', TR_Error = e\<rparr>"

definition handleRequestTunnel ::
  "ctrl_cfg \<Rightarrow> loop_input \<Rightarrow> Envelope \<Rightarrow> session \<Rightarrow> Manager \<Rightarrow> session \<times> Manager" where
  "handleRequestTunnel cfg i env s m =
     (case cfg_gob cfg MsgRequestTunnel (Env_Payload env) of
        Some (P_RequestTunnel req) \<Rightarrow>
          (let listenAddr = CHR '':'' # show_int (RT_RequestedPort req)
           in case li_listen i listenAddr of
                Inl err \<Rightarrow>
                  (send (li_write i) (tunnel_error (''could not listen on '' @ listenAddr @ '': '' @ err)) s, m)
              | Inr (ln, publicPort) \<Rightarrow>
                  (let (entry, m') = AddTunnel (li_uuid i) (hs_id s) (RT_LocalHost req) (RT_LocalPort req)
                         publicPort (Some ln) m;
                       s' = send (li_write i) (P_TunnelResp
                              \<lparr>TR_TunnelID = li_uuid i, TR_PublicPort = publicPort,
                               TR_ServerDataAddr = cfg_dataAddr cfg, TR_Status = ''ok'', TR_Error = []\<rparr>)
                              (s\<lparr>hs_opened := hs_opened s @ [ln]\<rparr>)
                   in if \<not> li_write i
                      then (s', m'\<lparr>closed_listeners := insert ln (closed_listeners m')\<rparr>)
                      else (s'\<lparr>hs_listening := hs_listening s' @ [entry]\<rparr>, m')))
      | _ \<Rightarrow> (send (li_write i) (tunnel_error ''malformed RequestTunnel payload'') s, m))"

definition http_tunnel_error :: "string \<Rightarrow> payload" where
  "http_tunnel_error e = P_HTTPTunnelResp
     \<lparr>HTR_Hostname = [], HTR_TunnelID = [], HTR_ServerDataAddr = [], HTR_Status = ''error'', HTR_Error = e\<rparr>"

text \<open>The code drops the error of \<open>AddHTTPTunnel\<close> and \<open>AddHTTPSTunnel\<close>.\<close>

definition handleHTTPTunnelRequest ::
  "ctrl_cfg \<Rightarrow> loop_input \<Rightarrow> bool \<Rightarrow> string \<Rightarrow> string \<Rightarrow> int \<Rightarrow> session \<Rightarrow> Manager \<Rightarrow> session \<times> Manager" where
  "handleHTTPTunnelRequest cfg i isTLS hostname localHost localPort s m =
     (let m' = (if isTLS then snd (AddHTTPSTunnel (li_uuid i) (hs_id s) hostname localHost localPort m)
                else snd (AddHTTPTunnel (li_uuid i) (hs_id s) hostname localHost localPort m))
      in (send (li_write i) (P_HTTPTunnelResp
            \<lparr>HTR_Hostname = hostname, HTR_TunnelID = li_uuid i, HTR_ServerDataAddr = cfg_dataAddr cfg,
             HTR_Status = ''ok'', HTR_Error = []\<rparr>) s, m'))"

definition handleRequestHTTPTunnel ::
  "ctrl_cfg \<Rightarrow> loop_input \<Rightarrow> Envelope \<Rightarrow> session \<Rightarrow> Manager \<Rightarrow> session \<times> Manager" where
  "handleRequestHTTPTunnel cfg i env s m =
     (case cfg_gob cfg MsgRequestHTTPTunnel (Env_Payload env) of
        Some (P_RequestHTTPTunnel req) \<Rightarrow>
          handleHTTPTunnelRequest cfg i False (RH_Hostname req) (RH_LocalHost req) (RH_LocalPort req) s m
      | _ \<Rightarrow> (send (li_write i) (http_tunnel_error ''malformed RequestHTTPTunnel payload'') s, m))"

definition handleRequestHTTPSTunnel ::
  "ctrl_cfg \<Rightarrow> loop_input \<Rightarrow> Envelope \<Rightarrow> session \<Rightarrow> Manager \<Rightarrow> session \<times> Manager" where
  "handleRequestHTTPSTunnel cfg i env s m =
     (case cfg_gob cfg MsgRequestHTTPSTunnel (Env_Payload env) of
        Some (P_RequestHTTPSTunnel req) \<Rightarrow>
          handleHTTPTunnelRequest cfg i True (RHS_Hostname req) (RHS_LocalHost req) (RHS_LocalPort req) s m
      | _ \<Rightarrow> (send (li_write i) (http_tunnel_error ''malformed RequestHTTPSTunnel payload'') s, m))"

subsection \<open>The goroutine of a SOCKS request\<close>

text \<open>
  \<open>ti_net\<close> says which addresses can be reached (none, once the context is cancelled). The relay
  (theory Relay) sends data frames, event \<open>EvRelayData\<close> below, and returns after its closing frame.
\<close>

record task_input =
  ti_write :: bool
  ti_net :: "IP \<Rightarrow> string \<Rightarrow> bool"

definition socks_ready :: "string \<Rightarrow> bool \<Rightarrow> string \<Rightarrow> payload" where
  "socks_ready c success e = P_SOCKSReady \<lparr>SR_ConnID = c, SR_Success = success, SR_Error = e\<rparr>"

definition handleServerSOCKSConnect ::
  "ctrl_cfg \<Rightarrow> task_input \<Rightarrow> SOCKSConnect \<Rightarrow> socks_phase \<Rightarrow> session \<Rightarrow> socks_phase \<times> session" where
  "handleServerSOCKSConnect cfg i sc ph s =
     (let c = SC_ConnID sc;
          fail = (\<lambda>e. send (ti_write i) (socks_ready c False (cfg_errtext cfg e)))
      in case ph of
           T_Start \<Rightarrow>
             (case ValidateTarget (SC_TargetHost sc) (SC_TargetPort sc) 1 of
                Some e \<Rightarrow> (T_Done, fail (Err_Target e) s)
              | None \<Rightarrow>
                  (case NewChannel c (hs_mux s) of
                     (Inl e, _) \<Rightarrow> (T_Done, fail (Err_Mux e) s)
                   | (Inr p, mux) \<Rightarrow> (T_Dial p, s\<lparr>hs_mux := mux\<rparr>)))
         | T_Dial p \<Rightarrow>
             (let targetAddr = hostport (SC_TargetHost sc) (SC_TargetPort sc)
              in case DialContext (allowPrivateSOCKSTargets cfg) (cfg_resolve cfg) (ti_net i) targetAddr of
                   None \<Rightarrow> (T_Defer, fail (Err_Dial targetAddr) s)
                 | Some _ \<Rightarrow>
                     (if ti_write i then (T_Relay p, send True (socks_ready c True []) s)
                      else (T_Defer, s)))
         | T_Relay p \<Rightarrow>
             (T_Defer, (send (ti_write i) (snd (close_frame MsgSOCKSClose c)) s)\<lparr>hs_mux := Mux_Remove c (hs_mux s)\<rparr>)
         | T_Defer \<Rightarrow> (T_Done, s\<lparr>hs_mux := Mux_Remove c (hs_mux s)\<rparr>)
         | T_Done \<Rightarrow> (T_Done, s))"

subsection \<open>The message loop\<close>

definition set_heartbeat :: "ptr \<Rightarrow> int \<Rightarrow> server \<Rightarrow> server" where
  "set_heartbeat p now sv =
     sv\<lparr>sv_reg := (sv_reg sv)\<lparr>cr_heap :=
          (cr_heap (sv_reg sv))(p := map_option (SetLastHeartbeat now) (cr_heap (sv_reg sv) p))\<rparr>\<rparr>"

definition with_mgr ::
  "(session \<Rightarrow> Manager \<Rightarrow> session \<times> Manager) \<Rightarrow> session \<Rightarrow> server \<Rightarrow> session \<times> server" where
  "with_mgr h s sv =
     (case sv_mgr sv of
        None \<Rightarrow> (s, sv)
      | Some m \<Rightarrow> (case h s m of (s', m') \<Rightarrow> (s', sv\<lparr>sv_mgr := Some m'\<rparr>)))"

text \<open>\<open>Deliver\<close> begins to write; the loop then waits until the bytes are read or the pipe is closed.\<close>

definition begin_deliver :: "SOCKSData \<Rightarrow> session \<Rightarrow> session option" where
  "begin_deliver sd s =
     (case Deliver_lookup (SD_ConnID sd) (hs_mux s) of
        Inl _ \<Rightarrow> Some s
      | Inr p \<Rightarrow>
          (case sm_heap (hs_mux s) p of
             None \<Rightarrow> Some s
           | Some ch \<Rightarrow>
               (case Pipe_write (SD_Payload sd) ch of
                  None \<Rightarrow> None
                | Some (Some _, _) \<Rightarrow> Some s
                | Some (None, ch') \<Rightarrow>
                    Some (s\<lparr>hs_mux := (hs_mux s)\<lparr>sm_heap := (sm_heap (hs_mux s))(p \<mapsto> ch')\<rparr>,
                            hs_deliver := Some p\<rparr>))))"

text \<open>
  One message: whether the loop returns, and the state. \<open>None\<close> would be a second write on one pipe
  while another is pending, which cannot happen (lemma \<open>loop_message_defined\<close>): only the loop
  delivers.
\<close>

definition loop_message ::
  "ctrl_cfg \<Rightarrow> loop_input \<Rightarrow> Envelope \<Rightarrow> session \<Rightarrow> server \<Rightarrow> (bool \<times> session \<times> server) option" where
  "loop_message cfg i env s sv =
     (case Env_Type env of
        MsgPong \<Rightarrow>
          (case cfg_gob cfg MsgPong (Env_Payload env) of
             Some (P_Pong _) \<Rightarrow> Some (False, s, set_heartbeat (hs_client s) (li_now i) sv)
           | _ \<Rightarrow> Some (False, s, sv))
      | MsgDisconnect \<Rightarrow> Some (True, send (li_write i) (P_DisconnectAck DisconnectAck) s, sv)
      | MsgRequestTunnel \<Rightarrow> Some (False, with_mgr (handleRequestTunnel cfg i env) s sv)
      | MsgRequestHTTPTunnel \<Rightarrow> Some (False, with_mgr (handleRequestHTTPTunnel cfg i env) s sv)
      | MsgRequestHTTPSTunnel \<Rightarrow> Some (False, with_mgr (handleRequestHTTPSTunnel cfg i env) s sv)
      | MsgSOCKSConnect \<Rightarrow>
          (case cfg_gob cfg MsgSOCKSConnect (Env_Payload env) of
             Some (P_SOCKSConnect sc) \<Rightarrow>
               Some (False, s\<lparr>hs_tasks := hs_tasks s @ [\<lparr>st_sc = sc, st_phase = T_Start\<rparr>]\<rparr>, sv)
           | _ \<Rightarrow> Some (False, s, sv))
      | MsgSOCKSData \<Rightarrow>
          (case cfg_gob cfg MsgSOCKSData (Env_Payload env) of
             Some (P_SOCKSData sd) \<Rightarrow> map_option (\<lambda>s'. (False, s', sv)) (begin_deliver sd s)
           | _ \<Rightarrow> Some (False, s, sv))
      | MsgSOCKSClose \<Rightarrow>
          (case cfg_gob cfg MsgSOCKSClose (Env_Payload env) of
             Some (P_SOCKSClose sc) \<Rightarrow>
               Some (False, s\<lparr>hs_mux := DeliverClose (SCl_ConnID sc) (hs_mux s)\<rparr>, sv)
           | _ \<Rightarrow> Some (False, s, sv))
      | _ \<Rightarrow> Some (False, s, sv))"

text \<open>
  The first check of an iteration: the parent context is done (\<open>li_done\<close>), or the client's own,
  which \<open>Disconnect\<close> and the heartbeat cancel. The loop is stuck in \<open>Deliver\<close> while the write it began is pending.\<close>

definition stuck :: "session \<Rightarrow> bool" where
  "stuck s \<longleftrightarrow>
     (case hs_deliver s of
        None \<Rightarrow> False
      | Some p \<Rightarrow> (case sm_heap (hs_mux s) p of None \<Rightarrow> False | Some ch \<Rightarrow> sch_pending ch \<noteq> None))"

definition loop_iteration ::
  "ctrl_cfg \<Rightarrow> loop_input \<Rightarrow> session \<Rightarrow> server \<Rightarrow> (session \<times> server) option" where
  "loop_iteration cfg i s0 sv =
     (if hs_phase s0 \<noteq> L_Loop \<or> stuck s0 then None
      else (let s = s0\<lparr>hs_deliver := None\<rparr>
            in if li_done i \<or> hs_cancel s \<in> cr_cancelled (sv_reg sv) then Some (s\<lparr>hs_phase := L_Cleanup 0\<rparr>, sv)
               else (case li_read i of
                       Inl _ \<Rightarrow> Some (s\<lparr>hs_phase := L_Cleanup 0\<rparr>, sv)
                     | Inr env \<Rightarrow>
                         (case loop_message cfg i env s sv of
                            None \<Rightarrow> None
                          | Some (returns, s', sv') \<Rightarrow>
                              Some (if returns then s'\<lparr>hs_phase := L_Cleanup 0\<rparr> else s', sv')))))"

subsection \<open>Cleanup\<close>

text \<open>
  The deferred calls, one per step, in the order they run. \<open>ps\<close> is the order in which
  \<open>CloseAll\<close> meets the channels.
\<close>

definition cleanup_call :: "ptr list \<Rightarrow> nat \<Rightarrow> session \<Rightarrow> server \<Rightarrow> session \<times> server" where
  "cleanup_call ps k s sv =
     (if k = 0 then (s\<lparr>hs_mux := CloseAll ps (hs_mux s), hs_phase := L_Cleanup 1\<rparr>, sv)
      else if k = 1 then
        (s\<lparr>hs_phase := L_Cleanup 2\<rparr>, sv\<lparr>sv_mgr := map_option (RemoveTunnelsForClient (hs_id s)) (sv_mgr sv)\<rparr>)
      else if k = 2 then
        (s\<lparr>hs_phase := L_Cleanup 3\<rparr>, sv\<lparr>sv_mgr := map_option (RemoveHTTPTunnelsForClient (hs_id s)) (sv_mgr sv)\<rparr>)
      else if k = 3 then
        (s\<lparr>hs_phase := L_Cleanup 4\<rparr>, sv\<lparr>sv_cc := map_option (ConnReg_Deregister (hs_id s)) (sv_cc sv)\<rparr>)
      else if k = 4 then
        (s\<lparr>hs_phase := L_Cleanup 5\<rparr>, sv\<lparr>sv_reg := Clients_Deregister (hs_id s) (sv_reg sv)\<rparr>)
      else if k = 5 then (s\<lparr>hs_phase := L_Cleanup 6\<rparr>, cancel_ctx (hs_cancel s) sv)
      else (s\<lparr>hs_phase := L_Gone\<rparr>, close_conn (hs_conn s) sv))"

subsection \<open>All events\<close>

text \<open>Calls of other goroutines on the shared tables.\<close>

datatype table_op =
    TO_Mgr mgr_op
  | TO_Register string int string string "nat option" ptr "nat option"
  | TO_Deregister string
  | TO_DisconnectByName string
  | TO_Disconnect string
  | TO_Cancel nat
  | TO_ConnRegister string ptr
  | TO_ConnDeregister string

fun table_step :: "table_op \<Rightarrow> server \<Rightarrow> server" where
  "table_step (TO_Mgr op) sv = sv\<lparr>sv_mgr := map_option (\<lambda>m. mgr_step m op) (sv_mgr sv)\<rparr>"
| "table_step (TO_Register u now n a k w f) sv = sv\<lparr>sv_reg := snd (Clients_Register u now n a k w f (sv_reg sv))\<rparr>"
| "table_step (TO_Deregister c) sv = sv\<lparr>sv_reg := Clients_Deregister c (sv_reg sv)\<rparr>"
| "table_step (TO_DisconnectByName n) sv = sv\<lparr>sv_reg := snd (DisconnectByName n (sv_reg sv))\<rparr>"
| "table_step (TO_Disconnect c) sv = sv\<lparr>sv_reg := snd (Clients_Disconnect c (sv_reg sv))\<rparr>"
| "table_step (TO_Cancel f) sv = cancel_ctx f sv"
| "table_step (TO_ConnRegister c w) sv = sv\<lparr>sv_cc := map_option (ConnReg_Register c w) (sv_cc sv)\<rparr>"
| "table_step (TO_ConnDeregister c) sv = sv\<lparr>sv_cc := map_option (ConnReg_Deregister c) (sv_cc sv)\<rparr>"

datatype ctrl_event =
    EvLoop loop_input
  | EvTask nat task_input
  | EvPipeRead ptr nat
  | EvRelayData nat bytes bool
  | EvCleanup "ptr list"
  | EvOther table_op

definition task_event ::
  "ctrl_cfg \<Rightarrow> nat \<Rightarrow> task_input \<Rightarrow> session \<Rightarrow> session option" where
  "task_event cfg n i s =
     (if n < length (hs_tasks s) then
        (let t = hs_tasks s ! n;
             (ph, s') = handleServerSOCKSConnect cfg i (st_sc t) (st_phase t) s
         in Some (s'\<lparr>hs_tasks := (hs_tasks s')[n := t\<lparr>st_phase := ph\<rparr>]\<rparr>))
      else None)"

definition pipe_read_event :: "ptr \<Rightarrow> nat \<Rightarrow> session \<Rightarrow> session option" where
  "pipe_read_event p n s =
     (case sm_heap (hs_mux s) p of
        None \<Rightarrow> None
      | Some ch \<Rightarrow>
          (case Pipe_read n ch of
             None \<Rightarrow> None
           | Some (_, ch') \<Rightarrow>
               Some (s\<lparr>hs_mux := (hs_mux s)\<lparr>sm_heap := (sm_heap (hs_mux s))(p \<mapsto> ch')\<rparr>\<rparr>)))"

definition relay_data_event :: "nat \<Rightarrow> bytes \<Rightarrow> bool \<Rightarrow> session \<Rightarrow> session option" where
  "relay_data_event n b ok s =
     (if n < length (hs_tasks s) then
        (case st_phase (hs_tasks s ! n) of
           T_Relay _ \<Rightarrow> Some (send ok (snd (data_frame (SC_ConnID (st_sc (hs_tasks s ! n))) b)) s)
         | _ \<Rightarrow> None)
      else None)"

fun ctrl_step :: "ctrl_cfg \<Rightarrow> ctrl_event \<Rightarrow> session \<times> server \<Rightarrow> (session \<times> server) option" where
  "ctrl_step cfg (EvLoop i) (s, sv) = loop_iteration cfg i s sv"
| "ctrl_step cfg (EvTask n i) (s, sv) = map_option (\<lambda>s'. (s', sv)) (task_event cfg n i s)"
| "ctrl_step cfg (EvPipeRead p n) (s, sv) = map_option (\<lambda>s'. (s', sv)) (pipe_read_event p n s)"
| "ctrl_step cfg (EvRelayData n b ok) (s, sv) = map_option (\<lambda>s'. (s', sv)) (relay_data_event n b ok s)"
| "ctrl_step cfg (EvCleanup ps) (s, sv) =
     (case hs_phase s of
        L_Cleanup k \<Rightarrow>
          (if k = 0 \<and> \<not> (distinct ps \<and> set ps = ran (sm_channels (hs_mux s))) then None
           else Some (cleanup_call ps k s sv))
      | _ \<Rightarrow> None)"
| "ctrl_step cfg (EvOther op) (s, sv) = Some (s, table_step op sv)"

end
