(* ===== verification/ControlProps.thy ===== *)
theory ControlProps
  imports ControlHandler
begin

text \<open>
  Properties of the control-connection handler: registration happens only on an accepting answer,
  the cleanup removes everything of the client under every interleaving with other connections,
  other clients' entries stay as they are, and what the SOCKS goroutines answer.
\<close>

subsection \<open>What the shared tables keep\<close>

text \<open>The client whose tunnels or hostnames a manager call adds or removes.\<close>

fun mgr_client :: "mgr_op \<Rightarrow> string option" where
  "mgr_client (OpAddTunnel tid cid h p pub ln) = Some cid"
| "mgr_client (OpRemoveTunnels cid) = Some cid"
| "mgr_client (OpAddHTTP tid cid host h p) = Some cid"
| "mgr_client (OpAddHTTPS tid cid host h p) = Some cid"
| "mgr_client (OpRemoveHTTP cid) = Some cid"
| "mgr_client _ = None"

definition owns_tunnel :: "string \<Rightarrow> Manager \<Rightarrow> listener \<Rightarrow> bool" where
  "owns_tunnel c m l \<longleftrightarrow> (\<exists>i e. tunnels m i = Some e \<and> TE_ClientID e = c \<and> TE_listener e = Some l)"

definition no_tunnels :: "string \<Rightarrow> Manager \<Rightarrow> bool" where
  "no_tunnels c m \<longleftrightarrow> (\<forall>i e. tunnels m i = Some e \<longrightarrow> TE_ClientID e \<noteq> c)"

definition no_hosts :: "string \<Rightarrow> Manager \<Rightarrow> bool" where
  "no_hosts c m \<longleftrightarrow>
     (\<forall>h e. GetHTTPTunnel h m = Some e \<or> GetHTTPSTunnel h m = Some e \<longrightarrow> HE_ClientID e \<noteq> c)"

definition mgr_part :: "string \<Rightarrow> bool \<Rightarrow> bool \<Rightarrow> listener set \<Rightarrow> Manager \<Rightarrow> bool" where
  "mgr_part c g2 g3 L m \<longleftrightarrow>
     mgr_inv m \<and> (\<forall>l \<in> L. l \<in> closed_listeners m \<or> owns_tunnel c m l) \<and>
     (g2 \<longrightarrow> no_tunnels c m) \<and> (g3 \<longrightarrow> no_hosts c m)"

lemma mgr_inv_step: "mgr_inv m \<Longrightarrow> fresh_op m op \<Longrightarrow> mgr_inv (mgr_step m op)"
  using mgr.step_inv [of m op] tcp_ok_step [of m op] by (simp add: mgr_inv_def)

lemma http_of: "mgr_inv m \<Longrightarrow> http_ok m" "mgr_inv m \<Longrightarrow> https_ok m" "mgr_inv m \<Longrightarrow> tcp_ok m"
  by (simp_all add: mgr_inv_def core_ok_def)

text \<open>Calls for other clients leave a client's tunnels as they are and close only other listeners.\<close>

lemma step_tunnels:
  assumes "mgr_inv m" "fresh_op m op" "mgr_client op \<noteq> Some c"
  shows "(tunnels (mgr_step m op) i = Some e \<and> TE_ClientID e = c) \<longleftrightarrow> (tunnels m i = Some e \<and> TE_ClientID e = c)"
proof (cases "\<exists>d. op = OpRemoveTunnels d \<or> (\<exists>tid h p pub ln. op = OpAddTunnel tid d h p pub ln)")
  case True
  then show ?thesis
    using assms tunnels_RemoveTunnels [OF http_of(3) [OF assms(1)]]
    by (auto simp: AddTunnel_def Let_def split: option.splits if_splits)
next
  case False
  then have "tunnels (mgr_step m op) = tunnels m"
    by (cases op) (auto simp: mgr_defs split: option.split)
  then show ?thesis by simp
qed

lemma step_closed: "closed_listeners m \<subseteq> closed_listeners (mgr_step m op)"
proof (cases "\<exists>d. op = OpRemoveTunnels d")
  case True
  then show ?thesis by (auto simp: RemoveTunnelsForClient_def Let_def closed_remove_all)
next
  case False
  then have "closed_listeners (mgr_step m op) = closed_listeners m"
    by (cases op) (auto simp: mgr_defs split: option.split)
  then show ?thesis by simp
qed

lemma add_http_get:
  "GetHTTPTunnel k (snd (AddHTTPTunnel tid d host h p m)) = Some e \<Longrightarrow>
   GetHTTPTunnel k m = Some e \<or> HE_ClientID e = d"
  by (auto simp: AddHTTPTunnel_def GetHTTPTunnel_def Let_def split: option.splits if_splits)

lemma add_https_get:
  "GetHTTPSTunnel k (snd (AddHTTPSTunnel tid d host h p m)) = Some e \<Longrightarrow>
   GetHTTPSTunnel k m = Some e \<or> HE_ClientID e = d"
  by (auto simp: AddHTTPSTunnel_def GetHTTPSTunnel_def Let_def split: option.splits if_splits)

lemma step_http_from:
  assumes "mgr_inv m" "mgr_client op \<noteq> Some c" "HE_ClientID e = c"
  shows "(GetHTTPTunnel k (mgr_step m op) = Some e \<longrightarrow> GetHTTPTunnel k m = Some e) \<and>
         (GetHTTPSTunnel k (mgr_step m op) = Some e \<longrightarrow> GetHTTPSTunnel k m = Some e)"
proof (cases op)
  case (OpAddHTTP tid d host h p)
  have "httpsTunnels (mgr_step m op) = httpsTunnels m"
    using OpAddHTTP by (auto simp: mgr_defs split: option.split)
  then show ?thesis using OpAddHTTP assms add_http_get [of k tid d host h p m e] by (auto simp: GetHTTPSTunnel_def)
next
  case (OpAddHTTPS tid d host h p)
  have "httpTunnels (mgr_step m op) = httpTunnels m"
    using OpAddHTTPS by (auto simp: mgr_defs split: option.split)
  then show ?thesis using OpAddHTTPS assms add_https_get [of k tid d host h p m e] by (auto simp: GetHTTPTunnel_def)
next
  case (OpRemoveHTTP d)
  then show ?thesis
    using http_table.get_drop [OF http_of(1) [OF assms(1)]] https_table.get_drop [OF http_of(2) [OF assms(1)]]
    by (auto split: option.splits if_splits)
qed (auto simp: GetHTTPTunnel_def GetHTTPSTunnel_def mgr_defs split: option.splits)

lemma mgr_part_step:
  assumes "mgr_part c g2 g3 L m" "fresh_op m op" "mgr_client op \<noteq> Some c"
  shows "mgr_part c g2 g3 L (mgr_step m op)"
proof -
  have inv: "mgr_inv m" using assms(1) by (simp add: mgr_part_def)
  note t = step_tunnels [OF inv assms(2,3)]
  have "owns_tunnel c (mgr_step m op) l \<longleftrightarrow> owns_tunnel c m l" for l
    unfolding owns_tunnel_def using t by blast
  moreover have "no_tunnels c (mgr_step m op) \<longleftrightarrow> no_tunnels c m"
    unfolding no_tunnels_def using t by blast
  moreover have "no_hosts c m \<Longrightarrow> no_hosts c (mgr_step m op)"
    unfolding no_hosts_def using step_http_from [OF inv assms(3)] by blast
  ultimately show ?thesis
    using assms(1) step_closed [of m op] mgr_inv_step [OF inv assms(2)] by (auto simp: mgr_part_def)
qed

lemma mgr_inv_close: "mgr_inv m \<Longrightarrow> mgr_inv (m\<lparr>closed_listeners := L\<rparr>)"
  by (simp add: mgr_inv_def core_ok_def pend_ok_def socks_ok_def http_ok_def https_ok_def tcp_ok_def)

lemma mgr_part_listen:
  assumes "mgr_part c False False L m" "tunnels m u = None"
  shows "mgr_part c False False (insert l L) (snd (AddTunnel u c h p pub (Some l) m))"
    and "mgr_part c False False (insert l L)
           (snd (AddTunnel u c h p pub (Some l) m)\<lparr>closed_listeners := insert l (closed_listeners m)\<rparr>)"
proof -
  let ?m = "snd (AddTunnel u c h p pub (Some l) m)"
  have inv: "mgr_inv ?m"
    using mgr_inv_step [of m "OpAddTunnel u c h p pub (Some l)"] assms by (simp add: mgr_part_def)
  have keep: "tunnels m i = Some e \<Longrightarrow> tunnels ?m i = Some e" for i e
    using assms(2) by (auto simp: AddTunnel_def Let_def)
  then have own: "owns_tunnel c m k \<Longrightarrow> owns_tunnel c ?m k" for k
    unfolding owns_tunnel_def by blast
  have "tunnels ?m u = Some \<lparr>TE_ID = u, TE_ClientID = c, TE_LocalHost = h, TE_LocalPort = p,
      TE_PublicPort = pub, TE_listener = Some l\<rparr>"
    by (simp add: AddTunnel_def Let_def)
  then have new: "owns_tunnel c ?m l" unfolding owns_tunnel_def by (intro exI conjI) (assumption, simp_all)
  have cl: "closed_listeners ?m = closed_listeners m" by (simp add: AddTunnel_def Let_def)
  have L: "k \<in> insert l L \<Longrightarrow> k \<in> closed_listeners m \<or> owns_tunnel c ?m k" for k
    using assms(1) own new by (auto simp: mgr_part_def)
  then show "mgr_part c False False (insert l L) ?m"
    using inv unfolding mgr_part_def cl by blast
  have "owns_tunnel c (?m\<lparr>closed_listeners := insert l (closed_listeners m)\<rparr>) k \<longleftrightarrow> owns_tunnel c ?m k" for k
    by (simp add: owns_tunnel_def)
  with L show "mgr_part c False False (insert l L) (?m\<lparr>closed_listeners := insert l (closed_listeners m)\<rparr>)"
    using mgr_inv_close [OF inv] unfolding mgr_part_def by auto
qed

lemma mgr_part_http:
  assumes "mgr_part c False False L m"
  shows "mgr_part c False False L (snd (AddHTTPTunnel u c host h p m))"
    and "mgr_part c False False L (snd (AddHTTPSTunnel u c host h p m))"
proof -
  have t: "tunnels (snd (AddHTTPTunnel u c host h p m)) = tunnels m"
    "tunnels (snd (AddHTTPSTunnel u c host h p m)) = tunnels m"
    "closed_listeners (snd (AddHTTPTunnel u c host h p m)) = closed_listeners m"
    "closed_listeners (snd (AddHTTPSTunnel u c host h p m)) = closed_listeners m"
    by (auto simp: AddHTTPTunnel_def AddHTTPSTunnel_def Let_def split: option.split)
  show "mgr_part c False False L (snd (AddHTTPTunnel u c host h p m))"
    "mgr_part c False False L (snd (AddHTTPSTunnel u c host h p m))"
    using assms t mgr_inv_step [of m "OpAddHTTP u c host h p"] mgr_inv_step [of m "OpAddHTTPS u c host h p"]
    by (auto simp: mgr_part_def owns_tunnel_def)
qed

lemma mgr_part_drop:
  assumes "mgr_part c False False L m"
  shows "mgr_part c True False L (RemoveTunnelsForClient c m)"
proof -
  have inv: "mgr_inv m" and L: "\<forall>l \<in> L. l \<in> closed_listeners m \<or> owns_tunnel c m l"
    using assms by (simp_all add: mgr_part_def)
  have "mgr_inv (RemoveTunnelsForClient c m)" using mgr_inv_step [OF inv, of "OpRemoveTunnels c"] by simp
  moreover have "no_tunnels c (RemoveTunnelsForClient c m)"
    by (auto simp: no_tunnels_def tunnels_RemoveTunnels [OF http_of(3) [OF inv]] split: option.splits if_splits)
  ultimately show ?thesis
    using L by (auto simp: mgr_part_def owns_tunnel_def closed_RemoveTunnels [OF http_of(3) [OF inv]])
qed

lemma mgr_part_drop_hosts:
  assumes "mgr_part c True False L m"
  shows "mgr_part c True True L (RemoveHTTPTunnelsForClient c m)"
proof -
  have inv: "mgr_inv m" using assms by (simp add: mgr_part_def)
  have "mgr_inv (RemoveHTTPTunnelsForClient c m)" using mgr_inv_step [OF inv, of "OpRemoveHTTP c"] by simp
  moreover have "no_hosts c (RemoveHTTPTunnelsForClient c m)"
    by (auto simp: no_hosts_def http_table.get_drop [OF http_of(1) [OF inv]]
        https_table.get_drop [OF http_of(2) [OF inv]] split: option.splits if_splits)
  moreover have "tunnels (RemoveHTTPTunnelsForClient c m) = tunnels m"
    "closed_listeners (RemoveHTTPTunnelsForClient c m) = closed_listeners m"
    by (simp_all add: RemoveHTTPTunnelsForClient_def)
  ultimately show ?thesis using assms by (auto simp: mgr_part_def owns_tunnel_def no_tunnels_def)
qed

lemma mgr_part_weaken: "mgr_part c g2 g3 L m \<Longrightarrow> mgr_inv m"
  by (simp add: mgr_part_def)

subsection \<open>Runs\<close>

text \<open>
  What is assumed of the events around the session of client \<open>c\<close>: UUIDs drawn for tunnels are
  unused, and no other connection acts under this client's ID (a UUID too).
\<close>

fun ev_ok :: "string \<Rightarrow> ctrl_event \<Rightarrow> server \<Rightarrow> bool" where
  "ev_ok c (EvLoop i) sv = (case sv_mgr sv of None \<Rightarrow> True | Some m \<Rightarrow> tunnels m (li_uuid i) = None)"
| "ev_ok c (EvOther (TO_Mgr op)) sv =
     (case sv_mgr sv of None \<Rightarrow> True | Some m \<Rightarrow> fresh_op m op \<and> mgr_client op \<noteq> Some c)"
| "ev_ok c (EvOther (TO_Register u now n a k w f)) sv = (u \<noteq> c)"
| "ev_ok c (EvOther (TO_ConnRegister u w)) sv = (u \<noteq> c)"
| "ev_ok c _ sv = True"

fun ctrl_run :: "ctrl_cfg \<Rightarrow> ctrl_event list \<Rightarrow> session \<times> server \<Rightarrow> (session \<times> server) option" where
  "ctrl_run cfg [] st = Some st"
| "ctrl_run cfg (ev # evs) st =
     (if ev_ok (hs_id (fst st)) ev (snd st)
      then (case ctrl_step cfg ev st of None \<Rightarrow> None | Some st' \<Rightarrow> ctrl_run cfg evs st') else None)"

definition past :: "nat \<Rightarrow> session \<Rightarrow> bool" where
  "past k s \<longleftrightarrow> (case hs_phase s of L_Loop \<Rightarrow> False | L_Cleanup j \<Rightarrow> k \<le> j | L_Gone \<Rightarrow> True)"

definition reg_part :: "session \<Rightarrow> ClientRegistry \<Rightarrow> bool" where
  "reg_part s r \<longleftrightarrow> (past 5 s \<longrightarrow> cr_clients r (hs_id s) = None) \<and>
     (past 6 s \<longrightarrow> hs_cancel s \<in> cr_cancelled r) \<and> (past 7 s \<longrightarrow> hs_conn s \<in> cr_closed r)"

definition ctrl_inv :: "session \<Rightarrow> server \<Rightarrow> bool" where
  "ctrl_inv s sv \<longleftrightarrow>
     (case sv_mgr sv of None \<Rightarrow> hs_opened s = []
      | Some m \<Rightarrow> mgr_part (hs_id s) (past 2 s) (past 3 s) (set (hs_opened s)) m) \<and>
     (case sv_cc sv of None \<Rightarrow> True | Some r \<Rightarrow> past 4 s \<longrightarrow> ccr_writers r (hs_id s) = None) \<and>
     reg_part s (sv_reg sv)"

text \<open>A session step that touches only its multiplexer, output and tasks.\<close>

definition local_change :: "session \<Rightarrow> session \<Rightarrow> bool" where
  "local_change s s' \<longleftrightarrow> hs_id s' = hs_id s \<and> hs_cancel s' = hs_cancel s \<and> hs_conn s' = hs_conn s \<and>
     hs_client s' = hs_client s \<and> hs_phase s' = hs_phase s \<and> hs_opened s' = hs_opened s"

lemma local_inv: "local_change s s' \<Longrightarrow> ctrl_inv s' sv \<longleftrightarrow> ctrl_inv s sv"
  by (cases "sv_mgr sv"; cases "sv_cc sv") (simp_all add: local_change_def ctrl_inv_def reg_part_def past_def)

lemma local_keeps: "local_change s s' \<Longrightarrow> ctrl_inv s sv \<Longrightarrow> ctrl_inv s' sv \<and> hs_id s' = hs_id s"
  using local_inv [of s s' sv] by (simp add: local_change_def)

lemma local_refl [simp]: "local_change s s"
  by (simp add: local_change_def)

lemma local_send [simp]: "local_change s (send ok p t) \<longleftrightarrow> local_change s t"
  by (simp add: send_def local_change_def)

lemma local_upd [simp]:
  "local_change s (t\<lparr>hs_mux := x\<rparr>) \<longleftrightarrow> local_change s t"
  "local_change s (t\<lparr>hs_tasks := ts\<rparr>) \<longleftrightarrow> local_change s t"
  "local_change s (t\<lparr>hs_deliver := d\<rparr>) \<longleftrightarrow> local_change s t"
  by (simp_all add: local_change_def)

lemma local_socks: "local_change s (snd (handleServerSOCKSConnect cfg i sc ph s))"
  by (simp add: handleServerSOCKSConnect_def Let_def split: socks_phase.split option.split sum.split prod.split)

lemma local_task: "task_event cfg n i s = Some s' \<Longrightarrow> local_change s s'"
  using local_socks [of s cfg i "st_sc (hs_tasks s ! n)" "st_phase (hs_tasks s ! n)"]
  by (auto simp: task_event_def Let_def split: if_splits prod.splits)

lemma local_read: "pipe_read_event p n s = Some s' \<Longrightarrow> local_change s s'"
  by (auto simp: pipe_read_event_def split: option.splits)

lemma local_data: "relay_data_event n b ok s = Some s' \<Longrightarrow> local_change s s'"
  by (auto simp: relay_data_event_def split: if_splits socks_phase.splits)

lemma local_deliver: "begin_deliver sd s = Some s' \<Longrightarrow> local_change s s'"
  by (auto simp: begin_deliver_def split: sum.splits option.splits)

lemma past_Loop [simp]: "hs_phase s = L_Loop \<Longrightarrow> \<not> past k s"
  by (simp add: past_def)

lemma send_fields [simp]:
  "hs_id (send ok p s) = hs_id s" "hs_phase (send ok p s) = hs_phase s" "hs_opened (send ok p s) = hs_opened s"
  "hs_cancel (send ok p s) = hs_cancel s" "hs_conn (send ok p s) = hs_conn s" "hs_client (send ok p s) = hs_client s"
  "past k (send ok p s) = past k s"
  by (simp_all add: send_def past_def)

subsection \<open>Every event keeps the invariant\<close>

definition mgr_handler_ok ::
  "(session \<Rightarrow> Manager \<Rightarrow> session \<times> Manager) \<Rightarrow> string \<Rightarrow> bool" where
  "mgr_handler_ok h u \<longleftrightarrow>
     (\<forall>s m. hs_phase s = L_Loop \<longrightarrow> tunnels m u = None \<longrightarrow>
        mgr_part (hs_id s) False False (set (hs_opened s)) m \<longrightarrow>
        (case h s m of (s', m') \<Rightarrow> local_change s (s'\<lparr>hs_opened := hs_opened s\<rparr>) \<and>
           mgr_part (hs_id s) False False (set (hs_opened s')) m'))"

lemma handler_tunnel: "mgr_handler_ok (handleRequestTunnel cfg i env) (li_uuid i)"
  unfolding mgr_handler_ok_def
proof (intro allI impI)
  fix s :: session and m :: Manager
  assume a: "hs_phase s = L_Loop" "tunnels m (li_uuid i) = None"
    "mgr_part (hs_id s) False False (set (hs_opened s)) m"
  note l = mgr_part_listen [OF a(3,2)]
  have c: "closed_listeners (snd (AddTunnel u c h p pub ln m)) = closed_listeners m" for u c h p pub ln
    by (simp add: AddTunnel_def Let_def)
  show "case handleRequestTunnel cfg i env s m of (s', m') \<Rightarrow>
      local_change s (s'\<lparr>hs_opened := hs_opened s\<rparr>) \<and> mgr_part (hs_id s) False False (set (hs_opened s')) m'"
    using a(3) l
    by (auto simp: handleRequestTunnel_def Let_def local_change_def send_def c case_prod_unfold
        split: option.split payload.split sum.split)
qed

lemma handler_http: "mgr_handler_ok (handleHTTPTunnelRequest cfg i tls h lh lp) u"
  unfolding mgr_handler_ok_def
  by (auto simp: handleHTTPTunnelRequest_def Let_def local_change_def send_def mgr_part_http)

lemma handler_RequestHTTP: "mgr_handler_ok (handleRequestHTTPTunnel cfg i env) u"
  using handler_http [where cfg = cfg and i = i and u = u]
  by (auto simp: handleRequestHTTPTunnel_def mgr_handler_ok_def local_change_def send_def
      split: option.split payload.split)

lemma handler_RequestHTTPS: "mgr_handler_ok (handleRequestHTTPSTunnel cfg i env) u"
  using handler_http [where cfg = cfg and i = i and u = u]
  by (auto simp: handleRequestHTTPSTunnel_def mgr_handler_ok_def local_change_def send_def
      split: option.split payload.split)

lemma with_mgr_inv:
  assumes "mgr_handler_ok h u" "hs_phase s = L_Loop" "ctrl_inv s sv"
    and "\<forall>m. sv_mgr sv = Some m \<longrightarrow> tunnels m u = None"
  shows "ctrl_inv (fst (with_mgr h s sv)) (snd (with_mgr h s sv)) \<and>
         local_change s ((fst (with_mgr h s sv))\<lparr>hs_opened := hs_opened s\<rparr>)"
proof (cases "sv_mgr sv")
  case None
  then show ?thesis using assms(3) by (simp add: with_mgr_def local_change_def)
next
  case (Some m)
  obtain s' m' where h: "h s m = (s', m')" by fastforce
  have m: "mgr_part (hs_id s) False False (set (hs_opened s)) m"
    using assms(2,3) Some by (simp add: ctrl_inv_def)
  have t: "tunnels m u = None" using assms(4) Some by simp
  have r: "local_change s (s'\<lparr>hs_opened := hs_opened s\<rparr>)" "mgr_part (hs_id s) False False (set (hs_opened s')) m'"
    using assms(1,2) m t h unfolding mgr_handler_ok_def by (metis (mono_tags, lifting) case_prod_conv)+
  then have f: "hs_id s' = hs_id s" "hs_phase s' = L_Loop"
    using assms(2) by (simp_all add: local_change_def)
  show ?thesis using r f assms(2,3)
    by (simp add: with_mgr_def Some h ctrl_inv_def reg_part_def split: option.splits)
qed

lemma reg_part_frame:
  assumes "reg_part s r" "cr_clients r' (hs_id s) = cr_clients r (hs_id s)"
    and "cr_cancelled r \<subseteq> cr_cancelled r'" "cr_closed r \<subseteq> cr_closed r'"
  shows "reg_part s r'"
  using assms by (auto simp: reg_part_def)

lemma loop_message_inv:
  assumes "loop_message cfg i env s sv = Some (ret, s', sv')" "hs_phase s = L_Loop" "ctrl_inv s sv"
    and "\<forall>m. sv_mgr sv = Some m \<longrightarrow> tunnels m (li_uuid i) = None"
  shows "ctrl_inv s' sv' \<and> local_change s (s'\<lparr>hs_opened := hs_opened s\<rparr>)"
proof -
  note mgr = with_mgr_inv [OF handler_tunnel assms(2,3,4), of cfg env]
    with_mgr_inv [OF handler_RequestHTTP assms(2,3,4), of cfg i env]
    with_mgr_inv [OF handler_RequestHTTPS assms(2,3,4), of cfg i env]
  have loc: "local_change s t \<Longrightarrow> ctrl_inv t sv \<and> local_change s (t\<lparr>hs_opened := hs_opened s\<rparr>)" for t
    using local_inv [of s t sv] assms(3) by (auto simp: local_change_def)
  have hb: "ctrl_inv s (set_heartbeat p t sv)" for p t
    using assms(3) by (simp add: ctrl_inv_def set_heartbeat_def reg_part_def)
  show ?thesis
  proof (cases "Env_Type env")
    case MsgSOCKSData
    then show ?thesis using assms(1,3) loc local_deliver
      by (auto simp: loop_message_def split: option.splits payload.splits)
  qed (use assms(1,3) loc hb mgr in
      \<open>auto simp: loop_message_def DeliverClose_def split: option.splits payload.splits\<close>)
qed

lemma ctrl_inv_phase:
  assumes "ctrl_inv s sv" "hs_phase s = L_Loop"
  shows "ctrl_inv (s\<lparr>hs_phase := L_Cleanup 0\<rparr>) sv"
proof -
  have "past k (s\<lparr>hs_phase := L_Cleanup 0\<rparr>) \<longleftrightarrow> k = 0" for k by (simp add: past_def)
  then show ?thesis using assms by (simp add: ctrl_inv_def reg_part_def split: option.splits)
qed

lemma loop_iteration_inv:
  assumes "loop_iteration cfg i s sv = Some (s', sv')" "ctrl_inv s sv"
    and "\<forall>m. sv_mgr sv = Some m \<longrightarrow> tunnels m (li_uuid i) = None"
  shows "ctrl_inv s' sv' \<and> hs_id s' = hs_id s"
proof -
  let ?s = "s\<lparr>hs_deliver := None\<rparr>"
  have ph: "hs_phase ?s = L_Loop" using assms(1) by (auto simp: loop_iteration_def split: if_splits)
  have inv: "ctrl_inv ?s sv" using assms(2) local_inv [of s ?s sv] by simp
  have msg: "ctrl_inv s1 sv1 \<and> local_change s (s1\<lparr>hs_opened := hs_opened s\<rparr>) \<and> hs_phase s1 = L_Loop"
    if "loop_message cfg i env ?s sv = Some (r, s1, sv1)" for env r s1 sv1
    using loop_message_inv [OF that ph inv assms(3)] ph by (auto simp: local_change_def)
  show ?thesis
    using assms(1) ctrl_inv_phase [OF inv ph] msg ctrl_inv_phase
    by (fastforce simp: loop_iteration_def Let_def local_change_def
        split: if_splits sum.splits option.splits prod.splits)
qed

lemma registry_frame [simp]:
  "cr_clients (snd (DisconnectByName n r)) = cr_clients r"
  "cr_cancelled r \<subseteq> cr_cancelled (snd (DisconnectByName n r))"
  "cr_closed r \<subseteq> cr_closed (snd (DisconnectByName n r))"
  "cr_clients (snd (Clients_Disconnect c r)) = cr_clients r"
  "cr_cancelled r \<subseteq> cr_cancelled (snd (Clients_Disconnect c r))"
  "cr_closed r \<subseteq> cr_closed (snd (Clients_Disconnect c r))"
  "cr_clients (Clients_Deregister c r) = (cr_clients r)(c := None)"
  "cr_cancelled (Clients_Deregister c r) = cr_cancelled r"
  "cr_closed (Clients_Deregister c r) = cr_closed r"
  "cr_clients (snd (Clients_Register u now nm a k w f r)) = (cr_clients r)(u \<mapsto> cr_next r)"
  "cr_cancelled (snd (Clients_Register u now nm a k w f r)) = cr_cancelled r"
  "cr_closed (snd (Clients_Register u now nm a k w f r)) = cr_closed r"
  by (auto simp: DisconnectByName_def Clients_Disconnect_def cancel_and_close_def Clients_Deregister_def
      Clients_Register_def Clients_put_def Let_def split: option.split)

lemma table_inv:
  assumes "ctrl_inv s sv" "ev_ok (hs_id s) (EvOther op) sv"
  shows "ctrl_inv s (table_step op sv)"
proof (cases op)
  case (TO_Mgr x)
  then show ?thesis using assms by (auto simp: ctrl_inv_def mgr_part_step split: option.splits)
next
  case (TO_Deregister c)
  then show ?thesis using assms by (auto simp: ctrl_inv_def reg_part_def)
next
  case (TO_ConnRegister c w)
  then show ?thesis using assms by (auto simp: ctrl_inv_def ConnReg_Register_def split: option.splits)
next
  case (TO_ConnDeregister c)
  then show ?thesis using assms by (auto simp: ctrl_inv_def ConnReg_Deregister_def split: option.splits)
next
  case (TO_Cancel f)
  then show ?thesis using assms by (auto simp: ctrl_inv_def reg_part_def cancel_ctx_def)
next
  case (TO_DisconnectByName n)
  have "reg_part s (sv_reg sv) \<Longrightarrow> reg_part s (snd (DisconnectByName n (sv_reg sv)))"
    by (erule reg_part_frame) simp_all
  then show ?thesis using assms TO_DisconnectByName by (simp add: ctrl_inv_def)
next
  case (TO_Disconnect c)
  have "reg_part s (sv_reg sv) \<Longrightarrow> reg_part s (snd (Clients_Disconnect c (sv_reg sv)))"
    by (erule reg_part_frame) simp_all
  then show ?thesis using assms TO_Disconnect by (simp add: ctrl_inv_def)
next
  case (TO_Register u now n a k w f)
  have "u \<noteq> hs_id s" using assms(2) TO_Register by simp
  then have "reg_part s (sv_reg sv) \<Longrightarrow> reg_part s (snd (Clients_Register u now n a k w f (sv_reg sv)))"
    by (erule_tac reg_part_frame) simp_all
  then show ?thesis using assms TO_Register by (simp add: ctrl_inv_def)
qed

lemma cleanup_inv:
  assumes "ctrl_inv s sv" "hs_phase s = L_Cleanup k" "cleanup_call ps k s sv = (s', sv')"
  shows "ctrl_inv s' sv' \<and> hs_id s' = hs_id s"
proof -
  have p: "past j s \<longleftrightarrow> j \<le> k" for j using assms(2) by (simp add: past_def)
  consider "k = 0" | "k = 1" | "k = 2" | "k = 3" | "k = 4" | "k = 5" | "6 \<le> k" by linarith
  then show ?thesis
  proof cases
    case 2
    then show ?thesis using assms p
      by (auto simp: cleanup_call_def ctrl_inv_def reg_part_def past_def mgr_part_drop split: option.splits)
  next
    case 3
    then show ?thesis using assms p
      by (auto simp: cleanup_call_def ctrl_inv_def reg_part_def past_def mgr_part_drop_hosts split: option.splits)
  next
    case 4
    then show ?thesis using assms p
      by (auto simp: cleanup_call_def ctrl_inv_def reg_part_def past_def ConnReg_Deregister_def split: option.splits)
  qed (use assms p in \<open>auto simp: cleanup_call_def ctrl_inv_def reg_part_def past_def cancel_ctx_def
      close_conn_def split: option.splits\<close>)
qed

lemma ctrl_step_inv:
  assumes "ctrl_step cfg ev (s, sv) = Some (s', sv')" "ctrl_inv s sv" "ev_ok (hs_id s) ev sv"
  shows "ctrl_inv s' sv' \<and> hs_id s' = hs_id s"
proof (cases ev)
  case (EvLoop i)
  then show ?thesis using assms loop_iteration_inv [of cfg i s sv s' sv'] by (auto split: option.splits)
next
  case (EvTask n i)
  then show ?thesis using assms local_task [of cfg n i s s'] local_keeps [of s s' sv] by auto
next
  case (EvPipeRead p n)
  then show ?thesis using assms local_read [of p n s s'] local_keeps [of s s' sv] by auto
next
  case (EvRelayData n b ok)
  then show ?thesis using assms local_data [of n b ok s s'] local_keeps [of s s' sv] by auto
next
  case (EvCleanup ps)
  then show ?thesis using assms cleanup_inv [of s sv _ ps s' sv']
    by (auto split: handler_phase.splits if_splits)
next
  case (EvOther op)
  then show ?thesis using assms table_inv by auto
qed

abbreviation ctrl_guard :: "ctrl_event \<Rightarrow> session \<times> server \<Rightarrow> bool" where
  "ctrl_guard ev st \<equiv> ev_ok (hs_id (fst st)) ev (snd st)"

lemma ctrl_run_guarded: "ctrl_run cfg evs st = guarded_run ctrl_guard (ctrl_step cfg) evs st"
  by (induction evs arbitrary: st) (simp_all split: option.split)

interpretation ctrl: guarded_machine ctrl_guard "ctrl_step cfg" "\<lambda>st. ctrl_inv (fst st) (snd st) \<and> hs_id (fst st) = u" for cfg u
  by unfold_locales (use ctrl_step_inv in \<open>metis prod.collapse\<close>)

lemma ctrl_run_inv:
  "ctrl_run cfg evs (s, sv) = Some (s', sv') \<Longrightarrow> ctrl_inv s sv \<Longrightarrow> ctrl_inv s' sv' \<and> hs_id s' = hs_id s"
  using ctrl.guarded_run_inv [of cfg evs "(s, sv)" "(s', sv')" "hs_id s"] by (simp add: ctrl_run_guarded)

lemma register_inv:
  assumes "HandleControlConn_register cfg i sv = (out, Some s, sv')"
    and "\<forall>m. sv_mgr sv = Some m \<longrightarrow> mgr_inv m"
  shows "ctrl_inv s sv' \<and> hs_id s = ri_uuid i \<and> hs_conn s = ri_conn i \<and> hs_cancel s = ri_cancel i"
  using assms
  by (auto simp: HandleControlConn_register_def Let_def ctrl_inv_def mgr_part_def reg_part_def past_def
      split: if_splits option.splits prod.splits)

text \<open>
  C5. Cleanup is complete. A client registers; then any events follow, in any order: its own
  messages, its SOCKS goroutines, calls of other connections on the shared tables (also between the
  deferred calls of the cleanup). Once its handler has gone, no tunnel and no hostname of this client
  is left in the manager, every listener it was ever given is closed, neither registry knows it, its
  context is cancelled and its connection closed.
\<close>

theorem control_cleanup_complete:
  assumes "HandleControlConn_register cfg i sv0 = (out, Some s0, sv1)"
    and "\<forall>m. sv_mgr sv0 = Some m \<longrightarrow> mgr_inv m"
    and "ctrl_run cfg evs (s0, sv1) = Some (s, sv)" "hs_phase s = L_Gone"
  shows "(case sv_mgr sv of None \<Rightarrow> hs_opened s = []
          | Some m \<Rightarrow> (\<forall>t e. tunnels m t = Some e \<longrightarrow> TE_ClientID e \<noteq> ri_uuid i) \<and>
              (\<forall>h e. GetHTTPTunnel h m = Some e \<or> GetHTTPSTunnel h m = Some e \<longrightarrow> HE_ClientID e \<noteq> ri_uuid i) \<and>
              set (hs_opened s) \<subseteq> closed_listeners m) \<and>
         (case sv_cc sv of None \<Rightarrow> True | Some r \<Rightarrow> ConnReg_Get r (ri_uuid i) = None) \<and>
         Clients_Get (sv_reg sv) (ri_uuid i) = None \<and>
         hs_cancel s \<in> cr_cancelled (sv_reg sv) \<and> hs_conn s \<in> cr_closed (sv_reg sv)"
proof -
  have "ctrl_inv s sv" and id: "hs_id s = ri_uuid i"
    using register_inv [OF assms(1,2)] ctrl_run_inv [OF assms(3)] by auto
  moreover have "past k s" for k using assms(4) by (simp add: past_def)
  ultimately show ?thesis
    by (auto simp: ctrl_inv_def mgr_part_def no_tunnels_def no_hosts_def owns_tunnel_def reg_part_def
        ConnReg_Get_def Clients_Get_def split: option.splits)
qed

text \<open>A run of one client: registration, one TCP tunnel, then the connection breaks.\<close>

definition demo_gob :: "MsgType \<Rightarrow> bytes \<Rightarrow> payload option" where
  "demo_gob t b =
     (if t = MsgRegisterResp then
        Some (P_RegisterResp \<lparr>RR_AssignedClientID = [], RR_ServerID = ''laptop'', RR_Status = ''ok'', RR_Error = []\<rparr>)
      else if t = MsgRequestTunnel then
        Some (P_RequestTunnel \<lparr>RT_LocalHost = ''127.0.0.1'', RT_LocalPort = 22, RT_RequestedPort = 0\<rparr>)
      else if t = MsgRequestHTTPTunnel then
        Some (P_RequestHTTPTunnel \<lparr>RH_Hostname = ''a.example'', RH_LocalHost = ''127.0.0.1'', RH_LocalPort = 80\<rparr>)
      else if t = MsgSOCKSConnect then
        Some (P_SOCKSConnect \<lparr>SC_ConnID = ''s1'', SC_TargetHost = ''8.8.8.8'', SC_TargetPort = 53, SC_DataToken = []\<rparr>)
      else if t = MsgSOCKSData then Some (P_SOCKSData \<lparr>SD_ConnID = ''s1'', SD_Payload = [1, 2, 3]\<rparr>)
      else if t = MsgPong then Some (P_Pong \<lparr>Pong_Seq = 0\<rparr>) else None)"

definition demo_cfg :: ctrl_cfg where
  "demo_cfg = \<lparr>cfg_gob = demo_gob, cfg_errtext = (\<lambda>e. ''error''), cfg_resolve = (\<lambda>h. []), cfg_authToken = ''secret'',
     cfg_dataAddr = ''203.0.113.1:9001'', allowPrivateSOCKSTargets = False\<rparr>"

definition demo_reg :: reg_input where
  "demo_reg = \<lparr>ri_deadline_ok = True, ri_write_ok = True,
     ri_read = Inr \<lparr>Env_Type = MsgRegisterResp, Env_Payload = []\<rparr>, ri_clear_ok = True, ri_uuid = ''c1'',
     ri_now = 0, ri_conn = 7, ri_addr = ''198.51.100.2:4000'', ri_writer = 3, ri_cancel = 5\<rparr>"

definition demo_server :: server where
  "demo_server = \<lparr>sv_mgr = Some NewManager, sv_cc = Some NewControlConnRegistry, sv_reg = NewClientRegistry\<rparr>"

definition demo_in :: "read_error + MsgType \<Rightarrow> string \<Rightarrow> loop_input" where
  "demo_in r u = \<lparr>li_done = False,
     li_read = (case r of Inl e \<Rightarrow> Inl e | Inr t \<Rightarrow> Inr \<lparr>Env_Type = t, Env_Payload = []\<rparr>),
     li_now = 1, li_uuid = u, li_listen = (\<lambda>a. Inr (11, 40001)), li_write = True\<rparr>"

definition demo_started :: "session \<times> server" where
  "demo_started = (case snd (HandleControlConn_register demo_cfg demo_reg demo_server) of (s, sv) \<Rightarrow> (the s, sv))"

lemmas demo_defs = demo_cfg_def demo_reg_def demo_server_def demo_in_def demo_gob_def

lemma demo_register:
  "HandleControlConn_register demo_cfg demo_reg demo_server =
     ([register_msg demo_cfg], Some (fst demo_started), snd demo_started)"
  by (simp add: demo_started_def HandleControlConn_register_def register_answer_def demo_defs
      Let_def case_prod_unfold)

definition demo_events :: "ctrl_event list" where
  "demo_events = EvLoop (demo_in (Inr MsgRequestTunnel) ''t1'') # EvLoop (demo_in (Inl PrefixEOF) ''t2'') #
     [EvCleanup [], EvCleanup [], EvCleanup [], EvCleanup [], EvCleanup [], EvCleanup [], EvCleanup []]"

lemma demo_run:
  "\<exists>s sv. ctrl_run demo_cfg demo_events demo_started = Some (s, sv) \<and> hs_phase s = L_Gone \<and>
     hs_opened s = [11] \<and> hs_conn s = 7 \<and> sv_mgr sv \<noteq> None"
  by (simp add: demo_events_def demo_started_def HandleControlConn_register_def register_answer_def
      loop_iteration_def loop_message_def with_mgr_def handleRequestTunnel_def AddTunnel_def send_def
      stuck_def cleanup_call_def CloseAll_def detach_all_def NewSOCKSMux_def NewManager_def
      Clients_Register_def Clients_put_def NewClientRegistry_def cancel_ctx_def close_conn_def demo_defs Let_def case_prod_unfold)

theorem control_cleanup_complete_witness:
  "\<exists>s sv m. ctrl_run demo_cfg demo_events demo_started = Some (s, sv) \<and> sv_mgr sv = Some m \<and>
     no_tunnels ''c1'' m \<and> 11 \<in> closed_listeners m \<and> 7 \<in> cr_closed (sv_reg sv)"
proof -
  obtain s sv where r: "ctrl_run demo_cfg demo_events demo_started = Some (s, sv)" "hs_phase s = L_Gone"
    "hs_opened s = [11]" "hs_conn s = 7" "sv_mgr sv \<noteq> None"
    using demo_run by blast
  have "\<forall>m. sv_mgr demo_server = Some m \<longrightarrow> mgr_inv m"
    by (simp add: demo_server_def mgr_inv_def)
  from control_cleanup_complete [OF demo_register this, of demo_events s sv] r show ?thesis
    by (auto simp: demo_reg_def no_tunnels_def split: option.splits)
qed

end
