(* ===== verification/ControlSocks.thy ===== *)
theory ControlSocks
  imports ControlProps
begin

text \<open>
  More of the control-connection handler: what the goroutines of the SOCKS requests answer and
  leave behind, what other clients keep while a handler runs, and the two places where the
  handler's answer or progress is not what it should be.
\<close>

subsection \<open>Counting\<close>

definition count :: "('a \<Rightarrow> bool) \<Rightarrow> 'a list \<Rightarrow> nat" where
  "count P xs = length (filter P xs)"

lemma count_append [simp]: "count P (xs @ ys) = count P xs + count P ys"
  by (simp add: count_def)

lemma count_Cons [simp]: "count P (x # xs) = (if P x then 1 else 0) + count P xs"
  by (simp add: count_def)

lemma count_Nil [simp]: "count P [] = 0"
  by (simp add: count_def)

lemma count_update:
  "n < length xs \<Longrightarrow>
   count P (xs[n := x]) + (if P (xs ! n) then 1 else 0) = count P xs + (if P x then 1 else 0)"
proof (induction xs arbitrary: n)
  case Nil
  then show ?case by simp
next
  case (Cons y ys)
  then show ?case by (cases n) auto
qed

text \<open>The answers for one connection ID, the requests for it, and those not answered yet.\<close>

fun is_answer :: "string \<Rightarrow> payload \<Rightarrow> bool" where
  "is_answer c (P_SOCKSReady r) \<longleftrightarrow> SR_ConnID r = c"
| "is_answer c _ \<longleftrightarrow> False"

definition is_request :: "string \<Rightarrow> socks_task \<Rightarrow> bool" where
  "is_request c t \<longleftrightarrow> SC_ConnID (st_sc t) = c"

fun before_answer :: "socks_phase \<Rightarrow> bool" where
  "before_answer T_Start \<longleftrightarrow> True"
| "before_answer (T_Dial p) \<longleftrightarrow> True"
| "before_answer _ \<longleftrightarrow> False"

definition is_waiting :: "string \<Rightarrow> socks_task \<Rightarrow> bool" where
  "is_waiting c t \<longleftrightarrow> is_request c t \<and> before_answer (st_phase t)"

text \<open>A goroutine between its \<open>NewChannel\<close> and its last \<open>Remove\<close>.\<close>

fun holds_channel :: "socks_phase \<Rightarrow> bool" where
  "holds_channel (T_Dial p) \<longleftrightarrow> True"
| "holds_channel (T_Relay p) \<longleftrightarrow> True"
| "holds_channel T_Defer \<longleftrightarrow> True"
| "holds_channel _ \<longleftrightarrow> False"

text \<open>
  A successful answer is backed by a valid target and by one of the addresses the target stands for
  that the egress guard permits.
\<close>

definition reached :: "ctrl_cfg \<Rightarrow> SOCKSConnect \<Rightarrow> bool" where
  "reached cfg sc \<longleftrightarrow> ValidateTarget (SC_TargetHost sc) (SC_TargetPort sc) 1 = None \<and>
     (\<exists>ip \<in> set (targets (cfg_resolve cfg) (SC_TargetHost sc) (SC_TargetPort sc)). permitted (allowPrivateSOCKSTargets cfg) ip)"

definition backed :: "ctrl_cfg \<Rightarrow> socks_task list \<Rightarrow> payload \<Rightarrow> bool" where
  "backed cfg ts p \<longleftrightarrow>
     (\<forall>r. p = P_SOCKSReady r \<longrightarrow> SR_Success r \<longrightarrow>
        (\<exists>t \<in> set ts. is_request (SR_ConnID r) t \<and> reached cfg (st_sc t)))"

fun phase_valid :: "socks_task \<Rightarrow> bool" where
  "phase_valid t \<longleftrightarrow>
     (\<forall>p. st_phase t = T_Dial p \<longrightarrow> ValidateTarget (SC_TargetHost (st_sc t)) (SC_TargetPort (st_sc t)) 1 = None)"

definition socks_inv :: "ctrl_cfg \<Rightarrow> bool \<Rightarrow> session \<Rightarrow> bool" where
  "socks_inv cfg strict s \<longleftrightarrow>
     (\<forall>c. count (is_answer c) (hs_out s) + count (is_waiting c) (hs_tasks s) \<le> count (is_request c) (hs_tasks s)) \<and>
     (strict \<longrightarrow> (\<forall>c. count (is_answer c) (hs_out s) + count (is_waiting c) (hs_tasks s) = count (is_request c) (hs_tasks s))) \<and>
     (\<forall>c p. sm_channels (hs_mux s) c = Some p \<longrightarrow> (\<exists>t \<in> set (hs_tasks s). is_request c t \<and> holds_channel (st_phase t))) \<and>
     (\<forall>t \<in> set (hs_tasks s). phase_valid t) \<and>
     (\<forall>p \<in> set (hs_out s). backed cfg (hs_tasks s) p)"

subsection \<open>Steps that answer nothing\<close>

definition quiet :: "session \<Rightarrow> session \<Rightarrow> bool" where
  "quiet s s' \<longleftrightarrow> hs_tasks s' = hs_tasks s \<and>
     (\<forall>c p. sm_channels (hs_mux s') c = Some p \<longrightarrow> sm_channels (hs_mux s) c = Some p) \<and>
     (\<exists>ps. hs_out s' = hs_out s @ ps \<and> (\<forall>p \<in> set ps. \<forall>c. \<not> is_answer c p))"

lemma count_none: "\<forall>p \<in> set ps. \<not> P p \<Longrightarrow> count P ps = 0"
  by (induction ps) auto

lemma backed_quiet: "\<forall>c. \<not> is_answer c p \<Longrightarrow> backed cfg ts p"
  by (auto simp: backed_def)

lemma quiet_inv: "quiet s s' \<Longrightarrow> socks_inv cfg b s \<Longrightarrow> socks_inv cfg b s'"
  by (auto simp: quiet_def socks_inv_def count_none backed_quiet)

lemma quiet_refl [simp]: "quiet s s"
  by (simp add: quiet_def)

lemma quiet_send: "\<forall>c. \<not> is_answer c p \<Longrightarrow> quiet s (send ok p s)"
  by (auto simp: quiet_def send_def)

lemma quiet_trans: "quiet s t \<Longrightarrow> quiet t u \<Longrightarrow> quiet s u"
  unfolding quiet_def by (auto 0 3)

lemma quiet_fields [simp]:
  "quiet s (t\<lparr>hs_phase := x\<rparr>) \<longleftrightarrow> quiet s t"
  "quiet s (t\<lparr>hs_deliver := d\<rparr>) \<longleftrightarrow> quiet s t"
  "quiet s (t\<lparr>hs_opened := ls\<rparr>) \<longleftrightarrow> quiet s t"
  "quiet s (t\<lparr>hs_listening := es\<rparr>) \<longleftrightarrow> quiet s t"
  "quiet (t\<lparr>hs_deliver := d\<rparr>) s \<longleftrightarrow> quiet t s"
  "quiet (t\<lparr>hs_opened := ls\<rparr>) s \<longleftrightarrow> quiet t s"
  by (simp_all add: quiet_def)

lemma channels_Remove: "sm_channels (Mux_Remove c m) = (sm_channels m)(c := None)"
  by (auto simp: Mux_Remove_def detach_def finish_close_def split: option.split)

lemma channels_CloseAll: "sm_channels (CloseAll ps m) = Map.empty"
proof -
  have "sm_channels (foldl (\<lambda>m p. finish_close p m) m ps) = sm_channels m" for m
    by (induction ps arbitrary: m) (simp_all add: finish_close_def)
  then show ?thesis by (simp add: CloseAll_def detach_all_def)
qed

lemma quiet_mux:
  "\<forall>c p. sm_channels m c = Some p \<longrightarrow> sm_channels (hs_mux s) c = Some p \<Longrightarrow> quiet s (s\<lparr>hs_mux := m\<rparr>)"
  by (simp add: quiet_def)

lemma quiet_Remove: "quiet s (s\<lparr>hs_mux := Mux_Remove c (hs_mux s)\<rparr>)"
  by (rule quiet_mux) (simp add: channels_Remove)

lemma quiet_deliver: "begin_deliver sd s = Some s' \<Longrightarrow> quiet s s'"
  by (auto simp: begin_deliver_def intro!: quiet_mux split: sum.splits option.splits)

lemma quiet_read: "pipe_read_event p n s = Some s' \<Longrightarrow> quiet s s'"
  by (auto simp: pipe_read_event_def intro!: quiet_mux split: option.splits)

lemma quiet_data: "relay_data_event n b ok s = Some s' \<Longrightarrow> quiet s s'"
  by (auto simp: relay_data_event_def data_frame_def intro!: quiet_send split: if_splits socks_phase.splits)

lemma quiet_cleanup: "cleanup_call ps k s sv = (s', sv') \<Longrightarrow> quiet s s'"
  by (auto simp: cleanup_call_def channels_CloseAll intro!: quiet_mux split: if_splits)

lemma quiet_requests:
  "quiet s (fst (handleRequestTunnel cfg i env s m))"
  "quiet s (fst (handleRequestHTTPTunnel cfg i env s m))"
  "quiet s (fst (handleRequestHTTPSTunnel cfg i env s m))"
  by (auto simp: handleRequestTunnel_def handleRequestHTTPTunnel_def handleRequestHTTPSTunnel_def
      handleHTTPTunnelRequest_def Let_def case_prod_unfold tunnel_error_def http_tunnel_error_def quiet_send
      intro: quiet_trans [OF _ quiet_send] split: option.split payload.split sum.split)

lemma quiet_with_mgr: "(\<And>m. quiet s (fst (h s m))) \<Longrightarrow> quiet s (fst (with_mgr h s sv))"
  by (auto simp: with_mgr_def case_prod_unfold split: option.split)

text \<open>A message either changes nothing of the SOCKS requests, or adds one.\<close>

lemma loop_message_socks:
  assumes "loop_message cfg i env s sv = Some (r, s', sv')"
  shows "quiet s s' \<or> (\<exists>sc. s' = s\<lparr>hs_tasks := hs_tasks s @ [\<lparr>st_sc = sc, st_phase = T_Start\<rparr>]\<rparr>)"
proof -
  have m: "quiet s (fst (with_mgr (handleRequestTunnel cfg i env) s sv))"
    "quiet s (fst (with_mgr (handleRequestHTTPTunnel cfg i env) s sv))"
    "quiet s (fst (with_mgr (handleRequestHTTPSTunnel cfg i env) s sv))"
    by (rule quiet_with_mgr, rule quiet_requests)+
  show ?thesis
    using assms m
    by (auto simp: loop_message_def quiet_send quiet_deliver DeliverClose_def quiet_Remove
        split: MsgType.splits option.splits payload.splits)
qed

subsection \<open>A step of a SOCKS goroutine\<close>

definition one :: "bool \<Rightarrow> nat" where
  "one b = (if b then 1 else 0)"

lemma NewChannel_channels:
  "NewChannel c m = (Inr p, m') \<Longrightarrow> sm_channels m' = (sm_channels m)(c \<mapsto> p)"
  by (auto simp: NewChannel_def Let_def split: option.splits)

lemma task_step:
  assumes "handleServerSOCKSConnect cfg i sc ph s = (ph', s')"
  shows "hs_tasks s' = hs_tasks s"
    and "\<exists>ps. hs_out s' = hs_out s @ ps \<and>
      (\<forall>c. count (is_answer c) ps + one (c = SC_ConnID sc \<and> before_answer ph') \<le> one (c = SC_ConnID sc \<and> before_answer ph)) \<and>
      (ti_write i \<longrightarrow> (\<forall>c. count (is_answer c) ps + one (c = SC_ConnID sc \<and> before_answer ph') = one (c = SC_ConnID sc \<and> before_answer ph))) \<and>
      (\<forall>p \<in> set ps. \<forall>r. p = P_SOCKSReady r \<longrightarrow> SR_Success r \<longrightarrow> phase_valid \<lparr>st_sc = sc, st_phase = ph\<rparr> \<longrightarrow>
          SR_ConnID r = SC_ConnID sc \<and> reached cfg sc)"
    and "sm_channels (hs_mux s') c = Some p \<Longrightarrow>
      (sm_channels (hs_mux s) c = Some p \<and> (c = SC_ConnID sc \<longrightarrow> holds_channel ph \<longrightarrow> holds_channel ph'))
      \<or> (c = SC_ConnID sc \<and> holds_channel ph')"
    and "phase_valid \<lparr>st_sc = sc, st_phase = ph\<rparr> \<Longrightarrow> phase_valid \<lparr>st_sc = sc, st_phase = ph'\<rparr>"
proof -
  show "hs_tasks s' = hs_tasks s"
    using assms by (auto simp: handleServerSOCKSConnect_def Let_def send_def split: socks_phase.splits option.splits sum.splits prod.splits if_splits)
  show "phase_valid \<lparr>st_sc = sc, st_phase = ph\<rparr> \<Longrightarrow> phase_valid \<lparr>st_sc = sc, st_phase = ph'\<rparr>"
    using assms by (auto simp: handleServerSOCKSConnect_def Let_def split: socks_phase.splits option.splits sum.splits prod.splits if_splits)
  show "sm_channels (hs_mux s') c = Some p \<Longrightarrow>
      (sm_channels (hs_mux s) c = Some p \<and> (c = SC_ConnID sc \<longrightarrow> holds_channel ph \<longrightarrow> holds_channel ph'))
      \<or> (c = SC_ConnID sc \<and> holds_channel ph')"
    using assms by (auto simp: handleServerSOCKSConnect_def Let_def send_def channels_Remove dest!: NewChannel_channels
        split: socks_phase.splits option.splits sum.splits prod.splits if_splits)
  show "\<exists>ps. hs_out s' = hs_out s @ ps \<and>
      (\<forall>c. count (is_answer c) ps + one (c = SC_ConnID sc \<and> before_answer ph') \<le> one (c = SC_ConnID sc \<and> before_answer ph)) \<and>
      (ti_write i \<longrightarrow> (\<forall>c. count (is_answer c) ps + one (c = SC_ConnID sc \<and> before_answer ph') = one (c = SC_ConnID sc \<and> before_answer ph))) \<and>
      (\<forall>p \<in> set ps. \<forall>r. p = P_SOCKSReady r \<longrightarrow> SR_Success r \<longrightarrow> phase_valid \<lparr>st_sc = sc, st_phase = ph\<rparr> \<longrightarrow>
          SR_ConnID r = SC_ConnID sc \<and> reached cfg sc)"
    using assms
    by (cases ph; cases "ti_write i")
      (auto simp: handleServerSOCKSConnect_def Let_def send_def one_def close_frame_def socks_ready_def reached_def
        dest!: DialContext_Some split: option.splits sum.splits prod.splits if_splits)
qed

lemma count_update_one:
  "n < length xs \<Longrightarrow> count P (xs[n := x]) + one (P (xs ! n)) = count P xs + one (P x)"
  using count_update [of n xs P x] by (simp add: one_def)

lemma in_set_update_other: "u \<in> set xs \<Longrightarrow> u \<noteq> xs ! n \<Longrightarrow> u \<in> set (xs[n := y])"
  by (metis in_set_conv_nth length_list_update nth_list_update_neq)

text \<open>A task that only changes its phase keeps what it stands for.\<close>

lemma backed_update:
  assumes "n < length ts" "st_sc t' = st_sc (ts ! n)" "backed cfg ts p"
  shows "backed cfg (ts[n := t']) p"
proof -
  have "\<exists>v \<in> set (ts[n := t']). is_request c v \<and> reached cfg (st_sc v)"
    if "u \<in> set ts" "is_request c u" "reached cfg (st_sc u)" for c u
  proof (cases "u = ts ! n")
    case True
    then show ?thesis using that assms(2) set_update_memI [OF assms(1), of t'] by (intro bexI [of _ t']) (simp_all add: is_request_def)
  next
    case False
    then show ?thesis using that in_set_update_other [of u ts n t'] by blast
  qed
  then show ?thesis using assms(3) unfolding backed_def by blast
qed

lemma channel_update:
  assumes n: "n < length ts" and sc: "st_sc t' = st_sc (ts ! n)"
    and old: "registered \<Longrightarrow> \<exists>u \<in> set ts. is_request c u \<and> holds_channel (st_phase u)"
    and new: "registered \<and> (c = SC_ConnID (st_sc (ts ! n)) \<longrightarrow> holds_channel (st_phase (ts ! n)) \<longrightarrow> holds_channel (st_phase t')) \<or>
      c = SC_ConnID (st_sc (ts ! n)) \<and> holds_channel (st_phase t')"
  shows "\<exists>u \<in> set (ts[n := t']). is_request c u \<and> holds_channel (st_phase u)"
  using new
proof
  assume a: "registered \<and> (c = SC_ConnID (st_sc (ts ! n)) \<longrightarrow> holds_channel (st_phase (ts ! n)) \<longrightarrow> holds_channel (st_phase t'))"
  then obtain u where u: "u \<in> set ts" "is_request c u" "holds_channel (st_phase u)" using old by blast
  show ?thesis
  proof (cases "u = ts ! n")
    case True
    then have "holds_channel (st_phase t')" "is_request c t'" using a u sc by (auto simp: is_request_def)
    then show ?thesis using set_update_memI [OF n] by blast
  next
    case False
    then show ?thesis using u in_set_update_other [of u ts n t'] by (intro bexI [of _ u]) simp_all
  qed
next
  assume "c = SC_ConnID (st_sc (ts ! n)) \<and> holds_channel (st_phase t')"
  then have "holds_channel (st_phase t')" "is_request c t'" using sc by (auto simp: is_request_def)
  then show ?thesis using set_update_memI [OF n] by blast
qed

lemma task_event_inv:
  assumes "task_event cfg n i s = Some s'" "socks_inv cfg b s" "b \<longrightarrow> ti_write i"
  shows "socks_inv cfg b s'"
proof -
  define t where "t = hs_tasks s ! n"
  obtain ph' s1 where h: "handleServerSOCKSConnect cfg i (st_sc t) (st_phase t) s = (ph', s1)" by fastforce
  define t' where "t' = t\<lparr>st_phase := ph'\<rparr>"
  have n: "n < length (hs_tasks s)" and s': "s' = s1\<lparr>hs_tasks := (hs_tasks s)[n := t']\<rparr>"
    using assms(1) h task_step(1) [OF h] by (auto simp: task_event_def Let_def t_def t'_def split: if_splits)
  have tin: "t \<in> set (hs_tasks s)" using n by (simp add: t_def)
  have eq: "\<lparr>st_sc = st_sc t, st_phase = st_phase t\<rparr> = t" "\<lparr>st_sc = st_sc t, st_phase = ph'\<rparr> = t'"
    by (simp_all add: t'_def)
  obtain ps where ps: "hs_out s1 = hs_out s @ ps"
    "\<And>c. count (is_answer c) ps + one (c = SC_ConnID (st_sc t) \<and> before_answer ph') \<le> one (c = SC_ConnID (st_sc t) \<and> before_answer (st_phase t))"
    "\<And>c. ti_write i \<Longrightarrow> count (is_answer c) ps + one (c = SC_ConnID (st_sc t) \<and> before_answer ph') = one (c = SC_ConnID (st_sc t) \<and> before_answer (st_phase t))"
    "\<And>p r. p \<in> set ps \<Longrightarrow> p = P_SOCKSReady r \<Longrightarrow> SR_Success r \<Longrightarrow> phase_valid t \<Longrightarrow> SR_ConnID r = SC_ConnID (st_sc t) \<and> reached cfg (st_sc t)"
    using task_step(2) [OF h] unfolding eq by blast
  have w: "is_waiting c t' \<longleftrightarrow> c = SC_ConnID (st_sc t) \<and> before_answer ph'"
    "is_waiting c t \<longleftrightarrow> c = SC_ConnID (st_sc t) \<and> before_answer (st_phase t)"
    "is_request c t' = is_request c t" for c
    by (auto simp: is_waiting_def is_request_def t'_def)
  have cw: "count (is_waiting c) ((hs_tasks s)[n := t']) + one (is_waiting c t) = count (is_waiting c) (hs_tasks s) + one (is_waiting c t')" for c
    using count_update_one [OF n] by (simp add: t_def)
  have cr: "count (is_request c) ((hs_tasks s)[n := t']) = count (is_request c) (hs_tasks s)" for c
    using count_update_one [OF n, of "is_request c" t'] w(3) [of c] by (simp add: t_def)
  have inv: "\<And>c. count (is_answer c) (hs_out s) + count (is_waiting c) (hs_tasks s) \<le> count (is_request c) (hs_tasks s)"
    "\<And>c. b \<Longrightarrow> count (is_answer c) (hs_out s) + count (is_waiting c) (hs_tasks s) = count (is_request c) (hs_tasks s)"
    "\<And>c p. sm_channels (hs_mux s) c = Some p \<Longrightarrow> \<exists>u \<in> set (hs_tasks s). is_request c u \<and> holds_channel (st_phase u)"
    "\<And>u. u \<in> set (hs_tasks s) \<Longrightarrow> phase_valid u"
    "\<And>p. p \<in> set (hs_out s) \<Longrightarrow> backed cfg (hs_tasks s) p"
    using assms(2) unfolding socks_inv_def by blast+
  have t'in: "t' \<in> set ((hs_tasks s)[n := t'])" using n by (simp add: set_update_memI)
  have sub: "u \<in> set ((hs_tasks s)[n := t']) \<Longrightarrow> u = t' \<or> u \<in> set (hs_tasks s)" for u
    using set_update_subset_insert [of "hs_tasks s" n t'] by auto
  show ?thesis
    unfolding socks_inv_def
  proof (intro conjI allI ballI impI)
    fix c
    show "count (is_answer c) (hs_out s') + count (is_waiting c) (hs_tasks s') \<le> count (is_request c) (hs_tasks s')"
      using inv(1) [of c] ps(2) [of c] cw [of c] by (simp add: s' ps(1) cr w)
    assume b
    then show "count (is_answer c) (hs_out s') + count (is_waiting c) (hs_tasks s') = count (is_request c) (hs_tasks s')"
      using inv(2) [of c] ps(3) [of c] assms(3) cw [of c] by (simp add: s' ps(1) cr w)
  next
    fix c p assume "sm_channels (hs_mux s') c = Some p"
    then have "sm_channels (hs_mux s1) c = Some p" by (simp add: s')
    from task_step(3) [OF h this] show "\<exists>u \<in> set (hs_tasks s'). is_request c u \<and> holds_channel (st_phase u)"
      using channel_update [OF n, of t' "sm_channels (hs_mux s) c = Some p" c] inv(3) [of c p] by (simp add: s' t'_def t_def)
  next
    fix u assume "u \<in> set (hs_tasks s')"
    then show "phase_valid u" using sub [of u] inv(4) task_step(4) [OF h] tin eq by (auto simp: s' simp del: phase_valid.simps)
  next
    fix p assume "p \<in> set (hs_out s')"
    then consider "p \<in> set (hs_out s)" | "p \<in> set ps" by (auto simp: s' ps(1))
    then show "backed cfg (hs_tasks s') p"
    proof cases
      case 1
      then show ?thesis using backed_update [OF n, of t' cfg p] inv(5) by (simp add: s' t'_def t_def)
    next
      case 2
      then show ?thesis using ps(4) inv(4) [OF tin] t'in w(3)
        by (auto simp: backed_def s' is_request_def t'_def intro!: bexI [of _ t'])
    qed
  qed
qed

subsection \<open>Every run\<close>

fun writes_through :: "ctrl_event \<Rightarrow> bool" where
  "writes_through (EvTask n i) \<longleftrightarrow> ti_write i"
| "writes_through _ \<longleftrightarrow> True"

lemma socks_inv_new: "socks_inv cfg b s \<Longrightarrow> socks_inv cfg b (s\<lparr>hs_tasks := hs_tasks s @ [\<lparr>st_sc = sc, st_phase = T_Start\<rparr>]\<rparr>)"
proof -
  let ?t = "\<lparr>st_sc = sc, st_phase = T_Start\<rparr>"
  have "is_waiting c ?t \<longleftrightarrow> is_request c ?t" for c by (simp add: is_waiting_def is_request_def)
  moreover have "backed cfg ts p \<Longrightarrow> backed cfg (ts @ [?t]) p" for ts p by (auto simp: backed_def)
  moreover assume "socks_inv cfg b s"
  ultimately show ?thesis by (fastforce simp: socks_inv_def)
qed

lemma socks_inv_fields [simp]:
  "socks_inv cfg b (s\<lparr>hs_phase := x\<rparr>) \<longleftrightarrow> socks_inv cfg b s"
  "socks_inv cfg b (s\<lparr>hs_deliver := d\<rparr>) \<longleftrightarrow> socks_inv cfg b s"
  by (simp_all add: socks_inv_def)

lemma loop_iteration_socks:
  assumes "loop_iteration cfg i s sv = Some (s', sv')" "socks_inv cfg b s"
  shows "socks_inv cfg b s'"
proof -
  let ?s = "s\<lparr>hs_deliver := None\<rparr>"
  have "socks_inv cfg b s1" if "loop_message cfg i env ?s sv = Some (r, s1, sv1)" for env r s1 sv1
    using loop_message_socks [OF that] assms(2) quiet_inv [of ?s s1 cfg b] socks_inv_new [of cfg b ?s] by auto
  then show ?thesis using assms
    by (auto simp: loop_iteration_def Let_def split: if_splits sum.splits option.splits)
qed

lemma ctrl_step_socks:
  assumes "ctrl_step cfg ev (s, sv) = Some (s', sv')" "socks_inv cfg b s" "b \<longrightarrow> writes_through ev"
  shows "socks_inv cfg b s'"
proof (cases ev)
  case (EvLoop i)
  then show ?thesis using assms loop_iteration_socks by auto
next
  case (EvTask n i)
  then show ?thesis using assms task_event_inv by auto
next
  case (EvPipeRead p n)
  then show ?thesis using assms quiet_read [of p n s s'] quiet_inv [of s s' cfg b] by auto
next
  case (EvRelayData n bs ok)
  then show ?thesis using assms quiet_data [of n bs ok s s'] quiet_inv [of s s' cfg b] by auto
next
  case (EvCleanup ps)
  then show ?thesis using assms quiet_cleanup [of ps _ s sv s' sv'] quiet_inv [of s s' cfg b]
    by (auto split: handler_phase.splits if_splits)
next
  case (EvOther op)
  then show ?thesis using assms by auto
qed

lemma ctrl_run_socks:
  "ctrl_run cfg evs (s, sv) = Some (s', sv') \<Longrightarrow> socks_inv cfg b s \<Longrightarrow> b \<longrightarrow> (\<forall>ev \<in> set evs. writes_through ev)
   \<Longrightarrow> socks_inv cfg b s'"
proof (induction evs arbitrary: s sv)
  case Nil
  then show ?case by simp
next
  case (Cons ev evs)
  then obtain s1 sv1 where "ctrl_step cfg ev (s, sv) = Some (s1, sv1)" "ctrl_run cfg evs (s1, sv1) = Some (s', sv')"
    by (auto split: if_splits option.splits)
  then show ?case using ctrl_step_socks [of cfg ev s sv s1 sv1 b] Cons by simp
qed

lemma register_socks:
  assumes "HandleControlConn_register cfg i sv = (out, Some s, sv')"
  shows "socks_inv cfg b s"
  using assms
  by (auto simp: HandleControlConn_register_def Let_def socks_inv_def register_msg_def backed_def NewSOCKSMux_def
      split: if_splits option.splits prod.splits)

text \<open>
  C12. SOCKS requests on the exit node. Under every interleaving of the message loop, the request
  goroutines and the other connections: no request gets more than one answer; when the writes go
  through, each request whose goroutine got past its dial got exactly one; an answer that reports
  success belongs to a request for a valid target, one of whose own addresses the egress guard permits;
  and once all goroutines are done no channel is left open in the multiplexer.
\<close>

theorem socks_requests_answered:
  assumes "HandleControlConn_register cfg i sv0 = (out, Some s0, sv1)"
    and "ctrl_run cfg evs (s0, sv1) = Some (s, sv)"
  shows "count (is_answer c) (hs_out s) \<le> count (is_request c) (hs_tasks s) \<and>
     ((\<forall>ev \<in> set evs. writes_through ev) \<longrightarrow>
        count (is_answer c) (hs_out s) + count (is_waiting c) (hs_tasks s) = count (is_request c) (hs_tasks s)) \<and>
     (P_SOCKSReady r \<in> set (hs_out s) \<and> SR_Success r \<longrightarrow>
        (\<exists>t \<in> set (hs_tasks s). is_request (SR_ConnID r) t \<and> reached cfg (st_sc t))) \<and>
     ((\<forall>t \<in> set (hs_tasks s). st_phase t = T_Done) \<longrightarrow> sm_channels (hs_mux s) = Map.empty)"
proof -
  have run: "socks_inv cfg b s" if "b \<longrightarrow> (\<forall>ev \<in> set evs. writes_through ev)" for b
    by (rule ctrl_run_socks [OF assms(2) register_socks [OF assms(1)] that])
  have inv: "socks_inv cfg False s" by (rule run) simp
  have strict: "socks_inv cfg True s" if "\<forall>ev \<in> set evs. writes_through ev"
    using that by (intro run) simp
  have "count (is_answer c) (hs_out s) + count (is_waiting c) (hs_tasks s) \<le> count (is_request c) (hs_tasks s)"
    using inv unfolding socks_inv_def by blast
  moreover have "(\<forall>ev \<in> set evs. writes_through ev) \<Longrightarrow>
      count (is_answer c) (hs_out s) + count (is_waiting c) (hs_tasks s) = count (is_request c) (hs_tasks s)"
    using strict unfolding socks_inv_def by blast
  moreover have "P_SOCKSReady r \<in> set (hs_out s) \<Longrightarrow> SR_Success r \<Longrightarrow>
      \<exists>t \<in> set (hs_tasks s). is_request (SR_ConnID r) t \<and> reached cfg (st_sc t)"
    using inv unfolding socks_inv_def backed_def by blast
  moreover have "sm_channels (hs_mux s) = Map.empty" if d: "\<forall>t \<in> set (hs_tasks s). st_phase t = T_Done"
  proof
    fix k
    have "\<exists>t \<in> set (hs_tasks s). holds_channel (st_phase t)" if "sm_channels (hs_mux s) k = Some p" for p
      using inv that unfolding socks_inv_def by blast
    with d show "sm_channels (hs_mux s) k = Map.empty k"
      by (cases "sm_channels (hs_mux s) k") force+
  qed
  ultimately show ?thesis by linarith
qed

text \<open>A request for a public address: it is answered, and its channel is gone in the end.\<close>

definition demo_task :: ctrl_event where
  "demo_task = EvTask 0 \<lparr>ti_write = True, ti_net = (\<lambda>ip p. True)\<rparr>"

definition demo_socks_events :: "ctrl_event list" where
  "demo_socks_events = [EvLoop (demo_in (Inr MsgSOCKSConnect) ''t1''), demo_task, demo_task, demo_task, demo_task]"

lemma demo_dial:
  "DialContext False (\<lambda>h. []) (\<lambda>ip p. True) (hostport ''8.8.8.8'' 53) = Some (v4InV6Prefix @ [8, 8, 8, 8])"
proof -
  have "v4_string [8, 8, 8, 8] = ''8.8.8.8''"
    by (simp add: v4_string_def show_nat.simps digit_char_def char_of_def bit_0)
  then show ?thesis
    using DialContext_v4 [of "[8, 8, 8, 8]" "\<lambda>ip p. True" 53 "\<lambda>h. []"]
    by (simp add: internal_def internal_v4_def To4_def)
qed

lemma ctrl_target: "ValidateTarget ''8.8.8.8'' 53 1 = None"
proof -
  have "v4_string [8, 8, 8, 8] = ''8.8.8.8''"
    by (simp add: v4_string_def show_nat.simps digit_char_def char_of_def bit_0)
  then show ?thesis
    using ParseIP_v4_string [of "[8, 8, 8, 8]"] by (simp add: ValidateTarget_def ValidateDomain_def ValidatePort_def)
qed

lemma ctrl_socks_run:
  "\<exists>s sv. ctrl_run demo_cfg demo_socks_events demo_started = Some (s, sv) \<and>
     count (is_waiting ''s1'') (hs_tasks s) = 0 \<and> count (is_request ''s1'') (hs_tasks s) = 1 \<and>
     (\<forall>t \<in> set (hs_tasks s). st_phase t = T_Done)"
  by (simp add: demo_socks_events_def demo_task_def demo_started_def HandleControlConn_register_def register_answer_def
      loop_iteration_def loop_message_def task_event_def handleServerSOCKSConnect_def send_def stuck_def
      NewSOCKSMux_def NewManager_def NewChannel_def demo_dial ctrl_target is_waiting_def is_request_def
      Clients_Register_def Clients_put_def NewClientRegistry_def demo_defs Let_def case_prod_unfold)

theorem socks_requests_answered_witness:
  "\<exists>s sv. ctrl_run demo_cfg demo_socks_events demo_started = Some (s, sv) \<and>
     count (is_answer ''s1'') (hs_out s) = 1 \<and> sm_channels (hs_mux s) = Map.empty"
proof -
  obtain s sv where r: "ctrl_run demo_cfg demo_socks_events demo_started = Some (s, sv)"
    "count (is_waiting ''s1'') (hs_tasks s) = 0" "count (is_request ''s1'') (hs_tasks s) = 1"
    "\<forall>t \<in> set (hs_tasks s). st_phase t = T_Done"
    using ctrl_socks_run by blast
  have "ctrl_run demo_cfg demo_socks_events (fst demo_started, snd demo_started) = Some (s, sv)"
    using r(1) by simp
  from socks_requests_answered [OF demo_register this, of "''s1''"] r show ?thesis
    by (simp add: demo_socks_events_def demo_task_def)
qed

subsection \<open>A channel nobody reads stalls the whole connection\<close>

text \<open>
  Events that neither read from channel \<open>p\<close> nor end a SOCKS goroutine: other relays go on, targets
  are dialled, other connections act on the tables, contexts are cancelled.
\<close>

fun leaves :: "ptr \<Rightarrow> session \<Rightarrow> ctrl_event \<Rightarrow> bool" where
  "leaves p s (EvPipeRead q n) \<longleftrightarrow> q \<noteq> p"
| "leaves p s (EvTask n i) \<longleftrightarrow>
     n < length (hs_tasks s) \<and> (case st_phase (hs_tasks s ! n) of T_Relay _ \<Rightarrow> False | T_Defer \<Rightarrow> False | _ \<Rightarrow> True)"
| "leaves p s _ \<longleftrightarrow> True"

fun leaving_run :: "ctrl_cfg \<Rightarrow> ptr \<Rightarrow> ctrl_event list \<Rightarrow> session \<times> server \<Rightarrow> (session \<times> server) option" where
  "leaving_run cfg p [] st = Some st"
| "leaving_run cfg p (ev # evs) st =
     (if leaves p (fst st) ev
      then (case ctrl_step cfg ev st of None \<Rightarrow> None | Some st' \<Rightarrow> leaving_run cfg p evs st') else None)"

definition stalled :: "ptr \<Rightarrow> ptr \<Rightarrow> int option \<Rightarrow> session \<Rightarrow> server \<Rightarrow> bool" where
  "stalled p cl t s sv \<longleftrightarrow>
     hs_phase s = L_Loop \<and> hs_deliver s = Some p \<and> p < sm_next (hs_mux s) \<and>
     (\<exists>ch. sm_heap (hs_mux s) p = Some ch \<and> sch_pending ch \<noteq> None) \<and>
     cl < cr_next (sv_reg sv) \<and> map_option cl_lastHeartbeat (cr_heap (sv_reg sv) cl) = Some t"

lemma stalled_stuck: "stalled p cl t s sv \<Longrightarrow> stuck s"
  by (auto simp: stalled_def stuck_def)

lemma NewChannel_keeps:
  "p < sm_next m \<Longrightarrow> p < sm_next (snd (NewChannel c m)) \<and> sm_heap (snd (NewChannel c m)) p = sm_heap m p"
  by (auto simp: NewChannel_def Let_def split: option.split)

lemma stalled_send [simp]: "stalled p cl t (send ok x s) sv \<longleftrightarrow> stalled p cl t s sv"
  by (simp add: stalled_def send_def)

lemma stalled_tasks [simp]: "stalled p cl t (s\<lparr>hs_tasks := ts\<rparr>) sv \<longleftrightarrow> stalled p cl t s sv"
  by (simp add: stalled_def)

lemma stalled_task:
  assumes "task_event cfg n i s = Some s'" "stalled p cl t s sv" "leaves p s (EvTask n i)"
  shows "stalled p cl t s' sv"
proof -
  have "stalled p cl t (s\<lparr>hs_mux := snd (NewChannel c (hs_mux s))\<rparr>) sv" for c
    using assms(2) NewChannel_keeps [of p "hs_mux s" c] by (auto simp: stalled_def)
  then have n: "NewChannel c (hs_mux s) = (r, m) \<Longrightarrow> stalled p cl t (s\<lparr>hs_mux := m\<rparr>) sv" for c r m
    by (metis snd_conv)
  show ?thesis using assms n
    by (cases "st_phase (hs_tasks s ! n)")
      (auto simp: task_event_def handleServerSOCKSConnect_def Let_def split: if_splits option.splits sum.splits prod.splits)
qed

lemma stalled_step:
  assumes "ctrl_step cfg ev (s, sv) = Some (s', sv')" "stalled p cl t s sv" "leaves p s ev"
  shows "stalled p cl t s' sv' \<and> (\<forall>i. ev \<noteq> EvLoop i)"
proof (cases ev)
  case (EvLoop i)
  then show ?thesis using assms stalled_stuck [OF assms(2)] by (simp add: loop_iteration_def)
next
  case (EvTask n i)
  then show ?thesis using assms stalled_task [of cfg n i s s' p cl t sv] by auto
next
  case (EvPipeRead q n)
  then show ?thesis using assms by (auto simp: pipe_read_event_def stalled_def split: option.splits)
next
  case (EvRelayData n b ok)
  then show ?thesis using assms by (auto simp: relay_data_event_def split: if_splits socks_phase.splits)
next
  case (EvCleanup ps)
  then show ?thesis using assms by (simp add: stalled_def)
next
  case (EvOther op)
  then show ?thesis using assms
    by (cases op) (auto simp: stalled_def cancel_ctx_def Clients_Deregister_def DisconnectByName_def Clients_Disconnect_def
        cancel_and_close_def Clients_Register_def Clients_put_def Let_def split: option.splits)
qed

text \<open>
  Head-of-line blocking. While the message loop is writing data to one SOCKS channel and the
  other end of that channel does not read it (its target is still being dialled, or takes nothing),
  no message of the client is processed, whatever else happens, cancelling its context included:
  the loop makes no step, and the stored time of the last Pong stays what it was, so the heartbeat
  sees the client go stale.
\<close>

theorem one_channel_stalls_all:
  assumes "stalled p (hs_client s) t s sv" "leaving_run cfg p evs (s, sv) = Some (s', sv')"
  shows "(\<forall>i. EvLoop i \<notin> set evs) \<and> loop_iteration cfg i' s' sv' = None \<and>
         map_option cl_lastHeartbeat (cr_heap (sv_reg sv') (hs_client s)) = Some t"
proof -
  have "(\<forall>i. EvLoop i \<notin> set evs) \<and> stalled p c t s' sv'" if "stalled p c t s sv" for c
    using assms(2) that
  proof (induction evs arbitrary: s sv)
    case Nil
    then show ?case by simp
  next
    case (Cons ev evs)
    then obtain s1 sv1 where "leaves p s ev" "ctrl_step cfg ev (s, sv) = Some (s1, sv1)"
      "leaving_run cfg p evs (s1, sv1) = Some (s', sv')"
      by (auto split: if_splits option.splits)
    then show ?case using stalled_step [of cfg ev s sv s1 sv1 p c t] Cons by auto
  qed
  then have r: "(\<forall>i. EvLoop i \<notin> set evs) \<and> stalled p (hs_client s) t s' sv'" using assms(1) by blast
  then have "loop_iteration cfg i' s' sv' = None"
    using stalled_stuck [of p "hs_client s" t s' sv'] by (simp add: loop_iteration_def)
  then show ?thesis using r by (simp add: stalled_def)
qed

lemma demo_stalled:
  "\<exists>s sv. ctrl_run demo_cfg [EvLoop (demo_in (Inr MsgSOCKSConnect) ''t1''), demo_task,
       EvLoop (demo_in (Inr MsgSOCKSData) ''t2'')] demo_started = Some (s, sv) \<and> stalled 0 (hs_client s) (Some 0) s sv"
  by (simp add: demo_task_def demo_started_def HandleControlConn_register_def register_answer_def
      loop_iteration_def loop_message_def task_event_def handleServerSOCKSConnect_def send_def stuck_def
      begin_deliver_def Deliver_lookup_def Pipe_write_def stalled_def SetLastHeartbeat_def
      NewSOCKSMux_def NewManager_def NewChannel_def ctrl_target
      Clients_Register_def Clients_put_def NewClientRegistry_def demo_defs Let_def case_prod_unfold)

theorem one_channel_stalls_all_witness:
  "\<exists>s sv. ctrl_run demo_cfg [EvLoop (demo_in (Inr MsgSOCKSConnect) ''t1''), demo_task,
       EvLoop (demo_in (Inr MsgSOCKSData) ''t2'')] demo_started = Some (s, sv) \<and>
     loop_iteration demo_cfg (demo_in (Inr MsgPong) ''t3'') s (table_step (TO_Cancel 5) sv) = None"
proof -
  obtain s sv where r: "ctrl_run demo_cfg [EvLoop (demo_in (Inr MsgSOCKSConnect) ''t1''), demo_task,
       EvLoop (demo_in (Inr MsgSOCKSData) ''t2'')] demo_started = Some (s, sv)" "stalled 0 (hs_client s) (Some 0) s sv"
    using demo_stalled by blast
  have "leaving_run demo_cfg 0 [EvOther (TO_Cancel 5)] (s, sv) = Some (s, table_step (TO_Cancel 5) sv)"
    by simp
  from one_channel_stalls_all [OF r(2) this] r(1) show ?thesis by blast
qed

subsection \<open>A refused hostname is answered with ok\<close>

text \<open>
  The handler drops the error of the manager: a client that asks for a hostname another client
  holds is told the tunnel is up, while the routing tables stay as they are, for HTTP and HTTPS.
\<close>

theorem refused_hostname_answered_ok:
  assumes "GetHTTPTunnel host m = Some e" "HE_ClientID e \<noteq> hs_id s"
    and "GetHTTPSTunnel host' m = Some e'" "HE_ClientID e' \<noteq> hs_id s"
  shows "handleHTTPTunnelRequest cfg i False host lh lp s m =
      (send (li_write i) (P_HTTPTunnelResp \<lparr>HTR_Hostname = host, HTR_TunnelID = li_uuid i,
         HTR_ServerDataAddr = cfg_dataAddr cfg, HTR_Status = ''ok'', HTR_Error = []\<rparr>) s, m) \<and>
    handleHTTPTunnelRequest cfg i True host' lh lp s m =
      (send (li_write i) (P_HTTPTunnelResp \<lparr>HTR_Hostname = host', HTR_TunnelID = li_uuid i,
         HTR_ServerDataAddr = cfg_dataAddr cfg, HTR_Status = ''ok'', HTR_Error = []\<rparr>) s, m)"
  using assms http_table.add_taken [of host m e "hs_id s"] https_table.add_taken [of host' m e' "hs_id s"]
  by (simp add: handleHTTPTunnelRequest_def)

definition demo_taken :: Manager where
  "demo_taken = snd (AddHTTPSTunnel ''t2'' ''bob'' ''a.example'' ''127.0.0.1'' 443
     (snd (AddHTTPTunnel ''t1'' ''bob'' ''a.example'' ''127.0.0.1'' 80 NewManager)))"

theorem refused_hostname_answered_ok_witness:
  "snd (handleHTTPTunnelRequest demo_cfg (demo_in (Inr MsgPong) ''t9'') False ''a.example'' ''127.0.0.1'' 8080
      (fst demo_started) demo_taken) = demo_taken"
proof -
  have id: "hs_id (fst demo_started) = ''c1''"
    by (simp add: demo_started_def HandleControlConn_register_def register_answer_def demo_defs Let_def case_prod_unfold)
  obtain e e' where "GetHTTPTunnel ''a.example'' demo_taken = Some e" "HE_ClientID e = ''bob''"
    "GetHTTPSTunnel ''a.example'' demo_taken = Some e'" "HE_ClientID e' = ''bob''"
    by (simp add: demo_taken_def AddHTTPTunnel_def AddHTTPSTunnel_def GetHTTPTunnel_def GetHTTPSTunnel_def
        NewManager_def Let_def)
  then show ?thesis
    using refused_hostname_answered_ok [of "''a.example''" demo_taken e "fst demo_started" "''a.example''" e'
        demo_cfg "demo_in (Inr MsgPong) ''t9''" "''127.0.0.1''" 8080] id by simp
qed

end
