(* ===== verification/ClientHandler.thy ===== *)
theory ClientHandler
  imports Backoff SocksMux Framing Messages
begin

text \<open>
  \<open>internal/client/handler.go\<close>: the client's side of one control connection. \<open>HandleServerConn\<close>
  answers the server's registration, asks for every configured tunnel in turn, and then serves the
  server's messages. The straight-line part is a function on the connection (what is still to be
  read, what was written); the message loop is a step function, since the multiplexer it delivers
  to is shared with the local SOCKS, CONNECT and port-forward listeners.
\<close>

subsection \<open>The connection\<close>

text \<open>
  \<open>ci_reads\<close>: the results of the coming \<open>ReadMessage\<close> calls (end of input when they are used up);
  \<open>ci_room\<close>: how many more writes go through (\<open>None\<close>: all).
\<close>

record cio =
  ci_reads :: "(read_error + Envelope) list"
  ci_room :: "nat option"
  ci_out :: "payload list"

definition cio_read :: "cio \<Rightarrow> (read_error + Envelope) \<times> cio" where
  "cio_read c = (case ci_reads c of [] \<Rightarrow> (Inl PrefixEOF, c) | r # rs \<Rightarrow> (r, c\<lparr>ci_reads := rs\<rparr>))"

definition cio_write :: "payload \<Rightarrow> cio \<Rightarrow> bool \<times> cio" where
  "cio_write p c =
     (case ci_room c of
        None \<Rightarrow> (True, c\<lparr>ci_out := ci_out c @ [p]\<rparr>)
      | Some 0 \<Rightarrow> (False, c)
      | Some (Suc n) \<Rightarrow> (True, c\<lparr>ci_out := ci_out c @ [p], ci_room := Some n\<rparr>))"

subsection \<open>Registration\<close>

text \<open>\<open>sx_addrs\<close> is \<open>tunnelDataAddrs\<close>, \<open>sx_serverDataAddr\<close> the first address a server gave.\<close>

record client_session =
  sx_io :: cio
  sx_serverName :: string
  sx_addrs :: "string \<rightharpoonup> string"
  sx_serverDataAddr :: string

definition resp_error :: "string \<Rightarrow> payload" where
  "resp_error e = P_RegisterResp \<lparr>RR_AssignedClientID = [], RR_ServerID = [], RR_Status = ''error'', RR_Error = e\<rparr>"

definition resp_ok :: "string \<Rightarrow> payload" where
  "resp_ok name = P_RegisterResp \<lparr>RR_AssignedClientID = [], RR_ServerID = name, RR_Status = ''ok'', RR_Error = []\<rparr>"

text \<open>The handshake: whether it succeeded, and the session after it.\<close>

definition handshake ::
  "(MsgType \<Rightarrow> bytes \<Rightarrow> payload option) \<Rightarrow> string \<Rightarrow> string \<Rightarrow> bool \<times> bool \<Rightarrow> client_session
   \<Rightarrow> bool \<times> client_session" where
  "handshake gob authToken name deadlines s =
     (if \<not> fst deadlines then (False, s)
      else (let (r, c) = cio_read (sx_io s); s = s\<lparr>sx_io := c\<rparr>
            in case r of
                 Inl _ \<Rightarrow> (False, s)
               | Inr env \<Rightarrow>
                   (if Env_Type env \<noteq> MsgClientRegister then (False, s)
                    else (case gob MsgClientRegister (Env_Payload env) of
                            Some (P_ClientRegister msg) \<Rightarrow>
                              (if CR_AuthToken msg \<noteq> authToken
                               then (False, s\<lparr>sx_io := snd (cio_write (resp_error ''invalid token'') c)\<rparr>)
                               else (let (ok, c') = cio_write (resp_ok name) c; s' = s\<lparr>sx_io := c'\<rparr>
                                     in if \<not> ok then (False, s')
                                        else (let s'' = (if CR_Name msg \<noteq> [] then s'\<lparr>sx_serverName := CR_Name msg\<rparr> else s')
                                              in (snd deadlines, s''))))
                          | _ \<Rightarrow> (False, s\<lparr>sx_io := snd (cio_write (resp_error ''malformed ClientRegister payload'') c)\<rparr>)))))"

text \<open>\<open>tunnelDataAddrs[id] = addr\<close> and the first non-empty data address.\<close>

definition note_addr :: "string \<Rightarrow> string \<Rightarrow> client_session \<Rightarrow> client_session" where
  "note_addr tid addr s =
     s\<lparr>sx_addrs := (sx_addrs s)(tid \<mapsto> addr),
       sx_serverDataAddr := (if sx_serverDataAddr s = [] then addr else sx_serverDataAddr s)\<rparr>"

text \<open>One request and its answer; the three loops below differ in the request and the answer's type.\<close>

definition tunnel_answer ::
  "(MsgType \<Rightarrow> bytes \<Rightarrow> payload option) \<Rightarrow> (read_error + Envelope) \<Rightarrow> (string \<times> string) option" where
  "tunnel_answer gob r =
     (case r of
        Inl _ \<Rightarrow> None
      | Inr env \<Rightarrow>
          (if Env_Type env \<noteq> MsgTunnelResp then None
           else (case gob MsgTunnelResp (Env_Payload env) of
                   Some (P_TunnelResp t) \<Rightarrow>
                     (if TR_Status t \<noteq> ''ok'' then None else Some (TR_TunnelID t, TR_ServerDataAddr t))
                 | _ \<Rightarrow> None)))"

definition http_answer ::
  "(MsgType \<Rightarrow> bytes \<Rightarrow> payload option) \<Rightarrow> (read_error + Envelope) \<Rightarrow> (string \<times> string) option" where
  "http_answer gob r =
     (case r of
        Inl _ \<Rightarrow> None
      | Inr env \<Rightarrow>
          (if Env_Type env \<noteq> MsgHTTPTunnelResp then None
           else (case gob MsgHTTPTunnelResp (Env_Payload env) of
                   Some (P_HTTPTunnelResp t) \<Rightarrow>
                     (if HTR_Status t \<noteq> ''ok'' then None else Some (HTR_TunnelID t, HTR_ServerDataAddr t))
                 | _ \<Rightarrow> None)))"

definition request_one ::
  "((read_error + Envelope) \<Rightarrow> (string \<times> string) option) \<Rightarrow> payload \<Rightarrow> client_session
   \<Rightarrow> bool \<times> client_session" where
  "request_one answer req s =
     (let (ok, c) = cio_write req (sx_io s)
      in if \<not> ok then (False, s\<lparr>sx_io := c\<rparr>)
         else (let (r, c') = cio_read c; s = s\<lparr>sx_io := c'\<rparr>
               in case answer r of None \<Rightarrow> (False, s) | Some (tid, addr) \<Rightarrow> (True, note_addr tid addr s)))"

fun register_tunnels ::
  "(MsgType \<Rightarrow> bytes \<Rightarrow> payload option) \<Rightarrow> TunnelConfig list \<Rightarrow> client_session \<Rightarrow> bool \<times> client_session" where
  "register_tunnels gob [] s = (True, s)"
| "register_tunnels gob (tc # tcs) s =
     (case request_one (tunnel_answer gob) (P_RequestTunnel
             \<lparr>RT_LocalHost = tc_LocalHost tc, RT_LocalPort = tc_LocalPort tc, RT_RequestedPort = tc_RequestedPort tc\<rparr>) s of
        (False, s') \<Rightarrow> (False, s')
      | (True, s') \<Rightarrow> register_tunnels gob tcs s')"

fun register_http ::
  "(MsgType \<Rightarrow> bytes \<Rightarrow> payload option) \<Rightarrow> HTTPTunnelConfig list \<Rightarrow> client_session \<Rightarrow> bool \<times> client_session" where
  "register_http gob [] s = (True, s)"
| "register_http gob (hc # hcs) s =
     (case request_one (http_answer gob) (P_RequestHTTPTunnel
             \<lparr>RH_Hostname = htc_Hostname hc, RH_LocalHost = htc_LocalHost hc, RH_LocalPort = htc_LocalPort hc\<rparr>) s of
        (False, s') \<Rightarrow> (False, s')
      | (True, s') \<Rightarrow> register_http gob hcs s')"

fun register_https ::
  "(MsgType \<Rightarrow> bytes \<Rightarrow> payload option) \<Rightarrow> HTTPSTunnelConfig list \<Rightarrow> client_session \<Rightarrow> bool \<times> client_session" where
  "register_https gob [] s = (True, s)"
| "register_https gob (hc # hcs) s =
     (case request_one (http_answer gob) (P_RequestHTTPSTunnel
             \<lparr>RHS_Hostname = hstc_Hostname hc, RHS_LocalHost = hstc_LocalHost hc, RHS_LocalPort = hstc_LocalPort hc\<rparr>) s of
        (False, s') \<Rightarrow> (False, s')
      | (True, s') \<Rightarrow> register_https gob hcs s')"

text \<open>Everything up to the message loop, which is reached when the result is \<open>True\<close>.\<close>

definition HandleServerConn_start ::
  "(MsgType \<Rightarrow> bytes \<Rightarrow> payload option) \<Rightarrow> string \<Rightarrow> string \<Rightarrow> bool \<times> bool \<Rightarrow> ClientConfig \<Rightarrow> client_session
   \<Rightarrow> bool \<times> client_session" where
  "HandleServerConn_start gob authToken name deadlines cfg s =
     (case handshake gob authToken name deadlines (s\<lparr>sx_addrs := Map.empty, sx_serverDataAddr := []\<rparr>) of
        (False, s1) \<Rightarrow> (False, s1)
      | (True, s1) \<Rightarrow>
          (case register_tunnels gob (cc_Tunnels cfg) s1 of
             (False, s2) \<Rightarrow> (False, s2)
           | (True, s2) \<Rightarrow>
               (case register_http gob (cc_HTTPTunnels cfg) s2 of
                  (False, s3) \<Rightarrow> (False, s3)
                | (True, s3) \<Rightarrow> register_https gob (cc_HTTPSTunnels cfg) s3)))"

subsection \<open>The message loop\<close>

datatype client_phase = CL_Loop | CL_Deferred | CL_Gone

text \<open>\<open>cl_opened\<close>: the goroutines started by \<open>tunnel.HandleOpenConnection\<close>, with their data address.\<close>

record client_loop =
  lp_addrs :: "string \<rightharpoonup> string"
  lp_mux :: SOCKSMux
  lp_deliver :: "ptr option"
  lp_out :: "payload list"
  lp_opened :: "(OpenConnection \<times> string) list"
  lp_phase :: client_phase
  lp_conn_closed :: bool

record client_input =
  cin_done :: bool
  cin_read :: "read_error + Envelope"
  cin_write :: bool

definition client_stuck :: "client_loop \<Rightarrow> bool" where
  "client_stuck s \<longleftrightarrow>
     (case lp_deliver s of
        None \<Rightarrow> False
      | Some p \<Rightarrow> (case sm_heap (lp_mux s) p of None \<Rightarrow> False | Some ch \<Rightarrow> sch_pending ch \<noteq> None))"

definition client_deliver :: "SOCKSData \<Rightarrow> client_loop \<Rightarrow> client_loop option" where
  "client_deliver sd s =
     (case Deliver_lookup (SD_ConnID sd) (lp_mux s) of
        Inl _ \<Rightarrow> Some s
      | Inr p \<Rightarrow>
          (case sm_heap (lp_mux s) p of
             None \<Rightarrow> Some s
           | Some ch \<Rightarrow>
               (case Pipe_write (SD_Payload sd) ch of
                  None \<Rightarrow> None
                | Some (Some _, _) \<Rightarrow> Some s
                | Some (None, ch') \<Rightarrow>
                    Some (s\<lparr>lp_mux := (lp_mux s)\<lparr>sm_heap := (sm_heap (lp_mux s))(p \<mapsto> ch')\<rparr>, lp_deliver := Some p\<rparr>))))"

text \<open>One message: whether the loop returns, and the state.\<close>

definition client_message ::
  "(MsgType \<Rightarrow> bytes \<Rightarrow> payload option) \<Rightarrow> bool \<Rightarrow> Envelope \<Rightarrow> client_loop \<Rightarrow> (bool \<times> client_loop) option" where
  "client_message gob wok env s =
     (case Env_Type env of
        MsgPing \<Rightarrow>
          (case gob MsgPing (Env_Payload env) of
             Some (P_Ping ping) \<Rightarrow>
               (if wok then Some (False, s\<lparr>lp_out := lp_out s @ [P_Pong \<lparr>Pong_Seq = Ping_Seq ping\<rparr>]\<rparr>) else Some (True, s))
           | _ \<Rightarrow> Some (False, s))
      | MsgDisconnect \<Rightarrow> Some (True, if wok then s\<lparr>lp_out := lp_out s @ [P_DisconnectAck DisconnectAck]\<rparr> else s)
      | MsgOpenConnection \<Rightarrow>
          (case gob MsgOpenConnection (Env_Payload env) of
             Some (P_OpenConnection oc) \<Rightarrow>
               (case lp_addrs s (OC_TunnelID oc) of
                  None \<Rightarrow> Some (False, s)
                | Some dataAddr \<Rightarrow> Some (False, s\<lparr>lp_opened := lp_opened s @ [(oc, dataAddr)]\<rparr>))
           | _ \<Rightarrow> Some (False, s))
      | MsgSOCKSReady \<Rightarrow>
          (case gob MsgSOCKSReady (Env_Payload env) of
             Some (P_SOCKSReady r) \<Rightarrow>
               Some (False, s\<lparr>lp_mux := snd (DeliverReady (SR_ConnID r) (SR_Success r) (SR_Error r) (lp_mux s))\<rparr>)
           | _ \<Rightarrow> Some (False, s))
      | MsgSOCKSData \<Rightarrow>
          (case gob MsgSOCKSData (Env_Payload env) of
             Some (P_SOCKSData sd) \<Rightarrow> map_option (Pair False) (client_deliver sd s)
           | _ \<Rightarrow> Some (False, s))
      | MsgSOCKSClose \<Rightarrow>
          (case gob MsgSOCKSClose (Env_Payload env) of
             Some (P_SOCKSClose sc) \<Rightarrow> Some (False, s\<lparr>lp_mux := DeliverClose (SCl_ConnID sc) (lp_mux s)\<rparr>)
           | _ \<Rightarrow> Some (False, s))
      | _ \<Rightarrow> Some (False, s))"

definition client_iteration ::
  "(MsgType \<Rightarrow> bytes \<Rightarrow> payload option) \<Rightarrow> client_input \<Rightarrow> client_loop \<Rightarrow> client_loop option" where
  "client_iteration gob i s0 =
     (if lp_phase s0 \<noteq> CL_Loop \<or> client_stuck s0 then None
      else (let s = s0\<lparr>lp_deliver := None\<rparr>
            in if cin_done i then Some (s\<lparr>lp_phase := CL_Deferred\<rparr>)
               else (case cin_read i of
                       Inl _ \<Rightarrow> Some (s\<lparr>lp_phase := CL_Deferred\<rparr>)
                     | Inr env \<Rightarrow>
                         (case client_message gob (cin_write i) env s of
                            None \<Rightarrow> None
                          | Some (returns, s') \<Rightarrow> Some (if returns then s'\<lparr>lp_phase := CL_Deferred\<rparr> else s')))))"

text \<open>The deferred calls, in the order they run: \<open>mux.CloseAll\<close>, then \<open>conn.Close\<close>.\<close>

definition client_deferred :: "ptr list \<Rightarrow> client_loop \<Rightarrow> client_loop" where
  "client_deferred ps s = s\<lparr>lp_mux := CloseAll ps (lp_mux s), lp_conn_closed := True, lp_phase := CL_Gone\<rparr>"

text \<open>
  Events: the loop, the goroutine that says goodbye when the client shuts down, and whatever the
  local listeners do to the multiplexer (their own frames are not part of \<open>lp_out\<close>).
\<close>

datatype client_event =
    CE_Loop client_input
  | CE_Shutdown bool
  | CE_Mux SOCKSMux
  | CE_Deferred "ptr list"

fun client_step :: "(MsgType \<Rightarrow> bytes \<Rightarrow> payload option) \<Rightarrow> client_event \<Rightarrow> client_loop \<Rightarrow> client_loop option" where
  "client_step gob (CE_Loop i) s = client_iteration gob i s"
| "client_step gob (CE_Shutdown wok) s =
     Some (if wok then s\<lparr>lp_out := lp_out s @ [P_Disconnect \<lparr>Disc_Reason = ''client shutdown''\<rparr>]\<rparr> else s)"
| "client_step gob (CE_Mux m) s = Some (s\<lparr>lp_mux := m\<rparr>)"
| "client_step gob (CE_Deferred ps) s =
     (if lp_phase s = CL_Deferred \<and> distinct ps \<and> set ps = ran (sm_channels (lp_mux s))
      then Some (client_deferred ps s) else None)"

fun client_run :: "(MsgType \<Rightarrow> bytes \<Rightarrow> payload option) \<Rightarrow> client_event list \<Rightarrow> client_loop \<Rightarrow> client_loop option" where
  "client_run gob [] s = Some s"
| "client_run gob (ev # evs) s = (case client_step gob ev s of None \<Rightarrow> None | Some s' \<Rightarrow> client_run gob evs s')"

text \<open>After the straight-line part: the loop, or at once the deferred calls.\<close>

definition loop_start :: "bool \<times> client_session \<Rightarrow> SOCKSMux \<Rightarrow> client_loop" where
  "loop_start r m =
     \<lparr>lp_addrs = sx_addrs (snd r), lp_mux = m, lp_deliver = None, lp_out = ci_out (sx_io (snd r)),
      lp_opened = [], lp_phase = (if fst r then CL_Loop else CL_Deferred), lp_conn_closed = False\<rparr>"

subsection \<open>Registration as one list of requests\<close>

type_synonym request = "((read_error + Envelope) \<Rightarrow> (string \<times> string) option) \<times> payload"

fun request_all :: "request list \<Rightarrow> client_session \<Rightarrow> bool \<times> client_session" where
  "request_all [] s = (True, s)"
| "request_all (r # rs) s =
     (case request_one (fst r) (snd r) s of (False, s') \<Rightarrow> (False, s') | (True, s') \<Rightarrow> request_all rs s')"

definition requests :: "(MsgType \<Rightarrow> bytes \<Rightarrow> payload option) \<Rightarrow> ClientConfig \<Rightarrow> request list" where
  "requests gob cfg =
     map (\<lambda>tc. (tunnel_answer gob, P_RequestTunnel
        \<lparr>RT_LocalHost = tc_LocalHost tc, RT_LocalPort = tc_LocalPort tc, RT_RequestedPort = tc_RequestedPort tc\<rparr>)) (cc_Tunnels cfg) @
     map (\<lambda>hc. (http_answer gob, P_RequestHTTPTunnel
        \<lparr>RH_Hostname = htc_Hostname hc, RH_LocalHost = htc_LocalHost hc, RH_LocalPort = htc_LocalPort hc\<rparr>)) (cc_HTTPTunnels cfg) @
     map (\<lambda>hc. (http_answer gob, P_RequestHTTPSTunnel
        \<lparr>RHS_Hostname = hstc_Hostname hc, RHS_LocalHost = hstc_LocalHost hc, RHS_LocalPort = hstc_LocalPort hc\<rparr>)) (cc_HTTPSTunnels cfg)"

lemma request_all_append:
  "request_all (xs @ ys) s = (case request_all xs s of (False, s') \<Rightarrow> (False, s') | (True, s') \<Rightarrow> request_all ys s')"
  by (induction xs arbitrary: s) (auto split: prod.split bool.split)

lemma register_loops:
  "register_tunnels gob tcs s = request_all (map (\<lambda>tc. (tunnel_answer gob, P_RequestTunnel
     \<lparr>RT_LocalHost = tc_LocalHost tc, RT_LocalPort = tc_LocalPort tc, RT_RequestedPort = tc_RequestedPort tc\<rparr>)) tcs) s"
  "register_http gob hcs s = request_all (map (\<lambda>hc. (http_answer gob, P_RequestHTTPTunnel
     \<lparr>RH_Hostname = htc_Hostname hc, RH_LocalHost = htc_LocalHost hc, RH_LocalPort = htc_LocalPort hc\<rparr>)) hcs) s"
  "register_https gob scs s = request_all (map (\<lambda>hc. (http_answer gob, P_RequestHTTPSTunnel
     \<lparr>RHS_Hostname = hstc_Hostname hc, RHS_LocalHost = hstc_LocalHost hc, RHS_LocalPort = hstc_LocalPort hc\<rparr>)) scs) s"
proof -
  show "register_tunnels gob tcs s = request_all (map (\<lambda>tc. (tunnel_answer gob, P_RequestTunnel
     \<lparr>RT_LocalHost = tc_LocalHost tc, RT_LocalPort = tc_LocalPort tc, RT_RequestedPort = tc_RequestedPort tc\<rparr>)) tcs) s"
    by (induction tcs arbitrary: s) (auto split: prod.split bool.split)
  show "register_http gob hcs s = request_all (map (\<lambda>hc. (http_answer gob, P_RequestHTTPTunnel
     \<lparr>RH_Hostname = htc_Hostname hc, RH_LocalHost = htc_LocalHost hc, RH_LocalPort = htc_LocalPort hc\<rparr>)) hcs) s"
    by (induction hcs arbitrary: s) (auto split: prod.split bool.split)
  show "register_https gob scs s = request_all (map (\<lambda>hc. (http_answer gob, P_RequestHTTPSTunnel
     \<lparr>RHS_Hostname = hstc_Hostname hc, RHS_LocalHost = hstc_LocalHost hc, RHS_LocalPort = hstc_LocalPort hc\<rparr>)) scs) s"
    by (induction scs arbitrary: s) (auto split: prod.split bool.split)
qed

lemma start_request_all:
  "HandleServerConn_start gob authToken name deadlines cfg s =
     (case handshake gob authToken name deadlines (s\<lparr>sx_addrs := Map.empty, sx_serverDataAddr := []\<rparr>) of
        (False, s1) \<Rightarrow> (False, s1) | (True, s1) \<Rightarrow> request_all (requests gob cfg) s1)"
  by (auto simp: HandleServerConn_start_def requests_def request_all_append register_loops split: prod.split bool.split)

lemma cio_write_out: "cio_write p c = (ok, c') \<Longrightarrow> ci_out c' = ci_out c @ (if ok then [p] else []) \<and> ci_reads c' = ci_reads c"
  by (auto simp: cio_write_def split: option.splits nat.splits)

lemma cio_read_reads: "cio_read c = (r, c') \<Longrightarrow> ci_out c' = ci_out c \<and> ci_room c' = ci_room c \<and> ci_reads c' = tl (ci_reads c)"
  by (auto simp: cio_read_def split: list.splits)

lemma request_one_out:
  assumes "request_one f p s = (b, s')"
  shows "ci_out (sx_io s') = ci_out (sx_io s) \<and> \<not> b \<or> ci_out (sx_io s') = ci_out (sx_io s) @ [p]"
  using assms by (auto simp: request_one_def Let_def note_addr_def dest!: cio_write_out cio_read_reads
      split: prod.splits if_splits option.splits)

lemma request_all_out:
  "request_all rs s = (b, s') \<Longrightarrow>
   \<exists>k \<le> length rs. ci_out (sx_io s') = ci_out (sx_io s) @ map snd (take k rs) \<and> (b \<longrightarrow> k = length rs)"
proof (induction rs arbitrary: s)
  case Nil
  then show ?case by simp
next
  case (Cons r rs)
  obtain b1 s1 where one: "request_one (fst r) (snd r) s = (b1, s1)" by fastforce
  show ?case
  proof (cases b1)
    case True
    then obtain k where "k \<le> length rs" "ci_out (sx_io s') = ci_out (sx_io s1) @ map snd (take k rs)" "b \<longrightarrow> k = length rs"
      using Cons one by auto
    then show ?thesis using request_one_out [OF one] True by (intro exI [of _ "Suc k"]) auto
  next
    case False
    then have "b = False" "s' = s1" using Cons.prems one by auto
    then show ?thesis using request_one_out [OF one]
      by (auto intro: exI [of _ 0] exI [of _ 1])
  qed
qed

lemma request_one_addrs:
  assumes "request_one f p s = (b, s')"
  shows "(\<forall>t a. sx_addrs s' t = Some a \<longrightarrow> sx_addrs s t = Some a \<or>
            (\<exists>x. f x = Some (t, a) \<and> (x = Inl PrefixEOF \<or> x \<in> set (ci_reads (sx_io s))))) \<and>
         set (ci_reads (sx_io s')) \<subseteq> set (ci_reads (sx_io s))"
proof -
  have rd: "cio_read c = (x, c') \<Longrightarrow> (x = Inl PrefixEOF \<or> x \<in> set (ci_reads c)) \<and> set (ci_reads c') \<subseteq> set (ci_reads c)" for x c c'
    by (auto simp: cio_read_def split: list.splits)
  show ?thesis using assms
    by (auto simp: request_one_def Let_def note_addr_def split: prod.splits if_splits option.splits
        dest!: cio_write_out rd)
qed

definition answers_ok :: "request list \<Rightarrow> bool" where
  "answers_ok rs \<longleftrightarrow> (\<forall>r \<in> set rs. \<forall>e. fst r (Inl e) = None)"

lemma request_all_addrs:
  "request_all rs s = (b, s') \<Longrightarrow> answers_ok rs \<Longrightarrow> sx_addrs s' t = Some a \<Longrightarrow>
   sx_addrs s t = Some a \<or> (\<exists>r \<in> set rs. \<exists>x \<in> set (ci_reads (sx_io s)). fst r x = Some (t, a))"
proof (induction rs arbitrary: s)
  case Nil
  then show ?case by simp
next
  case (Cons r rs)
  obtain b1 s1 where one: "request_one (fst r) (snd r) s = (b1, s1)" by fastforce
  have ok: "fst r (Inl PrefixEOF) = None" "answers_ok rs" using Cons.prems(2) by (auto simp: answers_ok_def)
  note o = request_one_addrs [OF one]
  have s1: "sx_addrs s1 t = Some a \<Longrightarrow> sx_addrs s t = Some a \<or> (\<exists>x \<in> set (ci_reads (sx_io s)). fst r x = Some (t, a))"
    using o ok(1) by (metis option.distinct(1))
  show ?case
  proof (cases b1)
    case True
    then have "sx_addrs s1 t = Some a \<or> (\<exists>r \<in> set rs. \<exists>x \<in> set (ci_reads (sx_io s1)). fst r x = Some (t, a))"
      using Cons.IH [of s1] Cons.prems ok(2) one by simp
    moreover have "set (ci_reads (sx_io s1)) \<subseteq> set (ci_reads (sx_io s))" using o by blast
    ultimately show ?thesis using s1 by (meson list.set_intros subsetD)
  next
    case False
    then have "s' = s1" using Cons.prems one by simp
    then show ?thesis using s1 Cons.prems(3) by auto
  qed
qed

lemma requests_answers: "answers_ok (requests gob cfg)"
  by (auto simp: answers_ok_def requests_def tunnel_answer_def http_answer_def)

lemma requests_answer_cases:
  "r \<in> set (requests gob cfg) \<Longrightarrow> fst r = tunnel_answer gob \<or> fst r = http_answer gob"
  by (auto simp: requests_def)

subsection \<open>Lockstep\<close>

lemma request_one_lockstep:
  assumes "ci_room (sx_io s) = None" "\<forall>e. f (Inl e) = None"
  shows "\<exists>s'. request_one f p s = ((case ci_reads (sx_io s) of [] \<Rightarrow> False | x # _ \<Rightarrow> f x \<noteq> None), s') \<and>
           ci_room (sx_io s') = None \<and> ci_reads (sx_io s') = tl (ci_reads (sx_io s))"
  using assms
  by (cases "ci_reads (sx_io s)")
    (auto simp: request_one_def cio_write_def cio_read_def note_addr_def Let_def split: option.splits)

lemma request_all_lockstep:
  "ci_room (sx_io s) = None \<Longrightarrow> answers_ok rs \<Longrightarrow>
   fst (request_all rs s) \<longleftrightarrow> list_all2 (\<lambda>r x. fst r x \<noteq> None) rs (take (length rs) (ci_reads (sx_io s)))"
proof (induction rs arbitrary: s)
  case Nil
  then show ?case by simp
next
  case (Cons r rs)
  have ok: "\<forall>e. fst r (Inl e) = None" "answers_ok rs" using Cons.prems(2) by (auto simp: answers_ok_def)
  obtain s1 where s1: "request_one (fst r) (snd r) s =
      ((case ci_reads (sx_io s) of [] \<Rightarrow> False | x # _ \<Rightarrow> fst r x \<noteq> None), s1)"
    "ci_room (sx_io s1) = None" "ci_reads (sx_io s1) = tl (ci_reads (sx_io s))"
    using request_one_lockstep [OF Cons.prems(1) ok(1)] by blast
  show ?case
  proof (cases "ci_reads (sx_io s)")
    case Nil
    then show ?thesis using s1(1) by simp
  next
    case (Cons x xs)
    then show ?thesis using s1 Cons.IH [OF s1(2) ok(2)]
      by (cases "fst r x = None") simp_all
  qed
qed

end
