(* ===== verification/ClientProps.thy ===== *)
theory ClientProps
  imports ClientHandler
begin

text \<open>
  Properties of the client's side of a control connection: who it talks to and what it sends, which
  data addresses it dials, and that its registration is a strict alternation of request and answer.
\<close>

text \<open>The first message read is a registration with the client's own token.\<close>

definition authentic ::
  "(MsgType \<Rightarrow> bytes \<Rightarrow> payload option) \<Rightarrow> string \<Rightarrow> (read_error + Envelope) list \<Rightarrow> bool" where
  "authentic gob authToken rds \<longleftrightarrow>
     (\<exists>env msg rest. rds = Inr env # rest \<and> Env_Type env = MsgClientRegister \<and>
        gob MsgClientRegister (Env_Payload env) = Some (P_ClientRegister msg) \<and> CR_AuthToken msg = authToken)"

definition refusals :: "payload list set" where
  "refusals = {[], [resp_error ''invalid token''], [resp_error ''malformed ClientRegister payload'']}"

lemma handshake_out:
  assumes "handshake gob tok name dl s = (b, s1)" "ci_out (sx_io s) = []"
  shows "(b \<longrightarrow> authentic gob tok (ci_reads (sx_io s)) \<and> ci_out (sx_io s1) = [resp_ok name]) \<and>
     (authentic gob tok (ci_reads (sx_io s)) \<longrightarrow> ci_out (sx_io s1) = [] \<or> ci_out (sx_io s1) = [resp_ok name]) \<and>
     (\<not> authentic gob tok (ci_reads (sx_io s)) \<longrightarrow> ci_out (sx_io s1) \<in> refusals) \<and>
     sx_addrs s1 = sx_addrs s \<and> set (ci_reads (sx_io s1)) \<subseteq> set (ci_reads (sx_io s))"
proof -
  obtain r c where rd: "cio_read (sx_io s) = (r, c)" by fastforce
  then have c: "ci_out c = []" "set (ci_reads c) \<subseteq> set (ci_reads (sx_io s))"
    and r: "ci_reads (sx_io s) = [] \<and> r = Inl PrefixEOF \<or> (\<exists>rest. ci_reads (sx_io s) = r # rest)"
    using assms(2) by (auto simp: cio_read_def split: list.splits)
  have w: "ci_reads (snd (cio_write p c)) = ci_reads c"
    "ci_out (snd (cio_write p c)) = (if fst (cio_write p c) then [p] else [])" for p
  proof -
    obtain ok c' where "cio_write p c = (ok, c')" by fastforce
    then show "ci_reads (snd (cio_write p c)) = ci_reads c"
      "ci_out (snd (cio_write p c)) = (if fst (cio_write p c) then [p] else [])"
      using cio_write_out [of p c ok c'] c(1) by simp_all
  qed
  show ?thesis
  proof (cases "\<exists>env. r = Inr env \<and> Env_Type env = MsgClientRegister")
    case False
    then have "\<not> authentic gob tok (ci_reads (sx_io s))" using r by (auto simp: authentic_def)
    moreover have "handshake gob tok name dl s = (False, if \<not> fst dl then s else s\<lparr>sx_io := c\<rparr>)"
      using rd False by (simp add: handshake_def Let_def split: sum.split)
    ultimately show ?thesis using assms c by (auto simp: refusals_def split: if_splits)
  next
    case True
    then obtain env rest where e: "r = Inr env" "Env_Type env = MsgClientRegister" "ci_reads (sx_io s) = Inr env # rest"
      using r by auto
    have auth: "authentic gob tok (ci_reads (sx_io s)) \<longleftrightarrow>
        (\<exists>msg. gob MsgClientRegister (Env_Payload env) = Some (P_ClientRegister msg) \<and> CR_AuthToken msg = tok)"
      using e by (simp add: authentic_def)
    show ?thesis
    proof (cases "\<exists>msg. gob MsgClientRegister (Env_Payload env) = Some (P_ClientRegister msg)")
      case True
      then obtain msg where m: "gob MsgClientRegister (Env_Payload env) = Some (P_ClientRegister msg)" by blast
      obtain ok c' where wr: "cio_write (resp_ok name) c = (ok, c')" by fastforce
      then have c': "ci_out c' = (if ok then [resp_ok name] else [])" "ci_reads c' = ci_reads c"
        using cio_write_out [OF wr] c(1) by simp_all
      show ?thesis using assms rd e m wr c' c auth w(1) [of "resp_error ''invalid token''"] w(2) [of "resp_error ''invalid token''"]
        by (auto simp: handshake_def Let_def refusals_def split: if_splits)
    next
      case False
      then have "handshake gob tok name dl s = (if \<not> fst dl then (False, s)
          else (False, s\<lparr>sx_io := snd (cio_write (resp_error ''malformed ClientRegister payload'') c)\<rparr>))"
        using rd e by (auto simp: handshake_def Let_def split: option.split payload.split)
      then show ?thesis using assms c auth False w(1) [of "resp_error ''malformed ClientRegister payload''"]
          w(2) [of "resp_error ''malformed ClientRegister payload''"]
        by (auto simp: refusals_def split: if_splits)
    qed
  qed
qed

lemma start_out:
  assumes "HandleServerConn_start gob tok name dl cfg s = (b, s')" "ci_out (sx_io s) = []"
  shows "(authentic gob tok (ci_reads (sx_io s)) \<longrightarrow>
       (\<exists>k. ci_out (sx_io s') = take k (resp_ok name # map snd (requests gob cfg)))) \<and>
     (b \<longrightarrow> authentic gob tok (ci_reads (sx_io s)) \<and> ci_out (sx_io s') = resp_ok name # map snd (requests gob cfg)) \<and>
     (\<not> authentic gob tok (ci_reads (sx_io s)) \<longrightarrow> ci_out (sx_io s') \<in> refusals) \<and>
     (\<forall>t a. sx_addrs s' t = Some a \<longrightarrow>
        (\<exists>x \<in> set (ci_reads (sx_io s)). tunnel_answer gob x = Some (t, a) \<or> http_answer gob x = Some (t, a)))"
proof -
  let ?s = "s\<lparr>sx_addrs := Map.empty, sx_serverDataAddr := []\<rparr>"
  obtain b1 s1 where h: "handshake gob tok name dl ?s = (b1, s1)" by fastforce
  note ho = handshake_out [OF h]
  show ?thesis
  proof (cases b1)
    case False
    then have "b = False" "s' = s1" using assms(1) h by (simp_all add: start_request_all)
    moreover have "take 0 (resp_ok name # map snd (requests gob cfg)) = []"
      "take 1 (resp_ok name # map snd (requests gob cfg)) = [resp_ok name]" by simp_all
    moreover have "ci_out (sx_io s1) = [] \<or> ci_out (sx_io s1) = [resp_ok name] \<Longrightarrow>
        \<exists>k. ci_out (sx_io s1) = take k (resp_ok name # map snd (requests gob cfg))"
      by (metis calculation(3,4))
    ultimately show ?thesis using ho assms(2) False by simp
  next
    case True
    then have r: "request_all (requests gob cfg) s1 = (b, s')" using assms(1) h by (simp add: start_request_all)
    obtain k where k: "k \<le> length (requests gob cfg)" "b \<longrightarrow> k = length (requests gob cfg)"
      "ci_out (sx_io s') = ci_out (sx_io s1) @ map snd (take k (requests gob cfg))"
      using request_all_out [OF r] by blast
    have o: "ci_out (sx_io s1) = [resp_ok name]" "authentic gob tok (ci_reads (sx_io s))" "sx_addrs s1 = Map.empty"
      "set (ci_reads (sx_io s1)) \<subseteq> set (ci_reads (sx_io s))"
      using ho assms(2) True by simp_all
    have "ci_out (sx_io s') = take (Suc k) (resp_ok name # map snd (requests gob cfg))"
      using k(3) o(1) by (simp add: take_map)
    moreover have "\<exists>x \<in> set (ci_reads (sx_io s)). tunnel_answer gob x = Some (t, a) \<or> http_answer gob x = Some (t, a)"
      if "sx_addrs s' t = Some a" for t a
      using request_all_addrs [OF r requests_answers that] o(3,4) requests_answer_cases by fastforce
    moreover have "take (Suc (length (requests gob cfg))) (resp_ok name # map snd (requests gob cfg)) =
        resp_ok name # map snd (requests gob cfg)" by simp
    ultimately show ?thesis using k(2) o(2) by metis
  qed
qed

text \<open>The loop starts a data connection only for a tunnel it has an address for.\<close>

definition opened_ok :: "client_loop \<Rightarrow> bool" where
  "opened_ok s \<longleftrightarrow> (\<forall>oc a. (oc, a) \<in> set (lp_opened s) \<longrightarrow> lp_addrs s (OC_TunnelID oc) = Some a)"

lemma client_message_ok:
  assumes "client_message gob wok env s = Some (r, s')" "opened_ok s"
  shows "opened_ok s' \<and> lp_addrs s' = lp_addrs s \<and> lp_phase s' = lp_phase s"
  using assms
  by (cases "Env_Type env")
    (auto simp: client_message_def opened_ok_def client_deliver_def split: option.splits payload.splits if_splits sum.splits)

lemma client_step_ok:
  assumes "client_step gob ev s = Some s'" "opened_ok s"
  shows "opened_ok s' \<and> lp_addrs s' = lp_addrs s \<and> (lp_phase s \<noteq> CL_Loop \<longrightarrow> lp_phase s' \<noteq> CL_Loop \<and> lp_opened s' = lp_opened s)"
proof (cases ev)
  case (CE_Loop i)
  have "opened_ok (s\<lparr>lp_deliver := None\<rparr>)" using assms(2) by (simp add: opened_ok_def)
  then have "opened_ok s1 \<and> lp_addrs s1 = lp_addrs s \<and> lp_phase s1 = lp_phase s"
    if "client_message gob w env (s\<lparr>lp_deliver := None\<rparr>) = Some (r, s1)" for w env r s1
    using client_message_ok [OF that] by simp
  then show ?thesis using assms CE_Loop
    by (fastforce simp: client_iteration_def Let_def opened_ok_def split: if_splits sum.splits option.splits prod.splits)
qed (use assms in \<open>auto simp: opened_ok_def client_deferred_def split: if_splits\<close>)

lemma client_run_ok:
  "client_run gob evs s = Some s' \<Longrightarrow> opened_ok s \<Longrightarrow>
   opened_ok s' \<and> lp_addrs s' = lp_addrs s \<and> (lp_phase s \<noteq> CL_Loop \<longrightarrow> lp_opened s' = lp_opened s)"
proof (induction evs arbitrary: s)
  case Nil
  then show ?case by simp
next
  case (Cons ev evs)
  then obtain s1 where "client_step gob ev s = Some s1" "client_run gob evs s1 = Some s'"
    by (auto split: option.splits)
  then show ?case using client_step_ok [of gob ev s s1] Cons by auto
qed

text \<open>
  C6. A client serves only a server that knows its token. If the first message read is not a
  registration with that token, the client sends at most one refusal and opens nothing. Otherwise
  what it sends is its acceptance followed by the configured tunnel requests in order, up to where
  the exchange stopped; and in the message loop, whatever the server sends, it opens data
  connections only for tunnel IDs the server assigned in this registration, each to the data address
  that came with the assignment.
\<close>

theorem client_serves_own_server:
  assumes "ci_out (sx_io s) = []"
    and "client_run gob evs (loop_start (HandleServerConn_start gob tok name dl cfg s) m) = Some s'"
  shows "(if authentic gob tok (ci_reads (sx_io s))
          then \<exists>k. ci_out (sx_io (snd (HandleServerConn_start gob tok name dl cfg s))) =
                 take k (resp_ok name # map snd (requests gob cfg))
          else ci_out (sx_io (snd (HandleServerConn_start gob tok name dl cfg s))) \<in> refusals \<and> lp_opened s' = []) \<and>
    (\<forall>oc a. (oc, a) \<in> set (lp_opened s') \<longrightarrow>
       (\<exists>x \<in> set (ci_reads (sx_io s)). tunnel_answer gob x = Some (OC_TunnelID oc, a) \<or>
                                      http_answer gob x = Some (OC_TunnelID oc, a)))"
proof -
  obtain b s1 where st: "HandleServerConn_start gob tok name dl cfg s = (b, s1)" by fastforce
  note o = start_out [OF st assms(1)]
  have "opened_ok (loop_start (b, s1) m)" by (simp add: opened_ok_def loop_start_def)
  from client_run_ok [OF assms(2) [unfolded st] this]
  have r: "opened_ok s'" "lp_addrs s' = sx_addrs s1" "\<not> b \<longrightarrow> lp_opened s' = []"
    by (simp_all add: loop_start_def)
  show ?thesis using o r unfolding st by (auto simp: opened_ok_def)
qed

text \<open>
  C31. Registration is lockstep. With all writes going through and the deadlines set, the client
  reaches its message loop exactly when the server registers with the token and the following
  messages are, one by one and with nothing in between, accepting answers to its requests.
\<close>

theorem registration_lockstep:
  assumes "ci_room (sx_io s) = None"
  shows "fst (HandleServerConn_start gob tok name (True, True) cfg s) \<longleftrightarrow>
     authentic gob tok (ci_reads (sx_io s)) \<and>
     list_all2 (\<lambda>r x. fst r x \<noteq> None) (requests gob cfg) (take (length (requests gob cfg)) (tl (ci_reads (sx_io s))))"
proof -
  let ?s = "s\<lparr>sx_addrs := Map.empty, sx_serverDataAddr := []\<rparr>"
  obtain b s1 where h: "handshake gob tok name (True, True) ?s = (b, s1)" by fastforce
  have "b = authentic gob tok (ci_reads (sx_io s)) \<and>
        (b \<longrightarrow> ci_room (sx_io s1) = None \<and> ci_reads (sx_io s1) = tl (ci_reads (sx_io s)))"
    using h assms
    by (cases "ci_reads (sx_io s)")
      (auto simp: handshake_def authentic_def cio_read_def cio_write_def Let_def
        split: sum.splits if_splits option.splits payload.splits)
  then show ?thesis
    using request_all_lockstep [OF _ requests_answers, of s1 gob cfg] h by (simp add: start_request_all split: bool.split)
qed

subsection \<open>One tunnel\<close>

definition one_gob :: "MsgType \<Rightarrow> bytes \<Rightarrow> payload option" where
  "one_gob t b =
     (if t = MsgClientRegister then
        Some (P_ClientRegister \<lparr>CR_AuthToken = ''secret'', CR_Name = ''server'', CR_Version = ''0.1.0''\<rparr>)
      else if t = MsgTunnelResp then
        Some (P_TunnelResp \<lparr>TR_TunnelID = ''t1'', TR_PublicPort = 40001, TR_ServerDataAddr = ''203.0.113.1:9001'',
           TR_Status = ''ok'', TR_Error = []\<rparr>)
      else if t = MsgOpenConnection then
        Some (P_OpenConnection \<lparr>OC_TunnelID = ''t1'', OC_ConnID = ''x1'', OC_LocalHost = ''127.0.0.1'',
           OC_LocalPort = 22, OC_DataToken = ''d''\<rparr>) else None)"

definition one_cfg :: ClientConfig where
  "one_cfg = \<lparr>cc_Tunnels = [\<lparr>tc_LocalHost = ''127.0.0.1'', tc_LocalPort = 22, tc_RequestedPort = 0\<rparr>],
              cc_HTTPTunnels = [], cc_HTTPSTunnels = []\<rparr>"

definition one_session :: "MsgType list \<Rightarrow> client_session" where
  "one_session ts = \<lparr>sx_io = \<lparr>ci_reads = map (\<lambda>t. Inr \<lparr>Env_Type = t, Env_Payload = []\<rparr>) ts, ci_room = None, ci_out = []\<rparr>,
     sx_serverName = [], sx_addrs = Map.empty, sx_serverDataAddr = []\<rparr>"

lemmas one_defs = one_gob_def one_cfg_def one_session_def

theorem client_serves_own_server_witness:
  "\<exists>s'. client_run one_gob [CE_Loop \<lparr>cin_done = False, cin_read = Inr \<lparr>Env_Type = MsgOpenConnection, Env_Payload = []\<rparr>,
        cin_write = True\<rparr>]
      (loop_start (HandleServerConn_start one_gob ''secret'' ''laptop'' (True, True) one_cfg
        (one_session [MsgClientRegister, MsgTunnelResp])) NewSOCKSMux) = Some s' \<and>
     map snd (lp_opened s') = [''203.0.113.1:9001''] \<and>
     (\<exists>k. ci_out (sx_io (snd (HandleServerConn_start one_gob ''secret'' ''laptop'' (True, True) one_cfg
        (one_session [MsgClientRegister, MsgTunnelResp])))) = take k (resp_ok ''laptop'' # map snd (requests one_gob one_cfg)))"
proof -
  let ?st = "HandleServerConn_start one_gob ''secret'' ''laptop'' (True, True) one_cfg (one_session [MsgClientRegister, MsgTunnelResp])"
  obtain s' where r: "client_run one_gob [CE_Loop \<lparr>cin_done = False, cin_read = Inr \<lparr>Env_Type = MsgOpenConnection,
      Env_Payload = []\<rparr>, cin_write = True\<rparr>] (loop_start ?st NewSOCKSMux) = Some s'"
    "map snd (lp_opened s') = [''203.0.113.1:9001'']"
    by (simp add: one_defs HandleServerConn_start_def handshake_def cio_read_def cio_write_def request_one_def
        tunnel_answer_def note_addr_def loop_start_def client_iteration_def client_stuck_def client_message_def Let_def)
  have a: "authentic one_gob ''secret'' (ci_reads (sx_io (one_session [MsgClientRegister, MsgTunnelResp])))"
    by (simp add: authentic_def one_defs)
  have "ci_out (sx_io (one_session [MsgClientRegister, MsgTunnelResp])) = []" by (simp add: one_session_def)
  from client_serves_own_server [OF this r(1)] a r show ?thesis by auto
qed

text \<open>An answer is accepted; a Ping in its place, which the server's heartbeat may send, ends the session.\<close>

theorem registration_lockstep_witness:
  "fst (HandleServerConn_start one_gob ''secret'' ''laptop'' (True, True) one_cfg (one_session [MsgClientRegister, MsgTunnelResp])) \<and>
   \<not> fst (HandleServerConn_start one_gob ''secret'' ''laptop'' (True, True) one_cfg (one_session [MsgClientRegister, MsgPing, MsgTunnelResp]))"
proof -
  have r: "ci_room (sx_io (one_session ts)) = None" for ts by (simp add: one_session_def)
  show ?thesis
    unfolding registration_lockstep [OF r]
    by (simp add: one_defs authentic_def requests_def tunnel_answer_def)
qed

end
