(* ===== verification/Frontends.thy ===== *)
theory Frontends
  imports SocksNegotiate SocksMux Relay Pool Messages
begin

text \<open>
  The client's three local listeners: SOCKS5 (\<open>internal/socks/client.go\<close>), HTTP CONNECT
  (\<open>internal/socks/httpconnect.go\<close>) and port forwards (\<open>internal/socks/portforward.go\<close>). They
  differ in how the target is learned and in what the local user is told; the rest is the same
  sequence of calls, which is one step function here: pick a server session, open a channel, send
  \<open>SOCKSConnect\<close>, wait, answer, relay, remove the channel. Other goroutines act on the pool and
  on the multiplexers between any two steps.
\<close>

subsection \<open>HTTP requests\<close>

definition nl :: char where "nl = CHR 0x0A"
definition cr :: char where "cr = CHR 0x0D"
definition crlf :: string where "crlf = [cr, nl]"

text \<open>\<open>br.ReadString('\n')\<close>: the line with its newline, or an error when the stream ends first.\<close>

definition ReadString_nl :: "string \<Rightarrow> (string \<times> string) option" where
  "ReadString_nl s = (case index_of nl s of None \<Rightarrow> None | Some i \<Rightarrow> Some (take (Suc i) s, drop (Suc i) s))"

definition TrimRight :: "string \<Rightarrow> string" where
  "TrimRight s = rev (dropWhile (\<lambda>c. c = cr \<or> c = nl) (rev s))"

text \<open>\<open>strings.Fields\<close>\<close>

function Fields_from :: "string \<Rightarrow> string \<Rightarrow> string list" where
  "Fields_from cur s =
     (if s = [] then (if cur = [] then [] else [cur])
      else (let (r, w) = decode_rune s
            in if IsSpace r then (if cur = [] then [] else [cur]) @ Fields_from [] (drop w s)
               else Fields_from (cur @ take w s) (drop w s)))"
  by pat_completeness auto
termination
proof (relation "measure (\<lambda>(cur, s). length s)", goal_cases)
  case (2 cur s z r w)
  then show ?case using decode_rune_width [of s] by (cases s) (auto dest: arg_cong [where f = snd])
next
  case (3 cur s z r w)
  then show ?case using decode_rune_width [of s] by (cases s) (auto dest: arg_cong [where f = snd])
qed simp

declare Fields_from.simps [simp del]

definition Fields :: "string \<Rightarrow> string list" where
  "Fields s = Fields_from [] s"

text \<open>Read header lines up to the blank one: what follows it, or \<open>None\<close> when the stream ends first.\<close>

function skip_headers :: "string \<Rightarrow> string option" where
  "skip_headers s =
     (case ReadString_nl s of
        None \<Rightarrow> None
      | Some (line, rest) \<Rightarrow> if TrimRight line = [] then Some rest else skip_headers rest)"
  by pat_completeness auto
termination
proof (relation "measure length", goal_cases)
  case (2 s x line rest)
  then show ?case by (cases s) (auto simp: ReadString_nl_def split: option.splits)
qed simp

declare skip_headers.simps [simp del]

definition writeHTTPError :: "string \<Rightarrow> string" where
  "writeHTTPError status =
     (let body = status @ crlf
      in ''HTTP/1.1 '' @ status @ crlf @ ''Content-Type: text/plain'' @ crlf @
         ''Content-Length: '' @ show_nat (length body) @ crlf @ ''Connection: close'' @ crlf @ crlf @ body)"

definition http_info :: string where
  "http_info =
     (let body = ''reversproxy - HTTP CONNECT proxy'' @ crlf @ ''Set HTTPS_PROXY=http://127.0.0.1:8080 to use.'' @ crlf
      in ''HTTP/1.1 200 OK'' @ crlf @ ''Content-Type: text/plain'' @ crlf @
         ''Content-Length: '' @ show_nat (length body) @ crlf @ crlf @ body)"

text \<open>
  What the request leads to: the connection is closed in silence, a response is sent, or a tunnel to
  a host and port is wanted, with the bytes already read past the headers.
\<close>

datatype http_request = HR_Close | HR_Reply string | HR_Connect string int string

definition read_connect :: "string \<Rightarrow> http_request" where
  "read_connect s =
     (case ReadString_nl s of
        None \<Rightarrow> HR_Close
      | Some (line, s1) \<Rightarrow>
          (let parts = Fields (TrimRight line)
           in if length parts < 2 then HR_Reply (writeHTTPError ''400 Bad Request'')
              else (let meth = map upper_char (parts ! 0); target = parts ! 1
                    in case skip_headers s1 of
                         None \<Rightarrow> HR_Close
                       | Some s2 \<Rightarrow>
                           (if meth \<noteq> ''CONNECT'' then HR_Reply http_info
                            else (case SplitHostPort target of
                                    Inl _ \<Rightarrow> HR_Reply (writeHTTPError ''400 Bad Request'')
                                  | Inr (host, portStr) \<Rightarrow>
                                      (case ParseInt portStr of
                                         None \<Rightarrow> HR_Reply (writeHTTPError ''400 Bad Request'')
                                       | Some port \<Rightarrow> HR_Connect host port s2))))))"

subsection \<open>From the target to the relay\<close>

text \<open>
  What the local user is told in each case, whether the success answer's write is checked (then a
  failure closes the channel at the server), and whether the channel is removed explicitly after the
  relay besides the deferred removal.
\<close>

record replies =
  rp_noserver :: bytes
  rp_mux :: bytes
  rp_send :: bytes
  rp_timeout :: bytes
  rp_ctx :: bytes
  rp_chdone :: bytes
  rp_refused :: bytes
  rp_ok :: bytes
  rp_check :: bool
  rp_remove :: bool

text \<open>The shared state: the pool, each session's multiplexer; and what this connection sent.\<close>

record frontend =
  fe_pool :: ServerPool
  fe_mux :: "ptr \<Rightarrow> SOCKSMux"
  fe_ctrl :: "(ptr \<times> payload) list"
  fe_reply :: bytes

datatype fe_phase =
    F_Pick | F_New ptr | F_Send ptr ptr | F_Wait ptr ptr | F_Answer ptr ptr | F_Relay ptr ptr
  | F_Recv ptr ptr | F_Abort ptr | F_Remove ptr | F_Deferred ptr | F_Done

datatype wake = W_Ready | W_Timeout | W_Context | W_ChannelDone

text \<open>
  \<open>I_Data\<close>, \<open>I_LocalEnd\<close>, \<open>I_WriteFails\<close> are what the local user's connection does during the relay: a
  read with data (and whether the frame is written), the end of its stream or a read error (and
  whether the closing frame is written), and a write to it that fails.
\<close>

datatype fe_input =
    I_Step bool
  | I_Wake wake
  | I_Data bytes bool
  | I_LocalEnd bool
  | I_WriteFails
  | I_Others ServerPool "ptr \<Rightarrow> SOCKSMux"

definition fe_send :: "ptr \<Rightarrow> payload \<Rightarrow> bool \<Rightarrow> frontend \<Rightarrow> frontend" where
  "fe_send sess p ok s = (if ok then s\<lparr>fe_ctrl := fe_ctrl s @ [(sess, p)]\<rparr> else s)"

definition fe_tell :: "bytes \<Rightarrow> frontend \<Rightarrow> frontend" where
  "fe_tell b s = s\<lparr>fe_reply := fe_reply s @ b\<rparr>"

definition fe_remove :: "ptr \<Rightarrow> string \<Rightarrow> frontend \<Rightarrow> frontend" where
  "fe_remove sess c s = s\<lparr>fe_mux := (fe_mux s)(sess := Mux_Remove c (fe_mux s sess))\<rparr>"

definition connect_msg :: "string \<Rightarrow> string \<Rightarrow> int \<Rightarrow> payload" where
  "connect_msg c host port =
     P_SOCKSConnect \<lparr>SC_ConnID = c, SC_TargetHost = host, SC_TargetPort = port, SC_DataToken = []\<rparr>"

text \<open>The \<open>select\<close> of the wait: which of its cases can be taken, and what follows.\<close>

definition fe_wake ::
  "replies \<Rightarrow> wake \<Rightarrow> ptr \<Rightarrow> ptr \<Rightarrow> frontend \<Rightarrow> (fe_phase \<times> frontend) option" where
  "fe_wake rp w sess p s =
     (case w of
        W_Ready \<Rightarrow>
          (case sm_heap (fe_mux s sess) p of
             None \<Rightarrow> None
           | Some ch \<Rightarrow>
               (case sch_ReadyCh ch of
                  None \<Rightarrow> None
                | Some (success, _) \<Rightarrow>
                    Some (if success then (F_Answer sess p, s) else (F_Deferred sess, fe_tell (rp_refused rp) s))))
      | W_Timeout \<Rightarrow> Some (F_Deferred sess, fe_tell (rp_timeout rp) s)
      | W_Context \<Rightarrow> Some (F_Deferred sess, fe_tell (rp_ctx rp) s)
      | W_ChannelDone \<Rightarrow>
          (case sm_heap (fe_mux s sess) p of
             None \<Rightarrow> None
           | Some ch \<Rightarrow> if sch_done ch then Some (F_Deferred sess, fe_tell (rp_chdone rp) s) else None))"

text \<open>
  The relay waits for the end of the local stream, sends its closing frame, and then waits for the
  copy from the channel, which returns when the channel's pipe is closed or a write to the user fails.
  There is no timeout in either wait, and the context is not looked at.
\<close>

definition recv_ended :: "ptr \<Rightarrow> ptr \<Rightarrow> frontend \<Rightarrow> bool" where
  "recv_ended sess p s = (case sm_heap (fe_mux s sess) p of None \<Rightarrow> False | Some ch \<Rightarrow> sch_wclosed ch)"

definition after_relay :: "replies \<Rightarrow> ptr \<Rightarrow> fe_phase" where
  "after_relay rp sess = (if rp_remove rp then F_Remove sess else F_Deferred sess)"

fun fe_step ::
  "replies \<Rightarrow> string \<Rightarrow> string \<Rightarrow> int \<Rightarrow> fe_input \<Rightarrow> fe_phase \<times> frontend \<Rightarrow> (fe_phase \<times> frontend) option" where
  "fe_step rp c host port (I_Others pool mux) (ph, s) = Some (ph, s\<lparr>fe_pool := pool, fe_mux := mux\<rparr>)"
| "fe_step rp c host port (I_Step ok) (F_Pick, s) =
     (case Pick (fe_pool s) of
        (None, pool) \<Rightarrow> Some (F_Done, fe_tell (rp_noserver rp) (s\<lparr>fe_pool := pool\<rparr>))
      | (Some sess, pool) \<Rightarrow> Some (F_New sess, s\<lparr>fe_pool := pool\<rparr>))"
| "fe_step rp c host port (I_Step ok) (F_New sess, s) =
     (case NewChannel c (fe_mux s sess) of
        (Inl _, _) \<Rightarrow> Some (F_Done, fe_tell (rp_mux rp) s)
      | (Inr p, m) \<Rightarrow> Some (F_Send sess p, s\<lparr>fe_mux := (fe_mux s)(sess := m)\<rparr>))"
| "fe_step rp c host port (I_Step ok) (F_Send sess p, s) =
     Some (if ok then (F_Wait sess p, fe_send sess (connect_msg c host port) True s)
           else (F_Deferred sess, fe_tell (rp_send rp) s))"
| "fe_step rp c host port (I_Wake w) (F_Wait sess p, s) = fe_wake rp w sess p s"
| "fe_step rp c host port (I_Step ok) (F_Answer sess p, s) =
     Some (if rp_check rp \<and> \<not> ok
           then (F_Abort sess, s)
           else (F_Relay sess p, if ok then fe_tell (rp_ok rp) s else s))"
| "fe_step rp c host port (I_Step ok) (F_Abort sess, s) =
     Some (F_Deferred sess, fe_send sess (snd (close_frame MsgSOCKSClose c)) ok s)"
| "fe_step rp c host port (I_Data b ok) (F_Relay sess p, s) =
     Some (F_Relay sess p, fe_send sess (snd (data_frame c b)) ok s)"
| "fe_step rp c host port (I_LocalEnd ok) (F_Relay sess p, s) =
     Some (F_Recv sess p, fe_send sess (snd (close_frame MsgSOCKSClose c)) ok s)"
| "fe_step rp c host port (I_Step ok) (F_Recv sess p, s) =
     (if recv_ended sess p s then Some (after_relay rp sess, s) else None)"
| "fe_step rp c host port I_WriteFails (F_Recv sess p, s) = Some (after_relay rp sess, s)"
| "fe_step rp c host port (I_Step ok) (F_Remove sess, s) = Some (F_Deferred sess, fe_remove sess c s)"
| "fe_step rp c host port (I_Step ok) (F_Deferred sess, s) = Some (F_Done, fe_remove sess c s)"
| "fe_step rp c host port i st = None"

fun fe_run ::
  "replies \<Rightarrow> string \<Rightarrow> string \<Rightarrow> int \<Rightarrow> fe_input list \<Rightarrow> fe_phase \<times> frontend \<Rightarrow> (fe_phase \<times> frontend) option" where
  "fe_run rp c host port [] st = Some st"
| "fe_run rp c host port (i # is) st =
     (case fe_step rp c host port i st of None \<Rightarrow> None | Some st' \<Rightarrow> fe_run rp c host port is st')"

subsection \<open>The three handlers\<close>

definition socks_replies :: replies where
  "socks_replies =
     (let failure = sendSOCKSReply repGeneralFailure [] 0
      in \<lparr>rp_noserver = failure, rp_mux = failure, rp_send = failure, rp_timeout = failure, rp_ctx = failure,
          rp_chdone = failure, rp_refused = sendSOCKSReply repConnRefused [] 0,
          rp_ok = sendSOCKSReply repSuccess IPv4zero 0, rp_check = False, rp_remove = True\<rparr>)"

definition http_replies :: replies where
  "http_replies =
     (let e = (\<lambda>status. bytes_of_string (writeHTTPError status))
      in \<lparr>rp_noserver = e ''503 Service Unavailable'', rp_mux = e ''502 Bad Gateway'', rp_send = e ''502 Bad Gateway'',
          rp_timeout = e ''504 Gateway Timeout'', rp_ctx = e ''503 Service Unavailable'',
          rp_chdone = e ''502 Bad Gateway'', rp_refused = e ''502 Bad Gateway'',
          rp_ok = bytes_of_string (''HTTP/1.1 200 Connection Established'' @ crlf @ crlf),
          rp_check = True, rp_remove = True\<rparr>)"

definition forward_replies :: replies where
  "forward_replies =
     \<lparr>rp_noserver = [], rp_mux = [], rp_send = [], rp_timeout = [], rp_ctx = [], rp_chdone = [], rp_refused = [],
      rp_ok = [], rp_check = False, rp_remove = False\<rparr>"

text \<open>Each handler up to the first shared call: what was told, and the target, if it goes on.\<close>

definition handleClientSOCKSConn ::
  "bool \<Rightarrow> bool \<Rightarrow> string \<Rightarrow> string \<Rightarrow> bytes \<Rightarrow> bytes \<times> (string \<times> int) option" where
  "handleClientSOCKSConn w1 w2 authUser authPass s =
     (case NegotiateSOCKS5 w1 w2 authUser authPass s of
        (Inl _, out, _) \<Rightarrow> (out, None)
      | (Inr target, out, _) \<Rightarrow> (out, Some target))"

definition handleHTTPConnectConn :: "string \<Rightarrow> string \<times> (string \<times> int) option" where
  "handleHTTPConnectConn s =
     (case read_connect s of
        HR_Close \<Rightarrow> ([], None)
      | HR_Reply r \<Rightarrow> (r, None)
      | HR_Connect host port _ \<Rightarrow> ([], Some (host, port)))"

definition handlePortForward :: "string \<Rightarrow> int \<Rightarrow> bytes \<times> (string \<times> int) option" where
  "handlePortForward remoteHost remotePort = ([], Some (remoteHost, remotePort))"

text \<open>The listen address of a port forward.\<close>

definition forward_addr :: "string \<Rightarrow> int \<Rightarrow> string" where
  "forward_addr bindAddr localPort = hostport (if bindAddr = [] then ''127.0.0.1'' else bindAddr) localPort"

end
