(* ===== verification/FrontendProps.thy ===== *)
theory FrontendProps
  imports Frontends
begin

text \<open>
  Properties of the client's local listeners: what a connection sends to the server and tells its
  user in every run, that every run can be brought to its end, and that the CONNECT parser reads
  exactly the request and leaves the rest of the stream to the relay.
\<close>

subsection \<open>What a connection sends and tells\<close>

definition failures :: "replies \<Rightarrow> bytes set" where
  "failures rp = {rp_noserver rp, rp_mux rp, rp_send rp, rp_timeout rp, rp_ctx rp, rp_chdone rp, rp_refused rp}"

definition datas :: "ptr \<Rightarrow> string \<Rightarrow> bytes list \<Rightarrow> (ptr \<times> payload) list" where
  "datas sess c bs = map (\<lambda>b. (sess, snd (data_frame c b))) bs"

definition closing :: "ptr \<Rightarrow> string \<Rightarrow> (ptr \<times> payload) list \<Rightarrow> bool" where
  "closing sess c fs \<longleftrightarrow> fs = [] \<or> fs = [(sess, snd (close_frame MsgSOCKSClose c))]"

text \<open>The run ended with a relay, before one, or because the success answer could not be written.\<close>

definition relayed :: "replies \<Rightarrow> string \<Rightarrow> string \<Rightarrow> int \<Rightarrow> frontend \<Rightarrow> bool" where
  "relayed rp c host port s \<longleftrightarrow>
     (\<exists>sess bs fs. fe_ctrl s = (sess, connect_msg c host port) # datas sess c bs @ fs \<and> closing sess c fs) \<and>
     (fe_reply s = [] \<or> fe_reply s = rp_ok rp)"

definition refused :: "replies \<Rightarrow> string \<Rightarrow> string \<Rightarrow> int \<Rightarrow> frontend \<Rightarrow> bool" where
  "refused rp c host port s \<longleftrightarrow>
     (fe_ctrl s = [] \<or> (\<exists>sess. fe_ctrl s = [(sess, connect_msg c host port)])) \<and> fe_reply s \<in> failures rp"

definition aborted :: "replies \<Rightarrow> string \<Rightarrow> string \<Rightarrow> int \<Rightarrow> frontend \<Rightarrow> bool" where
  "aborted rp c host port s \<longleftrightarrow>
     rp_check rp \<and> fe_reply s = [] \<and>
     (\<exists>sess fs. fe_ctrl s = (sess, connect_msg c host port) # fs \<and> closing sess c fs)"

fun fe_inv :: "replies \<Rightarrow> string \<Rightarrow> string \<Rightarrow> int \<Rightarrow> bool \<Rightarrow> fe_phase \<times> frontend \<Rightarrow> bool" where
  "fe_inv rp c host port told (F_Pick, s) \<longleftrightarrow> fe_ctrl s = [] \<and> fe_reply s = []"
| "fe_inv rp c host port told (F_New sess, s) \<longleftrightarrow> fe_ctrl s = [] \<and> fe_reply s = []"
| "fe_inv rp c host port told (F_Send sess p, s) \<longleftrightarrow> fe_ctrl s = [] \<and> fe_reply s = []"
| "fe_inv rp c host port told (F_Wait sess p, s) \<longleftrightarrow> fe_ctrl s = [(sess, connect_msg c host port)] \<and> fe_reply s = []"
| "fe_inv rp c host port told (F_Answer sess p, s) \<longleftrightarrow>
     told \<and> fe_ctrl s = [(sess, connect_msg c host port)] \<and> fe_reply s = []"
| "fe_inv rp c host port told (F_Abort sess, s) \<longleftrightarrow>
     told \<and> rp_check rp \<and> fe_ctrl s = [(sess, connect_msg c host port)] \<and> fe_reply s = []"
| "fe_inv rp c host port told (F_Relay sess p, s) \<longleftrightarrow>
     told \<and> (\<exists>bs. fe_ctrl s = (sess, connect_msg c host port) # datas sess c bs) \<and> (fe_reply s = [] \<or> fe_reply s = rp_ok rp)"
| "fe_inv rp c host port told (F_Recv sess p, s) \<longleftrightarrow> told \<and> relayed rp c host port s"
| "fe_inv rp c host port told (F_Remove sess, s) \<longleftrightarrow> told \<and> relayed rp c host port s"
| "fe_inv rp c host port told (_, s) \<longleftrightarrow>
     refused rp c host port s \<or> told \<and> (relayed rp c host port s \<or> aborted rp c host port s)"

text \<open>A step on which the server's success was received.\<close>

fun told_step :: "fe_input \<Rightarrow> fe_phase \<times> frontend \<Rightarrow> bool" where
  "told_step (I_Wake W_Ready) (F_Wait sess p, s) \<longleftrightarrow>
     (\<exists>ch e. sm_heap (fe_mux s sess) p = Some ch \<and> sch_ReadyCh ch = Some (True, e))"
| "told_step i st \<longleftrightarrow> False"

fun told_run :: "replies \<Rightarrow> string \<Rightarrow> string \<Rightarrow> int \<Rightarrow> fe_input list \<Rightarrow> fe_phase \<times> frontend \<Rightarrow> bool" where
  "told_run rp c host port [] st \<longleftrightarrow> False"
| "told_run rp c host port (i # is) st \<longleftrightarrow>
     told_step i st \<or> (case fe_step rp c host port i st of None \<Rightarrow> False | Some st' \<Rightarrow> told_run rp c host port is st')"

lemma relayed_close:
  assumes "fe_ctrl s = (sess, connect_msg c host port) # datas sess c bs" "fe_reply s = [] \<or> fe_reply s = rp_ok rp"
  shows "relayed rp c host port (fe_send sess (snd (close_frame MsgSOCKSClose c)) ok s)"
proof -
  have "\<exists>fs. fe_ctrl (fe_send sess (snd (close_frame MsgSOCKSClose c)) ok s) =
      (sess, connect_msg c host port) # datas sess c bs @ fs \<and> closing sess c fs"
    using assms(1) by (cases ok) (auto simp: fe_send_def closing_def)
  moreover have "fe_reply (fe_send sess (snd (close_frame MsgSOCKSClose c)) ok s) = fe_reply s"
    by (simp add: fe_send_def)
  ultimately show ?thesis using assms(2) unfolding relayed_def by metis
qed

lemma fe_remove_keeps [simp]:
  "relayed rp c host port (fe_remove sess d s) = relayed rp c host port s"
  "refused rp c host port (fe_remove sess d s) = refused rp c host port s"
  "aborted rp c host port (fe_remove sess d s) = aborted rp c host port s"
  by (simp_all add: relayed_def refused_def aborted_def fe_remove_def)

lemma datas_snoc: "datas sess c bs @ [(sess, snd (data_frame c b))] = datas sess c (bs @ [b])"
  by (simp add: datas_def)

lemma fe_inv_frame:
  "fe_ctrl s' = fe_ctrl s \<Longrightarrow> fe_reply s' = fe_reply s \<Longrightarrow> fe_inv rp c host port t (ph, s') = fe_inv rp c host port t (ph, s)"
  by (cases ph) (simp_all add: relayed_def refused_def aborted_def)

lemma fe_step_inv:
  assumes "fe_step rp c host port i (ph, s) = Some (ph', s')" "fe_inv rp c host port told (ph, s)"
  shows "fe_inv rp c host port (told \<or> told_step i (ph, s)) (ph', s')"
proof (cases "\<exists>pool mux. i = I_Others pool mux")
  case True
  then show ?thesis using assms fe_inv_frame [of s' s rp c host port told ph] by auto
next
  case False
  show ?thesis
  proof (cases ph)
    case (F_Relay sess p)
    then obtain bs where bs: "told" "fe_ctrl s = (sess, connect_msg c host port) # datas sess c bs"
      "fe_reply s = [] \<or> fe_reply s = rp_ok rp" using assms(2) by auto
    show ?thesis
    proof (cases i)
      case (I_LocalEnd ok)
      then show ?thesis using assms(1) F_Relay bs relayed_close [OF bs(2,3)] by auto
    next
      case (I_Data b ok)
      then show ?thesis using assms(1) F_Relay bs datas_snoc [of sess c bs b]
        by (cases ok) (auto simp: fe_send_def)
    qed (use assms(1) F_Relay False in auto)
  next
    case (F_Recv sess p)
    then show ?thesis using assms False by (cases i) (auto simp: after_relay_def split: if_splits)
  next
    case (F_Wait sess p)
    then obtain w where "i = I_Wake w" using assms(1) False by (cases i) auto
    then show ?thesis using assms F_Wait
      by (cases w) (auto simp: fe_wake_def refused_def failures_def fe_tell_def split: option.splits if_splits)
  next
    case (F_Answer sess p)
    then obtain ok where "i = I_Step ok" using assms(1) False by (cases i) auto
    then show ?thesis using assms F_Answer
      by (auto simp: fe_tell_def datas_def split: if_splits)
  next
    case (F_Abort sess)
    then obtain ok where "i = I_Step ok" using assms(1) False by (cases i) auto
    then show ?thesis using assms F_Abort
      by (auto simp: aborted_def closing_def fe_send_def split: if_splits)
  next
    case F_Done
    then show ?thesis using assms(1) False by (cases i) auto
  next
    case F_Pick
    then obtain ok where "i = I_Step ok" using assms(1) False by (cases i) auto
    then show ?thesis using assms F_Pick
      by (auto simp: refused_def failures_def fe_tell_def split: option.splits prod.splits)
  next
    case (F_New sess)
    then obtain ok where "i = I_Step ok" using assms(1) False by (cases i) auto
    then show ?thesis using assms F_New
      by (auto simp: refused_def failures_def fe_tell_def split: sum.splits prod.splits)
  next
    case (F_Send sess p)
    then obtain ok where "i = I_Step ok" using assms(1) False by (cases i) auto
    then show ?thesis using assms F_Send
      by (auto simp: refused_def failures_def fe_tell_def fe_send_def split: if_splits)
  next
    case (F_Remove sess)
    then obtain ok where "i = I_Step ok" using assms(1) False by (cases i) auto
    then show ?thesis using assms F_Remove by auto
  next
    case (F_Deferred sess)
    then obtain ok where "i = I_Step ok" using assms(1) False by (cases i) auto
    then show ?thesis using assms F_Deferred by auto
  qed
qed

lemma fe_run_inv:
  "fe_run rp c host port is st = Some st' \<Longrightarrow> fe_inv rp c host port told st \<Longrightarrow>
   fe_inv rp c host port (told \<or> told_run rp c host port is st) st'"
proof (induction "is" arbitrary: st told)
  case Nil
  then show ?case by simp
next
  case (Cons i "is")
  then obtain st1 where "fe_step rp c host port i st = Some st1" "fe_run rp c host port is st1 = Some st'"
    by (auto split: option.splits)
  then show ?case
    using Cons.IH [of st1 "told \<or> told_step i st"] Cons.prems(2)
      fe_step_inv [of rp c host port i "fst st" "snd st" "fst st1" "snd st1" told]
    by (simp add: disj_assoc)
qed

text \<open>
  C11. What a local connection does, for all three listeners and in every run, whatever other
  goroutines do to the pool and the multiplexers in between. When it ends it has either told its
  user of one failure and sent the server at most the one \<open>SOCKSConnect\<close> for its target; or the
  server's success was received before, and it sent the \<open>SOCKSConnect\<close>, then data frames, then at
  most one closing frame as the last, and answered with success at most once. After a failure no
  closing frame is sent.
\<close>

theorem frontend_protocol:
  assumes "fe_run rp c host port is (F_Pick, s) = Some (F_Done, s')" "fe_ctrl s = []" "fe_reply s = []"
  shows "(fe_reply s' \<in> failures rp \<and>
            (fe_ctrl s' = [] \<or> (\<exists>sess. fe_ctrl s' = [(sess, connect_msg c host port)]))) \<or>
         (told_run rp c host port is (F_Pick, s) \<and> (fe_reply s' = [] \<or> fe_reply s' = rp_ok rp) \<and>
            (\<exists>sess bs fs. fe_ctrl s' = (sess, connect_msg c host port) # datas sess c bs @ fs \<and> closing sess c fs))"
proof -
  have "fe_inv rp c host port False (F_Pick, s)" using assms(2,3) by simp
  from fe_run_inv [OF assms(1) this]
  have i: "refused rp c host port s' \<or> told_run rp c host port is (F_Pick, s) \<and> (relayed rp c host port s' \<or> aborted rp c host port s')"
    by simp
  have "datas sess c [] = []" for sess by (simp add: datas_def)
  then have "aborted rp c host port s' \<Longrightarrow> relayed rp c host port s'"
    unfolding aborted_def relayed_def by (metis append_Nil)
  with i show ?thesis unfolding refused_def relayed_def by blast
qed

subsection \<open>Every connection ends\<close>

fun fe_rank :: "fe_phase \<Rightarrow> nat" where
  "fe_rank F_Pick = 9" | "fe_rank (F_New sess) = 8" | "fe_rank (F_Send sess p) = 7" | "fe_rank (F_Wait sess p) = 6"
| "fe_rank (F_Answer sess p) = 5" | "fe_rank (F_Relay sess p) = 4" | "fe_rank (F_Recv sess p) = 3"
| "fe_rank (F_Abort sess) = 2" | "fe_rank (F_Remove sess) = 2" | "fe_rank (F_Deferred sess) = 1" | "fe_rank F_Done = 0"

text \<open>The steps that wait for nobody, and those of the local user that end something.\<close>

fun own_step :: "fe_input \<Rightarrow> bool" where
  "own_step (I_Step ok) \<longleftrightarrow> True" | "own_step (I_Wake w) \<longleftrightarrow> True" | "own_step _ \<longleftrightarrow> False"

fun user_ends :: "fe_input \<Rightarrow> bool" where
  "user_ends (I_LocalEnd ok) \<longleftrightarrow> True" | "user_ends I_WriteFails \<longleftrightarrow> True" | "user_ends _ \<longleftrightarrow> False"

text \<open>Where a connection waits for others without a timeout.\<close>

definition waits :: "fe_phase \<Rightarrow> frontend \<Rightarrow> bool" where
  "waits ph s \<longleftrightarrow> (case ph of F_Relay sess p \<Rightarrow> True | F_Recv sess p \<Rightarrow> \<not> recv_ended sess p s | _ \<Rightarrow> False)"

lemma own_step_waits: "own_step i \<Longrightarrow> waits ph s \<Longrightarrow> fe_step rp c host port i (ph, s) = None"
  by (cases i; cases ph) (auto simp: waits_def)

lemma own_step_possible:
  assumes "ph \<noteq> F_Done" "\<not> waits ph s"
  shows "\<exists>i st'. own_step i \<and> fe_step rp c host port i (ph, s) = Some st'"
proof (cases "\<exists>sess p. ph = F_Wait sess p")
  case True
  then have "\<exists>st'. fe_step rp c host port (I_Wake W_Timeout) (ph, s) = Some st'" by (auto simp: fe_wake_def)
  then show ?thesis by (metis own_step.simps(2))
next
  case False
  then have "\<exists>st'. fe_step rp c host port (I_Step True) (ph, s) = Some st'"
    using assms by (cases ph) (auto simp: waits_def split: option.split prod.split sum.split)
  then show ?thesis by (metis own_step.simps(1))
qed

lemma Mux_Remove_gone: "sm_channels (Mux_Remove c m) c = None"
  by (auto simp: Mux_Remove_def detach_def finish_close_def split: option.split)


subsection \<open>Reading a CONNECT request\<close>

lemma ReadString_line: "nl \<notin> set l \<Longrightarrow> ReadString_nl (l @ nl # rest) = Some (l @ [nl], rest)"
proof -
  assume a: "nl \<notin> set l"
  then have "index_of nl (l @ nl # rest) = Some (length l)" by (induction l) auto
  then show ?thesis by (simp add: ReadString_nl_def)
qed

lemma TrimRight_crlf [simp]: "TrimRight (l @ [cr, nl]) = TrimRight l"
  by (simp add: TrimRight_def)

lemma TrimRight_id: "l = [] \<or> last l \<noteq> cr \<and> last l \<noteq> nl \<Longrightarrow> TrimRight l = l"
  by (cases l rule: rev_cases) (auto simp: TrimRight_def)

lemma TrimRight_empty: "TrimRight l = [] \<longleftrightarrow> set l \<subseteq> {cr, nl}"
  by (auto simp: TrimRight_def dropWhile_eq_Nil_conv)

definition token :: "string \<Rightarrow> bool" where
  "token t \<longleftrightarrow> t \<noteq> [] \<and> (\<forall>ch \<in> set t. char_code ch < 128 \<and> \<not> IsSpace (char_code ch))"

lemma Fields_token:
  "\<forall>ch \<in> set t. char_code ch < 128 \<and> \<not> IsSpace (char_code ch) \<Longrightarrow> Fields_from cur (t @ r) = Fields_from (cur @ t) r"
proof (induction t arbitrary: cur)
  case Nil
  then show ?case by simp
next
  case (Cons ch t)
  then have "Fields_from cur ((ch # t) @ r) = Fields_from (cur @ [ch]) (t @ r)"
    by (subst Fields_from.simps) (simp add: decode_rune_ascii)
  then show ?case using Cons by simp
qed

lemma Fields_space: "Fields_from cur (CHR '' '' # r) = (if cur = [] then [] else [cur]) @ Fields_from [] r"
  by (subst Fields_from.simps) (simp add: decode_rune_ascii char_code_def IsSpace_def)

lemma Fields_end: "Fields_from cur [] = (if cur = [] then [] else [cur])"
  by (subst Fields_from.simps) simp

lemma Fields_request_line:
  "token m \<Longrightarrow> token t \<Longrightarrow> token v \<Longrightarrow> Fields (m @ '' '' @ t @ '' '' @ v) = [m, t, v]"
  using Fields_token [of m "[]" "CHR '' '' # t @ CHR '' '' # v"] Fields_token [of t "[]" "CHR '' '' # v"]
    Fields_token [of v "[]" "[]"]
  by (simp add: Fields_def Fields_space Fields_end token_def)

text \<open>A header line: no line breaks in it, and not empty.\<close>

definition header :: "string \<Rightarrow> bool" where
  "header h \<longleftrightarrow> h \<noteq> [] \<and> cr \<notin> set h \<and> nl \<notin> set h"

lemma nl_cr [simp]: "nl \<noteq> cr" "cr \<noteq> nl"
  by (simp_all add: nl_def cr_def)

lemma skip_headers_lines:
  "\<forall>h \<in> set hs. header h \<Longrightarrow> skip_headers (concat (map (\<lambda>h. h @ crlf) hs) @ crlf @ rest) = Some rest"
proof (induction hs)
  case Nil
  have "ReadString_nl ([cr] @ nl # rest) = Some ([cr] @ [nl], rest)" by (rule ReadString_line) simp
  then show ?case by (subst skip_headers.simps) (simp add: crlf_def TrimRight_empty)
next
  case (Cons h hs)
  have h: "h \<noteq> []" "cr \<notin> set h" "nl \<notin> set h" using Cons.prems by (simp_all add: header_def)
  let ?r = "concat (map (\<lambda>h. h @ crlf) hs) @ crlf @ rest"
  have "ReadString_nl ((h @ [cr]) @ nl # ?r) = Some ((h @ [cr]) @ [nl], ?r)"
    by (rule ReadString_line) (use h in simp)
  moreover have "\<not> set (h @ [cr, nl]) \<subseteq> {cr, nl}" using h by (cases h) auto
  moreover have "skip_headers ?r = Some rest" using Cons by simp
  ultimately show ?case
    by (subst skip_headers.simps) (simp add: crlf_def TrimRight_empty)
qed

text \<open>
  The CONNECT parser. A request line with any spelling of CONNECT, a target that splits into a
  host and a decimal port (with or without the brackets of an IPv6 address) and a version, followed
  by any header lines and a blank line, yields that host and port, and every byte after the blank
  line is left for the relay. A request with another method gets the information page and opens
  nothing.
\<close>

theorem connect_request_read:
  assumes "token m" "token t" "token v" "\<forall>h \<in> set hs. header h"
    and "SplitHostPort t = Inr (host, portStr)" "ParseInt portStr = Some port"
  shows "read_connect (m @ '' '' @ t @ '' '' @ v @ crlf @ concat (map (\<lambda>h. h @ crlf) hs) @ crlf @ rest) =
     (if map upper_char m = ''CONNECT'' then HR_Connect host port rest else HR_Reply http_info)"
proof -
  let ?l = "m @ '' '' @ t @ '' '' @ v" and ?r = "concat (map (\<lambda>h. h @ crlf) hs) @ crlf @ rest"
  have sp: "IsSpace (char_code nl)" "IsSpace (char_code cr)" by (simp_all add: IsSpace_def nl_def cr_def char_code_def)
  then have no: "nl \<notin> set x" "cr \<notin> set x" if "token x" for x using that by (auto simp: token_def)
  have ne: "v \<noteq> []" using assms(3) by (simp add: token_def)
  have spc: "CHR '' '' \<noteq> nl" "CHR '' '' \<noteq> cr" by (simp_all add: nl_def cr_def)
  have "ReadString_nl ((?l @ [cr]) @ nl # ?r) = Some ((?l @ [cr]) @ [nl], ?r)"
    by (rule ReadString_line) (use no assms(1-3) spc in auto)
  moreover have "last ?l \<noteq> cr \<and> last ?l \<noteq> nl"
    using no(1,2) [OF assms(3)] ne by (metis append_is_Nil_conv last_append last_in_set)
  then have "TrimRight ((?l @ [cr]) @ [nl]) = ?l" using TrimRight_id [of ?l] TrimRight_crlf [of ?l] by simp
  moreover have "skip_headers ?r = Some rest" using assms(4) by (rule skip_headers_lines)
  ultimately show ?thesis
    using Fields_request_line [OF assms(1-3)] assms(5,6) by (simp add: read_connect_def crlf_def)
qed

subsection \<open>Instances\<close>

theorem connect_request_read_witness:
  "read_connect (''connect'' @ '' '' @ ''a.b:443'' @ '' '' @ ''HTTP/1.1'' @ crlf @
      concat (map (\<lambda>h. h @ crlf) [''Host: a.b'']) @ crlf @ ''hello'') = HR_Connect ''a.b'' 443 ''hello''"
proof -
  have t: "token ''connect''" "token ''a.b:443''" "token ''HTTP/1.1''" "\<forall>h \<in> set [''Host: a.b'']. header h"
    by (simp_all add: token_def header_def IsSpace_def char_code_def cr_def nl_def)
  have sp: "SplitHostPort ''a.b:443'' = Inr (''a.b'', ''443'')"
    by (simp add: SplitHostPort_def last_index_of_def Let_def)
  have pt: "ParseInt ''443'' = Some 443"
    by (simp add: ParseInt_def read_nat_def is_digit_def char_code_def)
  have up: "map upper_char ''connect'' = ''CONNECT''"
    by (simp add: upper_char_def char_code_def char_of_def bit_0)
  show ?thesis unfolding connect_request_read [OF t sp pt] up by (simp only: if_True simp_thms)
qed

text \<open>One SOCKS connection: the server reports success, one chunk is relayed.\<close>

definition fe_start :: frontend where
  "fe_start = \<lparr>fe_pool = \<lparr>sp_sessions = [4], sp_counter = 0\<rparr>, fe_mux = (\<lambda>_. NewSOCKSMux), fe_ctrl = [], fe_reply = []\<rparr>"

definition fe_inputs :: "fe_input list" where
  "fe_inputs = [I_Step True, I_Step True, I_Step True,
     I_Others \<lparr>sp_sessions = [4], sp_counter = 1\<rparr>
       (\<lambda>_. snd (DeliverReady ''c'' True [] (snd (NewChannel ''c'' NewSOCKSMux)))),
     I_Wake W_Ready, I_Step True, I_Data [7] True, I_LocalEnd True,
     I_Others \<lparr>sp_sessions = [4], sp_counter = 1\<rparr> (\<lambda>_. DeliverClose ''c'' (snd (NewChannel ''c'' NewSOCKSMux))),
     I_Step True, I_Step True, I_Step True]"

lemma fe_demo_run:
  "\<exists>s. fe_run socks_replies ''c'' ''a.b'' 443 fe_inputs (F_Pick, fe_start) = Some (F_Done, s) \<and>
     length (fe_ctrl s) = 3"
  by (simp add: fe_inputs_def fe_start_def Pick_def NewChannel_def NewSOCKSMux_def DeliverReady_def fe_wake_def
      fe_send_def fe_tell_def fe_remove_def recv_ended_def after_relay_def DeliverClose_def Mux_Remove_def
      detach_def finish_close_def close_channel_def socks_replies_def Let_def)

theorem frontend_protocol_witness:
  "\<exists>s. fe_run socks_replies ''c'' ''a.b'' 443 fe_inputs (F_Pick, fe_start) = Some (F_Done, s) \<and>
     told_run socks_replies ''c'' ''a.b'' 443 fe_inputs (F_Pick, fe_start)"
proof -
  obtain s where r: "fe_run socks_replies ''c'' ''a.b'' 443 fe_inputs (F_Pick, fe_start) = Some (F_Done, s)"
    "length (fe_ctrl s) = 3"
    using fe_demo_run by blast
  have "fe_ctrl fe_start = []" "fe_reply fe_start = []" by (simp_all add: fe_start_def)
  from frontend_protocol [OF r(1) this] r show ?thesis by auto
qed


end
