(* ===== verification/DataPath.thy ===== *)
theory DataPath
  imports ManagerInv Registries Limiter Sni GoNet Messages "HOL-Library.Monad_Syntax"
begin

text \<open>
  The server's data plane: public listeners and data connections (\<open>internal/tunnel/server.go\<close>), the
  HTTP proxy (\<open>http_proxy.go\<close>) and the HTTPS proxy (\<open>https_proxy.go\<close>). Each external connection is
  one job that is routed, registered as pending, announced to the client's control connection, and
  then waits for the client's data connection. Jobs, data connections and the rest of the program
  interleave at every call on the shared manager. Go's HTTP request reader is a parameter of the
  event: what it found as host, and the bytes \<open>req.Write\<close> and the reader's buffer give for replay.
\<close>

subsection \<open>State\<close>

datatype job_kind = K_Public | K_HTTP | K_HTTPS

datatype job_phase = J_Read | J_Register | J_Send ptr | J_Wait ptr | J_Done

record job =
  jb_kind :: job_kind
  jb_ext :: conn
  jb_slot :: bool
  jb_connID :: string
  jb_tunnelID :: string
  jb_localHost :: string
  jb_localPort :: int
  jb_writer :: ptr
  jb_replay :: bytes
  jb_phase :: job_phase

text \<open>
  \<open>pl_out\<close>: the OpenConnection messages written, by control writer; \<open>pl_relays\<close>: external
  connection, data connection and the bytes replayed first, of every \<open>RelayBiDirectional\<close> started;
  \<open>pl_errors\<close>: HTTP error responses; \<open>pl_panic\<close>: a relay was started on a nil connection.
\<close>

record plane =
  pl_mgr :: Manager
  pl_cc :: ControlConnRegistry
  pl_limiter :: "Limiter option"
  pl_jobs :: "job list"
  pl_out :: "(ptr \<times> OpenConnection) list"
  pl_relays :: "(conn \<times> conn \<times> bytes) list"
  pl_errors :: "(conn \<times> int) list"
  pl_closed :: "conn set"
  pl_panic :: bool

definition close_ext :: "conn \<Rightarrow> plane \<Rightarrow> plane" where
  "close_ext k s = s\<lparr>pl_closed := insert k (pl_closed s)\<rparr>"

definition http_error :: "conn \<Rightarrow> int \<Rightarrow> plane \<Rightarrow> plane" where
  "http_error k code s = close_ext k (s\<lparr>pl_errors := pl_errors s @ [(k, code)]\<rparr>)"

definition set_job :: "nat \<Rightarrow> job \<Rightarrow> plane \<Rightarrow> plane" where
  "set_job n j s = s\<lparr>pl_jobs := (pl_jobs s)[n := j]\<rparr>"

text \<open>\<open>defer rl.Release()\<close>: when the handler returns, whatever it started goes on.\<close>

definition release_slot :: "job \<Rightarrow> plane \<Rightarrow> plane" where
  "release_slot j s = (if jb_slot j then s\<lparr>pl_limiter := map_option Release (pl_limiter s)\<rparr> else s)"

subsection \<open>Accepting\<close>

text \<open>The accept loops of the two proxies (the connection's UUID is drawn here): rate limit, then a slot, then the handler's goroutine.\<close>

definition accept_proxy :: "job_kind \<Rightarrow> string \<Rightarrow> int \<Rightarrow> conn \<Rightarrow> string \<Rightarrow> plane \<Rightarrow> plane" where
  "accept_proxy kind ip now ext connID s =
     (let start = (\<lambda>slot s. s\<lparr>pl_jobs := pl_jobs s @
            [\<lparr>jb_kind = kind, jb_ext = ext, jb_slot = slot, jb_connID = connID, jb_tunnelID = [], jb_localHost = [],
              jb_localPort = 0, jb_writer = 0, jb_replay = [], jb_phase = J_Read\<rparr>]\<rparr>)
      in case pl_limiter s of
           None \<Rightarrow> start False s
         | Some rl \<Rightarrow>
             (case Allow ip now rl of
                (False, rl1) \<Rightarrow> close_ext ext (s\<lparr>pl_limiter := Some rl1\<rparr>)
              | (True, rl1) \<Rightarrow>
                  (case Acquire rl1 of
                     (False, rl2) \<Rightarrow> close_ext ext (s\<lparr>pl_limiter := Some rl2\<rparr>)
                   | (True, rl2) \<Rightarrow> start True (s\<lparr>pl_limiter := Some rl2\<rparr>))))"

definition StartHTTPProxy_accept :: "string \<Rightarrow> int \<Rightarrow> conn \<Rightarrow> string \<Rightarrow> plane \<Rightarrow> plane" where
  "StartHTTPProxy_accept = accept_proxy K_HTTP"

definition StartHTTPSProxy_accept :: "string \<Rightarrow> int \<Rightarrow> conn \<Rightarrow> string \<Rightarrow> plane \<Rightarrow> plane" where
  "StartHTTPSProxy_accept = accept_proxy K_HTTPS"

text \<open>The accept loop of \<open>StartPublicListener\<close>.\<close>

definition accept_public :: "TunnelEntry \<Rightarrow> ptr \<Rightarrow> conn \<Rightarrow> string \<Rightarrow> plane \<Rightarrow> plane" where
  "accept_public entry w ext connID s =
     s\<lparr>pl_jobs := pl_jobs s @
        [\<lparr>jb_kind = K_Public, jb_ext = ext, jb_slot = False, jb_connID = connID, jb_tunnelID = TE_ID entry,
          jb_localHost = TE_LocalHost entry, jb_localPort = TE_LocalPort entry, jb_writer = w, jb_replay = [],
          jb_phase = J_Register\<rparr>]\<rparr>"

subsection \<open>Routing\<close>

text \<open>Strip a port if there is one.\<close>

definition strip_port :: "string \<Rightarrow> string" where
  "strip_port h = (case SplitHostPort h of Inl _ \<Rightarrow> h | Inr (h', _) \<Rightarrow> h')"

definition routed :: "HTTPTunnelEntry \<Rightarrow> ptr \<Rightarrow> bytes \<Rightarrow> job \<Rightarrow> job" where
  "routed e w replay j =
     j\<lparr>jb_tunnelID := HE_ID e, jb_localHost := HE_LocalHost e, jb_localPort := HE_LocalPort e, jb_writer := w,
       jb_replay := replay, jb_phase := J_Register\<rparr>"

definition handleHTTPConn :: "nat \<Rightarrow> (string \<times> bytes) option \<Rightarrow> job \<Rightarrow> plane \<Rightarrow> plane" where
  "handleHTTPConn n req j s =
     (let fail = (\<lambda>code. release_slot j (set_job n (j\<lparr>jb_phase := J_Done\<rparr>) (http_error (jb_ext j) code s)))
      in case req of
           None \<Rightarrow> fail 400
         | Some (reqHost, raw) \<Rightarrow>
             (let host = strip_port reqHost
              in if host = [] then fail 400
                 else (case GetHTTPTunnel host (pl_mgr s) of
                         None \<Rightarrow> fail 502
                       | Some entry \<Rightarrow>
                           (case ConnReg_Get (pl_cc s) (HE_ClientID entry) of
                              None \<Rightarrow> fail 502
                            | Some w \<Rightarrow> set_job n (routed entry w raw j) s))))"

text \<open>A panic of the SNI parser would be \<open>None\<close> from \<open>peekSNI\<close>; theory Sni shows there is none.\<close>

definition handleHTTPSConn :: "(string \<Rightarrow> string) \<Rightarrow> nat \<Rightarrow> bytes \<Rightarrow> job \<Rightarrow> plane \<Rightarrow> plane" where
  "handleHTTPSConn uni n inp j s =
     (let fail = release_slot j (set_job n (j\<lparr>jb_phase := J_Done\<rparr>) (close_ext (jb_ext j) s))
      in case peekSNI uni inp of
           None \<Rightarrow> s\<lparr>pl_panic := True\<rparr>
         | Some (_, Inl _, _) \<Rightarrow> fail
         | Some (peeked, Inr sni, _) \<Rightarrow>
             (let host = strip_port sni
              in if host = [] then fail
                 else (case GetHTTPSTunnel host (pl_mgr s) of
                         None \<Rightarrow> fail
                       | Some entry \<Rightarrow>
                           (case ConnReg_Get (pl_cc s) (HE_ClientID entry) of
                              None \<Rightarrow> fail
                            | Some w \<Rightarrow> set_job n (routed entry w peeked j) s))))"

subsection \<open>Announcing and waiting\<close>

definition open_msg :: "job \<Rightarrow> string \<Rightarrow> OpenConnection" where
  "open_msg j token =
     \<lparr>OC_TunnelID = jb_tunnelID j, OC_ConnID = jb_connID j, OC_LocalHost = jb_localHost j,
      OC_LocalPort = jb_localPort j, OC_DataToken = token\<rparr>"

definition register_job :: "nat \<Rightarrow> bytes option \<Rightarrow> job \<Rightarrow> plane \<Rightarrow> plane" where
  "register_job n rnd j s =
     (case RegisterPending (jb_connID j) (jb_ext j) rnd (pl_mgr s) of
        (p, m) \<Rightarrow> set_job n (j\<lparr>jb_phase := J_Send p\<rparr>) (s\<lparr>pl_mgr := m\<rparr>))"

definition send_job :: "nat \<Rightarrow> bool \<Rightarrow> ptr \<Rightarrow> job \<Rightarrow> plane \<Rightarrow> plane" where
  "send_job n ok p j s =
     release_slot j
       (if ok then set_job n (j\<lparr>jb_phase := J_Wait p\<rparr>)
                  (s\<lparr>pl_out := pl_out s @ [(jb_writer j, open_msg j (Token p (pl_mgr s)))]\<rparr>)
        else set_job n (j\<lparr>jb_phase := J_Done\<rparr>) (close_ext (jb_ext j) s))"

datatype job_wake = JW_Ready bool | JW_Timeout | JW_Context

text \<open>
  How the select of a waiter goes: \<open>JW_Ready\<close> carries whether the replay write will go through.
  \<open>None\<close>: that case of the select cannot be taken.
\<close>

definition finish :: "nat \<Rightarrow> job \<Rightarrow> plane \<Rightarrow> plane" where
  "finish n j s = set_job n (j\<lparr>jb_phase := J_Done\<rparr>) s"

definition start_relay :: "conn \<Rightarrow> conn \<Rightarrow> bytes \<Rightarrow> plane \<Rightarrow> plane" where
  "start_relay ext d replay s = s\<lparr>pl_relays := pl_relays s @ [(ext, d, replay)]\<rparr>"

text \<open>The public listener's waiter has no timeout, and it cancels its pending entry.\<close>

definition relayExternalConn :: "nat \<Rightarrow> job_wake \<Rightarrow> ptr \<Rightarrow> job \<Rightarrow> plane \<Rightarrow> plane option" where
  "relayExternalConn n w p j s =
     (case w of
        JW_Ready _ \<Rightarrow> do {
          dataConn \<leftarrow> WaitReady p (pl_mgr s);
          extConn \<leftarrow> PendingExtConn p (pl_mgr s);
          Some (finish n j (case dataConn of None \<Rightarrow> s\<lparr>pl_panic := True\<rparr> | Some d \<Rightarrow> start_relay extConn d [] s))
        }
      | JW_Context \<Rightarrow> do {
          extConn \<leftarrow> PendingExtConn p (pl_mgr s);
          Some (finish n j (close_ext extConn (s\<lparr>pl_mgr := CancelPending (jb_connID j) (pl_mgr s)\<rparr>)))
        }
      | JW_Timeout \<Rightarrow> None)"

text \<open>The proxies' waiters have a timeout, replay what was read first, and leave the pending entry.\<close>

definition replay_and_relay :: "bool \<Rightarrow> conn \<Rightarrow> conn \<Rightarrow> bytes \<Rightarrow> plane \<Rightarrow> plane" where
  "replay_and_relay ok extConn d replay s =
     (if replay \<noteq> [] \<and> \<not> ok then close_ext d (close_ext extConn s) else start_relay extConn d replay s)"

definition relayHTTPConn :: "nat \<Rightarrow> job_wake \<Rightarrow> ptr \<Rightarrow> job \<Rightarrow> plane \<Rightarrow> plane option" where
  "relayHTTPConn n w p j s =
     do {
       extConn \<leftarrow> PendingExtConn p (pl_mgr s);
       case w of
         JW_Ready ok \<Rightarrow> do {
           dataConn \<leftarrow> WaitReady p (pl_mgr s);
           Some (finish n j (case dataConn of
                               None \<Rightarrow> s\<lparr>pl_panic := True\<rparr>
                             | Some d \<Rightarrow> replay_and_relay ok extConn d (jb_replay j) s))
         }
       | JW_Timeout \<Rightarrow> Some (finish n j (close_ext extConn s))
       | JW_Context \<Rightarrow> Some (finish n j (close_ext extConn s))
     }"

text \<open>The HTTPS waiter is the same code, over the peeked TLS bytes.\<close>

definition relayHTTPSConn :: "nat \<Rightarrow> job_wake \<Rightarrow> ptr \<Rightarrow> job \<Rightarrow> plane \<Rightarrow> plane option" where
  "relayHTTPSConn n w p j s =
     do {
       extConn \<leftarrow> PendingExtConn p (pl_mgr s);
       case w of
         JW_Ready ok \<Rightarrow> do {
           dataConn \<leftarrow> WaitReady p (pl_mgr s);
           Some (finish n j (case dataConn of
                               None \<Rightarrow> s\<lparr>pl_panic := True\<rparr>
                             | Some d \<Rightarrow> replay_and_relay ok extConn d (jb_replay j) s))
         }
       | JW_Timeout \<Rightarrow> Some (finish n j (close_ext extConn s))
       | JW_Context \<Rightarrow> Some (finish n j (close_ext extConn s))
     }"

definition wake_job :: "nat \<Rightarrow> job_wake \<Rightarrow> ptr \<Rightarrow> job \<Rightarrow> plane \<Rightarrow> plane option" where
  "wake_job n w p j s =
     (case jb_kind j of
        K_Public \<Rightarrow> relayExternalConn n w p j s
      | K_HTTP \<Rightarrow> relayHTTPConn n w p j s
      | K_HTTPS \<Rightarrow> relayHTTPSConn n w p j s)"

lemmas relay_defs = wake_job_def relayExternalConn_def relayHTTPConn_def relayHTTPSConn_def replay_and_relay_def
  start_relay_def finish_def

subsection \<open>Data connections\<close>

text \<open>\<open>None\<close>: the hello could not be read, had another type or did not decode.\<close>

definition handleDataConn :: "conn \<Rightarrow> DataConnHello option \<Rightarrow> plane \<Rightarrow> plane" where
  "handleDataConn d hello s =
     (case hello of
        None \<Rightarrow> close_ext d s
      | Some h \<Rightarrow>
          (case FulfillPending (DCH_ConnID h) d (DCH_Token h) (pl_mgr s) of
             (Inl _, _) \<Rightarrow> close_ext d s
           | (Inr _, m) \<Rightarrow> s\<lparr>pl_mgr := m\<rparr>))"

subsection \<open>All events\<close>

datatype plane_event =
    D_Proxy job_kind string int conn string
  | D_Public TunnelEntry ptr conn string
  | D_HTTP nat "(string \<times> bytes) option"
  | D_HTTPS nat bytes
  | D_Register nat "bytes option"
  | D_Send nat bool
  | D_Wake nat job_wake
  | D_Data conn "DataConnHello option"
  | D_Tunnels mgr_op
  | D_Conns ControlConnRegistry

text \<open>The manager calls of the rest of the program; the pending connections belong to the jobs.\<close>

fun tunnel_op :: "mgr_op \<Rightarrow> bool" where
  "tunnel_op (OpRegister c e r) \<longleftrightarrow> False"
| "tunnel_op (OpCancel c) \<longleftrightarrow> False"
| "tunnel_op (OpFulfill c d t) \<longleftrightarrow> False"
| "tunnel_op _ \<longleftrightarrow> True"

definition with_job :: "nat \<Rightarrow> (job \<Rightarrow> plane option) \<Rightarrow> plane \<Rightarrow> plane option" where
  "with_job n f s = (if n < length (pl_jobs s) then f (pl_jobs s ! n) else None)"

fun plane_step :: "(string \<Rightarrow> string) \<Rightarrow> plane_event \<Rightarrow> plane \<Rightarrow> plane option" where
  "plane_step uni (D_Proxy kind ip now ext connID) s =
     (case kind of K_Public \<Rightarrow> None
      | K_HTTP \<Rightarrow> Some (StartHTTPProxy_accept ip now ext connID s)
      | K_HTTPS \<Rightarrow> Some (StartHTTPSProxy_accept ip now ext connID s))"
| "plane_step uni (D_Public entry w ext connID) s = Some (accept_public entry w ext connID s)"
| "plane_step uni (D_HTTP n req) s =
     with_job n (\<lambda>j. if jb_phase j = J_Read \<and> jb_kind j = K_HTTP then Some (handleHTTPConn n req j s) else None) s"
| "plane_step uni (D_HTTPS n inp) s =
     with_job n (\<lambda>j. if jb_phase j = J_Read \<and> jb_kind j = K_HTTPS then Some (handleHTTPSConn uni n inp j s) else None) s"
| "plane_step uni (D_Register n rnd) s =
     with_job n (\<lambda>j. if jb_phase j = J_Register then Some (register_job n rnd j s) else None) s"
| "plane_step uni (D_Send n ok) s =
     with_job n (\<lambda>j. case jb_phase j of J_Send p \<Rightarrow> Some (send_job n ok p j s) | _ \<Rightarrow> None) s"
| "plane_step uni (D_Wake n w) s =
     with_job n (\<lambda>j. case jb_phase j of J_Wait p \<Rightarrow> wake_job n w p j s | _ \<Rightarrow> None) s"
| "plane_step uni (D_Data d hello) s = Some (handleDataConn d hello s)"
| "plane_step uni (D_Tunnels op) s =
     (if tunnel_op op then Some (s\<lparr>pl_mgr := mgr_step (pl_mgr s) op\<rparr>) else None)"
| "plane_step uni (D_Conns cc) s = Some (s\<lparr>pl_cc := cc\<rparr>)"

text \<open>Connection IDs are UUIDs: a new one is not in use.\<close>

fun fresh_event :: "plane_event \<Rightarrow> plane \<Rightarrow> bool" where
  "fresh_event (D_Proxy kind ip now ext c) s \<longleftrightarrow> (\<forall>j \<in> set (pl_jobs s). jb_connID j \<noteq> c)"
| "fresh_event (D_Public e w ext c) s \<longleftrightarrow> (\<forall>j \<in> set (pl_jobs s). jb_connID j \<noteq> c)"
| "fresh_event _ s \<longleftrightarrow> True"

fun plane_run :: "(string \<Rightarrow> string) \<Rightarrow> plane_event list \<Rightarrow> plane \<Rightarrow> plane option" where
  "plane_run uni [] s = Some s"
| "plane_run uni (ev # evs) s =
     (if fresh_event ev s
      then (case plane_step uni ev s of None \<Rightarrow> None | Some s' \<Rightarrow> plane_run uni evs s') else None)"

definition plane_start :: "Limiter option \<Rightarrow> plane" where
  "plane_start l = \<lparr>pl_mgr = NewManager, pl_cc = NewControlConnRegistry, pl_limiter = l, pl_jobs = [], pl_out = [],
                    pl_relays = [], pl_errors = [], pl_closed = {}, pl_panic = False\<rparr>"

end
