(* ===== verification/DataPathProps.thy ===== *)
theory DataPathProps
  imports DataPath
begin

text \<open>
  Properties of the server's data plane over every interleaving of its jobs, the data connections
  that arrive and the rest of the program's calls on the manager.
\<close>

subsection \<open>Invariant\<close>

text \<open>A data connection echoed the job's ID and token.\<close>

definition presented :: "plane_event set \<Rightarrow> job \<Rightarrow> string \<Rightarrow> conn \<Rightarrow> bool" where
  "presented evs j tok d \<longleftrightarrow>
     tok \<noteq> [] \<and> (\<exists>h. D_Data d (Some h) \<in> evs \<and> DCH_ConnID h = jb_connID j \<and> DCH_Token h = tok)"

definition cell_ok :: "plane_event set \<Rightarrow> Manager \<Rightarrow> job \<Rightarrow> ptr \<Rightarrow> bool" where
  "cell_ok evs m j p \<longleftrightarrow>
     (\<exists>pc. conn_heap m p = Some pc \<and> pc_extConn pc = jb_ext j \<and>
        (if pc_ready pc then \<exists>d. pc_dataConn pc = Some d \<and> presented evs j (pc_dataToken pc) d
         else pending m (jb_connID j) = Some p))"

definition announced :: "(ptr \<times> OpenConnection) list \<Rightarrow> job \<Rightarrow> string \<Rightarrow> bool" where
  "announced out j tok \<longleftrightarrow> (jb_writer j, open_msg j tok) \<in> set out"

definition job_ok :: "plane_event set \<Rightarrow> Manager \<Rightarrow> (ptr \<times> OpenConnection) list \<Rightarrow> job \<Rightarrow> bool" where
  "job_ok evs m out j \<longleftrightarrow>
     (case jb_phase j of
        J_Send p \<Rightarrow> cell_ok evs m j p
      | J_Wait p \<Rightarrow> cell_ok evs m j p \<and> announced out j (Token p m)
      | _ \<Rightarrow> True)"

text \<open>The bytes to replay; a public listener reads nothing ahead.\<close>

definition read_ahead :: "job \<Rightarrow> bytes" where
  "read_ahead j = (if jb_kind j = K_Public then [] else jb_replay j)"

definition relay_ok :: "plane_event set \<Rightarrow> job list \<Rightarrow> (ptr \<times> OpenConnection) list \<Rightarrow> conn \<times> conn \<times> bytes \<Rightarrow> bool" where
  "relay_ok evs jobs out r \<longleftrightarrow>
     (case r of (ext, d, replay) \<Rightarrow>
        \<exists>j \<in> set jobs. jb_phase j = J_Done \<and> jb_ext j = ext \<and> read_ahead j = replay \<and>
          (\<exists>tok. announced out j tok \<and> presented evs j tok d))"

definition plane_inv :: "plane_event set \<Rightarrow> plane \<Rightarrow> bool" where
  "plane_inv evs s \<longleftrightarrow>
     pend_ok (pl_mgr s) \<and> distinct (map jb_connID (pl_jobs s)) \<and>
     (\<forall>j \<in> set (pl_jobs s). job_ok evs (pl_mgr s) (pl_out s) j) \<and>
     (\<forall>r \<in> set (pl_relays s). relay_ok evs (pl_jobs s) (pl_out s) r) \<and> \<not> pl_panic s"

lemma phase_update [simp]:
  "presented evs (j\<lparr>jb_phase := x\<rparr>) = presented evs j" "cell_ok evs m (j\<lparr>jb_phase := x\<rparr>) = cell_ok evs m j"
  "announced out (j\<lparr>jb_phase := x\<rparr>) = announced out j"
  by (simp_all add: fun_eq_iff presented_def cell_ok_def announced_def open_msg_def)

lemma read_ahead_phase [simp]: "read_ahead (j\<lparr>jb_phase := x\<rparr>) = read_ahead j"
  by (simp add: read_ahead_def)

lemma relay_okI:
  "j \<in> set jobs \<Longrightarrow> jb_phase j = J_Done \<Longrightarrow> announced out j tok \<Longrightarrow> presented evs j tok d \<Longrightarrow>
   relay_ok evs jobs out (jb_ext j, d, read_ahead j)"
  by (auto simp: relay_ok_def)

lemma presented_mono: "presented evs j tok d \<Longrightarrow> evs \<subseteq> evs' \<Longrightarrow> presented evs' j tok d"
  unfolding presented_def by blast

lemma cell_ok_mono: "cell_ok evs m j p \<Longrightarrow> evs \<subseteq> evs' \<Longrightarrow> cell_ok evs' m j p"
  unfolding cell_ok_def using presented_mono [of evs j _ _ evs'] by (auto split: if_splits)

lemma job_ok_mono: "job_ok evs m out j \<Longrightarrow> evs \<subseteq> evs' \<Longrightarrow> job_ok evs' m out j"
  by (auto simp: job_ok_def intro: cell_ok_mono split: job_phase.splits)

lemma relay_ok_mono: "relay_ok evs jobs out r \<Longrightarrow> evs \<subseteq> evs' \<Longrightarrow> relay_ok evs' jobs out r"
  unfolding relay_ok_def using presented_mono [of evs _ _ _ evs'] by (auto split: prod.splits) blast+

lemma plane_inv_mono: "plane_inv evs s \<Longrightarrow> evs \<subseteq> evs' \<Longrightarrow> plane_inv evs' s"
  using job_ok_mono relay_ok_mono unfolding plane_inv_def by blast

text \<open>Replacing one job: the others are looked at by index.\<close>

lemma jobs_update:
  assumes "\<And>i. i < length js \<Longrightarrow> i \<noteq> n \<Longrightarrow> P (js ! i)" "P j"
  shows "\<forall>x \<in> set (js[n := j]). P x"
proof -
  have "P (js[n := j] ! i)" if "i < length js" for i
    using assms that by (cases "i = n") (simp_all add: nth_list_update)
  then show ?thesis by (auto simp: in_set_conv_nth)
qed

lemma other_connID:
  "distinct (map jb_connID js) \<Longrightarrow> i < length js \<Longrightarrow> n < length js \<Longrightarrow> i \<noteq> n \<Longrightarrow> jb_connID (js ! i) \<noteq> jb_connID (js ! n)"
  by (metis length_map nth_eq_iff_index_eq nth_map)

lemma connIDs_update: "n < length js \<Longrightarrow> jb_connID j = jb_connID (js ! n) \<Longrightarrow> map jb_connID (js[n := j]) = map jb_connID js"
  by (simp add: map_update) (metis list_update_id length_map nth_map)

lemma relay_ok_jobs:
  assumes "relay_ok evs js out r" "jb_phase (js ! n) \<noteq> J_Done" "set out \<subseteq> set out'"
  shows "relay_ok evs (js[n := j]) out' r"
proof -
  obtain ext d rep where r: "r = (ext, d, rep)" by (cases r)
  then obtain x tok where x: "x \<in> set js" "jb_phase x = J_Done" "jb_ext x = ext" "read_ahead x = rep"
    "announced out x tok" "presented evs x tok d"
    using assms(1) by (auto simp: relay_ok_def)
  then have "x \<noteq> js ! n" using assms(2) by auto
  then have "x \<in> set (js[n := j])" using x(1) by (metis in_set_conv_nth length_list_update nth_list_update_neq)
  moreover have "announced out' x tok" using x(5) assms(3) by (auto simp: announced_def)
  ultimately show ?thesis using x r by (auto simp: relay_ok_def)
qed

subsection \<open>The manager calls, seen from a job\<close>

lemma pend_okD:
  "pend_ok m \<Longrightarrow> pending m c = Some p \<Longrightarrow> \<exists>pc. conn_heap m p = Some pc \<and> \<not> pc_ready pc"
  "pend_ok m \<Longrightarrow> pending m c = Some p \<Longrightarrow> pending m c' = Some p \<Longrightarrow> c' = c"
  "pend_ok m \<Longrightarrow> conn_heap m p = Some pc \<Longrightarrow> p \<noteq> next_ptr m"
  unfolding pend_ok_def by (blast, blast, force)

lemma tunnel_op_frame:
  "tunnel_op op \<Longrightarrow> pending (mgr_step m op) = pending m \<and> conn_heap (mgr_step m op) = conn_heap m"
  by (cases op) (auto simp: mgr_defs split: option.split)

lemma job_ok_frame:
  "pending m' = pending m \<Longrightarrow> conn_heap m' = conn_heap m \<Longrightarrow> job_ok evs m' out j = job_ok evs m out j"
  by (cases "jb_phase j") (simp_all add: job_ok_def cell_ok_def Token_def)

lemma job_ok_out: "job_ok evs m out j \<Longrightarrow> set out \<subseteq> set out' \<Longrightarrow> job_ok evs m out' j"
  by (auto simp: job_ok_def announced_def split: job_phase.splits)

lemma job_ok_heap:
  assumes "job_ok evs m out j"
    and "\<And>p. cell_ok evs m j p \<Longrightarrow> cell_ok evs' m' j p"
    and "\<And>p. conn_heap m p \<noteq> None \<Longrightarrow> Token p m' = Token p m"
  shows "job_ok evs' m' out j"
proof (cases "jb_phase j")
  case (J_Wait p)
  then have "cell_ok evs m j p" "announced out j (Token p m)" using assms(1) by (simp_all add: job_ok_def)
  moreover from this(1) have "conn_heap m p \<noteq> None" by (auto simp: cell_ok_def)
  ultimately show ?thesis using J_Wait assms(2,3) by (simp add: job_ok_def)
qed (use assms in \<open>simp_all add: job_ok_def\<close>)

lemma register_other:
  assumes "pend_ok m" "RegisterPending c ext rnd m = (p0, m')" "job_ok evs m out j" "jb_connID j \<noteq> c"
  shows "job_ok evs m' out j"
proof (rule job_ok_heap [OF assms(3)])
  have m': "p0 = next_ptr m" "conn_heap m' = (conn_heap m)(p0 \<mapsto>
      \<lparr>pc_extConn = ext, pc_ready = False, pc_dataConn = None, pc_dataToken = newDataToken rnd\<rparr>)"
    "pending m' = (pending m)(c \<mapsto> p0)"
    using assms(2) by (auto simp: RegisterPending_def Let_def)
  fix p
  show "cell_ok evs m j p \<Longrightarrow> cell_ok evs m' j p"
    using pend_okD(3) [OF assms(1)] assms(4) unfolding cell_ok_def m' by auto
  show "conn_heap m p \<noteq> None \<Longrightarrow> Token p m' = Token p m"
    using pend_okD(3) [OF assms(1)] by (auto simp: Token_def m')
qed

lemma cancel_other:
  assumes "pend_ok m" "job_ok evs m out j" "jb_connID j \<noteq> c"
  shows "job_ok evs (CancelPending c m) out j"
proof (rule job_ok_heap [OF assms(2)])
  fix p
  show "cell_ok evs m j p \<Longrightarrow> cell_ok evs (CancelPending c m) j p"
    using pend_okD(2) [OF assms(1), of c p "jb_connID j"] assms(3)
    by (auto simp: cell_ok_def CancelPending_def close_ready_def Let_def split: option.splits if_splits)
  show "conn_heap m p \<noteq> None \<Longrightarrow> Token p (CancelPending c m) = Token p m"
    by (auto simp: Token_def CancelPending_def close_ready_def Let_def split: option.splits)
qed

lemma fulfill_job:
  assumes "pend_ok m" "FulfillPending c d tok m = (Inr u, m')" "job_ok evs m out j"
    and h: "DCH_ConnID h = c" "DCH_Token h = tok"
  shows "job_ok (insert (D_Data d (Some h)) evs) m' out j"
proof (rule job_ok_heap [OF assms(3)])
  obtain p0 pc0 where p0: "pending m c = Some p0" "conn_heap m p0 = Some pc0" "\<not> pc_ready pc0"
    "pc_dataToken pc0 \<noteq> []" "tok = pc_dataToken pc0"
    and m': "pending m' = (pending m)(c := None)"
      "conn_heap m' = (conn_heap m)(p0 \<mapsto> pc0\<lparr>pc_dataConn := Some d, pc_ready := True\<rparr>)"
    using assms(2) pend_okD(1) [OF assms(1), of c]
    by (auto simp: FulfillPending_def close_ready_def Token_def Let_def split: option.splits if_splits)
  have sub: "evs \<subseteq> insert (D_Data d (Some h)) evs" by blast
  fix p
  show "Token p m' = Token p m" if "conn_heap m p \<noteq> None"
    using p0(2) by (auto simp: Token_def m')
  assume k: "cell_ok evs m j p"
  show "cell_ok (insert (D_Data d (Some h)) evs) m' j p"
  proof (cases "p = p0")
    case True
    then have "pending m (jb_connID j) = Some p0" and e: "pc_extConn pc0 = jb_ext j" using k p0 by (auto simp: cell_ok_def)
    then have "jb_connID j = c" using pend_okD(2) [OF assms(1) p0(1)] by blast
    then have "presented (insert (D_Data d (Some h)) evs) j (pc_dataToken pc0) d"
      using p0(4,5) h by (auto simp: presented_def)
    then show ?thesis using True e by (simp add: cell_ok_def m')
  next
    case False
    obtain pc where pc: "conn_heap m p = Some pc" "pc_extConn pc = jb_ext j"
      "if pc_ready pc then \<exists>d. pc_dataConn pc = Some d \<and> presented evs j (pc_dataToken pc) d
       else pending m (jb_connID j) = Some p"
      using k by (auto simp: cell_ok_def)
    have "jb_connID j \<noteq> c" if "\<not> pc_ready pc" using that pc(3) p0(1) False by auto
    then show ?thesis
      using pc False presented_mono [OF _ sub] unfolding cell_ok_def m' by (auto split: if_splits)
  qed
qed

subsection \<open>Every event preserves the invariant\<close>

text \<open>One job moves on: what each event has to show.\<close>

lemma plane_inv_update:
  assumes inv: "plane_inv evs s" and n: "n < length (pl_jobs s)" "jb_phase (pl_jobs s ! n) \<noteq> J_Done"
    and j: "jb_connID j = jb_connID (pl_jobs s ! n)" "job_ok evs (pl_mgr s') (pl_out s') j"
    and s': "pl_jobs s' = (pl_jobs s)[n := j]" "set (pl_out s) \<subseteq> set (pl_out s')" "\<not> pl_panic s'" "pend_ok (pl_mgr s')"
    and others: "\<And>x. jb_connID x \<noteq> jb_connID (pl_jobs s ! n) \<Longrightarrow> job_ok evs (pl_mgr s) (pl_out s) x \<Longrightarrow>
                   job_ok evs (pl_mgr s') (pl_out s) x"
    and relays: "\<And>r. r \<in> set (pl_relays s') \<Longrightarrow> r \<in> set (pl_relays s) \<or> relay_ok evs (pl_jobs s') (pl_out s') r"
  shows "plane_inv evs s'"
proof -
  note i = inv [unfolded plane_inv_def]
  have "job_ok evs (pl_mgr s') (pl_out s') (pl_jobs s ! i)" if "i < length (pl_jobs s)" "i \<noteq> n" for i
    using job_ok_out [OF others s'(2)] other_connID [of "pl_jobs s" i n] i that n(1) by simp
  then have "\<forall>x \<in> set (pl_jobs s'). job_ok evs (pl_mgr s') (pl_out s') x"
    unfolding s'(1) by (intro jobs_update) (simp_all add: j(2))
  moreover have "relay_ok evs (pl_jobs s') (pl_out s') r" if "r \<in> set (pl_relays s')" for r
    using relays [OF that] relay_ok_jobs [OF _ n(2) s'(2)] i unfolding s'(1) by blast
  moreover have "distinct (map jb_connID (pl_jobs s'))"
    using i connIDs_update [of n "pl_jobs s" j] n(1) j(1) unfolding s'(1) by metis
  ultimately show ?thesis using s'(3,4) by (auto simp: plane_inv_def)
qed

lemma plane_inv_jobD:
  "plane_inv evs s \<Longrightarrow> n < length (pl_jobs s) \<Longrightarrow> job_ok evs (pl_mgr s) (pl_out s) (pl_jobs s ! n)"
  by (simp add: plane_inv_def)

lemma set_job_sel [simp]:
  "pl_jobs (set_job n j s) = (pl_jobs s)[n := j]" "pl_mgr (set_job n j s) = pl_mgr s" "pl_out (set_job n j s) = pl_out s"
  "pl_relays (set_job n j s) = pl_relays s" "pl_panic (set_job n j s) = pl_panic s" "pl_closed (set_job n j s) = pl_closed s"
  by (simp_all add: set_job_def)

lemma close_ext_sel [simp]:
  "pl_jobs (close_ext k s) = pl_jobs s" "pl_mgr (close_ext k s) = pl_mgr s" "pl_out (close_ext k s) = pl_out s"
  "pl_relays (close_ext k s) = pl_relays s" "pl_panic (close_ext k s) = pl_panic s"
  "pl_closed (close_ext k s) = insert k (pl_closed s)"
  by (simp_all add: close_ext_def)

lemma http_error_sel [simp]:
  "pl_jobs (http_error k c s) = pl_jobs s" "pl_mgr (http_error k c s) = pl_mgr s" "pl_out (http_error k c s) = pl_out s"
  "pl_relays (http_error k c s) = pl_relays s" "pl_panic (http_error k c s) = pl_panic s"
  by (simp_all add: http_error_def)

lemma release_slot_sel [simp]:
  "pl_jobs (release_slot j s) = pl_jobs s" "pl_mgr (release_slot j s) = pl_mgr s" "pl_out (release_slot j s) = pl_out s"
  "pl_relays (release_slot j s) = pl_relays s" "pl_panic (release_slot j s) = pl_panic s"
  "pl_closed (release_slot j s) = pl_closed s"
  by (simp_all add: release_slot_def)

lemma routed_sel [simp]:
  "jb_connID (routed e w b j) = jb_connID j" "jb_phase (routed e w b j) = J_Register"
  by (simp_all add: routed_def)

lemma job_ok_idle: "jb_phase j \<in> {J_Read, J_Register, J_Done} \<Longrightarrow> job_ok evs m out j"
  by (auto simp: job_ok_def)

text \<open>The routing steps only move their job and never touch the manager.\<close>

lemma plane_inv_route:
  assumes "plane_inv evs s" "n < length (pl_jobs s)" "jb_phase (pl_jobs s ! n) = J_Read"
    and "jb_connID j = jb_connID (pl_jobs s ! n)" "jb_phase j \<in> {J_Register, J_Done}"
    and "pl_jobs s' = (pl_jobs s)[n := j]" "pl_mgr s' = pl_mgr s" "pl_out s' = pl_out s" "pl_relays s' = pl_relays s"
      "pl_panic s' = pl_panic s"
  shows "plane_inv evs s'"
  by (rule plane_inv_update [OF assms(1,2) _ assms(4)])
    (use assms job_ok_idle [of j] in \<open>auto simp: plane_inv_def\<close>)

lemma handleHTTPConn_inv:
  assumes "plane_inv evs s" "n < length (pl_jobs s)" "jb_phase (pl_jobs s ! n) = J_Read"
  shows "plane_inv evs (handleHTTPConn n req (pl_jobs s ! n) s)"
proof -
  let ?j = "pl_jobs s ! n"
  have "plane_inv evs (release_slot ?j (set_job n (?j\<lparr>jb_phase := J_Done\<rparr>) (http_error (jb_ext ?j) c s)))" for c
    by (rule plane_inv_route [OF assms]) simp_all
  moreover have "plane_inv evs (set_job n (routed e w b ?j) s)" for e w b
    by (rule plane_inv_route [OF assms]) simp_all
  ultimately show ?thesis by (simp add: handleHTTPConn_def Let_def split: option.split prod.split)
qed

lemma handleHTTPSConn_inv:
  assumes "plane_inv evs s" "n < length (pl_jobs s)" "jb_phase (pl_jobs s ! n) = J_Read"
  shows "plane_inv evs (handleHTTPSConn uni n inp (pl_jobs s ! n) s)"
proof -
  let ?j = "pl_jobs s ! n"
  obtain pk res rest where p: "peekSNI uni inp = Some (pk, res, rest)" using peekSNI_total [of uni inp] by auto
  have "plane_inv evs (release_slot ?j (set_job n (?j\<lparr>jb_phase := J_Done\<rparr>) (close_ext (jb_ext ?j) s)))"
    by (rule plane_inv_route [OF assms]) simp_all
  moreover have "plane_inv evs (set_job n (routed e w pk ?j) s)" for e w
    by (rule plane_inv_route [OF assms]) simp_all
  ultimately show ?thesis using p
    by (cases res) (simp_all add: handleHTTPSConn_def Let_def split: option.split)
qed

lemma register_job_inv:
  assumes inv: "plane_inv evs s" and n: "n < length (pl_jobs s)" "jb_phase (pl_jobs s ! n) = J_Register"
  shows "plane_inv evs (register_job n rnd (pl_jobs s ! n) s)"
proof -
  let ?j = "pl_jobs s ! n"
  obtain p m where r: "RegisterPending (jb_connID ?j) (jb_ext ?j) rnd (pl_mgr s) = (p, m)" by fastforce
  have ok: "pend_ok (pl_mgr s)" using inv by (simp add: plane_inv_def)
  have "plane_inv evs (set_job n (?j\<lparr>jb_phase := J_Send p\<rparr>) (s\<lparr>pl_mgr := m\<rparr>))"
  proof (rule plane_inv_update [OF inv n(1)])
    show "job_ok evs (pl_mgr (set_job n (?j\<lparr>jb_phase := J_Send p\<rparr>) (s\<lparr>pl_mgr := m\<rparr>)))
            (pl_out (set_job n (?j\<lparr>jb_phase := J_Send p\<rparr>) (s\<lparr>pl_mgr := m\<rparr>))) (?j\<lparr>jb_phase := J_Send p\<rparr>)"
      using r by (auto simp: job_ok_def cell_ok_def RegisterPending_def Let_def)
    show "pend_ok (pl_mgr (set_job n (?j\<lparr>jb_phase := J_Send p\<rparr>) (s\<lparr>pl_mgr := m\<rparr>)))"
      using pend_ok_step [OF ok, of "OpRegister (jb_connID ?j) (jb_ext ?j) rnd"] r by simp
  qed (use n inv in \<open>simp_all add: plane_inv_def register_other [OF ok r]\<close>)
  then show ?thesis using r by (simp add: register_job_def)
qed

lemma send_job_inv:
  assumes inv: "plane_inv evs s" and n: "n < length (pl_jobs s)" "jb_phase (pl_jobs s ! n) = J_Send p"
  shows "plane_inv evs (send_job n ok p (pl_jobs s ! n) s)"
proof -
  let ?j = "pl_jobs s ! n"
  let ?out = "pl_out s @ [(jb_writer ?j, open_msg ?j (Token p (pl_mgr s)))]"
  have c: "cell_ok evs (pl_mgr s) ?j p" using plane_inv_jobD [OF inv n(1)] n(2) by (simp add: job_ok_def)
  then have "job_ok evs (pl_mgr s) ?out (?j\<lparr>jb_phase := J_Wait p\<rparr>)"
    by (simp add: job_ok_def) (simp add: announced_def)
  moreover have "job_ok evs (pl_mgr s) (pl_out s) (?j\<lparr>jb_phase := J_Done\<rparr>)" by (rule job_ok_idle) simp
  ultimately show ?thesis unfolding send_job_def
    by (intro plane_inv_update [OF inv n(1), where j = "?j\<lparr>jb_phase := (if ok then J_Wait p else J_Done)\<rparr>"])
      (use n(2) inv in \<open>auto simp: plane_inv_def\<close>)
qed

lemma wake_job_inv:
  assumes inv: "plane_inv evs s" and n: "n < length (pl_jobs s)" "jb_phase (pl_jobs s ! n) = J_Wait p"
    and w: "wake_job n w p (pl_jobs s ! n) s = Some s'"
  shows "plane_inv evs s'"
proof -
  let ?j = "pl_jobs s ! n" and ?j' = "(pl_jobs s ! n)\<lparr>jb_phase := J_Done\<rparr>"
  have "cell_ok evs (pl_mgr s) ?j p" and ann: "announced (pl_out s) ?j (Token p (pl_mgr s))"
    using plane_inv_jobD [OF inv n(1)] n(2) by (simp_all add: job_ok_def)
  then obtain pc where pc: "conn_heap (pl_mgr s) p = Some pc" "pc_extConn pc = jb_ext ?j"
    "pc_ready pc \<Longrightarrow> \<exists>d. pc_dataConn pc = Some d \<and> presented evs ?j (pc_dataToken pc) d"
    by (auto simp: cell_ok_def split: if_splits)
  have ok: "pend_ok (pl_mgr s)" and np: "\<not> pl_panic s" using inv by (simp_all add: plane_inv_def)
  note upd = plane_inv_update [OF inv n(1), where j = ?j', simplified n(2) job_phase.distinct]
  have relay: "plane_inv evs (set_job n ?j' (s\<lparr>pl_relays := pl_relays s @ [(pc_extConn pc, d, read_ahead ?j)]\<rparr>))"
    if "pc_ready pc" "pc_dataConn pc = Some d" for d
  proof (rule upd)
    have "relay_ok evs ((pl_jobs s)[n := ?j']) (pl_out s) (jb_ext ?j', d, read_ahead ?j')"
      using set_update_memI [OF n(1), of ?j'] pc that ann by (intro relay_okI [where tok = "pc_dataToken pc"]) (auto simp: Token_def)
    then have "relay_ok evs ((pl_jobs s)[n := ?j']) (pl_out s) (pc_extConn pc, d, read_ahead ?j)"
      using pc(2) by simp
    then show "\<And>r. r \<in> set (pl_relays (set_job n ?j' (s\<lparr>pl_relays := pl_relays s @ [(pc_extConn pc, d, read_ahead ?j)]\<rparr>))) \<Longrightarrow>
      r \<in> set (pl_relays s) \<or> relay_ok evs (pl_jobs (set_job n ?j' (s\<lparr>pl_relays := pl_relays s @ [(pc_extConn pc, d, read_ahead ?j)]\<rparr>)))
         (pl_out (set_job n ?j' (s\<lparr>pl_relays := pl_relays s @ [(pc_extConn pc, d, read_ahead ?j)]\<rparr>))) r"
      by auto
  qed (use ok np in \<open>simp_all add: job_ok_idle\<close>)
  have quiet: "plane_inv evs (set_job n ?j' t)"
    if "pl_jobs t = pl_jobs s" "pl_mgr t = pl_mgr s" "pl_out t = pl_out s" "pl_relays t = pl_relays s" "pl_panic t = pl_panic s" for t
    by (rule upd) (use that ok np in \<open>simp_all add: job_ok_idle\<close>)
  have cancel: "plane_inv evs (set_job n ?j' (close_ext k (s\<lparr>pl_mgr := CancelPending (jb_connID ?j) (pl_mgr s)\<rparr>)))" for k
    by (rule upd)
      (use ok np pend_ok_step [OF ok, of "OpCancel (jb_connID ?j)"] cancel_other [OF ok] in \<open>simp_all add: job_ok_idle\<close>)
  have kind: "jb_kind ?j = K_Public \<Longrightarrow> read_ahead ?j = []" "jb_kind ?j \<noteq> K_Public \<Longrightarrow> read_ahead ?j = jb_replay ?j"
    by (simp_all add: read_ahead_def)
  have relay2: "plane_inv evs (finish n ?j (start_relay (pc_extConn pc) d (read_ahead ?j) s))"
    if "pc_ready pc" "pc_dataConn pc = Some d" for d
    using relay [OF that] by (simp add: finish_def start_relay_def)
  have quiet2: "plane_inv evs (finish n ?j (close_ext k s))" "plane_inv evs (finish n ?j (close_ext k (close_ext k' s)))"
    "plane_inv evs (finish n ?j (close_ext k (s\<lparr>pl_mgr := CancelPending (jb_connID ?j) (pl_mgr s)\<rparr>)))" for k k'
    using quiet cancel by (simp_all add: finish_def)
  have pn: "PendingExtConn p (pl_mgr s) = Some (pc_extConn pc)"
    "WaitReady p (pl_mgr s) = (if pc_ready pc then Some (pc_dataConn pc) else None)"
    using pc(1) by (simp_all add: PendingExtConn_def WaitReady_def)
  have ready: "\<exists>d. pc_dataConn pc = Some d" if "pc_ready pc" using pc(3) [OF that] by blast
  show ?thesis
  proof (cases w)
    case (JW_Ready ok)
    then have r: "pc_ready pc"
      using w pn by (cases "jb_kind ?j") (auto simp: wake_job_def relayExternalConn_def relayHTTPConn_def relayHTTPSConn_def split: if_splits)
    then obtain d where d: "pc_dataConn pc = Some d" using ready by blast
    have "s' = finish n ?j (start_relay (pc_extConn pc) d (read_ahead ?j) s) \<or>
          s' = finish n ?j (close_ext d (close_ext (pc_extConn pc) s))"
      using w JW_Ready r d pn kind
      by (cases "jb_kind ?j") (auto simp: wake_job_def relayExternalConn_def relayHTTPConn_def relayHTTPSConn_def replay_and_relay_def split: if_splits)
    then show ?thesis using relay2 [OF r d] quiet2 by blast
  next
    case JW_Timeout
    then have "s' = finish n ?j (close_ext (pc_extConn pc) s)"
      using w pn by (cases "jb_kind ?j") (auto simp: wake_job_def relayExternalConn_def relayHTTPConn_def relayHTTPSConn_def)
    then show ?thesis using quiet2 by blast
  next
    case JW_Context
    then have "s' = finish n ?j (close_ext (pc_extConn pc) s) \<or>
        s' = finish n ?j (close_ext (pc_extConn pc) (s\<lparr>pl_mgr := CancelPending (jb_connID ?j) (pl_mgr s)\<rparr>))"
      using w pn by (cases "jb_kind ?j") (auto simp: wake_job_def relayExternalConn_def relayHTTPConn_def relayHTTPSConn_def)
    then show ?thesis using quiet2 by blast
  qed
qed

lemma plane_inv_accept:
  assumes "plane_inv evs s" "pl_jobs s' = pl_jobs s @ [j]" "jb_phase j \<in> {J_Read, J_Register}"
    "\<forall>x \<in> set (pl_jobs s). jb_connID x \<noteq> jb_connID j"
    "pl_mgr s' = pl_mgr s" "pl_out s' = pl_out s" "pl_relays s' = pl_relays s" "pl_panic s' = pl_panic s"
  shows "plane_inv evs s'"
  using assms job_ok_idle [of j] by (auto simp: plane_inv_def relay_ok_def)

lemma accept_proxy_inv:
  assumes inv: "plane_inv evs s" and fresh: "\<forall>j \<in> set (pl_jobs s). jb_connID j \<noteq> c"
  shows "plane_inv evs (accept_proxy kind ip now ext c s)"
proof -
  have quiet: "plane_inv evs (close_ext ext (s\<lparr>pl_limiter := l\<rparr>))" for l using inv by (simp add: plane_inv_def)
  show ?thesis unfolding accept_proxy_def Let_def
    by (auto split: option.split prod.split bool.split simp: quiet intro!: plane_inv_accept [OF inv] simp: fresh)
qed

lemma handleDataConn_inv:
  assumes inv: "plane_inv evs s"
  shows "plane_inv (insert (D_Data d hello) evs) (handleDataConn d hello s)"
proof -
  have mono: "plane_inv (insert (D_Data d hello) evs) s" using plane_inv_mono [OF inv] by blast
  have quiet: "plane_inv (insert (D_Data d hello) evs) (close_ext d s)" using mono by (simp add: plane_inv_def)
  show ?thesis
  proof (cases hello)
    case (Some h)
    obtain r m where f: "FulfillPending (DCH_ConnID h) d (DCH_Token h) (pl_mgr s) = (r, m)" by fastforce
    show ?thesis
    proof (cases r)
      case (Inr u)
      have ok: "pend_ok (pl_mgr s)" using inv by (simp add: plane_inv_def)
      have "pend_ok m" using pend_ok_step [OF ok, of "OpFulfill (DCH_ConnID h) d (DCH_Token h)"] f by simp
      moreover have "job_ok (insert (D_Data d hello) evs) m (pl_out s) j" if "j \<in> set (pl_jobs s)" for j
        using fulfill_job [OF ok f [unfolded Inr] _ refl refl, of evs "pl_out s" j] inv that Some
        by (simp add: plane_inv_def)
      ultimately show ?thesis using mono Some f Inr by (simp add: handleDataConn_def plane_inv_def)
    qed (use Some f quiet in \<open>simp add: handleDataConn_def\<close>)
  qed (use quiet in \<open>simp add: handleDataConn_def\<close>)
qed

lemma plane_step_inv:
  assumes inv: "plane_inv evs s" and st: "plane_step uni ev s = Some s'" and fr: "fresh_event ev s"
  shows "plane_inv (insert ev evs) s'"
proof (cases ev)
  case (D_Data d hello)
  then show ?thesis using st handleDataConn_inv [OF inv, of d hello] by simp
next
  case (D_Tunnels op)
  have "job_ok evs (mgr_step (pl_mgr s) op) (pl_out s) j = job_ok evs (pl_mgr s) (pl_out s) j" if "tunnel_op op" for j
    using tunnel_op_frame [OF that] job_ok_frame by blast
  then have "plane_inv evs s'"
    using inv st D_Tunnels pend_ok_step [of "pl_mgr s" op] by (auto simp: plane_inv_def split: if_splits)
  then show ?thesis using plane_inv_mono by blast
next
  case (D_Public e w ext c)
  have "plane_inv evs (accept_public e w ext c s)"
    unfolding accept_public_def by (rule plane_inv_accept [OF inv], simp) (use fr D_Public in simp_all)
  then have "plane_inv evs s'" using st D_Public by simp
  then show ?thesis using plane_inv_mono by blast
next
  case (D_Conns cc)
  then have "plane_inv evs s'" using inv st by (auto simp: plane_inv_def)
  then show ?thesis using plane_inv_mono by blast
next
  case (D_Proxy kind ip now ext c)
  then have "plane_inv evs s'" using st fr accept_proxy_inv [OF inv]
    by (cases kind) (auto simp: StartHTTPProxy_accept_def StartHTTPSProxy_accept_def)
  then show ?thesis using plane_inv_mono by blast
next
  case (D_HTTP n req)
  then have "plane_inv evs s'" using st handleHTTPConn_inv [OF inv] by (auto simp: with_job_def split: if_splits)
  then show ?thesis using plane_inv_mono by blast
next
  case (D_HTTPS n inp)
  then have "plane_inv evs s'" using st handleHTTPSConn_inv [OF inv] by (auto simp: with_job_def split: if_splits)
  then show ?thesis using plane_inv_mono by blast
next
  case (D_Register n rnd)
  then have "plane_inv evs s'" using st register_job_inv [OF inv] by (auto simp: with_job_def split: if_splits)
  then show ?thesis using plane_inv_mono by blast
next
  case (D_Send n ok)
  then have "plane_inv evs s'"
    using st send_job_inv [OF inv] by (auto simp: with_job_def split: if_splits job_phase.splits)
  then show ?thesis using plane_inv_mono by blast
next
  case (D_Wake n w)
  then have "plane_inv evs s'"
    using st wake_job_inv [OF inv] by (auto simp: with_job_def split: if_splits job_phase.splits)
  then show ?thesis using plane_inv_mono by blast
qed

lemma plane_run_inv: "plane_inv evs0 s \<Longrightarrow> plane_run uni evs s = Some s' \<Longrightarrow> plane_inv (evs0 \<union> set evs) s'"
proof (induction evs arbitrary: s evs0)
  case (Cons ev evs)
  then obtain t where t: "plane_step uni ev s = Some t" "fresh_event ev s" "plane_run uni evs t = Some s'"
    by (auto split: if_splits option.splits)
  show ?case using Cons.IH [OF plane_step_inv [OF Cons.prems(1) t(1,2)] t(3)] by (simp add: insert_commute)
qed simp

lemma plane_inv_start: "plane_inv {} (plane_start l)"
  by (simp add: plane_inv_def plane_start_def NewManager_def pend_ok_def)

subsection \<open>What the data path guarantees\<close>

text \<open>
  C1. Only the client that was asked can supply a data connection. However jobs, arriving data
  connections and the rest of the program interleave, no handler dereferences a nil connection, and
  every relay joins the external connection of a job to a data connection whose hello carried that
  job's connection ID and a non-empty token, and that token had been written, in the job's
  OpenConnection with its tunnel and local address, to the control connection the job was routed to.
  Bytes read ahead are replayed for the job they were read for.
\<close>

theorem data_path_authentic:
  assumes "plane_run uni evs (plane_start l) = Some s"
  shows "\<not> pl_panic s \<and>
    (\<forall>(ext, d, replay) \<in> set (pl_relays s). \<exists>j \<in> set (pl_jobs s). jb_ext j = ext \<and> read_ahead j = replay \<and>
       (\<exists>h msg. D_Data d (Some h) \<in> set evs \<and> DCH_ConnID h = jb_connID j \<and> DCH_Token h \<noteq> [] \<and>
            (jb_writer j, msg) \<in> set (pl_out s) \<and> OC_ConnID msg = DCH_ConnID h \<and> OC_DataToken msg = DCH_Token h \<and>
            OC_TunnelID msg = jb_tunnelID j \<and> OC_LocalHost msg = jb_localHost j \<and> OC_LocalPort msg = jb_localPort j))"
proof -
  have i: "plane_inv (set evs) s" using plane_run_inv [OF plane_inv_start assms] by simp
  have "\<exists>j \<in> set (pl_jobs s). jb_ext j = ext \<and> read_ahead j = replay \<and>
       (\<exists>h msg. D_Data d (Some h) \<in> set evs \<and> DCH_ConnID h = jb_connID j \<and> DCH_Token h \<noteq> [] \<and>
            (jb_writer j, msg) \<in> set (pl_out s) \<and> OC_ConnID msg = DCH_ConnID h \<and> OC_DataToken msg = DCH_Token h \<and>
            OC_TunnelID msg = jb_tunnelID j \<and> OC_LocalHost msg = jb_localHost j \<and> OC_LocalPort msg = jb_localPort j)"
    if "(ext, d, replay) \<in> set (pl_relays s)" for ext d replay
  proof -
    have "relay_ok (set evs) (pl_jobs s) (pl_out s) (ext, d, replay)" using i that by (simp add: plane_inv_def)
    then obtain j h where j: "j \<in> set (pl_jobs s)" "jb_ext j = ext" "read_ahead j = replay"
      "(jb_writer j, open_msg j (DCH_Token h)) \<in> set (pl_out s)"
      "D_Data d (Some h) \<in> set evs" "DCH_ConnID h = jb_connID j" "DCH_Token h \<noteq> []"
      unfolding relay_ok_def announced_def presented_def prod.case by metis
    show ?thesis
      by (rule bexI [OF _ j(1)], intro conjI exI [of _ h] exI [of _ "open_msg j (DCH_Token h)"]) (use j in \<open>simp_all add: open_msg_def\<close>)
  qed
  then show ?thesis using i by (auto simp: plane_inv_def)
qed

definition demo_http_events :: "plane_event list" where
  "demo_http_events =
     [D_Tunnels (OpAddHTTP ''t1'' ''c1'' ''example.com'' ''127.0.0.1'' 8080),
      D_Conns (ConnReg_Register ''c1'' 7 NewControlConnRegistry),
      D_Proxy K_HTTP ''198.51.100.9'' 0 100 ''id'',
      D_HTTP 0 (Some (''example.com:80'', [71, 69, 84])), D_Register 0 (Some [1]), D_Send 0 True,
      D_Data 200 (Some \<lparr>DCH_ConnID = ''id'', DCH_Token = ''00''\<rparr>),
      D_Data 201 (Some \<lparr>DCH_ConnID = ''id'', DCH_Token = ''01''\<rparr>), D_Wake 0 (JW_Ready True)]"

lemma demo_http_run:
  "map_option (\<lambda>s. (pl_relays s, pl_closed s, pl_out s)) (plane_run id demo_http_events (plane_start None)) =
     Some ([(100, 201, [71, 69, 84])], {200}, [(7, \<lparr>OC_TunnelID = ''t1'', OC_ConnID = ''id'',
        OC_LocalHost = ''127.0.0.1'', OC_LocalPort = 8080, OC_DataToken = ''01''\<rparr>)])"
  by code_simp

theorem data_path_authentic_witness:
  "\<exists>s. plane_run id demo_http_events (plane_start None) = Some s \<and> \<not> pl_panic s \<and> pl_relays s = [(100, 201, [71, 69, 84])] \<and>
     (\<exists>j \<in> set (pl_jobs s). jb_ext j = 100 \<and> (\<exists>h. D_Data 201 (Some h) \<in> set demo_http_events \<and> DCH_ConnID h = jb_connID j))"
proof -
  obtain s where s: "plane_run id demo_http_events (plane_start None) = Some s" and r: "pl_relays s = [(100, 201, [71, 69, 84])]"
    using demo_http_run by auto
  have "\<not> pl_panic s" "\<exists>j \<in> set (pl_jobs s). jb_ext j = 100 \<and> read_ahead j = [71, 69, 84] \<and>
     (\<exists>h msg. D_Data 201 (Some h) \<in> set demo_http_events \<and> DCH_ConnID h = jb_connID j \<and> DCH_Token h \<noteq> [] \<and>
            (jb_writer j, msg) \<in> set (pl_out s) \<and> OC_ConnID msg = DCH_ConnID h \<and> OC_DataToken msg = DCH_Token h \<and>
            OC_TunnelID msg = jb_tunnelID j \<and> OC_LocalHost msg = jb_localHost j \<and> OC_LocalPort msg = jb_localPort j)"
    using data_path_authentic [OF s] unfolding r by simp_all
  then show ?thesis using s r by blast
qed

subsection \<open>What a timeout leaves behind\<close>

text \<open>
  C40. A data connection that arrives after the proxy gave up is lost, not closed. When an HTTP or
  HTTPS waiter has timed out on a job whose token is not empty, the pending entry is still there: the
  client's late data connection is accepted, and then neither closed nor relayed; the waiter's
  channel is signalled with nobody left to read it.
\<close>

theorem late_data_conn_leaks:
  assumes run: "plane_run uni evs (plane_start l) = Some s"
    and n: "n < length (pl_jobs s)" "jb_phase (pl_jobs s ! n) = J_Wait p" "jb_kind (pl_jobs s ! n) \<noteq> K_Public"
    and waiting: "WaitReady p (pl_mgr s) = None" "Token p (pl_mgr s) \<noteq> []"
    and h: "DCH_ConnID h = jb_connID (pl_jobs s ! n)" "DCH_Token h = Token p (pl_mgr s)"
  shows "\<exists>s1 s2. plane_step uni (D_Wake n JW_Timeout) s = Some s1 \<and> plane_step uni (D_Data d (Some h)) s1 = Some s2 \<and>
     jb_phase (pl_jobs s2 ! n) = J_Done \<and> pl_closed s2 = insert (jb_ext (pl_jobs s ! n)) (pl_closed s) \<and>
     pl_relays s2 = pl_relays s \<and> WaitReady p (pl_mgr s2) = Some (Some d) \<and> pending (pl_mgr s2) (DCH_ConnID h) = None"
proof -
  let ?j = "pl_jobs s ! n"
  have "plane_inv (set evs) s" using plane_run_inv [OF plane_inv_start run] by simp
  then have "cell_ok (set evs) (pl_mgr s) ?j p" using plane_inv_jobD [OF _ n(1)] n(2) by (fastforce simp: job_ok_def)
  then obtain pc where pc: "conn_heap (pl_mgr s) p = Some pc" "pc_extConn pc = jb_ext ?j"
      "\<not> pc_ready pc" "pending (pl_mgr s) (jb_connID ?j) = Some p"
    using waiting(1) by (auto simp: cell_ok_def WaitReady_def split: if_splits)
  define s1 where "s1 = set_job n (?j\<lparr>jb_phase := J_Done\<rparr>) (close_ext (jb_ext ?j) s)"
  have 1: "plane_step uni (D_Wake n JW_Timeout) s = Some s1"
    using n pc by (cases "jb_kind ?j") (simp_all add: with_job_def relay_defs PendingExtConn_def s1_def)
  obtain r m where f: "FulfillPending (DCH_ConnID h) d (DCH_Token h) (pl_mgr s) = (r, m)" by fastforce
  have "r = Inr () \<and> pending m (DCH_ConnID h) = None \<and> WaitReady p m = Some (Some d)"
    using f pc h waiting(2) unfolding FulfillPending_def close_ready_def Let_def WaitReady_def ConstantTimeCompare_def
    by (auto split: if_splits)
  then have 2: "plane_step uni (D_Data d (Some h)) s1 = Some (s1\<lparr>pl_mgr := m\<rparr>)" "pending m (DCH_ConnID h) = None"
      "WaitReady p m = Some (Some d)"
    using f by (simp_all add: handleDataConn_def s1_def)
  show ?thesis using 1 2 n(1) by (intro exI [of _ s1] exI [of _ "s1\<lparr>pl_mgr := m\<rparr>"]) (simp add: s1_def)
qed

lemma demo_http_waiting:
  "map_option (\<lambda>s. (length (pl_jobs s), jb_phase (pl_jobs s ! 0), jb_kind (pl_jobs s ! 0), jb_connID (pl_jobs s ! 0),
      WaitReady 0 (pl_mgr s), Token 0 (pl_mgr s))) (plane_run id (take 6 demo_http_events) (plane_start None)) =
     Some (1, J_Wait 0, K_HTTP, ''id'', None, ''01'')"
  by code_simp

theorem late_data_conn_leaks_witness:
  "\<exists>s s1 s2. plane_run id (take 6 demo_http_events) (plane_start None) = Some s \<and>
     plane_step id (D_Wake 0 JW_Timeout) s = Some s1 \<and>
     plane_step id (D_Data 201 (Some \<lparr>DCH_ConnID = ''id'', DCH_Token = ''01''\<rparr>)) s1 = Some s2 \<and>
     pl_relays s2 = pl_relays s \<and> WaitReady 0 (pl_mgr s2) = Some (Some 201)"
proof -
  obtain s where s: "plane_run id (take 6 demo_http_events) (plane_start None) = Some s"
    and f: "length (pl_jobs s) = 1" "jb_phase (pl_jobs s ! 0) = J_Wait 0" "jb_kind (pl_jobs s ! 0) = K_HTTP"
      "jb_connID (pl_jobs s ! 0) = ''id''" "WaitReady 0 (pl_mgr s) = None" "Token 0 (pl_mgr s) = ''01''"
    using demo_http_waiting by auto
  show ?thesis
    using late_data_conn_leaks [OF s, of 0 0 "\<lparr>DCH_ConnID = ''id'', DCH_Token = ''01''\<rparr>" 201] f s by auto
qed

subsection \<open>What a slot bounds\<close>

text \<open>The jobs whose handler has not returned; a waiter or a relay is not one of them.\<close>

definition handling :: "job \<Rightarrow> bool" where
  "handling j \<longleftrightarrow> jb_slot j \<and> (case jb_phase j of J_Wait p \<Rightarrow> False | J_Done \<Rightarrow> False | _ \<Rightarrow> True)"

definition slots :: "job list \<Rightarrow> int" where
  "slots js = sum_list (map (\<lambda>j. of_bool (handling j)) js)"

definition slots_ok :: "int \<Rightarrow> plane \<Rightarrow> bool" where
  "slots_ok maxGlobal s \<longleftrightarrow> (\<exists>rl. pl_limiter s = Some rl \<and> lm_maxGlobal rl = maxGlobal \<and> lm_active rl = slots (pl_jobs s) \<and>
     (0 < maxGlobal \<longrightarrow> lm_active rl \<le> maxGlobal))"

lemma slots_update: "n < length js \<Longrightarrow> slots (js[n := j]) = slots js + of_bool (handling j) - of_bool (handling (js ! n))"
  by (induction js arbitrary: n) (auto simp: slots_def split: nat.split)

lemma slots_append [simp]: "slots (js @ [j]) = slots js + of_bool (handling j)"
  by (simp add: slots_def)

lemma slots_length: "slots js = int (length (filter handling js))"
  by (induction js) (simp_all add: slots_def)

text \<open>A job that stays on one side of its handler's return, and one that crosses it.\<close>

lemma slots_ok_keep:
  assumes "slots_ok g s" "n < length (pl_jobs s)" "handling j = handling (pl_jobs s ! n)"
    "pl_jobs s' = (pl_jobs s)[n := j]" "pl_limiter s' = pl_limiter s"
  shows "slots_ok g s'"
  using assms by (auto simp: slots_ok_def slots_update)

lemma slots_ok_release:
  assumes "slots_ok g s" "n < length (pl_jobs s)" "\<not> handling j" "handling (pl_jobs s ! n) = jb_slot (pl_jobs s ! n)"
    "pl_jobs s' = (pl_jobs s)[n := j]" "pl_limiter s' = pl_limiter s"
  shows "slots_ok g (release_slot (pl_jobs s ! n) s')"
  using assms by (auto simp: slots_ok_def slots_update release_slot_def Release_def)

lemma limiter_sel [simp]:
  "pl_limiter (set_job n j s) = pl_limiter s" "pl_limiter (close_ext k s) = pl_limiter s"
  "pl_limiter (http_error k c s) = pl_limiter s"
  by (simp_all add: set_job_def close_ext_def http_error_def)

lemma handling_phase [simp]:
  "handling (j\<lparr>jb_phase := J_Send p\<rparr>) = jb_slot j" "\<not> handling (j\<lparr>jb_phase := J_Wait p\<rparr>)"
  "\<not> handling (j\<lparr>jb_phase := J_Done\<rparr>)" "handling (routed e w b j) = jb_slot j"
  by (simp_all add: handling_def routed_def)

lemma handling_at:
  "jb_phase j = J_Read \<Longrightarrow> handling j = jb_slot j" "jb_phase j = J_Register \<Longrightarrow> handling j = jb_slot j"
  "jb_phase j = J_Send p \<Longrightarrow> handling j = jb_slot j" "jb_phase j = J_Wait p \<Longrightarrow> \<not> handling j"
  by (simp_all add: handling_def)

lemma Allow_slots: "Allow ip now rl = (ok, rl') \<Longrightarrow> lm_active rl' = lm_active rl \<and> lm_maxGlobal rl' = lm_maxGlobal rl"
  by (auto simp: Allow_eq split: if_splits option.splits prod.splits)

lemma accept_proxy_slots: "slots_ok g s \<Longrightarrow> slots_ok g (accept_proxy kind ip now ext c s)"
proof -
  assume ok: "slots_ok g s"
  then obtain rl where rl: "pl_limiter s = Some rl" "lm_maxGlobal rl = g" "lm_active rl = slots (pl_jobs s)"
    "0 < g \<longrightarrow> lm_active rl \<le> g" by (auto simp: slots_ok_def)
  obtain ok1 rl1 where a: "Allow ip now rl = (ok1, rl1)" by fastforce
  have "lm_maxGlobal rl1 = g" "lm_active rl1 = slots (pl_jobs s)" using Allow_slots [OF a] rl by simp_all
  then show ?thesis using rl a
    by (cases ok1) (auto simp: accept_proxy_def slots_ok_def Acquire_def handling_def)
qed

lemma route_slots:
  assumes "slots_ok g s" "n < length (pl_jobs s)" "jb_phase (pl_jobs s ! n) = J_Read"
  shows "slots_ok g (handleHTTPConn n req (pl_jobs s ! n) s)" "slots_ok g (handleHTTPSConn uni n inp (pl_jobs s ! n) s)"
proof -
  let ?j = "pl_jobs s ! n"
  have fail: "slots_ok g (release_slot ?j (set_job n (?j\<lparr>jb_phase := J_Done\<rparr>) t))"
    if "pl_jobs t = pl_jobs s" "pl_limiter t = pl_limiter s" for t
    by (rule slots_ok_release [OF assms(1,2)]) (use that assms(3) in \<open>simp_all add: handling_at\<close>)
  have go: "slots_ok g (set_job n (routed e w b ?j) s)" for e w b
    by (rule slots_ok_keep [OF assms(1,2)]) (use assms(3) in \<open>simp_all add: handling_at\<close>)
  show "slots_ok g (handleHTTPConn n req ?j s)"
    using fail go by (simp add: handleHTTPConn_def Let_def split: option.split prod.split)
  obtain pk res rest where "peekSNI uni inp = Some (pk, res, rest)" using peekSNI_total [of uni inp] by auto
  then show "slots_ok g (handleHTTPSConn uni n inp ?j s)"
    using fail go by (cases res) (simp_all add: handleHTTPSConn_def Let_def split: option.split)
qed

lemma register_slots:
  assumes "slots_ok g s" "n < length (pl_jobs s)" "jb_phase (pl_jobs s ! n) = J_Register"
  shows "slots_ok g (register_job n rnd (pl_jobs s ! n) s)"
proof -
  obtain p m where r: "RegisterPending (jb_connID (pl_jobs s ! n)) (jb_ext (pl_jobs s ! n)) rnd (pl_mgr s) = (p, m)" by fastforce
  show ?thesis unfolding register_job_def r prod.case
    by (rule slots_ok_keep [OF assms(1,2), where j = "(pl_jobs s ! n)\<lparr>jb_phase := J_Send p\<rparr>"])
      (use assms(3) in \<open>simp_all add: handling_at\<close>)
qed

lemma send_slots:
  assumes "slots_ok g s" "n < length (pl_jobs s)" "jb_phase (pl_jobs s ! n) = J_Send p"
  shows "slots_ok g (send_job n ok p (pl_jobs s ! n) s)"
  unfolding send_job_def
  by (cases ok) (use assms in \<open>auto simp: handling_at intro!: slots_ok_release [OF assms(1,2)]\<close>)

lemma wake_slots:
  assumes "slots_ok g s" "n < length (pl_jobs s)" "jb_phase (pl_jobs s ! n) = J_Wait p"
    "wake_job n w p (pl_jobs s ! n) s = Some s'"
  shows "slots_ok g s'"
proof -
  have "pl_jobs s' = (pl_jobs s)[n := (pl_jobs s ! n)\<lparr>jb_phase := J_Done\<rparr>]" "pl_limiter s' = pl_limiter s"
    using assms(4) by (cases w; cases "jb_kind (pl_jobs s ! n)",
      auto simp: relay_defs bind_eq_Some_conv split: option.splits)+
  then show ?thesis by (rule slots_ok_keep [OF assms(1,2), rotated]) (use assms(3) in \<open>simp add: handling_at\<close>)
qed

lemma data_slots: "slots_ok g s \<Longrightarrow> slots_ok g (handleDataConn d hello s)"
  by (auto simp: handleDataConn_def slots_ok_def split: option.split prod.split sum.split)

lemma plane_step_slots: "slots_ok g s \<Longrightarrow> plane_step uni ev s = Some s' \<Longrightarrow> slots_ok g s'"
  by (cases ev)
    (auto simp: with_job_def accept_proxy_slots StartHTTPProxy_accept_def StartHTTPSProxy_accept_def route_slots register_slots send_slots data_slots wake_slots
       split: if_splits job_phase.splits job_kind.splits,
     auto simp: slots_ok_def accept_public_def handling_def)

lemma plane_run_guarded: "plane_run uni evs s = guarded_run fresh_event (plane_step uni) evs s"
  by (induction evs arbitrary: s) (simp_all split: option.split)

interpretation plane_slots: guarded_machine fresh_event "plane_step uni" "slots_ok g" for uni g
  by unfold_locales (rule plane_step_slots)

lemma plane_run_slots: "slots_ok g s \<Longrightarrow> plane_run uni evs s = Some s' \<Longrightarrow> slots_ok g s'"
  using plane_slots.guarded_run_inv by (simp add: plane_run_guarded)

text \<open>
  C28. A proxy's global limit bounds the handlers, not the connections. In every run the limiter's
  counter is the number of accepted connections whose handler has not returned yet, so no slot is
  leaked or returned twice on any path, and the counter stays within a positive limit; connections
  that wait for a data connection or are being relayed hold no slot.
\<close>

theorem slots_count_handlers:
  assumes "plane_run uni evs (plane_start (Some (NewLimiter r b maxGlobal ttl))) = Some s"
  shows "\<exists>rl. pl_limiter s = Some rl \<and> lm_active rl = int (length (filter handling (pl_jobs s))) \<and>
     (0 < maxGlobal \<longrightarrow> lm_active rl \<le> maxGlobal)"
proof -
  have "slots_ok maxGlobal (plane_start (Some (NewLimiter r b maxGlobal ttl)))"
    by (simp add: slots_ok_def plane_start_def NewLimiter_def slots_def)
  then show ?thesis using plane_run_slots [OF _ assms] by (auto simp: slots_ok_def slots_length)
qed

definition demo_one_slot :: "plane_event list" where
  "demo_one_slot =
     take 2 demo_http_events @
     [D_Proxy K_HTTP ''198.51.100.9'' 0 100 ''id'', D_Proxy K_HTTP ''198.51.100.8'' 0 99 ''x'',
      D_HTTP 0 (Some (''example.com'', [])), D_Register 0 (Some [1]), D_Send 0 True,
      D_Proxy K_HTTP ''198.51.100.9'' 0 102 ''id2'', D_HTTP 1 (Some (''example.com'', [])), D_Register 1 (Some [2]),
      D_Send 1 True, D_Data 201 (Some \<lparr>DCH_ConnID = ''id'', DCH_Token = ''01''\<rparr>),
      D_Data 202 (Some \<lparr>DCH_ConnID = ''id2'', DCH_Token = ''02''\<rparr>), D_Wake 0 (JW_Ready True), D_Wake 1 (JW_Ready True)]"

lemma demo_one_slot_run:
  "map_option (\<lambda>s. (pl_relays s, pl_closed s)) (plane_run id demo_one_slot (plane_start (Some (NewLimiter 0 0 1 0)))) =
     Some ([(100, 201, []), (102, 202, [])], {99})"
  "map_option (\<lambda>s. length (filter handling (pl_jobs s))) (plane_run id demo_one_slot (plane_start (Some (NewLimiter 0 0 1 0)))) = Some 0"
  by code_simp+

theorem slots_count_handlers_witness:
  "\<exists>s rl. plane_run id demo_one_slot (plane_start (Some (NewLimiter 0 0 1 0))) = Some s \<and> length (pl_relays s) = 2 \<and>
     pl_closed s = {99} \<and> pl_limiter s = Some rl \<and> lm_active rl = 0"
proof -
  obtain s where s: "plane_run id demo_one_slot (plane_start (Some (NewLimiter 0 0 1 0))) = Some s"
    and f: "length (pl_relays s) = 2" "pl_closed s = {99}" "length (filter handling (pl_jobs s)) = 0"
    using demo_one_slot_run by auto
  then show ?thesis using slots_count_handlers [OF s] by auto
qed

end
