(* ===== verification/FileTransfer.thy ===== *)
theory FileTransfer
  imports Manager GoNet "HOL-Library.AList"
begin

text \<open>
  The resumable file transfer (\<open>internal/filetransfer\<close>): \<open>protocol.go\<close>, \<open>receiver.go\<close> and
  \<open>sender.go\<close>. The drop folder is an association list from file names to contents; file operations
  may fail as the \<open>os\<close> record says. HTTP is reduced to requests and responses with the headers the
  two sides use, and SHA-256 is the parameter \<open>sha\<close>. Requests for one name are serialised by its gate
  (theory FileGates); uploads of different names overlap, and so do their commits: choosing a free
  name and renaming the part file to it are separate operations on the folder.
\<close>

subsection \<open>protocol.go\<close>

text \<open>\<open>path.Base\<close> after trimming, with the backslashes of a Windows path as separators.\<close>

definition path_Base :: "string \<Rightarrow> string" where
  "path_Base p =
     (if p = [] then ''.''
      else (let q = rev (dropWhile (\<lambda>c. c = CHR ''/'') (rev p));
                b = (case last_index_of CHR ''/'' q of None \<Rightarrow> q | Some i \<Rightarrow> drop (Suc i) q)
            in if b = [] then ''/'' else b))"

definition backslash :: char where "backslash = CHR 0x5C"

datatype name_error = MissingFilename | InvalidFilename

definition sanitizeName :: "string \<Rightarrow> name_error + string" where
  "sanitizeName raw =
     (let raw = TrimSpace raw
      in if raw = [] then Inl MissingFilename
         else (let raw = map (\<lambda>c. if c = backslash then CHR ''/'' else c) raw; base = path_Base raw
               in if base = ''.'' \<or> base = ''..'' \<or> base = ''/'' \<or> base = [] \<or> CHR 0x00 \<in> set base
                  then Inl InvalidFilename else Inr base))"

type_synonym dir = "(string \<times> bytes) list"

text \<open>How the file operations of one request go; \<open>os_space\<close>: a write error after that many bytes.\<close>

record os =
  os_trunc :: bool
  os_open :: bool
  os_space :: "nat option"
  os_close :: bool
  os_hash :: bool
  os_remove :: bool
  os_rename :: bool

definition os_fine :: os where
  "os_fine = \<lparr>os_trunc = True, os_open = True, os_space = None, os_close = True, os_hash = True, os_remove = True,
              os_rename = True\<rparr>"

definition fileSHA256 :: "(bytes \<Rightarrow> bytes) \<Rightarrow> bool \<Rightarrow> dir \<Rightarrow> string \<Rightarrow> string option" where
  "fileSHA256 sha ok d p = (if ok then map_option (\<lambda>c. hex_encode (sha c)) (map_of d p) else None)"

text \<open>\<open>filepath.Ext\<close> of a name without separators, and the candidates of \<open>uniquePath\<close>.\<close>

definition path_Ext :: "string \<Rightarrow> string" where
  "path_Ext p = (case last_index_of CHR ''.'' p of None \<Rightarrow> [] | Some i \<Rightarrow> drop i p)"

definition candidate :: "string \<Rightarrow> nat \<Rightarrow> string" where
  "candidate p i =
     (let ext = path_Ext p; stem = take (length p - length ext) p in stem @ '' ('' @ show_nat i @ '')'' @ ext)"

lemma candidate_inj: "candidate p i = candidate p j \<Longrightarrow> i = j"
  by (simp add: candidate_def Let_def) (metis option.inject read_digits_show_nat)

text \<open>The loop ends: the candidates differ, and the folder has finitely many files.\<close>

function uniq_from :: "dir \<Rightarrow> string \<Rightarrow> nat \<Rightarrow> string" where
  "uniq_from d p i = (if map_of d (candidate p i) = None then candidate p i else uniq_from d p (Suc i))"
  by pat_completeness auto
termination
proof (relation "measure (\<lambda>(d, p, i). card {j. i \<le> j \<and> map_of d (candidate p j) \<noteq> None})", goal_cases)
  case (2 d p i)
  define taken where "taken i = {j. i \<le> j \<and> map_of d (candidate p j) \<noteq> None}" for i
  have "inj_on (candidate p) (taken i)" by (rule inj_onI) (rule candidate_inj)
  moreover have "candidate p ` taken i \<subseteq> fst ` set d" unfolding taken_def map_of_eq_None_iff by blast
  ultimately have "finite (taken i)" by (rule inj_on_finite) simp
  moreover have "i \<in> taken i" "i \<notin> taken (Suc i)" "taken (Suc i) \<subseteq> taken i" using 2 unfolding taken_def by auto
  then have "taken (Suc i) \<subset> taken i" by blast
  ultimately have "card (taken (Suc i)) < card (taken i)" by (rule psubset_card_mono)
  then show ?case unfolding taken_def by simp
qed simp

declare uniq_from.simps [simp del]

definition uniquePath :: "dir \<Rightarrow> string \<Rightarrow> string" where
  "uniquePath d p = (if map_of d p = None then p else uniq_from d p 1)"

subsection \<open>receiver.go\<close>

text \<open>\<open>rq_body\<close>: the body bytes that arrive; \<open>rq_cut\<close>: reading on after them fails.\<close>

datatype rq_method = M_HEAD | M_PUT | M_Other

record request =
  rq_method :: rq_method
  rq_filename :: string
  rq_total :: string
  rq_sha256 :: string
  rq_offset :: string
  rq_token :: string
  rq_body :: bytes
  rq_cut :: bool

record response =
  rs_status :: nat
  rs_offset :: string
  rs_complete :: string

definition http_status :: "nat \<Rightarrow> response" where
  "http_status code = \<lparr>rs_status = code, rs_offset = [], rs_complete = []\<rparr>"

text \<open>\<open>rc_done\<close>: the calls of the completion callback, when one is set.\<close>

record Receiver =
  rc_token :: string
  rc_maxSize :: int
  rc_files :: dir
  rc_notify :: bool
  rc_done :: "(string \<times> int) list"

definition NewReceiver :: "string \<Rightarrow> string \<Rightarrow> int \<Rightarrow> bool \<Rightarrow> dir \<Rightarrow> Receiver option" where
  "NewReceiver dirname token maxSize mkdir_ok files =
     (if dirname = [] then None
      else if \<not> mkdir_ok then None
      else Some \<lparr>rc_token = token, rc_maxSize = maxSize, rc_files = files, rc_notify = False, rc_done = []\<rparr>)"

definition checkToken :: "string \<Rightarrow> Receiver \<Rightarrow> bool" where
  "checkToken got r = (if rc_token r = [] then True else ConstantTimeCompare got (rc_token r) = 1)"

definition partPath :: "string \<Rightarrow> string" where
  "partPath name = name @ ''.part''"

definition partSize :: "dir \<Rightarrow> string \<Rightarrow> int" where
  "partSize d name = (case map_of d (partPath name) of None \<Rightarrow> 0 | Some c \<Rightarrow> int (length c))"

fun hex_decode :: "string \<Rightarrow> nat list option" where
  "hex_decode [] = Some []"
| "hex_decode [c] = None"
| "hex_decode (a # b # s) =
     (case (hex_val a, hex_val b, hex_decode s) of
        (Some x, Some y, Some r) \<Rightarrow> Some ((16 * x + y) # r)
      | _ \<Rightarrow> None)"

text \<open>The checks before the gate is taken: total size, lower-case checksum and offset.\<close>

definition put_params :: "int \<Rightarrow> request \<Rightarrow> response + int \<times> string \<times> int" where
  "put_params maxSize rq =
     (case ParseInt (rq_total rq) of
        None \<Rightarrow> Inl (http_status 400)
      | Some tot \<Rightarrow>
          (if tot < 0 then Inl (http_status 400)
           else if maxSize > 0 \<and> tot > maxSize then Inl (http_status 413)
           else (let sumHex = map lower_char (rq_sha256 rq)
                 in case hex_decode sumHex of
                      None \<Rightarrow> Inl (http_status 400)
                    | Some raw \<Rightarrow>
                        (if length raw \<noteq> 32 then Inl (http_status 400)
                         else (case ParseInt (rq_offset rq) of
                                 None \<Rightarrow> Inl (http_status 400)
                               | Some offset \<Rightarrow>
                                   if offset < 0 then Inl (http_status 400) else Inr (tot, sumHex, offset))))))"

definition respondProgress :: "int \<Rightarrow> bool \<Rightarrow> response" where
  "respondProgress offset complete =
     \<lparr>rs_status = 200, rs_offset = show_int offset, rs_complete = (if complete then ''true'' else ''false'')\<rparr>"

text \<open>
  Copying the body, limited to \<open>n\<close> bytes, and closing: what was written and whether it failed. A
  negative limit reads nothing.
\<close>

definition io_Copy :: "int \<Rightarrow> bytes \<Rightarrow> bool \<Rightarrow> os \<Rightarrow> bytes \<times> bool" where
  "io_Copy n body broken os =
     (let limited = take (nat n) body;
          wr = (case os_space os of None \<Rightarrow> limited | Some k \<Rightarrow> take k limited)
      in (wr, wr \<noteq> limited \<or> broken \<and> int (length body) < n \<or> \<not> os_close os))"

text \<open>
  From the resync to the closed part file: a response, or the size the code believes the part has
  and whether the copy failed.
\<close>

definition put_receive ::
  "string \<Rightarrow> int \<Rightarrow> int \<Rightarrow> bytes \<Rightarrow> bool \<Rightarrow> os \<Rightarrow> dir \<Rightarrow> (response + int \<times> bool) \<times> dir" where
  "put_receive name tot offset body broken os d =
     (let part = partPath name; cur = partSize d name
      in if offset > cur then (Inl \<lparr>rs_status = 409, rs_offset = show_int cur, rs_complete = []\<rparr>, d)
         else if offset < cur \<and> \<not> os_trunc os then (Inl (http_status 500), d)
         else (let held = (case map_of d part of None \<Rightarrow> [] | Some c \<Rightarrow> c);
                   held = (if offset < cur then take (nat offset) held else held);
                   d1 = (if offset < cur then AList.update part held d else d)
               in if \<not> os_open os then (Inl (http_status 500), d1)
                  else (case io_Copy (tot - cur) body broken os of
                          (wr, copyErr) \<Rightarrow>
                            (Inr (cur + int (length wr), copyErr), AList.update part (held @ wr) d1))))"

text \<open>
  The end of an upload whose part holds \<open>total\<close> bytes or more: the verification of the part, and the
  rename to the name that \<open>uniquePath\<close> chose, which replaces whatever has that name by then. In
  \<open>put_finish\<close>, \<open>mid\<close> is what other requests do to the folder between the choice and the rename.
\<close>

definition put_verify ::
  "(bytes \<Rightarrow> bytes) \<Rightarrow> string \<Rightarrow> string \<Rightarrow> os \<Rightarrow> Receiver \<Rightarrow> response option \<times> Receiver" where
  "put_verify sha name sumHex os r =
     (let part = partPath name; d = rc_files r
      in case fileSHA256 sha (os_hash os) d part of
           None \<Rightarrow> (Some (http_status 500), r)
         | Some gotSum \<Rightarrow>
             (if gotSum \<noteq> sumHex then
                (Some (http_status 422), r\<lparr>rc_files := (if os_remove os then AList.delete part d else d)\<rparr>)
              else (None, r)))"

definition put_rename :: "string \<Rightarrow> string \<Rightarrow> int \<Rightarrow> os \<Rightarrow> Receiver \<Rightarrow> response \<times> Receiver" where
  "put_rename name final tot os r =
     (let part = partPath name; d = rc_files r
      in case map_of d part of
           None \<Rightarrow> (http_status 500, r)
         | Some c \<Rightarrow>
             (if \<not> os_rename os then (http_status 500, r)
              else (respondProgress tot True,
                    r\<lparr>rc_files := AList.update final c (AList.delete part d),
                      rc_done := (if rc_notify r then rc_done r @ [(final, tot)] else rc_done r)\<rparr>)))"

definition put_finish ::
  "(bytes \<Rightarrow> bytes) \<Rightarrow> string \<Rightarrow> int \<Rightarrow> string \<Rightarrow> os \<Rightarrow> (Receiver \<Rightarrow> Receiver) \<Rightarrow> Receiver \<Rightarrow> response \<times> Receiver" where
  "put_finish sha name tot sumHex os mid r =
     (case put_verify sha name sumHex os r of
        (Some rs, r') \<Rightarrow> (rs, r')
      | (None, r') \<Rightarrow> (let final = uniquePath (rc_files r') name in put_rename name final tot os (mid r')))"

definition handlePut ::
  "(bytes \<Rightarrow> bytes) \<Rightarrow> request \<Rightarrow> string \<Rightarrow> os \<Rightarrow> (Receiver \<Rightarrow> Receiver) \<Rightarrow> Receiver \<Rightarrow> response \<times> Receiver" where
  "handlePut sha rq name os mid r =
     (case put_params (rc_maxSize r) rq of
        Inl rs \<Rightarrow> (rs, r)
      | Inr (tot, sumHex, offset) \<Rightarrow>
          (case put_receive name tot offset (rq_body rq) (rq_cut rq) os (rc_files r) of
             (Inl rs, d) \<Rightarrow> (rs, r\<lparr>rc_files := d\<rparr>)
           | (Inr (newSize, copyErr), d) \<Rightarrow>
               (let r = r\<lparr>rc_files := d\<rparr>
                in if copyErr then (respondProgress newSize False, r)
                   else if newSize < tot then (respondProgress newSize False, r)
                   else put_finish sha name tot sumHex os mid r)))"

definition ServeHTTP ::
  "(bytes \<Rightarrow> bytes) \<Rightarrow> request \<Rightarrow> os \<Rightarrow> (string \<Rightarrow> Receiver \<Rightarrow> Receiver) \<Rightarrow> Receiver \<Rightarrow> response \<times> Receiver" where
  "ServeHTTP sha rq os mid r =
     (if \<not> checkToken (rq_token rq) r then (http_status 401, r)
      else (case sanitizeName (rq_filename rq) of
              Inl _ \<Rightarrow> (http_status 400, r)
            | Inr name \<Rightarrow>
                (case rq_method rq of
                   M_HEAD \<Rightarrow>
                     (\<lparr>rs_status = 200, rs_offset = show_int (partSize (rc_files r) name), rs_complete = []\<rparr>, r)
                 | M_PUT \<Rightarrow> handlePut sha rq name os (mid name) r
                 | M_Other \<Rightarrow> (http_status 405, r))))"

definition alone :: "string \<Rightarrow> Receiver \<Rightarrow> Receiver" where
  "alone name r = r"

subsection \<open>Overlapping uploads\<close>

text \<open>
  The handlers of the receiver, interleaved. A request that is not an upload, or whose parameters are
  wrong, is answered without a change to the folder. An upload takes its name's gate and then goes
  through the operations of \<open>handlePut\<close>, other uploads running between them: the resync with the
  copied body (one operation, as only the holder of the gate writes the part), the verification, one
  \<open>Stat\<close> of \<open>uniquePath\<close> after the other, and the rename to the name found free. Its answer releases
  the gate.
\<close>

datatype up_pc = U_Receive | U_Verify | U_Stat nat | U_Rename string | U_Answered response

record upload =
  up_rq :: request
  up_os :: os
  up_name :: string
  up_tot :: int
  up_sum :: string
  up_offset :: int
  up_pc :: up_pc

record serving =
  us_recv :: Receiver
  us_running :: "nat \<rightharpoonup> upload"
  us_seen :: "request list"

definition serving_start :: "Receiver \<Rightarrow> serving" where
  "serving_start r = \<lparr>us_recv = r, us_running = Map.empty, us_seen = []\<rparr>"

text \<open>The part of \<open>ServeHTTP\<close> and \<open>handlePut\<close> before the gate: the upload to run, if it gets there.\<close>

definition put_begin :: "request \<Rightarrow> os \<Rightarrow> Receiver \<Rightarrow> upload option" where
  "put_begin rq os r =
     (if checkToken (rq_token rq) r \<and> rq_method rq = M_PUT then
        (case (sanitizeName (rq_filename rq), put_params (rc_maxSize r) rq) of
           (Inr name, Inr (tot, sumHex, offset)) \<Rightarrow>
             Some \<lparr>up_rq = rq, up_os = os, up_name = name, up_tot = tot, up_sum = sumHex, up_offset = offset,
                   up_pc = U_Receive\<rparr>
         | _ \<Rightarrow> None)
      else None)"

definition stat_name :: "string \<Rightarrow> nat \<Rightarrow> string" where
  "stat_name name k = (if k = 0 then name else candidate name k)"

definition upload_next :: "(bytes \<Rightarrow> bytes) \<Rightarrow> upload \<Rightarrow> Receiver \<Rightarrow> up_pc \<times> Receiver" where
  "upload_next sha u r =
     (case up_pc u of
        U_Receive \<Rightarrow>
          (case put_receive (up_name u) (up_tot u) (up_offset u) (rq_body (up_rq u)) (rq_cut (up_rq u)) (up_os u) (rc_files r) of
             (Inl rs, d) \<Rightarrow> (U_Answered rs, r\<lparr>rc_files := d\<rparr>)
           | (Inr (newSize, copyErr), d) \<Rightarrow>
               (if copyErr \<or> newSize < up_tot u then (U_Answered (respondProgress newSize False), r\<lparr>rc_files := d\<rparr>)
                else (U_Verify, r\<lparr>rc_files := d\<rparr>)))
      | U_Verify \<Rightarrow>
          (case put_verify sha (up_name u) (up_sum u) (up_os u) r of
             (Some rs, r') \<Rightarrow> (U_Answered rs, r')
           | (None, r') \<Rightarrow> (U_Stat 0, r'))
      | U_Stat k \<Rightarrow>
          (if map_of (rc_files r) (stat_name (up_name u) k) = None then (U_Rename (stat_name (up_name u) k), r)
           else (U_Stat (Suc k), r))
      | U_Rename final \<Rightarrow>
          (case put_rename (up_name u) final (up_tot u) (up_os u) r of (rs, r') \<Rightarrow> (U_Answered rs, r'))
      | U_Answered rs \<Rightarrow> (U_Answered rs, r))"

definition answered :: "up_pc \<Rightarrow> bool" where
  "answered pc \<longleftrightarrow> (case pc of U_Answered _ \<Rightarrow> True | _ \<Rightarrow> False)"

inductive serving_step :: "(bytes \<Rightarrow> bytes) \<Rightarrow> serving \<Rightarrow> serving \<Rightarrow> bool" for sha :: "bytes \<Rightarrow> bytes" where
  other: "put_begin rq os (us_recv s) = None \<Longrightarrow>
    serving_step sha s (s\<lparr>us_recv := snd (ServeHTTP sha rq os alone (us_recv s)), us_seen := rq # us_seen s\<rparr>)"
| enter: "us_running s g = None \<Longrightarrow> put_begin rq os (us_recv s) = Some u \<Longrightarrow>
    \<forall>h v. us_running s h = Some v \<longrightarrow> up_name v \<noteq> up_name u \<Longrightarrow>
    serving_step sha s (s\<lparr>us_running := (us_running s)(g \<mapsto> u), us_seen := rq # us_seen s\<rparr>)"
| proceed: "us_running s g = Some u \<Longrightarrow> upload_next sha u (us_recv s) = (pc, r') \<Longrightarrow>
    serving_step sha s (s\<lparr>us_recv := r', us_running := (us_running s)
      (g := (if answered pc then None else Some (u\<lparr>up_pc := pc\<rparr>)))\<rparr>)"

subsection \<open>sender.go\<close>

text \<open>
  One trip to the receiver: it works, the request or the response is lost, or something in between
  answers with a status of its own.
\<close>

datatype trip = T_Ok | T_NoRequest | T_NoResponse | T_Status nat

fun travel :: "trip \<Rightarrow> (Receiver \<Rightarrow> response \<times> Receiver) \<Rightarrow> Receiver \<Rightarrow> response option \<times> Receiver" where
  "travel T_Ok srv r = (case srv r of (rs, r') \<Rightarrow> (Some rs, r'))"
| "travel T_NoRequest srv r = (None, r)"
| "travel T_NoResponse srv r = (None, snd (srv r))"
| "travel (T_Status n) srv r = (Some (http_status n), r)"

text \<open>
  What others do to the receiver, seen by one sender: a request served between two operations of
  ours, or the rename of an upload that overlaps with us and chose its name at any time before. While
  our upload holds the gate of its name, nothing else runs for that name.
\<close>

datatype event = Served request os | Renamed string string int

definition happens :: "(bytes \<Rightarrow> bytes) \<Rightarrow> event \<Rightarrow> Receiver \<Rightarrow> Receiver" where
  "happens sha e r =
     (case e of
        Served rq os \<Rightarrow> snd (ServeHTTP sha rq os alone r)
      | Renamed name final tot \<Rightarrow> snd (put_rename name final tot os_fine r))"

definition needs_gate :: "string \<Rightarrow> event \<Rightarrow> bool" where
  "needs_gate name e =
     (case e of
        Served rq os \<Rightarrow> rq_method rq = M_PUT \<and> sanitizeName (rq_filename rq) = Inr name
      | Renamed name' final tot \<Rightarrow> name' = name)"

definition happen :: "(bytes \<Rightarrow> bytes) \<Rightarrow> event list \<Rightarrow> Receiver \<Rightarrow> Receiver" where
  "happen sha es r = foldl (\<lambda>r e. happens sha e r) r es"

definition meanwhile :: "(bytes \<Rightarrow> bytes) \<Rightarrow> event list \<Rightarrow> string \<Rightarrow> Receiver \<Rightarrow> Receiver" where
  "meanwhile sha es name r = happen sha (filter (\<lambda>e. \<not> needs_gate name e) es) r"

text \<open>
  What happens to one iteration of the loop: the context at its two selects, what others do before the
  offset query, before the upload, between the receiver's choice of the final name and its rename, and
  before its answer arrives, the two trips, whether the local file opens, how many body bytes arrive,
  and the receiver's file operations.
\<close>

record turn =
  tn_ctx :: bool
  tn_wait_ctx :: bool
  tn_before :: "event list"
  tn_head :: trip
  tn_between :: "event list"
  tn_open :: bool
  tn_put :: trip
  tn_arrive :: "nat option"
  tn_os :: os
  tn_commit :: "event list"
  tn_after :: "event list"

record SendOptions =
  so_Token :: string
  so_MaxRetries :: int

definition defaults :: "SendOptions \<Rightarrow> SendOptions" where
  "defaults o1 = (if so_MaxRetries o1 = 0 then o1\<lparr>so_MaxRetries := 5\<rparr> else o1)"

definition head_request :: "string \<Rightarrow> string \<Rightarrow> request" where
  "head_request name token =
     \<lparr>rq_method = M_HEAD, rq_filename = name, rq_total = [], rq_sha256 = [], rq_offset = [], rq_token = token,
      rq_body = [], rq_cut = False\<rparr>"

definition remoteOffset ::
  "(bytes \<Rightarrow> bytes) \<Rightarrow> string \<Rightarrow> string \<Rightarrow> turn \<Rightarrow> Receiver \<Rightarrow> int option \<times> Receiver" where
  "remoteOffset sha name token t r =
     (case travel (tn_head t) (ServeHTTP sha (head_request name token) (tn_os t) alone) r of
        (None, r') \<Rightarrow> (None, r')
      | (Some resp, r') \<Rightarrow>
          (if rs_status resp \<noteq> 200 then None
           else Some (case ParseInt (rs_offset resp) of None \<Rightarrow> 0 | Some off \<Rightarrow> if off < 0 then 0 else off), r'))"

definition put_request :: "string \<Rightarrow> string \<Rightarrow> bytes \<Rightarrow> int \<Rightarrow> string \<Rightarrow> nat option \<Rightarrow> request" where
  "put_request name digest content offset token arrive =
     (let body = take (nat (int (length content) - offset)) (drop (nat offset) content)
      in \<lparr>rq_method = M_PUT, rq_filename = name, rq_total = show_int (int (length content)), rq_sha256 = digest,
          rq_offset = show_int offset, rq_token = token,
          rq_body = (case arrive of None \<Rightarrow> body | Some k \<Rightarrow> take k body), rq_cut = (arrive \<noteq> None)\<rparr>)"

datatype put_result = Put_Error | Put_Done | Put_Conflict | Put_Partial

definition putFrom ::
  "(bytes \<Rightarrow> bytes) \<Rightarrow> string \<Rightarrow> string \<Rightarrow> bytes \<Rightarrow> int \<Rightarrow> string \<Rightarrow> turn \<Rightarrow> Receiver \<Rightarrow> put_result \<times> Receiver" where
  "putFrom sha name digest content offset token t r =
     (if \<not> tn_open t then (Put_Error, r)
      else (case travel (tn_put t) (ServeHTTP sha (put_request name digest content offset token (tn_arrive t)) (tn_os t)
                                     (meanwhile sha (tn_commit t))) r of
              (None, r') \<Rightarrow> (Put_Error, happen sha (tn_after t) r')
            | (Some resp, r') \<Rightarrow>
                (if rs_status resp = 200 then (if rs_complete resp = ''true'' then Put_Done else Put_Partial)
                 else if rs_status resp = 409 then Put_Conflict else Put_Error, happen sha (tn_after t) r')))"

datatype send_error = E_Stat | E_Dir | E_Hash | E_Context | E_Conflicts | E_Failed

text \<open>The loop of \<open>SendFile\<close>; \<open>i\<close> counts its iterations.\<close>

function send_loop ::
  "(bytes \<Rightarrow> bytes) \<Rightarrow> string \<Rightarrow> string \<Rightarrow> bytes \<Rightarrow> SendOptions \<Rightarrow> (nat \<Rightarrow> turn) \<Rightarrow> nat \<Rightarrow> int \<Rightarrow> int \<Rightarrow> Receiver
   \<Rightarrow> (send_error + unit) \<times> Receiver" where
  "send_loop sha name digest content opts env i attempt conflicts r =
     (if attempt > so_MaxRetries opts then (Inl E_Failed, r)
      else (let t = env i
            in if tn_ctx t \<or> attempt > 0 \<and> tn_wait_ctx t then (Inl E_Context, r)
               else (case remoteOffset sha name (so_Token opts) t (happen sha (tn_before t) r) of
                       (None, r1) \<Rightarrow> send_loop sha name digest content opts env (Suc i) (attempt + 1) conflicts r1
                     | (Some off, r1) \<Rightarrow>
                         (let offset = (if off > int (length content) then 0 else off)
                          in case putFrom sha name digest content offset (so_Token opts) t (happen sha (tn_between t) r1) of
                               (Put_Error, r2) \<Rightarrow> send_loop sha name digest content opts env (Suc i) (attempt + 1) conflicts r2
                             | (Put_Done, r2) \<Rightarrow> (Inr (), r2)
                             | (Put_Conflict, r2) \<Rightarrow>
                                 (if conflicts + 1 > 2 * (so_MaxRetries opts + 1) + 4 then (Inl E_Conflicts, r2)
                                  else send_loop sha name digest content opts env (Suc i) attempt (conflicts + 1) r2)
                             | (Put_Partial, r2) \<Rightarrow>
                                 send_loop sha name digest content opts env (Suc i) (attempt + 1) conflicts r2))))"
  by pat_completeness auto
termination
  by (relation "measures [\<lambda>(sha, name, digest, content, opts, env, i, attempt, conflicts, r). nat (so_MaxRetries opts + 1 - attempt),
       \<lambda>(sha, name, digest, content, opts, env, i, attempt, conflicts, r). nat (2 * (so_MaxRetries opts + 1) + 5 - conflicts)]") auto

declare send_loop.simps [simp del]

datatype source = S_Missing | S_Dir | S_Unreadable bytes | S_File bytes

definition SendFile ::
  "(bytes \<Rightarrow> bytes) \<Rightarrow> string \<Rightarrow> source \<Rightarrow> SendOptions \<Rightarrow> (nat \<Rightarrow> turn) \<Rightarrow> Receiver \<Rightarrow> (send_error + unit) \<times> Receiver" where
  "SendFile sha name src opts env r =
     (case src of
        S_Missing \<Rightarrow> (Inl E_Stat, r)
      | S_Dir \<Rightarrow> (Inl E_Dir, r)
      | S_Unreadable c \<Rightarrow> (Inl E_Hash, r)
      | S_File content \<Rightarrow> send_loop sha name (hex_encode (sha content)) content (defaults opts) env 0 0 0 r)"

end
