(* ===== verification/FileTransferProps.thy ===== *)
theory FileTransferProps
  imports FileTransfer "HOL-Library.Sublist"
begin

text \<open>
  Properties of the file transfer: what requests can do to the drop folder, and that the sender
  delivers, and only reports as sent, exactly the file it read.
\<close>

subsection \<open>Names\<close>

definition plain_name :: "string \<Rightarrow> bool" where
  "plain_name n \<longleftrightarrow> n \<noteq> [] \<and> n \<noteq> ''.'' \<and> n \<noteq> ''..'' \<and> CHR ''/'' \<notin> set n"

lemma last_index_of_SomeD:
  assumes "last_index_of c s = Some i"
  shows "i < length s" "s ! i = c" "c \<notin> set (drop (Suc i) s)"
proof -
  obtain k where k: "index_of c (rev s) = Some k" "i = length s - Suc k"
    using assms by (auto simp: last_index_of_def)
  have *: "index_of c xs = Some k \<Longrightarrow> k < length xs \<and> xs ! k = c \<and> c \<notin> set (take k xs)" for xs
  proof (induction xs arbitrary: k)
    case (Cons x xs)
    then show ?case by (cases "x = c") (auto simp: less_Suc_eq_0_disj)
  qed simp
  note r = * [OF k(1)]
  then have len: "k < length s" by simp
  then show "i < length s" "s ! i = c" using r k(2) by (auto simp: rev_nth)
  have "drop (Suc i) s = rev (take k (rev s))" using len k(2) by (simp add: rev_take Suc_diff_Suc)
  then show "c \<notin> set (drop (Suc i) s)" using r by simp
qed

lemma last_index_of_None: "last_index_of c s = None \<longleftrightarrow> c \<notin> set s"
  by (simp add: last_index_of_def)

lemma path_Base_no_slash: "path_Base p \<noteq> ''/'' \<Longrightarrow> CHR ''/'' \<notin> set (path_Base p)"
proof -
  assume a: "path_Base p \<noteq> ''/''"
  define q where "q = rev (dropWhile (\<lambda>c. c = CHR ''/'') (rev p))"
  show ?thesis
  proof (cases "last_index_of CHR ''/'' q")
    case None
    then have "CHR ''/'' \<notin> set q" by (simp add: last_index_of_None)
    then show ?thesis using a None by (auto simp: path_Base_def Let_def q_def [symmetric] split: if_splits)
  next
    case (Some i)
    then show ?thesis using a last_index_of_SomeD(3) [OF Some]
      by (auto simp: path_Base_def Let_def q_def [symmetric] split: if_splits)
  qed
qed

lemma sanitizeName_plain: "sanitizeName raw = Inr n \<Longrightarrow> plain_name n"
  using path_Base_no_slash by (auto simp: sanitizeName_def plain_name_def Let_def split: if_splits)

lemma show_nat_chars [simp]: "CHR ''/'' \<notin> set (show_nat i)" "CHR ''.'' \<notin> set (show_nat i)"
  by (simp_all add: is_digit_def char_code_def)

lemma set_path_Ext: "set (path_Ext p) \<subseteq> set p"
  by (auto simp: path_Ext_def split: option.split dest: in_set_dropD)

lemma candidate_plain: "plain_name p \<Longrightarrow> plain_name (candidate p i)"
  using set_path_Ext [of p] set_take_subset [of _ p]
  by (auto simp: plain_name_def candidate_def Let_def Cons_eq_append_conv append_eq_Cons_conv)

text \<open>A candidate is never the part file of the name itself.\<close>

lemma partPath_neq [simp]: "partPath n \<noteq> n" "n \<noteq> partPath n"
  by (simp_all add: partPath_def)

lemma path_Ext_split: "p = take (length p - length (path_Ext p)) p @ path_Ext p"
  "path_Ext p = [] \<or> hd (path_Ext p) = CHR ''.''"
proof -
  show "p = take (length p - length (path_Ext p)) p @ path_Ext p"
    using last_index_of_SomeD(1) [of "CHR ''.''" p] by (auto simp: path_Ext_def split: option.split)
  show "path_Ext p = [] \<or> hd (path_Ext p) = CHR ''.''"
    using last_index_of_SomeD [of "CHR ''.''" p] by (auto simp: path_Ext_def hd_drop_conv_nth split: option.split)
qed

lemma candidate_not_part: "candidate p i \<noteq> partPath p"
proof
  define ext stem where "ext = path_Ext p" and "stem = take (length p - length ext) p"
  have p: "p = stem @ ext" and e: "ext = [] \<or> hd ext = CHR ''.''"
    using path_Ext_split [of p] by (simp_all add: ext_def stem_def)
  assume "candidate p i = partPath p"
  then have "stem @ '' ('' @ show_nat i @ '')'' @ ext = (stem @ ext) @ ''.part''"
    unfolding candidate_def Let_def partPath_def ext_def [symmetric] stem_def [symmetric] p [symmetric] .
  then have "'' ('' @ show_nat i @ '')'' @ ext = ext @ ''.part''" by simp
  then show False using e by (cases ext) auto
qed

lemma uniq_from_fresh: "map_of d (uniq_from d p i) = None \<and> (\<exists>j. uniq_from d p i = candidate p j)"
  by (induction d p i rule: uniq_from.induct) (subst (1 2) uniq_from.simps, auto)

lemma uniquePath_fresh: "map_of d (uniquePath d p) = None"
  using uniq_from_fresh by (simp add: uniquePath_def)

lemma uniquePath_name: "plain_name p \<Longrightarrow> plain_name (uniquePath d p)" "uniquePath d p \<noteq> partPath p"
  using uniq_from_fresh [of d p 1] candidate_plain [of p] candidate_not_part [of p, THEN not_sym]
  by (auto simp: uniquePath_def)

lemma uniq_from_part: "uniq_from (AList.update (partPath p) c d) p i = uniq_from d p i"
  by (induction d p i rule: uniq_from.induct) (subst (1 2) uniq_from.simps, simp add: update_conv' candidate_not_part)

lemma uniquePath_part: "uniquePath (AList.update (partPath p) c d) p = uniquePath d p"
  by (simp add: uniquePath_def update_conv' uniq_from_part)

subsection \<open>One request\<close>

lemma partSize_nonneg [simp]: "0 \<le> partSize d n"
  by (simp add: partSize_def split: option.split)

text \<open>The part file as the upload code sees it.\<close>

definition held :: "dir \<Rightarrow> string \<Rightarrow> bytes" where
  "held d n = (case map_of d (partPath n) of None \<Rightarrow> [] | Some c \<Rightarrow> c)"

lemma partSize_held: "partSize d n = int (length (held d n))"
  by (simp add: partSize_def held_def split: option.split)

lemma io_Copy_length: "io_Copy k body broken os = (wr, e) \<Longrightarrow> length wr \<le> nat k"
  by (auto simp: io_Copy_def Let_def split: option.splits)

lemma put_receive_frame:
  "put_receive n tot offset body broken os d = (res, d') \<Longrightarrow> p \<noteq> partPath n \<Longrightarrow> map_of d' p = map_of d p"
  by (auto simp: put_receive_def Let_def update_conv' split: if_splits prod.splits)

lemma put_receive_size:
  assumes "put_receive n tot offset body broken os d = (res, d')" "0 \<le> offset" "map_of d' (partPath n) = Some c"
  shows "map_of d (partPath n) = Some c \<or> int (length c) \<le> max tot (partSize d n)"
  using assms io_Copy_length [of "tot - partSize d n" body broken os]
  by (auto simp: put_receive_def Let_def update_conv' partSize_def split: if_splits option.splits prod.splits)

lemma put_params_Inr:
  "put_params maxSize rq = Inr (tot, sumHex, offset) \<Longrightarrow>
     0 \<le> tot \<and> 0 \<le> offset \<and> (0 < maxSize \<longrightarrow> tot \<le> maxSize) \<and> sumHex = map lower_char (rq_sha256 rq)"
  by (auto simp: put_params_def Let_def split: option.splits if_splits)

text \<open>What one request can do to one file: nothing; change its own part file; put a new file where there was none.\<close>

definition file_step :: "request \<Rightarrow> dir \<Rightarrow> dir \<Rightarrow> string \<Rightarrow> bool" where
  "file_step rq d d' p \<longleftrightarrow>
     map_of d' p = map_of d p \<or> map_of d p = None \<or>
     (\<exists>n. rq_method rq = M_PUT \<and> sanitizeName (rq_filename rq) = Inr n \<and> p = partPath n)"

definition fits :: "int \<Rightarrow> dir \<Rightarrow> bool" where
  "fits maxSize d \<longleftrightarrow> (\<forall>p c. 0 < maxSize \<longrightarrow> map_of d p = Some c \<longrightarrow> int (length c) \<le> maxSize)"

definition part_name :: "string \<Rightarrow> bool" where
  "part_name p \<longleftrightarrow> suffix ''.part'' p"

lemma part_name_partPath [simp]: "part_name (partPath n)"
  by (simp add: part_name_def partPath_def suffix_def)

lemma partPath_plain: "plain_name n \<Longrightarrow> plain_name (partPath n)"
  by (auto simp: partPath_def plain_name_def append_eq_Cons_conv)

lemma partPath_inj [simp]: "partPath n = partPath m \<longleftrightarrow> n = m"
  by (simp add: partPath_def)

lemma put_verify_cases:
  assumes "put_verify sha n sumHex os r = (res, r')"
  shows "res = None \<Longrightarrow> r' = r \<and> (\<exists>c. map_of (rc_files r) (partPath n) = Some c \<and> hex_encode (sha c) = sumHex)"
    and "res = Some rs \<Longrightarrow> rs_complete rs \<noteq> ''true''"
    and "p \<noteq> partPath n \<Longrightarrow> map_of (rc_files r') p = map_of (rc_files r) p"
    and "map_of (rc_files r') p = None \<or> map_of (rc_files r') p = map_of (rc_files r) p"
    and "rc_token r' = rc_token r \<and> rc_maxSize r' = rc_maxSize r"
  using assms
  by (auto simp: put_verify_def Let_def fileSHA256_def http_status_def delete_conv' split: option.splits if_splits)

text \<open>A rename moves the part to its new name, whatever was there, or nothing happens.\<close>

lemma put_rename_cases:
  assumes "put_rename n f tot os r = (rs, r')"
  shows "rs_complete rs = ''true'' \<and> (\<exists>c. map_of (rc_files r) (partPath n) = Some c \<and>
           map_of (rc_files r') = (map_of (rc_files r))(partPath n := None, f \<mapsto> c)) \<or>
         rs_complete rs \<noteq> ''true'' \<and> r' = r"
    and "rc_token r' = rc_token r \<and> rc_maxSize r' = rc_maxSize r"
  using assms
  by (auto simp: put_rename_def Let_def http_status_def respondProgress_def update_conv' delete_conv'
      split: option.splits if_splits)

lemma put_rename_file:
  assumes "put_rename n f tot os r = (rs, r')" "p \<noteq> partPath n" "p \<noteq> f"
  shows "map_of (rc_files r') p = map_of (rc_files r) p"
  using put_rename_cases(1) [OF assms(1)] assms(2,3) by auto

text \<open>A request by which an upload is reported complete: what it verified, what it chose and what it renamed.\<close>

definition committed ::
  "(bytes \<Rightarrow> bytes) \<Rightarrow> string \<Rightarrow> string \<Rightarrow> (Receiver \<Rightarrow> Receiver) \<Rightarrow> Receiver \<Rightarrow> Receiver \<Rightarrow> bool" where
  "committed sha n sumHex mid r r' \<longleftrightarrow>
     (\<exists>r1 c c'. map_of (rc_files r1) (partPath n) = Some c \<and> hex_encode (sha c) = sumHex \<and>
        (\<forall>p. p \<noteq> partPath n \<longrightarrow> map_of (rc_files r1) p = map_of (rc_files r) p) \<and>
        map_of (rc_files (mid r1)) (partPath n) = Some c' \<and>
        map_of (rc_files r') = (map_of (rc_files (mid r1)))(partPath n := None, uniquePath (rc_files r1) n \<mapsto> c'))"

lemma put_finish_committed:
  assumes "put_finish sha n tot sumHex os mid r = (rs, r')" "rs_complete rs = ''true''"
  shows "committed sha n sumHex mid r r'"
proof -
  obtain res r1 where v: "put_verify sha n sumHex os r = (res, r1)" by fastforce
  have none: "res = None" using assms v put_verify_cases(2) [OF v] by (cases res) (auto simp: put_finish_def)
  then have r1: "r1 = r" and c: "\<exists>c. map_of (rc_files r) (partPath n) = Some c \<and> hex_encode (sha c) = sumHex"
    using put_verify_cases(1) [OF v] by auto
  have "put_rename n (uniquePath (rc_files r) n) tot os (mid r) = (rs, r')"
    using assms(1) v none r1 by (simp add: put_finish_def Let_def)
  then show ?thesis using put_rename_cases(1) [of n "uniquePath (rc_files r) n" tot os "mid r" rs r'] assms(2) c
    unfolding committed_def by blast
qed

lemma put_finish_file:
  assumes "put_finish sha n tot sumHex os (alone n) r = (rs, r')" "map_of (rc_files r) p \<noteq> None" "p \<noteq> partPath n"
  shows "map_of (rc_files r') p = map_of (rc_files r) p"
proof -
  obtain res r1 where v: "put_verify sha n sumHex os r = (res, r1)" by fastforce
  show ?thesis
  proof (cases res)
    case None
    then have "r1 = r" using put_verify_cases(1) [OF v] by simp
    then have "put_rename n (uniquePath (rc_files r) n) tot os r = (rs, r')"
      using assms(1) v None by (simp add: put_finish_def Let_def alone_def)
    moreover have "p \<noteq> uniquePath (rc_files r) n" using assms(2) uniquePath_fresh by metis
    ultimately show ?thesis using put_rename_file assms(3) by metis
  next
    case (Some x)
    then show ?thesis using assms(1,3) v put_verify_cases(3) [OF v] by (simp add: put_finish_def)
  qed
qed

lemma handlePut_cases:
  assumes "handlePut sha rq n os mid r = (rs, r')"
  obtains "r' = r" "rs_complete rs \<noteq> ''true''"
  | tot sumHex offset res d where "put_params (rc_maxSize r) rq = Inr (tot, sumHex, offset)"
      "put_receive n tot offset (rq_body rq) (rq_cut rq) os (rc_files r) = (res, d)"
      "r' = r\<lparr>rc_files := d\<rparr>" "rs_complete rs \<noteq> ''true''"
  | tot sumHex offset newSize d where "put_params (rc_maxSize r) rq = Inr (tot, sumHex, offset)"
      "put_receive n tot offset (rq_body rq) (rq_cut rq) os (rc_files r) = (Inr (newSize, False), d)"
      "put_finish sha n tot sumHex os mid (r\<lparr>rc_files := d\<rparr>) = (rs, r')"
proof (cases "put_params (rc_maxSize r) rq")
  case (Inl x)
  then have "rs_complete x \<noteq> ''true''" by (auto simp: put_params_def http_status_def Let_def split: option.splits if_splits)
  then show ?thesis using assms Inl that(1) by (simp add: handlePut_def)
next
  case (Inr ps)
  obtain tot sumHex offset where ps: "ps = (tot, sumHex, offset)" by (cases ps)
  obtain res d where rec: "put_receive n tot offset (rq_body rq) (rq_cut rq) os (rc_files r) = (res, d)" by fastforce
  show ?thesis
  proof (cases "\<exists>newSize. res = Inr (newSize, False) \<and> \<not> newSize < tot")
    case True
    then show ?thesis using assms Inr ps rec that(3) by (auto simp: handlePut_def)
  next
    case False
    then have "r' = r\<lparr>rc_files := d\<rparr> \<and> rs_complete rs \<noteq> ''true''"
      using assms Inr ps rec
      by (auto simp: handlePut_def put_receive_def respondProgress_def http_status_def Let_def split: sum.splits if_splits prod.splits)
    then show ?thesis using that(2) [OF Inr [unfolded ps] rec] by blast
  qed
qed

lemma committed_frame:
  "committed sha n sumHex mid (r\<lparr>rc_files := d\<rparr>) r' \<Longrightarrow> \<forall>p. p \<noteq> partPath n \<longrightarrow> map_of d p = map_of (rc_files r) p \<Longrightarrow>
   committed sha n sumHex mid r r'"
  unfolding committed_def by auto

lemma handlePut_committed:
  assumes "handlePut sha rq n os mid r = (rs, r')" "rs_complete rs = ''true''"
  shows "committed sha n (map lower_char (rq_sha256 rq)) mid r r'"
  using assms
proof (cases rule: handlePut_cases)
  case (3 tot sumHex offset newSize d)
  have "committed sha n sumHex mid (r\<lparr>rc_files := d\<rparr>) r'" using put_finish_committed [OF 3(3) assms(2)] .
  moreover have "\<forall>p. p \<noteq> partPath n \<longrightarrow> map_of d p = map_of (rc_files r) p" using put_receive_frame [OF 3(2)] by blast
  ultimately show ?thesis using committed_frame put_params_Inr [OF 3(1)] by blast
qed (use assms in simp_all)

lemma ServeHTTP_committed:
  assumes "ServeHTTP sha rq os mid r = (rs, r')" "rs_complete rs = ''true''"
  shows "\<exists>n. sanitizeName (rq_filename rq) = Inr n \<and> committed sha n (map lower_char (rq_sha256 rq)) (mid n) r r'"
  using assms handlePut_committed
  by (auto simp: ServeHTTP_def http_status_def split: sum.splits rq_method.splits if_splits)

lemma handlePut_file:
  assumes "handlePut sha rq n os (alone n) r = (rs, r')" "map_of (rc_files r) p \<noteq> None" "p \<noteq> partPath n"
  shows "map_of (rc_files r') p = map_of (rc_files r) p"
  using assms(1)
proof (cases rule: handlePut_cases)
  case (2 tot sumHex offset res d)
  then show ?thesis using put_receive_frame [OF 2(2) assms(3)] by simp
next
  case (3 tot sumHex offset newSize d)
  then show ?thesis using put_receive_frame [OF 3(2) assms(3)] put_finish_file [OF 3(3)] assms(2,3) by simp
qed simp

lemma ServeHTTP_file:
  assumes "ServeHTTP sha rq os alone r = (rs, r')"
  shows "file_step rq (rc_files r) (rc_files r') p"
proof -
  have "(\<exists>n. sanitizeName (rq_filename rq) = Inr n \<and> rq_method rq = M_PUT \<and> handlePut sha rq n os (alone n) r = (rs, r')) \<or> r' = r"
    using assms by (auto simp: ServeHTTP_def split: sum.splits rq_method.splits if_splits)
  then show ?thesis using handlePut_file unfolding file_step_def by metis
qed

lemma ServeHTTP_refused:
  assumes "put_begin rq os r = None"
  shows "snd (ServeHTTP sha rq os mid r) = r"
  using assms by (auto simp: put_begin_def ServeHTTP_def handlePut_def split: sum.splits rq_method.splits if_splits)

subsection \<open>Overlapping uploads\<close>

text \<open>An upload that nothing overlaps goes through the operations as \<open>ServeHTTP\<close> composes them.\<close>

definition upload_moves :: "(bytes \<Rightarrow> bytes) \<Rightarrow> upload \<times> Receiver \<Rightarrow> upload \<times> Receiver" where
  "upload_moves sha = (\<lambda>(u, r). case upload_next sha u r of (pc, r') \<Rightarrow> (u\<lparr>up_pc := pc\<rparr>, r'))"

definition reaches :: "(bytes \<Rightarrow> bytes) \<Rightarrow> upload \<times> Receiver \<Rightarrow> upload \<times> Receiver \<Rightarrow> bool" where
  "reaches sha x y \<longleftrightarrow> (\<exists>k. (upload_moves sha ^^ k) x = y)"

lemma reaches_step: "upload_moves sha x = y \<Longrightarrow> reaches sha y z \<Longrightarrow> reaches sha x z"
  unfolding reaches_def by (metis funpow_swap1 funpow.simps(2) comp_apply)

lemma reaches_refl: "reaches sha x x"
  unfolding reaches_def by (rule exI [of _ 0]) simp

lemma reaches_one: "upload_moves sha x = y \<Longrightarrow> reaches sha x y"
  by (rule reaches_step [OF _ reaches_refl])

lemma upload_moves_eq: "upload_next sha u r = (pc, r') \<Longrightarrow> upload_moves sha (u, r) = (u\<lparr>up_pc := pc\<rparr>, r')"
  by (simp add: upload_moves_def)

lemma stat_loop:
  "reaches sha (u\<lparr>up_pc := U_Rename (uniq_from (rc_files r) (up_name u) (Suc k))\<rparr>, r) z \<Longrightarrow>
   reaches sha (u\<lparr>up_pc := U_Stat (Suc k)\<rparr>, r) z"
proof (induction "rc_files r" "up_name u" "Suc k" arbitrary: k rule: uniq_from.induct)
  case (1 k)
  show ?case
  proof (cases "map_of (rc_files r) (candidate (up_name u) (Suc k)) = None")
    case True
    then have "upload_next sha (u\<lparr>up_pc := U_Stat (Suc k)\<rparr>) r = (U_Rename (uniq_from (rc_files r) (up_name u) (Suc k)), r)"
      by (subst uniq_from.simps) (simp add: upload_next_def stat_name_def)
    from upload_moves_eq [OF this]
    have m: "upload_moves sha (u\<lparr>up_pc := U_Stat (Suc k)\<rparr>, r) =
        (u\<lparr>up_pc := U_Rename (uniq_from (rc_files r) (up_name u) (Suc k))\<rparr>, r)" by simp
    show ?thesis by (rule reaches_step [OF m 1(2)])
  next
    case False
    then have "upload_next sha (u\<lparr>up_pc := U_Stat (Suc k)\<rparr>) r = (U_Stat (Suc (Suc k)), r)"
      by (simp add: upload_next_def stat_name_def)
    from upload_moves_eq [OF this]
    have m: "upload_moves sha (u\<lparr>up_pc := U_Stat (Suc k)\<rparr>, r) = (u\<lparr>up_pc := U_Stat (Suc (Suc k))\<rparr>, r)" by simp
    have "uniq_from (rc_files r) (up_name u) (Suc k) = uniq_from (rc_files r) (up_name u) (Suc (Suc k))"
      by (subst uniq_from.simps) (simp only: False if_False)
    show ?thesis by (rule reaches_step [OF m 1(1)]) (use 1(2) False \<open>uniq_from _ _ _ = _\<close> in simp_all)
  qed
qed

lemma stats_alone:
  assumes "reaches sha (u\<lparr>up_pc := U_Rename (uniquePath (rc_files r) (up_name u))\<rparr>, r) z"
  shows "reaches sha (u\<lparr>up_pc := U_Stat 0\<rparr>, r) z"
proof (cases "map_of (rc_files r) (up_name u) = None")
  case True
  then have "upload_next sha (u\<lparr>up_pc := U_Stat 0\<rparr>) r = (U_Rename (uniquePath (rc_files r) (up_name u)), r)"
    by (simp add: upload_next_def stat_name_def uniquePath_def)
  from upload_moves_eq [OF this] show ?thesis using reaches_step [OF _ assms] by simp
next
  case False
  then have "upload_next sha (u\<lparr>up_pc := U_Stat 0\<rparr>) r = (U_Stat (Suc 0), r)"
    by (simp add: upload_next_def stat_name_def)
  from upload_moves_eq [OF this]
  have m: "upload_moves sha (u\<lparr>up_pc := U_Stat 0\<rparr>, r) = (u\<lparr>up_pc := U_Stat (Suc 0)\<rparr>, r)" by simp
  have "uniquePath (rc_files r) (up_name u) = uniq_from (rc_files r) (up_name u) (Suc 0)"
    unfolding uniquePath_def One_nat_def by (simp only: False if_False)
  then show ?thesis using reaches_step [OF m stat_loop] assms by simp
qed

lemma finish_alone:
  assumes "put_finish sha (up_name u) (up_tot u) (up_sum u) (up_os u) (alone (up_name u)) r = (rs, r')"
  shows "reaches sha (u\<lparr>up_pc := U_Verify\<rparr>, r) (u\<lparr>up_pc := U_Answered rs\<rparr>, r')"
proof -
  obtain res r1 where v: "put_verify sha (up_name u) (up_sum u) (up_os u) r = (res, r1)" by fastforce
  show ?thesis
  proof (cases res)
    case (Some x)
    then have "upload_next sha (u\<lparr>up_pc := U_Verify\<rparr>) r = (U_Answered rs, r')"
      using v assms by (simp add: upload_next_def put_finish_def)
    from upload_moves_eq [OF this] have m: "upload_moves sha (u\<lparr>up_pc := U_Verify\<rparr>, r) = (u\<lparr>up_pc := U_Answered rs\<rparr>, r')"
      by simp
    show ?thesis by (rule reaches_one [OF m])
  next
    case None
    then have r1: "r1 = r" using put_verify_cases(1) [OF v] by simp
    let ?f = "uniquePath (rc_files r) (up_name u)"
    have "upload_next sha (u\<lparr>up_pc := U_Verify\<rparr>) r = (U_Stat 0, r)" using v None r1 by (simp add: upload_next_def)
    from upload_moves_eq [OF this] have m: "upload_moves sha (u\<lparr>up_pc := U_Verify\<rparr>, r) = (u\<lparr>up_pc := U_Stat 0\<rparr>, r)" by simp
    have "put_rename (up_name u) ?f (up_tot u) (up_os u) r = (rs, r')"
      using assms v None r1 by (simp add: put_finish_def Let_def alone_def)
    then have "upload_next sha (u\<lparr>up_pc := U_Rename ?f\<rparr>) r = (U_Answered rs, r')" by (simp add: upload_next_def)
    from upload_moves_eq [OF this]
    have m2: "upload_moves sha (u\<lparr>up_pc := U_Rename ?f\<rparr>, r) = (u\<lparr>up_pc := U_Answered rs\<rparr>, r')" by simp
    have "reaches sha (u\<lparr>up_pc := U_Rename ?f\<rparr>, r) (u\<lparr>up_pc := U_Answered rs\<rparr>, r')" by (rule reaches_one [OF m2])
    then show ?thesis using reaches_step [OF m] stats_alone by blast
  qed
qed

lemma upload_alone:
  assumes "put_begin rq os r = Some u" "ServeHTTP sha rq os alone r = (rs, r')"
  shows "reaches sha (u, r) (u\<lparr>up_pc := U_Answered rs\<rparr>, r')"
proof -
  obtain n tot sumHex offset where b: "sanitizeName (rq_filename rq) = Inr n"
    "put_params (rc_maxSize r) rq = Inr (tot, sumHex, offset)" "checkToken (rq_token rq) r" "rq_method rq = M_PUT"
    "u = \<lparr>up_rq = rq, up_os = os, up_name = n, up_tot = tot, up_sum = sumHex, up_offset = offset, up_pc = U_Receive\<rparr>"
    using assms(1) by (auto simp: put_begin_def split: if_splits sum.splits)
  have h: "handlePut sha rq n os (alone n) r = (rs, r')" using assms(2) b by (simp add: ServeHTTP_def)
  obtain res d where rec: "put_receive n tot offset (rq_body rq) (rq_cut rq) os (rc_files r) = (res, d)" by fastforce
  show ?thesis
  proof (cases "\<exists>newSize. res = Inr (newSize, False) \<and> \<not> newSize < tot")
    case True
    then have "put_finish sha n tot sumHex os (alone n) (r\<lparr>rc_files := d\<rparr>) = (rs, r')"
      using h b(2) rec by (auto simp: handlePut_def)
    then have fin: "reaches sha (u\<lparr>up_pc := U_Verify\<rparr>, r\<lparr>rc_files := d\<rparr>) (u\<lparr>up_pc := U_Answered rs\<rparr>, r')"
      using finish_alone [of sha u "r\<lparr>rc_files := d\<rparr>" rs r'] b(5) by simp
    have "upload_next sha u r = (U_Verify, r\<lparr>rc_files := d\<rparr>)" using True rec b(5) by (auto simp: upload_next_def)
    from reaches_step [OF upload_moves_eq [OF this] fin] show ?thesis .
  next
    case False
    then have "upload_next sha u r = (U_Answered rs, r')"
      using h rec b(2,5) by (auto simp: upload_next_def handlePut_def Let_def split: sum.splits prod.splits if_splits)
    from reaches_one [OF upload_moves_eq [OF this]] show ?thesis .
  qed
qed

text \<open>What holds of the uploads under way: their names differ, and what was verified is there.\<close>

definition announced_sum :: "(bytes \<Rightarrow> bytes) \<Rightarrow> request list \<Rightarrow> bytes \<Rightarrow> bool" where
  "announced_sum sha rqs c \<longleftrightarrow> (\<exists>rq \<in> set rqs. hex_encode (sha c) = map lower_char (rq_sha256 rq))"

definition verified :: "up_pc \<Rightarrow> bool" where
  "verified pc \<longleftrightarrow> (case pc of U_Stat _ \<Rightarrow> True | U_Rename _ \<Rightarrow> True | _ \<Rightarrow> False)"

definition upload_ok :: "(bytes \<Rightarrow> bytes) \<Rightarrow> int \<Rightarrow> request list \<Rightarrow> dir \<Rightarrow> upload \<Rightarrow> bool" where
  "upload_ok sha maxSize seen d u \<longleftrightarrow>
     plain_name (up_name u) \<and> up_sum u = map lower_char (rq_sha256 (up_rq u)) \<and> up_rq u \<in> set seen \<and>
     0 \<le> up_offset u \<and> (0 < maxSize \<longrightarrow> up_tot u \<le> maxSize) \<and>
     (verified (up_pc u) \<longrightarrow> (\<exists>c. map_of d (partPath (up_name u)) = Some c \<and> announced_sum sha seen c)) \<and>
     (\<forall>f. up_pc u = U_Rename f \<longrightarrow> plain_name f)"

definition serving_ok :: "(bytes \<Rightarrow> bytes) \<Rightarrow> serving \<Rightarrow> bool" where
  "serving_ok sha s \<longleftrightarrow>
     (\<forall>g u. us_running s g = Some u \<longrightarrow> upload_ok sha (rc_maxSize (us_recv s)) (us_seen s) (rc_files (us_recv s)) u) \<and>
     (\<forall>g h u v. us_running s g = Some u \<longrightarrow> us_running s h = Some v \<longrightarrow> up_name u = up_name v \<longrightarrow> g = h)"

text \<open>What a step may do to the folder, given what others have verified.\<close>

definition folder_ok :: "(bytes \<Rightarrow> bytes) \<Rightarrow> request list \<Rightarrow> dir \<Rightarrow> dir \<Rightarrow> upload \<Rightarrow> bool" where
  "folder_ok sha seen d d' u \<longleftrightarrow>
     (\<forall>p. map_of d' p \<noteq> map_of d p \<longrightarrow> p = partPath (up_name u) \<or>
        up_pc u = U_Rename p \<and> (\<exists>c. map_of d' p = Some c \<and> announced_sum sha seen c))"

lemma stat_name_plain: "plain_name n \<Longrightarrow> plain_name (stat_name n k)"
  by (simp add: stat_name_def candidate_plain)

lemma upload_next_ok:
  assumes "upload_next sha u r = (pc, r')" "upload_ok sha (rc_maxSize r) seen (rc_files r) u"
  shows "folder_ok sha seen (rc_files r) (rc_files r') u"
    "rc_token r' = rc_token r" "rc_maxSize r' = rc_maxSize r"
    "\<not> answered pc \<Longrightarrow> upload_ok sha (rc_maxSize r) seen (rc_files r') (u\<lparr>up_pc := pc\<rparr>)"
    "fits (rc_maxSize r) (rc_files r) \<Longrightarrow> fits (rc_maxSize r) (rc_files r')"
    "pc = U_Rename f \<Longrightarrow> map_of (rc_files r) f = None \<or> up_pc u = U_Rename f"
proof -
  note ok = assms(2) [unfolded upload_ok_def]
  let ?G = "folder_ok sha seen (rc_files r) (rc_files r') u \<and> rc_token r' = rc_token r \<and> rc_maxSize r' = rc_maxSize r \<and>
    (\<not> answered pc \<longrightarrow> upload_ok sha (rc_maxSize r) seen (rc_files r') (u\<lparr>up_pc := pc\<rparr>)) \<and>
    (fits (rc_maxSize r) (rc_files r) \<longrightarrow> fits (rc_maxSize r) (rc_files r')) \<and>
    (pc = U_Rename f \<longrightarrow> map_of (rc_files r) f = None \<or> up_pc u = U_Rename f)"
  have ?G
  proof (cases "up_pc u")
    case U_Receive
    obtain res d where rec: "put_receive (up_name u) (up_tot u) (up_offset u) (rq_body (up_rq u)) (rq_cut (up_rq u))
        (up_os u) (rc_files r) = (res, d)" by fastforce
    have r': "r' = r\<lparr>rc_files := d\<rparr>" and pc: "answered pc \<or> pc = U_Verify"
      using assms(1) U_Receive rec
      by (auto simp: upload_next_def answered_def split: sum.splits prod.splits if_splits)
    note frame = put_receive_frame [OF rec]
    have fit: "fits (rc_maxSize r) d" if "fits (rc_maxSize r) (rc_files r)"
      unfolding fits_def
    proof (intro allI impI)
      fix q c assume m: "0 < rc_maxSize r" and q: "map_of d q = Some c"
      have "partSize (rc_files r) (up_name u) \<le> rc_maxSize r"
        using that m by (auto simp: fits_def partSize_def split: option.split)
      then show "int (length c) \<le> rc_maxSize r"
        using put_receive_size [OF rec, of c] ok that m q frame [of q]
        by (cases "q = partPath (up_name u)") (fastforce simp: fits_def)+
    qed
    have "folder_ok sha seen (rc_files r) d u" unfolding folder_ok_def using frame by blast
    then show ?thesis using r' pc fit ok U_Receive by (auto simp: upload_ok_def verified_def answered_def)
  next
    case U_Verify
    obtain res r1 where v: "put_verify sha (up_name u) (up_sum u) (up_os u) r = (res, r1)" by fastforce
    then have r': "r' = r1" and pc: "res = None \<and> pc = U_Stat 0 \<or> res \<noteq> None \<and> answered pc"
      using assms(1) U_Verify by (auto simp: upload_next_def answered_def split: option.splits)
    have folder: "folder_ok sha seen (rc_files r) (rc_files r1) u"
      unfolding folder_ok_def using put_verify_cases(3) [OF v] by blast
    have fit: "fits (rc_maxSize r) (rc_files r1)" if "fits (rc_maxSize r) (rc_files r)"
      using that put_verify_cases(4) [OF v] unfolding fits_def by (metis option.distinct(1))
    have ver: "r1 = r \<and> (\<exists>c. map_of (rc_files r) (partPath (up_name u)) = Some c \<and> announced_sum sha seen c)" if "res = None"
      using put_verify_cases(1) [OF v that] ok unfolding announced_sum_def by auto
    have "\<not> answered pc \<longrightarrow> upload_ok sha (rc_maxSize r) seen (rc_files r') (u\<lparr>up_pc := pc\<rparr>)"
      using pc ver ok r' by (auto simp: upload_ok_def verified_def answered_def)
    moreover have "pc \<noteq> U_Rename f" using pc by (auto simp: answered_def)
    ultimately show ?thesis using folder fit r' put_verify_cases(5) [OF v] by auto
  next
    case (U_Stat k)
    then have "r' = r" and pc: "map_of (rc_files r) (stat_name (up_name u) k) = None \<and> pc = U_Rename (stat_name (up_name u) k)
        \<or> pc = U_Stat (Suc k)"
      using assms(1) by (auto simp: upload_next_def split: if_splits)
    then show ?thesis using ok U_Stat stat_name_plain by (auto simp: folder_ok_def upload_ok_def verified_def)
  next
    case (U_Rename final)
    obtain rs r1 where rn: "put_rename (up_name u) final (up_tot u) (up_os u) r = (rs, r1)" by fastforce
    then have r': "r' = r1" and pc: "pc = U_Answered rs" using assms(1) U_Rename by (simp_all add: upload_next_def)
    obtain c where c: "map_of (rc_files r) (partPath (up_name u)) = Some c" "announced_sum sha seen c"
      using ok U_Rename by (auto simp: verified_def)
    have eff: "map_of (rc_files r1) = (map_of (rc_files r))(partPath (up_name u) := None, final \<mapsto> c) \<or> r1 = r"
      using put_rename_cases(1) [OF rn] c(1) by auto
    then have "folder_ok sha seen (rc_files r) (rc_files r1) u"
      using U_Rename c(2) by (auto simp: folder_ok_def split: if_splits)
    moreover have "fits (rc_maxSize r) (rc_files r1)" if "fits (rc_maxSize r) (rc_files r)"
      using that eff c(1) by (auto simp: fits_def split: if_splits)
    ultimately show ?thesis using r' pc put_rename_cases(2) [OF rn] by (auto simp: answered_def)
  next
    case (U_Answered rs)
    then have "r' = r" "pc = U_Answered rs" using assms(1) by (simp_all add: upload_next_def)
    then show ?thesis by (simp add: folder_ok_def answered_def)
  qed
  then show "folder_ok sha seen (rc_files r) (rc_files r') u"
    "rc_token r' = rc_token r" "rc_maxSize r' = rc_maxSize r"
    "\<not> answered pc \<Longrightarrow> upload_ok sha (rc_maxSize r) seen (rc_files r') (u\<lparr>up_pc := pc\<rparr>)"
    "fits (rc_maxSize r) (rc_files r) \<Longrightarrow> fits (rc_maxSize r) (rc_files r')"
    "pc = U_Rename f \<Longrightarrow> map_of (rc_files r) f = None \<or> up_pc u = U_Rename f"
    by blast+
qed

lemma announced_mono: "announced_sum sha rqs c \<Longrightarrow> announced_sum sha (rq # rqs) c"
  by (auto simp: announced_sum_def)

lemma upload_ok_seen: "upload_ok sha m rqs d u \<Longrightarrow> upload_ok sha m (rq # rqs) d u"
  unfolding upload_ok_def using announced_mono by auto

lemma upload_ok_other:
  assumes "folder_ok sha seen d d' u" "upload_ok sha m seen d v" "up_name u \<noteq> up_name v"
  shows "upload_ok sha m seen d' v"
proof -
  have "\<exists>c. map_of d' (partPath (up_name v)) = Some c \<and> announced_sum sha seen c"
    if "map_of d (partPath (up_name v)) = Some c" "announced_sum sha seen c" for c
    using assms(1,3) that unfolding folder_ok_def
    by (cases "map_of d' (partPath (up_name v)) = map_of d (partPath (up_name v))")
      (simp, metis partPath_inj)
  then show ?thesis using assms(2) unfolding upload_ok_def by blast
qed

lemma put_begin_ok:
  assumes "put_begin rq os r = Some u" "rq \<in> set seen"
  shows "upload_ok sha (rc_maxSize r) seen d u" "up_pc u = U_Receive"
proof -
  obtain n tot sumHex offset where b: "sanitizeName (rq_filename rq) = Inr n"
    "put_params (rc_maxSize r) rq = Inr (tot, sumHex, offset)"
    "u = \<lparr>up_rq = rq, up_os = os, up_name = n, up_tot = tot, up_sum = sumHex, up_offset = offset, up_pc = U_Receive\<rparr>"
    using assms(1) by (auto simp: put_begin_def split: if_splits sum.splits)
  then show "upload_ok sha (rc_maxSize r) seen d u" "up_pc u = U_Receive"
    using assms(2) sanitizeName_plain [OF b(1)] put_params_Inr [OF b(2)] by (auto simp: upload_ok_def verified_def)
qed

text \<open>One step of the receiver: what it changes in the folder, and whose doing it is.\<close>

lemma serving_okD:
  assumes "serving_ok sha s"
  shows "us_running s g = Some u \<Longrightarrow> upload_ok sha (rc_maxSize (us_recv s)) (us_seen s) (rc_files (us_recv s)) u"
    and "us_running s g = Some u \<Longrightarrow> us_running s h = Some v \<Longrightarrow> up_name u = up_name v \<Longrightarrow> g = h"
  using assms unfolding serving_ok_def by blast+

lemma serving_ok_step: "serving_step sha s s' \<Longrightarrow> serving_ok sha s \<Longrightarrow> serving_ok sha s'"
proof (induction rule: serving_step.induct)
  case (other rq os s)
  then show ?case using upload_ok_seen by (auto simp: serving_ok_def ServeHTTP_refused [OF other(1)])
next
  case (enter s g rq os u)
  note ok = serving_okD [OF enter(4)]
  note new = put_begin_ok(1) [OF enter(2), of "rq # us_seen s"]
  show ?case unfolding serving_ok_def
  proof (intro conjI allI impI, goal_cases)
    case (1 h v)
    then show ?case using ok(1) new upload_ok_seen by (cases "h = g") auto
  next
    case (2 h k v w)
    then show ?case using ok(2) enter(3) by (auto split: if_splits)
  qed
next
  case (proceed s g u pc r')
  note ok = serving_okD [OF proceed(3)]
  note up = upload_next_ok [OF proceed(2) ok(1) [OF proceed(1)]]
  show ?case unfolding serving_ok_def
  proof (intro conjI allI impI, goal_cases)
    case (1 h v)
    show ?case
    proof (cases "h = g")
      case True
      then show ?thesis using 1 up(3,4) by (auto split: if_splits)
    next
      case False
      then have v: "us_running s h = Some v" using 1 by auto
      have "up_name u \<noteq> up_name v" using ok(2) [OF proceed(1) v] False by blast
      then show ?thesis using upload_ok_other [OF up(1) ok(1) [OF v]] up(3) by simp
    qed
  next
    case (2 h k v w)
    then have "\<exists>v'. us_running s h = Some v' \<and> up_name v' = up_name v" "\<exists>w'. us_running s k = Some w' \<and> up_name w' = up_name w"
      using proceed(1) by (auto split: if_splits)
    then show ?case using ok(2) 2(3) by metis
  qed
qed

text \<open>An upload that found the name \<open>p\<close> free and has not renamed to it yet.\<close>

definition chosen :: "serving \<Rightarrow> string \<Rightarrow> bool" where
  "chosen s p \<longleftrightarrow> (\<exists>g u. us_running s g = Some u \<and> up_pc u = U_Rename p)"

lemma serving_step_file:
  assumes "serving_step sha s s'" "serving_ok sha s" "\<not> part_name p"
  shows "map_of (rc_files (us_recv s')) p = map_of (rc_files (us_recv s)) p \<or>
     chosen s p \<and> plain_name p \<and> (\<exists>c. map_of (rc_files (us_recv s')) p = Some c \<and> announced_sum sha (us_seen s') c)"
  using assms
proof (induction rule: serving_step.induct)
  case (other rq os s)
  then show ?case by (simp add: ServeHTTP_refused)
next
  case (proceed s g u pc r')
  note ok = serving_okD(1) [OF proceed(3) proceed(1)]
  have "p \<noteq> partPath (up_name u)" using proceed(4) by auto
  then show ?case using upload_next_ok(1) [OF proceed(2) ok] ok proceed(1)
    unfolding folder_ok_def chosen_def upload_ok_def by (cases "map_of (rc_files r') p = map_of (rc_files (us_recv s)) p") auto
qed simp

lemma serving_step_chosen:
  assumes "serving_step sha s s'" "serving_ok sha s" "chosen s' p"
  shows "chosen s p \<or> map_of (rc_files (us_recv s)) p = None"
  using assms
proof (induction rule: serving_step.induct)
  case (other rq os s)
  then show ?case by (auto simp: chosen_def)
next
  case (enter s g rq os u)
  then show ?case using put_begin_ok(2) [OF enter(2), of "[rq]"] by (auto simp: chosen_def split: if_splits)
next
  case (proceed s g u pc r')
  then show ?case using upload_next_ok(6) [OF proceed(2) serving_okD(1) [OF proceed(3) proceed(1)], of p] proceed(1)
    unfolding chosen_def by (auto split: if_splits) blast+
qed

lemma serving_step_rest:
  assumes "serving_step sha s s'" "serving_ok sha s"
  shows "map_of (rc_files (us_recv s')) p \<noteq> map_of (rc_files (us_recv s)) p \<Longrightarrow> plain_name p"
    "rc_maxSize (us_recv s') = rc_maxSize (us_recv s)"
    "fits (rc_maxSize (us_recv s)) (rc_files (us_recv s)) \<Longrightarrow> fits (rc_maxSize (us_recv s)) (rc_files (us_recv s'))"
    "announced_sum sha (us_seen s) c \<Longrightarrow> announced_sum sha (us_seen s') c"
proof -
  let ?d = "rc_files (us_recv s)" and ?d' = "rc_files (us_recv s')"
  have "(map_of ?d' p \<noteq> map_of ?d p \<longrightarrow> plain_name p) \<and> rc_maxSize (us_recv s') = rc_maxSize (us_recv s) \<and>
    (fits (rc_maxSize (us_recv s)) ?d \<longrightarrow> fits (rc_maxSize (us_recv s)) ?d') \<and>
    (announced_sum sha (us_seen s) c \<longrightarrow> announced_sum sha (us_seen s') c)"
    using assms
  proof (induction rule: serving_step.induct)
    case (other rq os s)
    then show ?case by (simp add: ServeHTTP_refused announced_mono)
  next
    case (proceed s g u pc r')
    note ok = serving_okD(1) [OF proceed(3) proceed(1)]
    note up = upload_next_ok [OF proceed(2) ok]
    have "map_of (rc_files r') p \<noteq> map_of (rc_files (us_recv s)) p \<longrightarrow> plain_name p"
      using up(1) ok partPath_plain unfolding folder_ok_def upload_ok_def by blast
    then show ?case using up(3,5) by simp
  qed (simp add: announced_mono)
  then show "map_of ?d' p \<noteq> map_of ?d p \<Longrightarrow> plain_name p"
    "rc_maxSize (us_recv s') = rc_maxSize (us_recv s)"
    "fits (rc_maxSize (us_recv s)) ?d \<Longrightarrow> fits (rc_maxSize (us_recv s)) ?d'"
    "announced_sum sha (us_seen s) c \<Longrightarrow> announced_sum sha (us_seen s') c"
    by blast+
qed

lemma serving_run:
  assumes "(serving_step sha)\<^sup>*\<^sup>* s s'" "serving_ok sha s"
  shows "serving_ok sha s' \<and>
    (\<not> part_name p \<longrightarrow> map_of (rc_files (us_recv s)) p = Some c \<longrightarrow> \<not> chosen s p \<longrightarrow>
       map_of (rc_files (us_recv s')) p = Some c \<and> \<not> chosen s' p) \<and>
    (\<not> part_name p \<longrightarrow> map_of (rc_files (us_recv s')) p = map_of (rc_files (us_recv s)) p \<or>
       (\<exists>c. map_of (rc_files (us_recv s')) p = Some c \<and> announced_sum sha (us_seen s') c)) \<and>
    (map_of (rc_files (us_recv s')) p \<noteq> map_of (rc_files (us_recv s)) p \<longrightarrow> plain_name p) \<and>
    rc_maxSize (us_recv s') = rc_maxSize (us_recv s) \<and>
    (fits (rc_maxSize (us_recv s)) (rc_files (us_recv s)) \<longrightarrow> fits (rc_maxSize (us_recv s)) (rc_files (us_recv s')))"
  using assms
proof (induction rule: rtranclp_induct)
  case (step s1 s2)
  have ok: "serving_ok sha s1" using step by blast
  note st = serving_step_rest [OF step(2) ok]
  have kept: "map_of (rc_files (us_recv s2)) p = Some c \<and> \<not> chosen s2 p"
    if "\<not> part_name p" "map_of (rc_files (us_recv s1)) p = Some c" "\<not> chosen s1 p"
    using serving_step_file [OF step(2) ok that(1)] serving_step_chosen [OF step(2) ok, of p] that by auto
  have new: "map_of (rc_files (us_recv s2)) p = map_of (rc_files (us_recv s)) p \<or>
       (\<exists>c. map_of (rc_files (us_recv s2)) p = Some c \<and> announced_sum sha (us_seen s2) c)" if "\<not> part_name p"
    using serving_step_file [OF step(2) ok that] step(3) [OF step(4)] st(4) that by auto
  show ?case using step(3) [OF step(4)] kept new st(1-3) serving_ok_step [OF step(2) ok] by auto
qed simp



subsection \<open>Checksums in hexadecimal\<close>

lemma hex_digit_cases: "d < 16 \<Longrightarrow> hex_val (hex_digit d) = Some d \<and> lower_char (hex_digit d) = hex_digit d"
  by (auto simp: hex_val_def hex_digit_def lower_char_def is_digit_def char_code_def Let_def)

lemma unat_byte_div: "unat (b :: byte) div 16 < 16"
  using unsigned_less [of b, where 'a = nat] by simp

lemma hex_encode_simps [simp]:
  "hex_encode [] = []"
  "hex_encode (b # bs) = hex_digit (unat b div 16) # hex_digit (unat b mod 16) # hex_encode bs"
  by (simp_all add: hex_encode_def)

lemma hex_decode_encode: "hex_decode (hex_encode bs) = Some (map unat bs)"
  by (induction bs) (simp_all add: hex_digit_cases unat_byte_div)

lemma lower_hex_encode: "map lower_char (hex_encode bs) = hex_encode bs"
  by (induction bs) (simp_all add: hex_digit_cases unat_byte_div)

lemma hex_encode_inj: "hex_encode xs = hex_encode ys \<longleftrightarrow> xs = ys"
proof
  assume "hex_encode xs = hex_encode ys"
  then have "map unat xs = map unat ys" by (metis hex_decode_encode option.inject)
  moreover have "inj (unat :: byte \<Rightarrow> nat)" by (rule injI) (rule word_unat_eq_iff [THEN iffD2])
  ultimately show "xs = ys" by (simp add: inj_map_eq_map)
qed simp

end
