(* ===== verification/FileSend.thy ===== *)
theory FileSend
  imports FileTransferProps
begin

text \<open>
  Properties of the sender: over a clean network it delivers within two attempts from any state of
  the receiver, and under any faults it reports success only when the file is there.
\<close>

subsection \<open>A clean iteration of the sender\<close>

definition clean :: "turn \<Rightarrow> bool" where
  "clean t \<longleftrightarrow> \<not> tn_ctx t \<and> \<not> tn_wait_ctx t \<and> tn_before t = [] \<and> tn_between t = [] \<and> tn_head t = T_Ok \<and> tn_put t = T_Ok \<and>
     tn_open t \<and> tn_arrive t = None \<and> tn_os t = os_fine \<and> tn_commit t = [] \<and> tn_after t = []"

lemma happen_Nil [simp]: "happen sha [] r = r"
  by (simp add: happen_def)

lemma meanwhile_Nil [simp]: "meanwhile sha [] = alone"
  by (rule ext)+ (simp add: meanwhile_def alone_def)

text \<open>Where the sender starts, and what the part then holds.\<close>

definition start_at :: "dir \<Rightarrow> string \<Rightarrow> bytes \<Rightarrow> int" where
  "start_at d n content = (if partSize d n > int (length content) then 0 else partSize d n)"

definition assembled :: "dir \<Rightarrow> string \<Rightarrow> bytes \<Rightarrow> bytes" where
  "assembled d n content = (if length (held d n) > length content then [] else held d n @ drop (length (held d n)) content)"

lemma receive_clean:
  "\<exists>size d'. put_receive n (int (length content)) (start_at d n content)
       (rq_body (put_request name digest content (start_at d n content) token None)) False os_fine d = (Inr (size, False), d') \<and>
     int (length content) \<le> size \<and> map_of d' = (map_of d)(partPath n \<mapsto> assembled d n content) \<and> uniquePath d' n = uniquePath d n"
  by (auto simp: put_receive_def io_Copy_def put_request_def start_at_def assembled_def partSize_held Let_def os_fine_def update_conv'
      uniquePath_part held_def [symmetric])

lemma finish_clean:
  assumes "map_of (rc_files r) (partPath n) = Some c"
  shows "\<exists>r'. put_finish sha n tot (hex_encode (sha content)) os_fine (alone n) r =
       (if sha c = sha content then respondProgress tot True else http_status 422, r') \<and>
     rc_token r' = rc_token r \<and> rc_maxSize r' = rc_maxSize r \<and>
     map_of (rc_files r') = (if sha c = sha content then (map_of (rc_files r))(partPath n := None, uniquePath (rc_files r) n \<mapsto> c)
                             else (map_of (rc_files r))(partPath n := None))"
  using assms
  by (auto simp: put_finish_def put_verify_def put_rename_def alone_def fileSHA256_def os_fine_def Let_def hex_encode_inj
      update_conv' delete_conv')

lemma params_clean:
  assumes "int (length content) < 2 ^ 63" "length (sha content) = 32" "0 < maxSize \<longrightarrow> int (length content) \<le> maxSize"
    "0 \<le> off" "off \<le> int (length content)"
  shows "put_params maxSize (put_request name (hex_encode (sha content)) content off token arrive) =
     Inr (int (length content), hex_encode (sha content), off)"
  using assms ParseInt_show_int [of off] ParseInt_show_int [of "int (length content)"]
  by (auto simp: put_params_def put_request_def Let_def lower_hex_encode hex_decode_encode)

lemma put_clean:
  assumes "int (length content) < 2 ^ 63" "length (sha content) = 32"
    "0 < rc_maxSize r \<longrightarrow> int (length content) \<le> rc_maxSize r"
  shows "\<exists>r'. handlePut sha (put_request name (hex_encode (sha content)) content (start_at (rc_files r) n content) token None) n os_fine (alone n) r =
       (if sha (assembled (rc_files r) n content) = sha content then respondProgress (int (length content)) True else http_status 422, r') \<and>
     rc_token r' = rc_token r \<and> rc_maxSize r' = rc_maxSize r \<and>
     map_of (rc_files r') =
       (if sha (assembled (rc_files r) n content) = sha content
        then (map_of (rc_files r))(partPath n := None, uniquePath (rc_files r) n \<mapsto> assembled (rc_files r) n content)
        else (map_of (rc_files r))(partPath n := None))"
proof -
  let ?off = "start_at (rc_files r) n content"
  let ?rq = "put_request name (hex_encode (sha content)) content ?off token None"
  have off: "0 \<le> ?off" "?off \<le> int (length content)" by (simp_all add: start_at_def)
  have par: "put_params (rc_maxSize r) ?rq = Inr (int (length content), hex_encode (sha content), ?off)"
    using assms off by (intro params_clean) simp_all
  obtain size d' where rec: "put_receive n (int (length content)) ?off (rq_body ?rq) False os_fine (rc_files r) = (Inr (size, False), d')"
    and d': "int (length content) \<le> size" "map_of d' = (map_of (rc_files r))(partPath n \<mapsto> assembled (rc_files r) n content)"
      "uniquePath d' n = uniquePath (rc_files r) n"
    using receive_clean [of n content "rc_files r" name "hex_encode (sha content)" token] by blast
  have cut: "rq_cut ?rq = False" by (simp add: put_request_def Let_def)
  have "map_of (rc_files (r\<lparr>rc_files := d'\<rparr>)) (partPath n) = Some (assembled (rc_files r) n content)" using d'(2) by simp
  from finish_clean [OF this, of sha "int (length content)" content] d' show ?thesis
    by (simp add: handlePut_def par rec cut) (auto split: if_splits)
qed

text \<open>The two sides fit: name, secret, sizes, and a hash of the right length.\<close>

definition fit_for :: "(bytes \<Rightarrow> bytes) \<Rightarrow> string \<Rightarrow> string \<Rightarrow> bytes \<Rightarrow> string \<Rightarrow> Receiver \<Rightarrow> bool" where
  "fit_for sha name n content token r \<longleftrightarrow>
     sanitizeName name = Inr n \<and> checkToken token r \<and> length (sha content) = 32 \<and> int (length content) < 2 ^ 63 \<and>
     partSize (rc_files r) n < 2 ^ 63 \<and> (0 < rc_maxSize r \<longrightarrow> int (length content) \<le> rc_maxSize r)"

lemma remoteOffset_clean:
  assumes "clean t" "fit_for sha name n content token r"
  shows "remoteOffset sha name token t r = (Some (partSize (rc_files r) n), r)"
proof -
  have "ParseInt (show_int (partSize (rc_files r) n)) = Some (partSize (rc_files r) n)"
    using assms(2) partSize_nonneg [of "rc_files r" n] unfolding fit_for_def by (intro ParseInt_show_int) linarith+
  moreover have "\<not> partSize (rc_files r) n < 0" using partSize_nonneg [of "rc_files r" n] by linarith
  ultimately show ?thesis using assms
    by (simp add: remoteOffset_def clean_def fit_for_def ServeHTTP_def head_request_def)
qed

lemma putFrom_clean:
  assumes t: "clean t" and fit: "fit_for sha name n content token r"
  shows "\<exists>r'. putFrom sha name (hex_encode (sha content)) content (start_at (rc_files r) n content) token t r =
       (if sha (assembled (rc_files r) n content) = sha content then Put_Done else Put_Error, r') \<and>
     rc_token r' = rc_token r \<and> rc_maxSize r' = rc_maxSize r \<and>
     map_of (rc_files r') =
       (if sha (assembled (rc_files r) n content) = sha content
        then (map_of (rc_files r))(partPath n := None, uniquePath (rc_files r) n \<mapsto> assembled (rc_files r) n content)
        else (map_of (rc_files r))(partPath n := None))"
proof -
  let ?off = "start_at (rc_files r) n content" and ?ok = "sha (assembled (rc_files r) n content) = sha content"
  let ?rq = "put_request name (hex_encode (sha content)) content ?off token None"
  obtain r' where h: "handlePut sha ?rq n os_fine (alone n) r = (if ?ok then respondProgress (int (length content)) True else http_status 422, r')"
    and r': "rc_token r' = rc_token r \<and> rc_maxSize r' = rc_maxSize r \<and> map_of (rc_files r') =
       (if ?ok then (map_of (rc_files r))(partPath n := None, uniquePath (rc_files r) n \<mapsto> assembled (rc_files r) n content)
        else (map_of (rc_files r))(partPath n := None))"
    using put_clean [of content sha r name n token] fit unfolding fit_for_def by blast
  have rq: "rq_token ?rq = token" "rq_filename ?rq = name" "rq_method ?rq = M_PUT" by (simp_all add: put_request_def Let_def)
  have "ServeHTTP sha ?rq os_fine alone r = handlePut sha ?rq n os_fine (alone n) r"
    using fit unfolding ServeHTTP_def rq fit_for_def by simp
  then have "putFrom sha name (hex_encode (sha content)) content ?off token t r = (if ?ok then Put_Done else Put_Error, r')"
    using t h unfolding putFrom_def clean_def by (auto simp: respondProgress_def http_status_def)
  then show ?thesis using r' by blast
qed

lemma loop_clean:
  assumes t: "clean (env i)" and fit: "fit_for sha name n content (so_Token opts) r"
    and a: "attempt \<le> so_MaxRetries opts"
  shows "\<exists>r'. rc_token r' = rc_token r \<and> rc_maxSize r' = rc_maxSize r \<and>
    (if sha (assembled (rc_files r) n content) = sha content
     then send_loop sha name (hex_encode (sha content)) content opts env i attempt conflicts r = (Inr (), r') \<and>
       map_of (rc_files r') = (map_of (rc_files r))(partPath n := None, uniquePath (rc_files r) n \<mapsto> assembled (rc_files r) n content)
     else send_loop sha name (hex_encode (sha content)) content opts env i attempt conflicts r =
         send_loop sha name (hex_encode (sha content)) content opts env (Suc i) (attempt + 1) conflicts r' \<and>
       map_of (rc_files r') = (map_of (rc_files r))(partPath n := None))"
proof -
  obtain r' where p: "putFrom sha name (hex_encode (sha content)) content (start_at (rc_files r) n content) (so_Token opts) (env i) r =
       (if sha (assembled (rc_files r) n content) = sha content then Put_Done else Put_Error, r')"
    and r': "rc_token r' = rc_token r \<and> rc_maxSize r' = rc_maxSize r \<and>
     map_of (rc_files r') =
       (if sha (assembled (rc_files r) n content) = sha content
        then (map_of (rc_files r))(partPath n := None, uniquePath (rc_files r) n \<mapsto> assembled (rc_files r) n content)
        else (map_of (rc_files r))(partPath n := None))"
    using putFrom_clean [OF t fit] by blast
  have e: "tn_before (env i) = []" "tn_between (env i) = []" "\<not> tn_ctx (env i)" "\<not> tn_wait_ctx (env i)"
    using t by (simp_all add: clean_def)
  have "send_loop sha name (hex_encode (sha content)) content opts env i attempt conflicts r =
     (if sha (assembled (rc_files r) n content) = sha content then (Inr (), r')
      else send_loop sha name (hex_encode (sha content)) content opts env (Suc i) (attempt + 1) conflicts r')"
    by (subst send_loop.simps) (use a e p in \<open>simp add: Let_def remoteOffset_clean [OF t fit] start_at_def\<close>)
  then show ?thesis using r' by auto
qed

lemma assembled_after_reset:
  "map_of d' = m(partPath n := None) \<Longrightarrow> assembled d' n content = content"
  by (simp add: assembled_def held_def)

lemma uniq_from_cong: "(\<And>j. map_of d (candidate p j) = map_of d' (candidate p j)) \<Longrightarrow> uniq_from d p i = uniq_from d' p i"
  by (induction d p i rule: uniq_from.induct) (subst (1 2) uniq_from.simps, simp)

lemma uniquePath_reset: "map_of d' = (map_of d)(partPath n := None) \<Longrightarrow> uniquePath d' n = uniquePath d n"
  using uniq_from_cong [of d' n d 1] candidate_not_part [of n] by (simp add: uniquePath_def)

subsection \<open>Delivery\<close>

text \<open>No other file has the checksum of the one sent.\<close>

definition no_collision :: "(bytes \<Rightarrow> bytes) \<Rightarrow> bytes \<Rightarrow> bool" where
  "no_collision sha content \<longleftrightarrow> (\<forall>c. sha c = sha content \<longrightarrow> c = content)"

text \<open>
  C24. Two clean iterations deliver. Whatever the receiver holds for the name (nothing, a prefix, stale
  or oversized bytes of another file) and whatever happened before, if the next two iterations meet no
  fault and one retry is left, the sender ends with success, the complete content is in the folder
  under a name that was free, the part file is gone and no other file differs.
\<close>

theorem send_delivers:
  assumes "clean (env i)" "clean (env (Suc i))" "0 \<le> attempt" "attempt + 1 \<le> so_MaxRetries opts"
    and fit: "fit_for sha name n content (so_Token opts) r" and sha: "no_collision sha content"
  shows "\<exists>r'. send_loop sha name (hex_encode (sha content)) content opts env i attempt conflicts r = (Inr (), r') \<and>
    map_of (rc_files r') = (map_of (rc_files r))(partPath n := None, uniquePath (rc_files r) n \<mapsto> content)"
proof -
  obtain r1 where r1: "rc_token r1 = rc_token r" "rc_maxSize r1 = rc_maxSize r" and c1:
    "if sha (assembled (rc_files r) n content) = sha content
     then send_loop sha name (hex_encode (sha content)) content opts env i attempt conflicts r = (Inr (), r1) \<and>
       map_of (rc_files r1) = (map_of (rc_files r))(partPath n := None, uniquePath (rc_files r) n \<mapsto> assembled (rc_files r) n content)
     else send_loop sha name (hex_encode (sha content)) content opts env i attempt conflicts r =
         send_loop sha name (hex_encode (sha content)) content opts env (Suc i) (attempt + 1) conflicts r1 \<and>
       map_of (rc_files r1) = (map_of (rc_files r))(partPath n := None)"
    using loop_clean [where env = env and i = i and attempt = attempt and conflicts = conflicts, OF assms(1) fit] assms(4) by auto
  show ?thesis
  proof (cases "sha (assembled (rc_files r) n content) = sha content")
    case True
    then have "assembled (rc_files r) n content = content" using sha by (simp add: no_collision_def)
    then show ?thesis using c1 True by auto
  next
    case False
    then have l: "send_loop sha name (hex_encode (sha content)) content opts env i attempt conflicts r =
         send_loop sha name (hex_encode (sha content)) content opts env (Suc i) (attempt + 1) conflicts r1"
      and m: "map_of (rc_files r1) = (map_of (rc_files r))(partPath n := None)" using c1 by simp_all
    have "fit_for sha name n content (so_Token opts) r1"
      using fit r1 m by (simp add: fit_for_def checkToken_def partSize_def)
    from loop_clean [where env = env and i = "Suc i" and attempt = "attempt + 1" and conflicts = conflicts, OF assms(2) this assms(4)]
    show ?thesis unfolding l assembled_after_reset [OF m] uniquePath_reset [OF m] m by auto
  qed
qed

subsection \<open>Success is never claimed wrongly\<close>

lemma travel_complete:
  assumes "travel tr srv r = (Some resp, r')" "rs_complete resp = ''true''"
  shows "srv r = (resp, r')"
  using assms by (cases tr) (auto simp: http_status_def split: prod.splits)

text \<open>What others do leaves a file alone, unless it is a part of theirs or they rename to its very name.\<close>

definition renamed_onto :: "event list \<Rightarrow> string \<Rightarrow> bool" where
  "renamed_onto es p \<longleftrightarrow> (\<exists>n tot. Renamed n p tot \<in> set es)"

lemma happens_keeps:
  assumes "map_of (rc_files r) p = Some c" "\<forall>n. p = partPath n \<longrightarrow> \<not> needs_gate n e" "\<not> renamed_onto [e] p"
  shows "map_of (rc_files (happens sha e r)) p = Some c"
proof (cases e)
  case (Served rq os)
  obtain rs r' where s: "ServeHTTP sha rq os alone r = (rs, r')" by fastforce
  show ?thesis using ServeHTTP_file [OF s, of p] assms s Served
    by (auto simp: file_step_def happens_def needs_gate_def)
next
  case (Renamed n f tot)
  obtain rs r' where s: "put_rename n f tot os_fine r = (rs, r')" by fastforce
  have "p \<noteq> partPath n" "p \<noteq> f" using assms(2,3) Renamed by (auto simp: needs_gate_def renamed_onto_def)
  then show ?thesis using put_rename_file [OF s] assms(1) s Renamed by (simp add: happens_def)
qed

lemma happen_keeps:
  assumes "map_of (rc_files r) p = Some c" "\<forall>e \<in> set es. \<forall>n. p = partPath n \<longrightarrow> \<not> needs_gate n e" "\<not> renamed_onto es p"
  shows "map_of (rc_files (happen sha es r)) p = Some c"
  using assms
proof (induction es arbitrary: r)
  case (Cons e es)
  have "map_of (rc_files (happens sha e r)) p = Some c"
    using Cons.prems by (intro happens_keeps) (auto simp: renamed_onto_def)
  then show ?case using Cons by (auto simp: happen_def renamed_onto_def)
qed simp

lemma happen_keeps_file:
  "map_of (rc_files r) p = Some c \<Longrightarrow> \<not> part_name p \<Longrightarrow> \<not> renamed_onto es p \<Longrightarrow>
   map_of (rc_files (happen sha es r)) p = Some c"
  by (rule happen_keeps) auto

lemma meanwhile_keeps_part:
  "map_of (rc_files r) (partPath n) = Some c \<Longrightarrow> \<not> renamed_onto es (partPath n) \<Longrightarrow>
   map_of (rc_files (meanwhile sha es n r)) (partPath n) = Some c"
  unfolding meanwhile_def by (rule happen_keeps) (auto simp: renamed_onto_def)

text \<open>No overlapping upload renames its file to the part file of the one sent.\<close>

definition part_untouched :: "string \<Rightarrow> (nat \<Rightarrow> turn) \<Rightarrow> bool" where
  "part_untouched name env \<longleftrightarrow>
     (\<forall>i n. sanitizeName name = Inr n \<longrightarrow> \<not> renamed_onto (tn_commit (env i)) (partPath n))"

lemma putFrom_Done:
  assumes "putFrom sha name (hex_encode (sha content)) content off token t r = (Put_Done, r')"
    and quiet: "\<And>n. sanitizeName name = Inr n \<Longrightarrow> \<not> renamed_onto (tn_commit t) (partPath n)"
  shows "\<exists>p c r1. sha c = sha content \<and> plain_name p \<and> map_of (rc_files r1) p = Some c \<and> r' = happen sha (tn_after t) r1"
proof -
  let ?rq = "put_request name (hex_encode (sha content)) content off token (tn_arrive t)"
  let ?mid = "meanwhile sha (tn_commit t)"
  obtain resp r1 where "travel (tn_put t) (ServeHTTP sha ?rq (tn_os t) ?mid) r = (Some resp, r1)"
    and c: "rs_complete resp = ''true''" and r': "r' = happen sha (tn_after t) r1"
    using assms(1) by (auto simp: putFrom_def split: if_splits option.splits prod.splits)
  then have "ServeHTTP sha ?rq (tn_os t) ?mid r = (resp, r1)" using travel_complete by blast
  from ServeHTTP_committed [OF this c] obtain n where n: "sanitizeName name = Inr n"
    and com: "committed sha n (hex_encode (sha content)) (?mid n) r r1"
    by (auto simp: put_request_def Let_def lower_hex_encode)
  obtain rv x y where v: "map_of (rc_files rv) (partPath n) = Some x" "hex_encode (sha x) = hex_encode (sha content)"
    "map_of (rc_files (?mid n rv)) (partPath n) = Some y"
    "map_of (rc_files r1) = (map_of (rc_files (?mid n rv)))(partPath n := None, uniquePath (rc_files rv) n \<mapsto> y)"
    using com unfolding committed_def by blast
  have "y = x" using meanwhile_keeps_part [OF v(1) quiet [OF n], of sha] v(3) by simp
  then have "map_of (rc_files r1) (uniquePath (rc_files rv) n) = Some x" using v(4) by simp
  moreover have "plain_name (uniquePath (rc_files rv) n)" using uniquePath_name(1) sanitizeName_plain [OF n] .
  ultimately show ?thesis using v(2) r' by (auto simp: hex_encode_inj)
qed

lemma send_loop_done:
  "fst (send_loop sha name digest content opts env i attempt conflicts r) = Inr () \<Longrightarrow> digest = hex_encode (sha content) \<Longrightarrow>
   part_untouched name env \<Longrightarrow>
   \<exists>k p c r1. sha c = sha content \<and> plain_name p \<and> map_of (rc_files r1) p = Some c \<and>
     snd (send_loop sha name digest content opts env i attempt conflicts r) = happen sha (tn_after (env k)) r1"
proof (induction sha name digest content opts env i attempt conflicts r rule: send_loop.induct)
  case (1 sha name digest content opts env i attempt conflicts r)
  let ?t = "env i" and ?len = "int (length content)"
  have go: "\<not> attempt > so_MaxRetries opts" "\<not> (tn_ctx ?t \<or> attempt > 0 \<and> tn_wait_ctx ?t)"
    using 1(5) by (auto simp: send_loop.simps [of sha name digest content opts env i attempt conflicts r] split: if_splits)
  obtain off r1 where ro: "remoteOffset sha name (so_Token opts) ?t (happen sha (tn_before ?t) r) = (off, r1)" by fastforce
  note unf = send_loop.simps [of sha name digest content opts env i attempt conflicts r] Let_def
  show ?case
  proof (cases off)
    case None
    then have "send_loop sha name digest content opts env i attempt conflicts r =
        send_loop sha name digest content opts env (Suc i) (attempt + 1) conflicts r1"
      using go ro by (auto simp: unf)
    then show ?thesis using 1(1) [OF go(1) refl go(2) ro [symmetric] None] 1(5-7) by simp
  next
    case (Some o1)
    let ?o = "if o1 > ?len then 0 else o1"
    obtain res r2 where p: "putFrom sha name digest content ?o (so_Token opts) ?t (happen sha (tn_between ?t) r1) = (res, r2)"
      by fastforce
    have step: "send_loop sha name digest content opts env i attempt conflicts r =
       (case res of
          Put_Error \<Rightarrow> send_loop sha name digest content opts env (Suc i) (attempt + 1) conflicts r2
        | Put_Done \<Rightarrow> (Inr (), r2)
        | Put_Conflict \<Rightarrow> (if conflicts + 1 > 2 * (so_MaxRetries opts + 1) + 4 then (Inl E_Conflicts, r2)
                         else send_loop sha name digest content opts env (Suc i) attempt (conflicts + 1) r2)
        | Put_Partial \<Rightarrow> send_loop sha name digest content opts env (Suc i) (attempt + 1) conflicts r2)"
      using go ro Some p by (auto simp: unf)
    note ih = 1(2-4) [OF go(1) refl go(2) ro [symmetric] Some refl p [symmetric]]
    show ?thesis
    proof (cases res)
      case Put_Done
      have "\<exists>p c r1. sha c = sha content \<and> plain_name p \<and> map_of (rc_files r1) p = Some c \<and> r2 = happen sha (tn_after ?t) r1"
        using putFrom_Done [OF p [unfolded Put_Done 1(6)]] 1(7) by (simp add: part_untouched_def)
      then show ?thesis using step Put_Done by auto
    next
      case Put_Conflict
      then show ?thesis using ih(2) [OF Put_Conflict] 1(5-7) step by (auto split: if_splits)
    next
      case Put_Error
      then show ?thesis using ih(1) [OF Put_Error] 1(5-7) step by simp
    next
      case Put_Partial
      then show ?thesis using ih(3) [OF Put_Partial] 1(5-7) step by simp
    qed
  qed
qed


subsection \<open>Rewinding\<close>

text \<open>
  A rewinding upload never completes. When a request starts below what the part file holds (the
  case the code truncates for, so that the sender can append from there), the copy is still limited by
  the old size: unless the request has nothing to send, it is never reported complete, and a progress
  answer reports more bytes than the part file holds.
\<close>

theorem rewound_upload_fails:
  assumes par: "put_params (rc_maxSize r) rq = Inr (tot, sumHex, offset)"
    and rewind: "offset < partSize (rc_files r) n" "offset < tot"
    and sum: "\<And>c. hex_encode (sha c) = sumHex \<Longrightarrow> int (length c) = tot"
    and put: "handlePut sha rq n os mid r = (rs, r')"
  shows "rs_complete rs \<noteq> ''true'' \<and>
    (rs_status rs = 200 \<longrightarrow> (\<exists>reported. rs_offset rs = show_int reported \<and> partSize (rc_files r') n < reported))"
proof -
  let ?d = "rc_files r" and ?cur = "partSize (rc_files r) n"
  have off: "0 \<le> offset" using put_params_Inr [OF par] by simp
  obtain res d' where rec: "put_receive n tot offset (rq_body rq) (rq_cut rq) os ?d = (res, d')" by fastforce
  show ?thesis
  proof (cases res)
    case (Inl x)
    then have "rs = x" "rs_status x = 500 \<and> rs_complete x \<noteq> ''true''"
      using put par rec rewind by (auto simp: handlePut_def put_receive_def http_status_def Let_def split: if_splits prod.splits)
    then show ?thesis by simp
  next
    case (Inr sz)
    obtain newSize copyErr where sz: "sz = (newSize, copyErr)" by (cases sz)
    obtain c where c: "map_of d' (partPath n) = Some c" "int (length c) < newSize" "int (length c) < tot"
    proof -
      obtain w e where w: "io_Copy (tot - ?cur) (rq_body rq) (rq_cut rq) os = (w, e)" by fastforce
      have "map_of d' (partPath n) = Some (take (nat offset) (held ?d n) @ w)" "newSize = ?cur + int (length w)"
        using rec rewind w unfolding Inr sz
        by (auto simp: put_receive_def Let_def update_conv' held_def [symmetric] split: if_splits)
      moreover have "length (take (nat offset) (held ?d n)) = nat offset" using rewind(1) by (simp add: partSize_held)
      ultimately show ?thesis using that io_Copy_length [OF w] off rewind by (auto simp: nat_less_iff)
    qed
    have "hex_encode (sha c) \<noteq> sumHex" using sum [of c] c(3) by auto
    then have "rs_status rs \<noteq> 200 \<and> rs_complete rs \<noteq> ''true'' \<or> rs = respondProgress newSize False \<and> rc_files r' = d'"
      using put par rec Inr sz c(1)
      by (auto simp: handlePut_def put_finish_def put_verify_def fileSHA256_def http_status_def Let_def split: if_splits option.splits)
    moreover have "partSize d' n = int (length c)" using c(1) by (simp add: partSize_def)
    ultimately show ?thesis using c(2) by (auto simp: respondProgress_def)
  qed
qed

subsection \<open>Concrete runs\<close>

lemma path_Base_id: "plain_name n \<Longrightarrow> path_Base n = n"
proof -
  assume n: "plain_name n"
  then have "last n \<noteq> CHR ''/''" by (metis last_in_set plain_name_def)
  then have "rev (dropWhile (\<lambda>c. c = CHR ''/'') (rev n)) = n"
    using n by (cases n rule: rev_cases) (simp_all add: plain_name_def)
  moreover have "last_index_of CHR ''/'' n = None" using n by (simp add: last_index_of_None plain_name_def)
  ultimately show ?thesis using n by (simp add: path_Base_def plain_name_def Let_def)
qed

lemma TrimSpace_id:
  assumes "n \<noteq> []" "char_code (hd n) < 128" "\<not> IsSpace (char_code (hd n))" "char_code (last n) < 128" "\<not> IsSpace (char_code (last n))"
  shows "TrimSpace n = n"
proof -
  have "decode_rune n = (char_code (hd n), 1)" using assms(1,2) by (cases n) (simp_all add: decode_rune_ascii)
  then have "trim_left n = n" using assms(3) by (subst trim_left.simps) simp
  moreover have "decode_last_rune n = (char_code (last n), 1)"
    using assms(1,4) by (cases n rule: rev_cases) (simp_all add: decode_last_rune_ascii)
  then have "trim_right n = n" using assms(5) by (subst trim_right.simps) simp
  ultimately show ?thesis by (simp add: TrimSpace_def)
qed

lemma sanitizeName_id:
  assumes "plain_name n" "backslash \<notin> set n" "CHR 0x00 \<notin> set n"
    and "char_code (hd n) < 128" "\<not> IsSpace (char_code (hd n))" "char_code (last n) < 128" "\<not> IsSpace (char_code (last n))"
  shows "sanitizeName n = Inr n"
proof -
  have "map (\<lambda>c. if c = backslash then CHR ''/'' else c) n = n" using assms(2) by (intro map_idI) auto
  moreover have "TrimSpace n = n" using assms by (intro TrimSpace_id) (auto simp: plain_name_def)
  ultimately show ?thesis using assms(1,3) path_Base_id [OF assms(1)] by (auto simp: sanitizeName_def plain_name_def Let_def)
qed

definition demo_sha :: "bytes \<Rightarrow> bytes" where
  "demo_sha c = replicate 32 (if c = [1, 2, 3] then 1 else 0)"

definition demo_receiver :: Receiver where
  "demo_receiver = \<lparr>rc_token = ''s'', rc_maxSize = 10, rc_files = [(''a.txt'', [7]), (''a.txt.part'', [9, 9])],
                    rc_notify = False, rc_done = []\<rparr>"

definition demo_turn :: turn where
  "demo_turn = \<lparr>tn_ctx = False, tn_wait_ctx = False, tn_before = [], tn_head = T_Ok, tn_between = [], tn_open = True,
                tn_put = T_Ok, tn_arrive = None, tn_os = os_fine, tn_commit = [], tn_after = []\<rparr>"

definition demo_opts :: SendOptions where
  "demo_opts = \<lparr>so_Token = ''s'', so_MaxRetries = 1\<rparr>"

lemma demo_fit: "fit_for demo_sha ''a.txt'' ''a.txt'' [1, 2, 3] (so_Token demo_opts) demo_receiver"
proof -
  have "sanitizeName ''a.txt'' = Inr ''a.txt''" by (rule sanitizeName_id) (auto simp: plain_name_def char_code_def IsSpace_def backslash_def)
  then show ?thesis
    by (simp add: fit_for_def demo_sha_def demo_receiver_def demo_opts_def checkToken_def partSize_def partPath_def)
qed

lemma demo_no_collision: "no_collision demo_sha [1, 2, 3]"
  by (auto simp: no_collision_def demo_sha_def split: if_splits)

lemma demo_clean: "clean demo_turn"
  by (simp add: clean_def demo_turn_def)

theorem send_delivers_witness:
  "\<exists>r'. send_loop demo_sha ''a.txt'' (hex_encode (demo_sha [1, 2, 3])) [1, 2, 3] demo_opts (\<lambda>_. demo_turn) 0 0 0
       demo_receiver = (Inr (), r') \<and>
     map_of (rc_files r') = (map_of (rc_files demo_receiver))(partPath ''a.txt'' := None,
       uniquePath (rc_files demo_receiver) ''a.txt'' \<mapsto> [1, 2, 3])"
  by (rule send_delivers) (simp_all add: demo_fit demo_no_collision demo_clean demo_opts_def [THEN arg_cong [where f = so_MaxRetries]])


text \<open>A rewinding request that would be complete if the code appended what it was sent.\<close>

definition demo_rewind :: request where
  "demo_rewind = put_request ''a.txt'' (hex_encode (replicate 32 1)) [1, 2, 3] 0 ''s'' None"

theorem rewound_upload_fails_witness:
  "\<exists>rs r'. handlePut demo_sha demo_rewind ''a.txt'' os_fine (alone ''a.txt'') demo_receiver = (rs, r') \<and> rs_complete rs \<noteq> ''true''"
proof -
  obtain rs r' where h: "handlePut demo_sha demo_rewind ''a.txt'' os_fine (alone ''a.txt'') demo_receiver = (rs, r')" by fastforce
  have "put_params (rc_maxSize demo_receiver) demo_rewind = Inr (3, hex_encode (demo_sha [1, 2, 3]), 0)"
    using params_clean [of "[1, 2, 3]" demo_sha "rc_maxSize demo_receiver" 0 "''a.txt''" "''s''" None]
    by (simp add: demo_rewind_def demo_sha_def demo_receiver_def)
  moreover have "0 < partSize (rc_files demo_receiver) ''a.txt''" by (simp add: demo_receiver_def partSize_def partPath_def)
  moreover have "int (length c) = 3" if "hex_encode (demo_sha c) = hex_encode (demo_sha [1, 2, 3])" for c
    using that demo_no_collision by (auto simp: hex_encode_inj no_collision_def)
  ultimately show ?thesis using rewound_upload_fails [OF _ _ _ _ h] h by (metis zero_less_numeral)
qed

text \<open>
  Two overlapping uploads: \<open>a\<close>, which exists, and \<open>a (1)\<close>, which does not. Both find \<open>a (1)\<close> free, and
  the second rename replaces the first file, which was answered as complete.
\<close>

definition run_uploads :: "(bytes \<Rightarrow> bytes) \<Rightarrow> nat list \<Rightarrow> serving \<Rightarrow> serving" where
  "run_uploads sha gs s =
     foldl (\<lambda>s g. case us_running s g of
                    None \<Rightarrow> s
                  | Some u \<Rightarrow> (case upload_next sha u (us_recv s) of (pc, r') \<Rightarrow>
                      s\<lparr>us_recv := r', us_running := (us_running s)
                        (g := (if answered pc then None else Some (u\<lparr>up_pc := pc\<rparr>)))\<rparr>)) s gs"

lemma run_uploads_run: "(serving_step sha)\<^sup>*\<^sup>* s (run_uploads sha gs s)"
proof (induction gs rule: rev_induct)
  case (snoc g gs)
  let ?s = "run_uploads sha gs s"
  show ?case
  proof (cases "us_running ?s g")
    case (Some u)
    obtain pc r' where u: "upload_next sha u (us_recv ?s) = (pc, r')" by fastforce
    have "run_uploads sha (gs @ [g]) s = ?s\<lparr>us_recv := r', us_running := (us_running ?s)
        (g := (if answered pc then None else Some (u\<lparr>up_pc := pc\<rparr>)))\<rparr>"
      using Some u by (simp add: run_uploads_def)
    then have "serving_step sha ?s (run_uploads sha (gs @ [g]) s)"
      using serving_step.proceed [OF Some u] by simp
    then show ?thesis using snoc.IH by (rule rtranclp.rtrancl_into_rtrancl [rotated])
  qed (use snoc.IH in \<open>simp add: run_uploads_def\<close>)
qed (simp add: run_uploads_def)

definition shared_receiver :: Receiver where
  "shared_receiver = \<lparr>rc_token = [], rc_maxSize = 0, rc_files = [(''a'', [7])], rc_notify = False, rc_done = []\<rparr>"

definition shared_request :: "string \<Rightarrow> bytes \<Rightarrow> request" where
  "shared_request name content = put_request name (hex_encode (demo_sha content)) content 0 [] None"

definition shared_upload :: "string \<Rightarrow> bytes \<Rightarrow> upload" where
  "shared_upload name content =
     \<lparr>up_rq = shared_request name content, up_os = os_fine, up_name = name, up_tot = int (length content),
      up_sum = hex_encode (demo_sha content), up_offset = 0, up_pc = U_Receive\<rparr>"

definition shared_start :: serving where
  "shared_start =
     \<lparr>us_recv = shared_receiver,
      us_running = [0 \<mapsto> shared_upload ''a'' [1, 2, 3], 1 \<mapsto> shared_upload ''a (1)'' [4, 5]],
      us_seen = [shared_request ''a (1)'' [4, 5], shared_request ''a'' [1, 2, 3]]\<rparr>"

lemma shared_names: "sanitizeName ''a'' = Inr ''a''" "sanitizeName ''a (1)'' = Inr ''a (1)''"
  by (rule sanitizeName_id; auto simp: plain_name_def char_code_def IsSpace_def backslash_def)+

lemma shared_begin:
  assumes "sanitizeName name = Inr name" "int (length content) < 2 ^ 63"
  shows "put_begin (shared_request name content) os_fine shared_receiver = Some (shared_upload name content)"
proof -
  have "put_params (rc_maxSize shared_receiver) (shared_request name content) =
      Inr (int (length content), hex_encode (demo_sha content), 0)"
    using params_clean [of content demo_sha "rc_maxSize shared_receiver" 0 name "[]" None] assms(2)
    by (simp add: shared_request_def shared_receiver_def demo_sha_def)
  then show ?thesis using assms(1)
    by (simp add: put_begin_def shared_upload_def checkToken_def shared_receiver_def)
      (simp add: shared_request_def put_request_def Let_def)
qed

lemma shared_start_run: "(serving_step demo_sha)\<^sup>*\<^sup>* (serving_start shared_receiver) shared_start"
proof -
  let ?s0 = "serving_start shared_receiver"
  let ?s1 = "?s0\<lparr>us_running := (us_running ?s0)(0 \<mapsto> shared_upload ''a'' [1, 2, 3]),
      us_seen := shared_request ''a'' [1, 2, 3] # us_seen ?s0\<rparr>"
  have 1: "serving_step demo_sha ?s0 ?s1"
    by (rule serving_step.enter [where os = os_fine]) (simp_all add: serving_start_def shared_begin shared_names)
  have "serving_step demo_sha ?s1 (?s1\<lparr>us_running := (us_running ?s1)(1 \<mapsto> shared_upload ''a (1)'' [4, 5]),
      us_seen := shared_request ''a (1)'' [4, 5] # us_seen ?s1\<rparr>)"
    by (rule serving_step.enter [where os = os_fine])
      (simp_all add: serving_start_def shared_begin shared_names, simp add: shared_upload_def)
  then have 2: "serving_step demo_sha ?s1 shared_start" by (simp add: shared_start_def serving_start_def)
  have "(serving_step demo_sha)\<^sup>*\<^sup>* ?s0 ?s1" using 1 by (rule r_into_rtranclp)
  then show ?thesis using 2 by (rule rtranclp.rtrancl_into_rtrancl)
qed

definition first_done :: serving where
  "first_done = run_uploads demo_sha [0, 0, 0, 0, 1, 1, 1, 0] shared_start"

lemma show_one: "show_nat (Suc 0) = ''1''"
  by (subst show_nat.simps) (simp add: digit_char_def char_of_def bit_0)

lemma stat_names: "stat_name ''a'' 0 = ''a''" "stat_name ''a'' (Suc 0) = ''a (1)''" "stat_name ''a (1)'' 0 = ''a (1)''"
  by (simp_all add: stat_name_def candidate_def path_Ext_def last_index_of_def Let_def show_one)

lemmas run_simps = run_uploads_def first_done_def shared_start_def shared_upload_def shared_receiver_def shared_request_def
  put_request_def upload_next_def put_receive_def put_verify_def put_rename_def fileSHA256_def io_Copy_def partSize_def
  partPath_def os_fine_def answered_def respondProgress_def stat_names Let_def

lemma first_done_files:
  "us_running first_done 0 = None" "map_of (rc_files (us_recv first_done)) ''a (1)'' = Some [1, 2, 3]"
  by (simp_all add: run_simps)

definition second_done :: serving where
  "second_done = run_uploads demo_sha [1] first_done"

lemma second_done_files:
  "us_running second_done 1 = None" "map_of (rc_files (us_recv second_done)) =
     (map_of (rc_files shared_receiver))(''a (1)'' \<mapsto> [4, 5])"
  by (simp_all add: second_done_def run_simps fun_eq_iff)

lemma overlapping_commits_lose_file:
  "\<exists>s s'. (serving_step demo_sha)\<^sup>*\<^sup>* (serving_start shared_receiver) s \<and> (serving_step demo_sha)\<^sup>*\<^sup>* s s' \<and>
     map_of (rc_files (us_recv s)) ''a (1)'' = Some [1, 2, 3] \<and> us_running s 0 = None \<and>
     (\<forall>p. map_of (rc_files (us_recv s')) p \<noteq> Some [1, 2, 3])"
proof -
  have "(serving_step demo_sha)\<^sup>*\<^sup>* (serving_start shared_receiver) first_done"
    unfolding first_done_def by (rule rtranclp_trans [OF shared_start_run run_uploads_run])
  moreover have "(serving_step demo_sha)\<^sup>*\<^sup>* first_done second_done"
    unfolding second_done_def by (rule run_uploads_run)
  moreover have "map_of (rc_files (us_recv second_done)) p \<noteq> Some [1, 2, 3]" for p
    by (simp add: second_done_files(2) shared_receiver_def)
  ultimately show ?thesis using first_done_files by blast
qed


end
