(* ===== verification/FileGates.thy ===== *)
theory FileGates
  imports Prelude
begin

text \<open>
  The per-name gates of the upload receiver (\<open>receiver.go\<close>): \<open>acquire\<close> and \<open>release\<close> as the atomic
  steps their mutexes leave, taken by any number of goroutines in any order.
\<close>

subsection \<open>State and steps\<close>

record nameGate =
  ng_locked :: bool
  ng_n :: int

datatype gate_pc = GP_Idle | GP_Waiting string ptr | GP_Holding string ptr | GP_Released string ptr

record gates =
  gs_locks :: "string \<rightharpoonup> ptr"
  gs_heap :: "ptr \<Rightarrow> nameGate"
  gs_next :: ptr
  gs_pc :: "nat \<Rightarrow> gate_pc"

text \<open>\<open>acquire\<close> under \<open>r.mu\<close>: find or create the gate and count the caller.\<close>

definition acquire_lookup :: "nat \<Rightarrow> string \<Rightarrow> gates \<Rightarrow> gates" where
  "acquire_lookup i name s =
     (let (g, s1) = (case gs_locks s name of
                       Some g \<Rightarrow> (g, s)
                     | None \<Rightarrow> (gs_next s, s\<lparr>gs_heap := (gs_heap s)(gs_next s := \<lparr>ng_locked = False, ng_n = 0\<rparr>),
                                            gs_next := Suc (gs_next s), gs_locks := (gs_locks s)(name \<mapsto> gs_next s)\<rparr>))
      in s1\<lparr>gs_heap := (gs_heap s1)(g := (gs_heap s1 g)\<lparr>ng_n := ng_n (gs_heap s1 g) + 1\<rparr>),
            gs_pc := (gs_pc s1)(i := GP_Waiting name g)\<rparr>)"

text \<open>\<open>g.mu.Lock()\<close> blocks while the gate is locked.\<close>

definition acquire_lock :: "nat \<Rightarrow> string \<Rightarrow> ptr \<Rightarrow> gates \<Rightarrow> gates option" where
  "acquire_lock i name g s =
     (if ng_locked (gs_heap s g) then None
      else Some (s\<lparr>gs_heap := (gs_heap s)(g := (gs_heap s g)\<lparr>ng_locked := True\<rparr>),
                   gs_pc := (gs_pc s)(i := GP_Holding name g)\<rparr>))"

definition release_unlock :: "nat \<Rightarrow> string \<Rightarrow> ptr \<Rightarrow> gates \<Rightarrow> gates" where
  "release_unlock i name g s =
     s\<lparr>gs_heap := (gs_heap s)(g := (gs_heap s g)\<lparr>ng_locked := False\<rparr>), gs_pc := (gs_pc s)(i := GP_Released name g)\<rparr>"

text \<open>\<open>release\<close> under \<open>r.mu\<close>: the last one drops the gate.\<close>

definition release_drop :: "nat \<Rightarrow> string \<Rightarrow> ptr \<Rightarrow> gates \<Rightarrow> gates" where
  "release_drop i name g s =
     (let n = ng_n (gs_heap s g) - 1
      in s\<lparr>gs_heap := (gs_heap s)(g := (gs_heap s g)\<lparr>ng_n := n\<rparr>),
           gs_locks := (if n = 0 then (gs_locks s)(name := None) else gs_locks s),
           gs_pc := (gs_pc s)(i := GP_Idle)\<rparr>)"

inductive gate_step :: "gates \<Rightarrow> gates \<Rightarrow> bool" where
  Lookup: "gs_pc s i = GP_Idle \<Longrightarrow> gate_step s (acquire_lookup i name s)"
| Lock: "gs_pc s i = GP_Waiting name g \<Longrightarrow> acquire_lock i name g s = Some s' \<Longrightarrow> gate_step s s'"
| Unlock: "gs_pc s i = GP_Holding name g \<Longrightarrow> gate_step s (release_unlock i name g s)"
| Drop: "gs_pc s i = GP_Released name g \<Longrightarrow> gate_step s (release_drop i name g s)"

definition gates_start :: gates where
  "gates_start = \<lparr>gs_locks = Map.empty, gs_heap = (\<lambda>_. \<lparr>ng_locked = False, ng_n = 0\<rparr>), gs_next = 0, gs_pc = (\<lambda>_. GP_Idle)\<rparr>"

subsection \<open>Invariant\<close>

fun uses :: "gate_pc \<Rightarrow> (string \<times> ptr) option" where
  "uses GP_Idle = None"
| "uses (GP_Waiting n g) = Some (n, g)"
| "uses (GP_Holding n g) = Some (n, g)"
| "uses (GP_Released n g) = Some (n, g)"

definition users :: "gates \<Rightarrow> string \<Rightarrow> nat set" where
  "users s n = {i. \<exists>g. uses (gs_pc s i) = Some (n, g)}"

text \<open>
  Everyone who uses a name uses its current gate, the count is the number of users, a gate that is in
  the map has one, and the mutex is locked exactly while one of them holds it.
\<close>

definition gates_ok :: "gates \<Rightarrow> bool" where
  "gates_ok s \<longleftrightarrow>
     finite {i. gs_pc s i \<noteq> GP_Idle} \<and>
     (\<forall>i n g. uses (gs_pc s i) = Some (n, g) \<longrightarrow> gs_locks s n = Some g) \<and>
     (\<forall>n g. gs_locks s n = Some g \<longrightarrow> g < gs_next s \<and> ng_n (gs_heap s g) = int (card (users s n)) \<and> users s n \<noteq> {}) \<and>
     (\<forall>n n' g. gs_locks s n = Some g \<longrightarrow> gs_locks s n' = Some g \<longrightarrow> n' = n) \<and>
     (\<forall>i n g. gs_pc s i = GP_Holding n g \<longrightarrow> ng_locked (gs_heap s g)) \<and>
     (\<forall>i j n g m. gs_pc s i = GP_Holding n g \<longrightarrow> gs_pc s j = GP_Holding m g \<longrightarrow> i = j)"

lemma finite_users: "gates_ok s \<Longrightarrow> finite (users s n)"
  unfolding gates_ok_def users_def by (rule finite_subset [of _ "{i. gs_pc s i \<noteq> GP_Idle}"]) auto

lemma gates_ok_start: "gates_ok gates_start"
  by (simp add: gates_ok_def gates_start_def)

lemma acquire_lookup_ok:
  assumes ok: "gates_ok s" and i: "gs_pc s i = GP_Idle"
  shows "gates_ok (acquire_lookup i name s)"
proof -
  let ?s = "acquire_lookup i name s"
  note o = ok [unfolded gates_ok_def]
  have fin: "finite {j. gs_pc ?s j \<noteq> GP_Idle}"
    using o by (rule_tac finite_subset [of _ "insert i {j. gs_pc s j \<noteq> GP_Idle}"])
      (auto simp: acquire_lookup_def Let_def split: prod.split option.split)
  have iu: "i \<notin> users s n" for n using i by (simp add: users_def)
  show ?thesis
  proof (cases "gs_locks s name")
    case (Some g)
    have pc: "gs_pc ?s = (gs_pc s)(i := GP_Waiting name g)" "gs_locks ?s = gs_locks s" "gs_next ?s = gs_next s"
      "gs_heap ?s = (gs_heap s)(g := (gs_heap s g)\<lparr>ng_n := ng_n (gs_heap s g) + 1\<rparr>)"
      using Some by (simp_all add: acquire_lookup_def)
    have us: "users ?s n = (if n = name then insert i (users s n) else users s n)" for n
      using i by (auto simp: users_def pc)
    show ?thesis
      unfolding gates_ok_def
    proof (intro conjI allI impI)
      show "ng_n (gs_heap ?s g') = int (card (users ?s n))" if "gs_locks ?s n = Some g'" for n g'
        using that o Some iu finite_users [OF ok] by (auto simp: pc us)
    qed (use fin o Some in \<open>auto simp: pc us split: if_splits\<close>)
  next
    case None
    let ?g = "gs_next s"
    have pc: "gs_pc ?s = (gs_pc s)(i := GP_Waiting name ?g)" "gs_locks ?s = (gs_locks s)(name \<mapsto> ?g)" "gs_next ?s = Suc ?g"
      "gs_heap ?s = (gs_heap s)(?g := \<lparr>ng_locked = False, ng_n = 1\<rparr>)"
      using None by (simp_all add: acquire_lookup_def)
    have us: "users ?s n = (if n = name then insert i (users s n) else users s n)" for n
      using i by (auto simp: users_def pc)
    have e: "users s name = {}" using o None by (auto simp: users_def)
    have lt: "gs_locks s n = Some g \<Longrightarrow> g < ?g" for n g using o by blast
    have hold: "gs_pc s j = GP_Holding n g \<Longrightarrow> gs_locks s n = Some g" for j n g using o by (metis uses.simps(3))
    show ?thesis
      unfolding gates_ok_def
    proof (intro conjI allI impI)
      show "ng_n (gs_heap ?s g') = int (card (users ?s n))" if "gs_locks ?s n = Some g'" for n g'
        using that o e lt by (auto simp: pc us split: if_splits)
      show "gs_locks ?s n = Some g'" if "uses (gs_pc ?s j) = Some (n, g')" for j n g'
        using that o None by (auto simp: pc split: if_splits)
      show "n' = n" if "gs_locks ?s n = Some g" "gs_locks ?s n' = Some g" for n n' g
        using that o lt by (auto simp: pc split: if_splits)
      show "ng_locked (gs_heap ?s g)" if "gs_pc ?s j = GP_Holding n g" for j n g
        using that o lt hold [of j n g] by (auto simp: pc split: if_splits)
    qed (use fin o in \<open>auto simp: pc us less_SucI split: if_splits\<close>)
  qed
qed

lemma acquire_lock_ok:
  assumes ok: "gates_ok s" and i: "gs_pc s i = GP_Waiting name g" and s': "acquire_lock i name g s = Some s'"
  shows "gates_ok s'"
proof -
  note o = ok [unfolded gates_ok_def]
  have free: "\<not> ng_locked (gs_heap s g)" using s' by (auto simp: acquire_lock_def split: if_splits)
  have pc: "gs_pc s' = (gs_pc s)(i := GP_Holding name g)" "gs_locks s' = gs_locks s" "gs_next s' = gs_next s"
    "gs_heap s' = (gs_heap s)(g := (gs_heap s g)\<lparr>ng_locked := True\<rparr>)"
    using s' by (auto simp: acquire_lock_def split: if_splits)
  have us: "users s' n = users s n" for n using i by (auto simp: users_def pc)
  have none: "gs_pc s j \<noteq> GP_Holding m g" for j m using o free by blast
  have lk: "gs_locks s name = Some g" using o i by (metis uses.simps(2))
  have "finite {j. gs_pc s' j \<noteq> GP_Idle}"
    using o by (rule_tac finite_subset [of _ "insert i {j. gs_pc s j \<noteq> GP_Idle}"]) (auto simp: pc)
  then show ?thesis
    unfolding gates_ok_def
  proof (intro conjI allI impI)
    have n: "ng_n (gs_heap s' h) = ng_n (gs_heap s h)" for h by (simp add: pc)
    show "ng_n (gs_heap s' h) = int (card (users s' m))" if "gs_locks s' m = Some h" for m h
      using that o unfolding n us pc(2) by blast
    show "j = k" if "gs_pc s' j = GP_Holding n h" "gs_pc s' k = GP_Holding m h" for j k n m h
      using that o none by (auto simp: pc split: if_splits)
  qed (use o lk none in \<open>auto simp: pc us split: if_splits\<close>)
qed

lemma release_unlock_ok:
  assumes ok: "gates_ok s" and i: "gs_pc s i = GP_Holding name g"
  shows "gates_ok (release_unlock i name g s)"
proof -
  let ?s = "release_unlock i name g s"
  note o = ok [unfolded gates_ok_def]
  have pc: "gs_pc ?s = (gs_pc s)(i := GP_Released name g)" "gs_locks ?s = gs_locks s" "gs_next ?s = gs_next s"
    "gs_heap ?s = (gs_heap s)(g := (gs_heap s g)\<lparr>ng_locked := False\<rparr>)"
    by (simp_all add: release_unlock_def)
  have us: "users ?s n = users s n" for n using i by (auto simp: users_def pc)
  have lk: "gs_locks s name = Some g" using o i by (metis uses.simps(3))
  have only: "j \<noteq> i \<Longrightarrow> gs_pc s j \<noteq> GP_Holding m g" for j m using o i by blast
  have "finite {j. gs_pc ?s j \<noteq> GP_Idle}"
    using o by (rule_tac finite_subset [of _ "insert i {j. gs_pc s j \<noteq> GP_Idle}"]) (auto simp: pc)
  then show ?thesis
    unfolding gates_ok_def
  proof (intro conjI allI impI)
    have n: "ng_n (gs_heap ?s h) = ng_n (gs_heap s h)" for h by (simp add: pc)
    show "ng_n (gs_heap ?s h) = int (card (users ?s m))" if "gs_locks ?s m = Some h" for m h
      using that o unfolding n us pc(2) by blast
    show "j = k" if "gs_pc ?s j = GP_Holding n h" "gs_pc ?s k = GP_Holding m h" for j k n m h
      using that o by (auto simp: pc split: if_splits)
  qed (use o lk only in \<open>auto simp: pc us split: if_splits\<close>)
qed

lemma release_drop_ok:
  assumes ok: "gates_ok s" and i: "gs_pc s i = GP_Released name g"
  shows "gates_ok (release_drop i name g s)"
proof -
  let ?s = "release_drop i name g s"
  note o = ok [unfolded gates_ok_def]
  have lk: "gs_locks s name = Some g" using o i by (metis uses.simps(4))
  then have n: "ng_n (gs_heap s g) = int (card (users s name))" using o by blast
  have iu: "i \<in> users s name" using i by (simp add: users_def)
  have pc: "gs_pc ?s = (gs_pc s)(i := GP_Idle)" "gs_next ?s = gs_next s"
    "gs_heap ?s = (gs_heap s)(g := (gs_heap s g)\<lparr>ng_n := ng_n (gs_heap s g) - 1\<rparr>)"
    "gs_locks ?s = (if ng_n (gs_heap s g) - 1 = 0 then (gs_locks s)(name := None) else gs_locks s)"
    by (simp_all add: release_drop_def Let_def)
  have us: "users ?s n = (if n = name then users s name - {i} else users s n)" for n
    using i by (auto simp: users_def pc)
  have card: "int (card (users s name - {i})) = int (card (users s name)) - 1"
    using iu finite_users [OF ok, of name] by (metis One_nat_def Suc_pred card_Diff_singleton card_gt_0_iff empty_iff of_nat_Suc add_diff_cancel_right' add.commute)
  have last: "ng_n (gs_heap s g) - 1 = 0 \<longleftrightarrow> users s name - {i} = {}"
    using n card finite_users [OF ok, of name] by (metis card_eq_0_iff finite_Diff of_nat_eq_0_iff)
  have fin: "finite {j. gs_pc ?s j \<noteq> GP_Idle}"
    using o by (rule_tac finite_subset [of _ "{j. gs_pc s j \<noteq> GP_Idle}"]) (auto simp: pc)
  show ?thesis
    unfolding gates_ok_def
  proof (intro conjI allI impI)
    show "gs_locks ?s m = Some h" if "uses (gs_pc ?s j) = Some (m, h)" for j m h
    proof (cases "m = name")
      case True
      then have "j \<in> users s name - {i}" using that by (auto simp: pc users_def split: if_splits)
      then have "ng_n (gs_heap s g) - 1 \<noteq> 0" using last by blast
      then show ?thesis using that o by (auto simp: pc split: if_splits)
    qed (use that o in \<open>auto simp: pc split: if_splits\<close>)
    show "h < gs_next ?s" "users ?s m \<noteq> {}" "ng_n (gs_heap ?s h) = int (card (users ?s m))"
      if "gs_locks ?s m = Some h" for m h
    proof -
      have old: "gs_locks s m = Some h" using that by (auto simp: pc split: if_splits)
      then show "h < gs_next ?s" using o by (simp add: pc)
      show "users ?s m \<noteq> {}" using old o that last by (auto simp: pc us split: if_splits)
      show "ng_n (gs_heap ?s h) = int (card (users ?s m))"
      proof (cases "m = name")
        case True
        then have "h = g" using old lk by simp
        then show ?thesis using True n card by (simp add: pc us)
      next
        case False
        then have "h \<noteq> g" using old lk o by metis
        then show ?thesis using False old o by (simp add: pc us)
      qed
    qed
    show "m' = m" if "gs_locks ?s m = Some h" "gs_locks ?s m' = Some h" for m m' h
      using that o by (auto simp: pc split: if_splits)
    show "ng_locked (gs_heap ?s h)" if "gs_pc ?s j = GP_Holding m h" for j m h
      using that o by (auto simp: pc split: if_splits)
    show "j = k" if "gs_pc ?s j = GP_Holding m h" "gs_pc ?s k = GP_Holding m' h" for j k m m' h
      using that o by (auto simp: pc split: if_splits)
  qed (rule fin)
qed

lemma gate_step_ok: "gate_step s s' \<Longrightarrow> gates_ok s \<Longrightarrow> gates_ok s'"
  by (induction rule: gate_step.induct) (simp_all add: acquire_lookup_ok acquire_lock_ok release_unlock_ok release_drop_ok)

lemma gate_run_ok: "gate_step\<^sup>*\<^sup>* gates_start s \<Longrightarrow> gates_ok s"
  by (induction rule: rtranclp_induct) (use gates_ok_start gate_step_ok in blast)+

subsection \<open>One upload per name\<close>

text \<open>
  C35. Uploads of one name are serialised, and the gate map stays bounded. In every interleaving of
  \<open>acquire\<close> and \<open>release\<close> at most one goroutine holds a name, although gates are dropped and created
  again, and the map has a gate exactly for the names somebody is using.
\<close>

theorem uploads_serialised:
  assumes "gate_step\<^sup>*\<^sup>* gates_start s"
  shows "(\<forall>i j n g h. gs_pc s i = GP_Holding n g \<longrightarrow> gs_pc s j = GP_Holding n h \<longrightarrow> i = j) \<and>
    dom (gs_locks s) = {n. users s n \<noteq> {}} \<and> finite (dom (gs_locks s))"
proof -
  note o = gate_run_ok [OF assms, unfolded gates_ok_def]
  have "i = j" if "gs_pc s i = GP_Holding n g" "gs_pc s j = GP_Holding n h" for i j n g h
    using o that by (metis option.inject uses.simps(3))
  moreover have d: "dom (gs_locks s) = {n. users s n \<noteq> {}}" using o by (auto simp: users_def)
  moreover have "{n. users s n \<noteq> {}} \<subseteq> (\<lambda>i. fst (the (uses (gs_pc s i)))) ` {i. gs_pc s i \<noteq> GP_Idle}"
  proof
    fix n assume "n \<in> {n. users s n \<noteq> {}}"
    then obtain i g where "uses (gs_pc s i) = Some (n, g)" by (auto simp: users_def)
    then show "n \<in> (\<lambda>i. fst (the (uses (gs_pc s i)))) ` {i. gs_pc s i \<noteq> GP_Idle}" by (force intro: image_eqI [of _ _ i])
  qed
  ultimately show ?thesis using o finite_subset by (metis finite_imageI)
qed

theorem uploads_serialised_witness:
  "\<exists>s. gate_step\<^sup>*\<^sup>* gates_start s \<and> gs_pc s 0 = GP_Holding ''a'' 0 \<and> gs_pc s 1 = GP_Waiting ''a'' 0 \<and> ''a'' \<in> dom (gs_locks s)"
proof -
  let ?s1 = "acquire_lookup 0 ''a'' gates_start" let ?s2 = "acquire_lookup 1 ''a'' ?s1"
  have 1: "gate_step gates_start ?s1" by (rule Lookup) (simp add: gates_start_def)
  have 2: "gate_step ?s1 ?s2" by (rule Lookup) (simp add: acquire_lookup_def gates_start_def)
  obtain s where s: "acquire_lock 0 ''a'' 0 ?s2 = Some s" "gs_pc s 0 = GP_Holding ''a'' 0" "gs_pc s 1 = GP_Waiting ''a'' 0"
    by (simp add: acquire_lock_def acquire_lookup_def gates_start_def)
  have 3: "gate_step ?s2 s" using s(1) by (rule Lock [rotated]) (simp add: acquire_lookup_def gates_start_def)
  have r: "gate_step\<^sup>*\<^sup>* gates_start s" using 1 2 3 by (meson rtranclp.rtrancl_refl rtranclp.rtrancl_into_rtrancl)
  moreover have "0 \<in> users s ''a''" using s(2) by (simp add: users_def)
  ultimately show ?thesis using s(2,3) uploads_serialised [OF r] by blast
qed

end
