(* ===== verification/Configuration.thy ===== *)
theory Configuration
  imports Limiter Backoff GoNet
begin

text \<open>
  Configuration and start-up: \<open>internal/config\<close>, the flag handling and the order of the start in
  \<open>cmd/server/main.go\<close> and \<open>cmd/client/main.go\<close>, and the same for the embedded server of
  \<open>internal/app/server_app.go\<close>. YAML is a library: decoding onto the defaults is the parameter
  \<open>yaml\<close>. Opening listeners and reading certificates succeed or fail as the environment says.
\<close>

subsection \<open>config.go\<close>

record ClientTarget =
  ct_Name :: string
  ct_Address :: string
  ct_AuthToken :: string

record FileTransferConfig =
  fc_Enabled :: bool
  fc_ReceiveAddr :: string
  fc_DropDir :: string
  fc_Token :: string
  fc_MaxFileSize :: int
  fc_SendEndpoint :: string
  fc_ControlAddr :: string

record ServerConfig =
  sc_DataAddr :: string
  sc_HTTPAddr :: string
  sc_HTTPSAddr :: string
  sc_AdminAddr :: string
  sc_AuthToken :: string
  sc_CertPath :: string
  sc_KeyPath :: string
  sc_AdminToken :: string
  sc_MinPort :: int
  sc_AllowPrivateTargets :: bool
  sc_Insecure :: bool
  sc_ClientCACert :: string
  sc_TLSFingerprint :: string
  sc_MaxConnRate :: rat
  sc_MaxConnBurst :: int
  sc_MaxConcurrent :: int
  sc_LogLevel :: string
  sc_Clients :: "ClientTarget list"
  sc_KnownHostsPath :: string
  sc_AutoApprove :: bool
  sc_FileTransfer :: FileTransferConfig

definition DefaultFileTransferConfig :: FileTransferConfig where
  "DefaultFileTransferConfig =
     \<lparr>fc_Enabled = False, fc_ReceiveAddr = ''127.0.0.1:8089'', fc_DropDir = ''received'', fc_Token = [],
      fc_MaxFileSize = 0, fc_SendEndpoint = [], fc_ControlAddr = ''127.0.0.1:8077''\<rparr>"

definition DefaultServerConfig :: ServerConfig where
  "DefaultServerConfig =
     \<lparr>sc_DataAddr = '':8444'', sc_HTTPAddr = '':8080'', sc_HTTPSAddr = '':8445'', sc_AdminAddr = '':9090'',
      sc_AuthToken = [], sc_CertPath = ''server.crt'', sc_KeyPath = ''server.key'', sc_AdminToken = [],
      sc_MinPort = 1, sc_AllowPrivateTargets = False, sc_Insecure = False, sc_ClientCACert = [],
      sc_TLSFingerprint = [], sc_MaxConnRate = 0, sc_MaxConnBurst = 0, sc_MaxConcurrent = 0,
      sc_LogLevel = ''info'', sc_Clients = [], sc_KnownHostsPath = ''known_hosts.yaml'', sc_AutoApprove = False,
      sc_FileTransfer = DefaultFileTransferConfig\<rparr>"

text \<open>
  \<open>config.TunnelConfig\<close> and \<open>config.ClientConfig\<close> are \<open>TunnelSettings\<close> and \<open>ClientSettings\<close>: the types of
  those names in \<open>reconnect\<close> are in theory Backoff.
\<close>

record TunnelSettings =
  tn_LocalHost :: string
  tn_LocalPort :: int
  tn_RequestedPort :: int
  tn_Type :: string
  tn_Hostname :: string

record PortForwardConfig =
  pc_LocalPort :: int
  pc_RemoteHost :: string
  pc_RemotePort :: int
  pc_Bind :: string

record ClientSettings =
  cs_ListenAddr :: string
  cs_AuthToken :: string
  cs_Name :: string
  cs_Insecure :: bool
  cs_Tunnels :: "TunnelSettings list"
  cs_LogLevel :: string
  cs_CertPath :: string
  cs_KeyPath :: string
  cs_SOCKSAddr :: string
  cs_SOCKSUser :: string
  cs_SOCKSPass :: string
  cs_HTTPProxyAddr :: string
  cs_HTTPProxyUser :: string
  cs_HTTPProxyPass :: string
  cs_PortForwards :: "PortForwardConfig list"
  cs_FileTransfer :: FileTransferConfig

definition DefaultClientConfig :: ClientSettings where
  "DefaultClientConfig =
     \<lparr>cs_ListenAddr = '':8443'', cs_AuthToken = [], cs_Name = ''client1'', cs_Insecure = False, cs_Tunnels = [],
      cs_LogLevel = ''info'', cs_CertPath = ''client.crt'', cs_KeyPath = ''client.key'',
      cs_SOCKSAddr = ''127.0.0.1:1080'', cs_SOCKSUser = [], cs_SOCKSPass = [],
      cs_HTTPProxyAddr = ''127.0.0.1:8080'', cs_HTTPProxyUser = [], cs_HTTPProxyPass = [], cs_PortForwards = [],
      cs_FileTransfer = DefaultFileTransferConfig\<rparr>"

definition isWeakToken :: "string \<Rightarrow> bool" where
  "isWeakToken t \<longleftrightarrow> t = [] \<or> t = ''changeme''"

datatype config_error = WeakToken | WeakClientToken string | OpenConfig | ParseConfig

text \<open>The loop over the client targets: the first one with the shipped default.\<close>

fun weak_client :: "ClientTarget list \<Rightarrow> config_error option" where
  "weak_client [] = None"
| "weak_client (cl # cls) =
     (if ct_AuthToken cl \<noteq> [] \<and> isWeakToken (ct_AuthToken cl) then Some (WeakClientToken (ct_Name cl))
      else weak_client cls)"

definition Server_ValidateSecurity :: "ServerConfig \<Rightarrow> config_error option" where
  "Server_ValidateSecurity c =
     (if sc_Insecure c then None
      else if isWeakToken (sc_AuthToken c) then Some WeakToken
      else weak_client (sc_Clients c))"

definition Client_ValidateSecurity :: "ClientSettings \<Rightarrow> config_error option" where
  "Client_ValidateSecurity c =
     (if cs_Insecure c then None
      else if isWeakToken (cs_AuthToken c) then Some WeakToken
      else None)"

text \<open>A missing file is not an error; \<open>yaml\<close> decodes onto what it is given.\<close>

datatype open_result = F_Missing | F_Error | F_Data bytes

definition loadYAML :: "(bytes \<Rightarrow> 'c \<Rightarrow> 'c option) \<Rightarrow> open_result \<Rightarrow> 'c \<Rightarrow> config_error + 'c" where
  "loadYAML yaml f dst =
     (case f of
        F_Missing \<Rightarrow> Inr dst
      | F_Error \<Rightarrow> Inl OpenConfig
      | F_Data data \<Rightarrow> (case yaml data dst of None \<Rightarrow> Inl ParseConfig | Some c \<Rightarrow> Inr c))"

definition LoadServerConfig :: "(bytes \<Rightarrow> ServerConfig \<Rightarrow> ServerConfig option) \<Rightarrow> open_result \<Rightarrow> config_error + ServerConfig" where
  "LoadServerConfig yaml f = loadYAML yaml f DefaultServerConfig"

definition LoadClientConfig :: "(bytes \<Rightarrow> ClientSettings \<Rightarrow> ClientSettings option) \<Rightarrow> open_result \<Rightarrow> config_error + ClientSettings" where
  "LoadClientConfig yaml f = loadYAML yaml f DefaultClientConfig"

subsection \<open>Flags\<close>

text \<open>The flags that were set, in the order of \<open>flag.Visit\<close>.\<close>

definition server_flag :: "ServerConfig \<Rightarrow> string \<times> string \<Rightarrow> ServerConfig" where
  "server_flag cfg f =
     (case f of (n, v) \<Rightarrow>
        if n = ''data-addr'' then cfg\<lparr>sc_DataAddr := v\<rparr>
        else if n = ''http-addr'' then cfg\<lparr>sc_HTTPAddr := v\<rparr>
        else if n = ''https-addr'' then cfg\<lparr>sc_HTTPSAddr := v\<rparr>
        else if n = ''admin-addr'' then cfg\<lparr>sc_AdminAddr := v\<rparr>
        else if n = ''token'' then cfg\<lparr>sc_AuthToken := v\<rparr>
        else if n = ''cert'' then cfg\<lparr>sc_CertPath := v\<rparr>
        else if n = ''key'' then cfg\<lparr>sc_KeyPath := v\<rparr>
        else if n = ''log-level'' then cfg\<lparr>sc_LogLevel := v\<rparr>
        else cfg)"

definition client_flag :: "ClientSettings \<Rightarrow> string \<times> string \<Rightarrow> ClientSettings" where
  "client_flag cfg f =
     (case f of (n, v) \<Rightarrow>
        if n = ''listen'' then cfg\<lparr>cs_ListenAddr := v\<rparr>
        else if n = ''token'' then cfg\<lparr>cs_AuthToken := v\<rparr>
        else if n = ''name'' then cfg\<lparr>cs_Name := v\<rparr>
        else if n = ''insecure'' then cfg\<lparr>cs_Insecure := (v = ''true'')\<rparr>
        else if n = ''log-level'' then cfg\<lparr>cs_LogLevel := v\<rparr>
        else if n = ''cert'' then cfg\<lparr>cs_CertPath := v\<rparr>
        else if n = ''key'' then cfg\<lparr>cs_KeyPath := v\<rparr>
        else if n = ''socks-addr'' then cfg\<lparr>cs_SOCKSAddr := v\<rparr>
        else if n = ''socks-user'' then cfg\<lparr>cs_SOCKSUser := v\<rparr>
        else if n = ''socks-pass'' then cfg\<lparr>cs_SOCKSPass := v\<rparr>
        else if n = ''http-proxy-addr'' then cfg\<lparr>cs_HTTPProxyAddr := v\<rparr>
        else cfg)"

subsection \<open>Starting the server\<close>

datatype tls_config = TLS_Insecure | TLS_Roots bytes | TLS_System

text \<open>\<open>parse_pem\<close>: whether \<open>AppendCertsFromPEM\<close> finds a certificate.\<close>

definition buildClientTLSConfig :: "(bytes \<Rightarrow> bool) \<Rightarrow> bytes option \<Rightarrow> ServerConfig \<Rightarrow> tls_config option" where
  "buildClientTLSConfig parse_pem ca cfg =
     (if sc_Insecure cfg then Some TLS_Insecure
      else if sc_ClientCACert cfg \<noteq> [] then
        (case ca of
           None \<Rightarrow> None
         | Some pem \<Rightarrow> if \<not> parse_pem pem then None else Some (TLS_Roots pem))
      else Some TLS_System)"

text \<open>How the calls of the start that can fail go.\<close>

record start_env =
  se_cert :: bool
  se_known :: bool
  se_data :: bool
  se_http :: bool
  se_https :: bool
  se_admin :: bool
  se_ca :: "bytes option"
  se_dropdir :: bool
  se_receive :: bool

text \<open>What runs afterwards: egress policy, limiter, proxies, admin token, receiver, TLS and dial loops.\<close>

record running =
  ru_allowPrivate :: bool
  ru_limiter :: "Limiter option"
  ru_http :: "string option"
  ru_https :: "string option"
  ru_admin :: "(string \<times> string) option"
  ru_receiver :: "(string \<times> string \<times> string \<times> int) option"
  ru_tls :: tls_config
  ru_dials :: "(ClientTarget \<times> string) list"

datatype start_error = S_Config config_error | S_BadAddr string | S_Security config_error | S_Cert | S_Known | S_Data | S_HTTP
  | S_HTTPS | S_Admin | S_TLS

definition effective_token :: "ServerConfig \<Rightarrow> ClientTarget \<Rightarrow> string" where
  "effective_token cfg target = (if ct_AuthToken target = [] then sc_AuthToken cfg else ct_AuthToken target)"

definition proxy_limiter :: "ServerConfig \<Rightarrow> Limiter option" where
  "proxy_limiter cfg =
     (if sc_MaxConnRate cfg > 0 \<or> sc_MaxConcurrent cfg > 0
      then Some (NewLimiter (sc_MaxConnRate cfg) (sc_MaxConnBurst cfg) (sc_MaxConcurrent cfg) 0) else None)"

text \<open>A receiver that cannot be started is logged and left out.\<close>

definition start_receiver :: "bool \<Rightarrow> bool \<Rightarrow> FileTransferConfig \<Rightarrow> (string \<times> string \<times> string \<times> int) option" where
  "start_receiver dropdir_ok listen_ok ft =
     (if \<not> fc_Enabled ft then None
      else if fc_DropDir ft = [] \<or> \<not> dropdir_ok then None
      else if \<not> listen_ok then None
      else Some (fc_ReceiveAddr ft, fc_DropDir ft, fc_Token ft, fc_MaxFileSize ft))"

definition guard_start :: "bool \<Rightarrow> start_error \<Rightarrow> start_error + unit" where
  "guard_start ok e = (if ok then Inr () else Inl e)"

definition sum_bind :: "'e + 'a \<Rightarrow> ('a \<Rightarrow> 'e + 'b) \<Rightarrow> 'e + 'b" where
  "sum_bind x f = (case x of Inl e \<Rightarrow> Inl e | Inr a \<Rightarrow> f a)"

definition open_addr :: "string \<Rightarrow> string option" where
  "open_addr addr = (if addr = [] then None else Some addr)"

text \<open>\<open>main\<close> of \<open>cmd/server\<close> from the loaded configuration to the dial loops.\<close>

definition server_start :: "(bytes \<Rightarrow> bool) \<Rightarrow> start_env \<Rightarrow> ServerConfig \<Rightarrow> start_error + running" where
  "server_start parse_pem env cfg =
     sum_bind (case Server_ValidateSecurity cfg of None \<Rightarrow> Inr () | Some e \<Rightarrow> Inl (S_Security e)) (\<lambda>_.
     sum_bind (guard_start (se_cert env) S_Cert) (\<lambda>_.
     sum_bind (guard_start (se_known env) S_Known) (\<lambda>_.
     sum_bind (guard_start (se_data env) S_Data) (\<lambda>_.
     sum_bind (guard_start (sc_HTTPAddr cfg = [] \<or> se_http env) S_HTTP) (\<lambda>_.
     sum_bind (guard_start (sc_HTTPSAddr cfg = [] \<or> se_https env) S_HTTPS) (\<lambda>_.
     sum_bind (guard_start (sc_AdminAddr cfg = [] \<or> se_admin env) S_Admin) (\<lambda>_.
     case buildClientTLSConfig parse_pem (se_ca env) cfg of
       None \<Rightarrow> Inl S_TLS
     | Some tls \<Rightarrow>
         Inr \<lparr>ru_allowPrivate = sc_AllowPrivateTargets cfg, ru_limiter = proxy_limiter cfg,
              ru_http = open_addr (sc_HTTPAddr cfg), ru_https = open_addr (sc_HTTPSAddr cfg),
              ru_admin = map_option (\<lambda>a. (a, sc_AdminToken cfg)) (open_addr (sc_AdminAddr cfg)),
              ru_receiver = start_receiver (se_dropdir env) (se_receive env) (sc_FileTransfer cfg), ru_tls = tls,
              ru_dials = map (\<lambda>t. (t, effective_token cfg t)) (sc_Clients cfg)\<rparr>)))))))"

definition server_main ::
  "(bytes \<Rightarrow> ServerConfig \<Rightarrow> ServerConfig option) \<Rightarrow> (bytes \<Rightarrow> bool) \<Rightarrow> open_result \<Rightarrow> (string \<times> string) list \<Rightarrow> start_env
   \<Rightarrow> start_error + running" where
  "server_main yaml parse_pem f flags env =
     (case LoadServerConfig yaml f of
        Inl e \<Rightarrow> Inl (S_Config e)
      | Inr cfg \<Rightarrow> server_start parse_pem env (foldl server_flag cfg flags))"

subsection \<open>The embedded server\<close>

definition bad_addr :: "string \<Rightarrow> bool" where
  "bad_addr addr \<longleftrightarrow> addr \<noteq> [] \<and> (case SplitHostPort addr of Inl _ \<Rightarrow> True | Inr _ \<Rightarrow> False)"

definition validateServerConfig :: "ServerConfig \<Rightarrow> string option" where
  "validateServerConfig cfg =
     (if bad_addr (sc_DataAddr cfg) then Some ''data_addr''
      else if bad_addr (sc_HTTPAddr cfg) then Some ''http_addr''
      else if bad_addr (sc_HTTPSAddr cfg) then Some ''https_addr''
      else if bad_addr (sc_AdminAddr cfg) then Some ''admin_addr''
      else None)"

text \<open>\<open>NewServerApp\<close>: the TLS configuration, and the admin address and token when there is one.\<close>

definition NewServerApp ::
  "(bytes \<Rightarrow> bool) \<Rightarrow> start_env \<Rightarrow> ServerConfig \<Rightarrow> start_error + tls_config \<times> (string \<times> string) option" where
  "NewServerApp parse_pem env cfg =
     (case validateServerConfig cfg of
        Some a \<Rightarrow> Inl (S_BadAddr a)
      | None \<Rightarrow>
          (case Server_ValidateSecurity cfg of
             Some e \<Rightarrow> Inl (S_Security e)
           | None \<Rightarrow>
               (if \<not> se_cert env then Inl S_Cert
                else (case buildClientTLSConfig parse_pem (se_ca env) cfg of
                        None \<Rightarrow> Inl S_TLS
                      | Some tls \<Rightarrow>
                          Inr (tls, if sc_AdminAddr cfg \<noteq> [] then Some (sc_AdminAddr cfg, sc_AdminToken cfg) else None)))))"

text \<open>\<open>Start\<close>: no list of known hosts is loaded here.\<close>

definition ServerApp_Start ::
  "start_env \<Rightarrow> ServerConfig \<Rightarrow> tls_config \<times> (string \<times> string) option \<Rightarrow> start_error + running" where
  "ServerApp_Start env cfg app =
     sum_bind (guard_start (se_data env) S_Data) (\<lambda>_.
     sum_bind (guard_start (sc_HTTPAddr cfg = [] \<or> se_http env) S_HTTP) (\<lambda>_.
     sum_bind (guard_start (sc_HTTPSAddr cfg = [] \<or> se_https env) S_HTTPS) (\<lambda>_.
     sum_bind (guard_start (snd app = None \<or> se_admin env) S_Admin) (\<lambda>_.
       Inr \<lparr>ru_allowPrivate = sc_AllowPrivateTargets cfg, ru_limiter = proxy_limiter cfg,
            ru_http = open_addr (sc_HTTPAddr cfg), ru_https = open_addr (sc_HTTPSAddr cfg), ru_admin = snd app,
            ru_receiver = start_receiver (se_dropdir env) (se_receive env) (sc_FileTransfer cfg), ru_tls = fst app,
            ru_dials = map (\<lambda>t. (t, effective_token cfg t)) (sc_Clients cfg)\<rparr>))))"

subsection \<open>Starting the client\<close>

text \<open>One entry of the configuration; an unknown type is skipped.\<close>

definition add_configured :: "ClientConfig \<Rightarrow> TunnelSettings \<Rightarrow> ClientConfig" where
  "add_configured rc t =
     (if tn_Type t = ''tcp'' \<or> tn_Type t = [] then Config_AddTunnel (tn_LocalHost t) (tn_LocalPort t) (tn_RequestedPort t) rc
      else if tn_Type t = ''http'' then Config_AddHTTPTunnel (tn_Hostname t) (tn_LocalHost t) (tn_LocalPort t) rc
      else if tn_Type t = ''https'' then Config_AddHTTPSTunnel (tn_Hostname t) (tn_LocalHost t) (tn_LocalPort t) rc
      else rc)"

record tunnel_flags =
  tf_localHost :: string
  tf_localPort :: int
  tf_pubPort :: int
  tf_httpHost :: string
  tf_httpPort :: int
  tf_httpsHost :: string
  tf_httpsPort :: int

definition client_tunnels :: "ClientSettings \<Rightarrow> tunnel_flags \<Rightarrow> ClientConfig \<Rightarrow> ClientConfig" where
  "client_tunnels cfg fl rc0 =
     (let rc = foldl add_configured rc0 (cs_Tunnels cfg);
          rc = (if tf_localPort fl > 0 then Config_AddTunnel (tf_localHost fl) (tf_localPort fl) (tf_pubPort fl) rc else rc);
          rc = (if tf_httpHost fl \<noteq> [] \<and> tf_httpPort fl > 0
                then Config_AddHTTPTunnel (tf_httpHost fl) (tf_localHost fl) (tf_httpPort fl) rc else rc)
      in if tf_httpsHost fl \<noteq> [] \<and> tf_httpsPort fl > 0
         then Config_AddHTTPSTunnel (tf_httpsHost fl) (tf_localHost fl) (tf_httpsPort fl) rc else rc)"

text \<open>
  What \<open>main\<close> of \<open>cmd/client\<close> runs: the token, name and tunnels every server session is served with, the
  local proxies and the receiver. A proxy that cannot be started is logged and left out. The client
  never calls its \<open>ValidateSecurity\<close>.
\<close>

record client_env =
  ce_cert :: bool
  ce_listen :: bool
  ce_socks :: bool
  ce_http :: bool
  ce_forward :: "PortForwardConfig \<Rightarrow> bool"
  ce_dropdir :: bool
  ce_receive :: bool

record client_running =
  cr_token :: string
  cr_name :: string
  cr_tunnels :: ClientConfig
  cr_socks :: "(string \<times> string \<times> string) option"
  cr_http :: "string option"
  cr_forwards :: "PortForwardConfig list"
  cr_receiver :: "(string \<times> string \<times> string \<times> int) option"

definition client_start :: "client_env \<Rightarrow> tunnel_flags \<Rightarrow> ClientConfig \<Rightarrow> ClientSettings \<Rightarrow> client_running option" where
  "client_start env tf rc0 cfg =
     (if \<not> ce_cert env then None
      else if \<not> ce_listen env then None
      else Some
        \<lparr>cr_token = cs_AuthToken cfg, cr_name = cs_Name cfg, cr_tunnels = client_tunnels cfg tf rc0,
         cr_socks = (if cs_SOCKSAddr cfg \<noteq> [] \<and> ce_socks env
                     then Some (cs_SOCKSAddr cfg, cs_SOCKSUser cfg, cs_SOCKSPass cfg) else None),
         cr_http = (if cs_HTTPProxyAddr cfg \<noteq> [] \<and> ce_http env then Some (cs_HTTPProxyAddr cfg) else None),
         cr_forwards = List.filter (ce_forward env) (cs_PortForwards cfg),
         cr_receiver = start_receiver (ce_dropdir env) (ce_receive env) (cs_FileTransfer cfg)\<rparr>)"

definition client_main ::
  "(bytes \<Rightarrow> ClientSettings \<Rightarrow> ClientSettings option) \<Rightarrow> open_result \<Rightarrow> (string \<times> string) list \<Rightarrow> client_env
   \<Rightarrow> tunnel_flags \<Rightarrow> ClientConfig \<Rightarrow> client_running option" where
  "client_main yaml f flags env tf rc0 =
     (case LoadClientConfig yaml f of
        Inl _ \<Rightarrow> None
      | Inr cfg \<Rightarrow> client_start env tf rc0 (foldl client_flag cfg flags))"

subsection \<open>What the configured program runs with\<close>

lemma sum_bind_Inr: "sum_bind x f = Inr r \<longleftrightarrow> (\<exists>a. x = Inr a \<and> f a = Inr r)"
  by (cases x) (simp_all add: sum_bind_def)

lemma guard_start_Inr: "guard_start ok e = Inr u \<longleftrightarrow> ok"
  by (simp add: guard_start_def)

lemmas start_simps = sum_bind_Inr guard_start_Inr

lemma security_Inr: "(case x of None \<Rightarrow> Inr () | Some e \<Rightarrow> Inl (g e)) = Inr u \<longleftrightarrow> x = None"
  by (cases x) simp_all

lemma server_flags_keep:
  "sc_Insecure (foldl server_flag cfg flags) = sc_Insecure cfg \<and> sc_Clients (foldl server_flag cfg flags) = sc_Clients cfg \<and>
   sc_AllowPrivateTargets (foldl server_flag cfg flags) = sc_AllowPrivateTargets cfg \<and>
   sc_AdminToken (foldl server_flag cfg flags) = sc_AdminToken cfg"
proof (induction flags arbitrary: cfg)
  case Nil
  then show ?case by simp
next
  case (Cons x flags)
  have "sc_Insecure (server_flag cfg x) = sc_Insecure cfg" "sc_Clients (server_flag cfg x) = sc_Clients cfg"
    "sc_AllowPrivateTargets (server_flag cfg x) = sc_AllowPrivateTargets cfg"
    "sc_AdminToken (server_flag cfg x) = sc_AdminToken cfg"
    by (cases x; simp add: server_flag_def)+
  then show ?case using Cons.IH [of "server_flag cfg x"] by simp
qed

lemma weak_client_None:
  "weak_client cls = None \<longleftrightarrow> list_all (\<lambda>cl. ct_AuthToken cl = [] \<or> \<not> isWeakToken (ct_AuthToken cl)) cls"
  by (induction cls) auto

lemma effective_not_weak:
  assumes "Server_ValidateSecurity cfg = None" "\<not> sc_Insecure cfg" "t \<in> set (sc_Clients cfg)"
  shows "\<not> isWeakToken (effective_token cfg t)"
  using assms
  by (auto simp: Server_ValidateSecurity_def weak_client_None list_all_iff effective_token_def split: if_splits)

lemma tls_insecure: "buildClientTLSConfig parse_pem ca cfg = Some tls \<Longrightarrow> tls = TLS_Insecure \<longleftrightarrow> sc_Insecure cfg"
  by (auto simp: buildClientTLSConfig_def split: if_splits option.splits)

lemma server_start_Inr:
  "server_start parse_pem env cfg = Inr ru \<longleftrightarrow>
   Server_ValidateSecurity cfg = None \<and> se_cert env \<and> se_known env \<and> se_data env \<and>
   (sc_HTTPAddr cfg = [] \<or> se_http env) \<and> (sc_HTTPSAddr cfg = [] \<or> se_https env) \<and>
   (sc_AdminAddr cfg = [] \<or> se_admin env) \<and>
   (\<exists>tls. buildClientTLSConfig parse_pem (se_ca env) cfg = Some tls \<and>
      ru = \<lparr>ru_allowPrivate = sc_AllowPrivateTargets cfg, ru_limiter = proxy_limiter cfg,
            ru_http = open_addr (sc_HTTPAddr cfg), ru_https = open_addr (sc_HTTPSAddr cfg),
            ru_admin = map_option (\<lambda>a. (a, sc_AdminToken cfg)) (open_addr (sc_AdminAddr cfg)),
            ru_receiver = start_receiver (se_dropdir env) (se_receive env) (sc_FileTransfer cfg), ru_tls = tls,
            ru_dials = map (\<lambda>t. (t, effective_token cfg t)) (sc_Clients cfg)\<rparr>)"
  unfolding server_start_def start_simps security_Inr
  by (cases "buildClientTLSConfig parse_pem (se_ca env) cfg") auto

text \<open>
  C25. The server fails closed. If \<open>cmd/server\<close> comes up, it dials exactly the clients of its
  configuration, the egress policy and the admin token are the configured ones, certificates go
  unverified exactly when the file says \<open>insecure\<close> (no flag changes that), and unless it does every
  token it authenticates with is neither empty nor the shipped default.
\<close>

theorem no_weak_token_in_use:
  assumes "server_main yaml parse_pem f flags env = Inr ru" "LoadServerConfig yaml f = Inr cfg"
  shows "map fst (ru_dials ru) = sc_Clients cfg \<and> ru_allowPrivate ru = sc_AllowPrivateTargets cfg \<and>
         (ru_tls ru = TLS_Insecure \<longleftrightarrow> sc_Insecure cfg) \<and>
         (\<forall>a tok. ru_admin ru = Some (a, tok) \<longrightarrow> tok = sc_AdminToken cfg) \<and>
         (\<not> sc_Insecure cfg \<longrightarrow> (\<forall>(t, tok) \<in> set (ru_dials ru). tok \<noteq> [] \<and> tok \<noteq> ''changeme''))"
proof -
  let ?cfg = "foldl server_flag cfg flags"
  have st: "server_start parse_pem env ?cfg = Inr ru" using assms by (simp add: server_main_def)
  note run = st [unfolded server_start_Inr]
  note keep = server_flags_keep [of cfg flags]
  obtain tls where tls: "buildClientTLSConfig parse_pem (se_ca env) ?cfg = Some tls" "ru_tls ru = tls" using run by auto
  have dials: "ru_dials ru = map (\<lambda>t. (t, effective_token ?cfg t)) (sc_Clients cfg)" using run keep by auto
  have weak: "tok \<noteq> [] \<and> tok \<noteq> ''changeme''" if "\<not> sc_Insecure cfg" "(t, tok) \<in> set (ru_dials ru)" for t tok
    using effective_not_weak [of ?cfg t] run that keep unfolding dials by (auto simp: isWeakToken_def)
  have "map fst (ru_dials ru) = sc_Clients cfg" using dials by (simp add: comp_def)
  moreover have "ru_allowPrivate ru = sc_AllowPrivateTargets cfg" using run keep by auto
  moreover have "ru_tls ru = TLS_Insecure \<longleftrightarrow> sc_Insecure cfg" using tls_insecure [OF tls(1)] tls(2) keep by simp
  moreover have "\<forall>a tok. ru_admin ru = Some (a, tok) \<longrightarrow> tok = sc_AdminToken cfg" using run keep by auto
  ultimately show ?thesis using weak by blast
qed

definition sample_env :: start_env where
  "sample_env = \<lparr>se_cert = True, se_known = True, se_data = True, se_http = True, se_https = True, se_admin = True,
                 se_ca = None, se_dropdir = True, se_receive = True\<rparr>"

definition sample_server :: ServerConfig where
  "sample_server = DefaultServerConfig\<lparr>sc_Clients :=
     [\<lparr>ct_Name = ''a'', ct_Address = ''10.1.1.1:8443'', ct_AuthToken = []\<rparr>,
      \<lparr>ct_Name = ''b'', ct_Address = ''10.1.1.2:8443'', ct_AuthToken = ''own''\<rparr>]\<rparr>"

lemma server_startI:
  assumes "Server_ValidateSecurity cfg = None" "se_cert env" "se_known env" "se_data env" "se_http env" "se_https env"
    "se_admin env" "buildClientTLSConfig parse_pem (se_ca env) cfg = Some tls"
  shows "\<exists>ru. server_start parse_pem env cfg = Inr ru \<and> map snd (ru_dials ru) = map (effective_token cfg) (sc_Clients cfg)"
  unfolding server_start_Inr using assms by (simp add: comp_def)

lemma sample_server_simps:
  "sc_Insecure sample_server = False" "sc_AuthToken sample_server = []" "sc_ClientCACert sample_server = []"
  "sc_Clients sample_server =
     [\<lparr>ct_Name = ''a'', ct_Address = ''10.1.1.1:8443'', ct_AuthToken = []\<rparr>,
      \<lparr>ct_Name = ''b'', ct_Address = ''10.1.1.2:8443'', ct_AuthToken = ''own''\<rparr>]"
  unfolding sample_server_def DefaultServerConfig_def by (simp_all only: ServerConfig.simps)

lemma sample_refused: "server_start parse_pem env sample_server = Inl (S_Security WeakToken)"
  by (simp add: server_start_def sample_server_simps Server_ValidateSecurity_def isWeakToken_def sum_bind_def)

lemma sample_started:
  "\<exists>ru. server_start parse_pem sample_env (sample_server\<lparr>sc_AuthToken := ''s3''\<rparr>) = Inr ru \<and>
        map snd (ru_dials ru) = [''s3'', ''own'']"
proof -
  let ?cfg = "sample_server\<lparr>sc_AuthToken := ''s3''\<rparr>"
  have sec: "Server_ValidateSecurity ?cfg = None"
    by (simp add: sample_server_simps Server_ValidateSecurity_def isWeakToken_def)
  have tls: "buildClientTLSConfig parse_pem (se_ca sample_env) ?cfg = Some TLS_System"
    by (simp add: sample_server_simps buildClientTLSConfig_def)
  have toks: "map (effective_token ?cfg) (sc_Clients ?cfg) = [''s3'', ''own'']"
    by (simp add: sample_server_simps effective_token_def)
  show ?thesis unfolding toks [symmetric]
    by (rule server_startI [OF sec _ _ _ _ _ _ tls]) (simp_all add: sample_env_def)
qed

text \<open>Without the flag the same configuration is refused.\<close>

lemma no_weak_token_in_use_witness:
  "map_option (\<lambda>ru. map snd (ru_dials ru))
     (case server_main (\<lambda>_ _. Some sample_server) (\<lambda>_. True) (F_Data []) [(''token'', ''s3'')] sample_env of
        Inl _ \<Rightarrow> None | Inr ru \<Rightarrow> Some ru) = Some [''s3'', ''own''] \<and>
   server_main (\<lambda>_ _. Some sample_server) (\<lambda>_. True) (F_Data []) [] sample_env = Inl (S_Security WeakToken) \<and>
   (\<exists>ru. server_main (\<lambda>_ _. Some sample_server) (\<lambda>_. True) (F_Data []) [(''token'', ''s3'')] sample_env = Inr ru \<and>
         ru_tls ru \<noteq> TLS_Insecure \<and> map fst (ru_dials ru) = sc_Clients sample_server)"
proof -
  have load: "LoadServerConfig (\<lambda>_ _. Some sample_server) (F_Data []) = Inr sample_server"
    by (simp add: LoadServerConfig_def loadYAML_def)
  let ?main = "server_main (\<lambda>_ _. Some sample_server) (\<lambda>_. True) (F_Data []) [(''token'', ''s3'')] sample_env"
  have main: "server_main (\<lambda>_ _. Some sample_server) (\<lambda>_. True) (F_Data []) flags sample_env =
      server_start (\<lambda>_. True) sample_env (foldl server_flag sample_server flags)" for flags
    by (simp add: server_main_def load)
  have flag: "foldl server_flag sample_server [(''token'', ''s3'')] = sample_server\<lparr>sc_AuthToken := ''s3''\<rparr>"
    by (simp add: server_flag_def)
  have ok: "\<exists>ru. ?main = Inr ru \<and> map snd (ru_dials ru) = [''s3'', ''own'']"
    unfolding main flag by (rule sample_started)
  from ok obtain ru where ru: "?main = Inr ru" "map snd (ru_dials ru) = [''s3'', ''own'']" by (elim exE conjE)
  have "ru_tls ru \<noteq> TLS_Insecure \<and> map fst (ru_dials ru) = sc_Clients sample_server"
    using no_weak_token_in_use [OF ru(1) load] by (simp only: sample_server_simps(1) simp_thms)
  moreover have "server_main (\<lambda>_ _. Some sample_server) (\<lambda>_. True) (F_Data []) [] sample_env = Inl (S_Security WeakToken)"
    unfolding main by (simp only: foldl_Nil sample_refused)
  ultimately show ?thesis using ru by simp
qed

text \<open>
  The embedded server starts like the server. \<open>NewServerApp\<close> followed by \<open>Start\<close> comes up exactly when
  the addresses parse and \<open>cmd/server\<close> would come up on the same configuration with a readable list
  of known hosts, and then both have the same listeners, limiter, policy and TLS settings and dial the
  same targets. What the dial loops then do differs: the embedded one (\<open>app_dialClientLoop\<close> in theory
  ServerDial) does not check certificates and does not back off.
\<close>

theorem embedded_server_equiv:
  "sum_bind (NewServerApp parse_pem env cfg) (ServerApp_Start env cfg) = Inr ru \<longleftrightarrow>
   validateServerConfig cfg = None \<and> server_start parse_pem (env\<lparr>se_known := True\<rparr>) cfg = Inr ru"
proof -
  have admin: "map_option (\<lambda>a. (a, sc_AdminToken cfg)) (open_addr (sc_AdminAddr cfg)) =
      (if sc_AdminAddr cfg \<noteq> [] then Some (sc_AdminAddr cfg, sc_AdminToken cfg) else None)"
    by (simp add: open_addr_def)
  show ?thesis
    unfolding server_start_Inr sum_bind_Inr NewServerApp_def ServerApp_Start_def guard_start_Inr admin
    by (cases "validateServerConfig cfg"; cases "Server_ValidateSecurity cfg";
        cases "buildClientTLSConfig parse_pem (se_ca env) cfg"; cases "se_cert env") auto
qed

text \<open>What the client offers: the configured tunnels of each kind in their order, then the flag's.\<close>

lemma configured_tunnels:
  "cc_Tunnels (foldl add_configured rc ts) = cc_Tunnels rc @
     map (\<lambda>t. \<lparr>tc_LocalHost = tn_LocalHost t, tc_LocalPort = tn_LocalPort t, tc_RequestedPort = tn_RequestedPort t\<rparr>)
       (List.filter (\<lambda>t. tn_Type t \<in> {[], ''tcp''}) ts) \<and>
   map htc_Hostname (cc_HTTPTunnels (foldl add_configured rc ts)) =
     map htc_Hostname (cc_HTTPTunnels rc) @ map tn_Hostname (List.filter (\<lambda>t. tn_Type t = ''http'') ts) \<and>
   map hstc_Hostname (cc_HTTPSTunnels (foldl add_configured rc ts)) =
     map hstc_Hostname (cc_HTTPSTunnels rc) @ map tn_Hostname (List.filter (\<lambda>t. tn_Type t = ''https'') ts)"
  by (induction ts arbitrary: rc)
     (auto simp: add_configured_def Config_AddTunnel_def Config_AddHTTPTunnel_def Config_AddHTTPSTunnel_def)

end
