(* ===== verification/GoMux.thy ===== *)
theory GoMux
  imports GoNet
begin

text \<open>
  How \<open>http.ServeMux\<close> (Go 1.22) finds a handler: the path is cleaned, a path that is not clean is
  answered with a redirect to the clean one, and patterns are matched segment by segment on the
  escaped path, each segment decoded by itself.
\<close>

subsection \<open>Percent escapes\<close>

text \<open>\<open>url.PathUnescape\<close> on a well-formed escaped path.\<close>

fun unescape :: "string \<Rightarrow> string" where
  "unescape (c # a # b # s) =
     (case (hex_val a, hex_val b) of
        (Some x, Some y) \<Rightarrow> if c = CHR ''%'' then char_of (16 * x + y) # unescape s else c # unescape (a # b # s)
      | _ \<Rightarrow> c # unescape (a # b # s))"
| "unescape s = s"

lemma hex_val_slash [simp]: "hex_val CHR ''/'' = None"
  by (simp add: hex_val_def is_digit_def char_code_def)

lemma unescape_plain_Cons: "c \<noteq> CHR ''%'' \<Longrightarrow> unescape (c # s) = c # unescape s"
  by (cases s; cases "tl s") (auto split: option.split)

lemma unescape_plain: "CHR ''%'' \<notin> set s \<Longrightarrow> unescape s = s"
proof (induction s)
  case (Cons c s)
  then show ?case using unescape_plain_Cons [of c s] by auto
qed simp

lemma unescape_slash: "unescape (s @ CHR ''/'' # t) = unescape s @ CHR ''/'' # unescape t"
proof (induction s rule: unescape.induct)
  case (1 c a b s)
  then show ?case by (auto split: option.splits)
next
  case "2_2"
  show ?case by (cases t) (simp_all add: unescape_plain_Cons split: option.split)
next
  case "2_3"
  show ?case by (cases t) (simp_all add: unescape_plain_Cons split: option.split)
qed (simp add: unescape_plain_Cons)

lemma unescape_split:
  "CHR ''/'' # unescape s = concat (map (\<lambda>w. CHR ''/'' # unescape w) (split_on CHR ''/'' s))"
proof (induction "length s" arbitrary: s rule: less_induct)
  case less
  show ?case
  proof (cases "CHR ''/'' \<in> set s")
    case False
    then have "split_on CHR ''/'' s = [s]" by (induction s) auto
    then show ?thesis by simp
  next
    case True
    then obtain a b where s: "s = a @ CHR ''/'' # b" "CHR ''/'' \<notin> set a" by (meson split_list_first)
    have "split_on CHR ''/'' (a @ CHR ''/'' # b) = a # split_on CHR ''/'' b" using s(2) by (induction a) auto
    then show ?thesis using less [of b] s(1) by (simp add: unescape_slash)
  qed
qed

declare unescape.simps [simp del]

subsection \<open>Clean paths\<close>

text \<open>\<open>path.Clean\<close> of a rooted path: its elements, with the empty and dot elements worked off.\<close>

fun clean_segs :: "string list \<Rightarrow> string list \<Rightarrow> string list" where
  "clean_segs out [] = rev out"
| "clean_segs out (w # ws) =
     (if w = [] \<or> w = ''.'' then clean_segs out ws
      else if w = ''..'' then clean_segs (tl out) ws
      else clean_segs (w # out) ws)"

definition rooted :: "string list \<Rightarrow> string" where
  "rooted ws = (if ws = [] then ''/'' else concat (map (\<lambda>w. CHR ''/'' # w) ws))"

text \<open>\<open>cleanPath\<close> of \<open>net/http\<close>: a trailing slash is kept.\<close>

definition cleanPath :: "string \<Rightarrow> string" where
  "cleanPath p =
     (if p = [] then ''/''
      else (let p = (if hd p = CHR ''/'' then p else CHR ''/'' # p);
                np = rooted (clean_segs [] (split_on CHR ''/'' (tl p)))
            in if last p = CHR ''/'' \<and> np \<noteq> ''/'' then np @ ''/'' else np))"

lemma rooted_head: "\<exists>s. rooted ws = CHR ''/'' # s"
  by (cases ws) (simp_all add: rooted_def)

lemma cleanPath_head: "\<exists>s. cleanPath p = CHR ''/'' # s"
  using rooted_head [of "clean_segs [] (split_on CHR ''/'' (tl (if hd p = CHR ''/'' then p else CHR ''/'' # p)))"]
  by (auto simp: cleanPath_def Let_def)

subsection \<open>Matching\<close>

definition mux_segments :: "string \<Rightarrow> string list" where
  "mux_segments p = map unescape (split_on CHR ''/'' (tl p))"

lemma mux_segments_first:
  assumes "CHR ''/'' \<notin> set w" "CHR ''%'' \<notin> set w"
  shows "hd (mux_segments (CHR ''/'' # w @ CHR ''/'' # e)) = w"
proof -
  have "split_on CHR ''/'' (w @ CHR ''/'' # e) = w # split_on CHR ''/'' e" using assms(1) by (induction w) auto
  then show ?thesis using assms(2) by (simp add: mux_segments_def unescape_plain)
qed

text \<open>A path that matches literal segments decodes to the literal path.\<close>

lemma mux_segments_path:
  assumes "e = CHR ''/'' # s"
  shows "unescape e = concat (map (\<lambda>w. CHR ''/'' # w) (mux_segments e))"
  using unescape_split [of s] assms by (simp add: mux_segments_def unescape_plain_Cons comp_def)

text \<open>
  The redirect, if any, when one pattern ends in a slash (\<open>tree\<close>): to the path with the slash, or to
  the clean path. \<open>CONNECT\<close> requests are matched as they are.
\<close>

definition mux_redirect :: "string \<Rightarrow> bool \<Rightarrow> string \<Rightarrow> string option" where
  "mux_redirect tree connect e =
     (let p = (if connect then e else cleanPath e)
      in if mux_segments p = [tree] then Some (cleanPath (unescape e) @ ''/'')
         else if p \<noteq> e then Some p else None)"

lemma mux_redirect_None: "mux_redirect tree connect e = None \<Longrightarrow> connect \<or> cleanPath e = e"
  by (auto simp: mux_redirect_def Let_def split: if_splits)

lemma mux_redirect_clean: "\<not> connect \<Longrightarrow> cleanPath e = e \<Longrightarrow> mux_segments e \<noteq> [tree] \<Longrightarrow> mux_redirect tree connect e = None"
  by (simp add: mux_redirect_def)

end
