(* ===== verification/AdminApi.thy ===== *)
theory AdminApi
  imports Manager Registries GoMux KnownHosts Approver EventBus
begin

text \<open>
  The admin server (\<open>internal/admin/api.go\<close>): the bearer token check, the routing table and the
  handlers, over the tables the server process shares (record \<open>node\<close>). A handler is a function from
  a request and the node to a response and the node. HTTP parsing and JSON encoding are the
  library's; a response is the value that is encoded. Lists in Go's map order are sets.
\<close>

record node =
  nd_reg :: ClientRegistry
  nd_mgr :: Manager
  nd_stats :: StatsRegistry
  nd_known :: KnownHosts
  nd_disk :: fs
  nd_approver :: Approver
  nd_events :: EventBus
  nd_cancelled :: bool

text \<open>
  The parts of an \<open>http.Request\<close> the routing and the handlers read: \<open>aq_escaped\<close> is
  \<open>r.URL.EscapedPath()\<close>, which \<open>r.URL.Path\<close> is decoded from, \<open>aq_query\<close> is \<open>r.URL.Query().Get\<close>.
\<close>

datatype Method = GET | HEAD | POST | PUT | DELETE | CONNECT | OtherMethod

record AdminReq =
  aq_method :: Method
  aq_escaped :: string
  aq_auth :: string
  aq_query :: "string \<Rightarrow> string"

definition aq_path :: "AdminReq \<Rightarrow> string" where
  "aq_path r = unescape (aq_escaped r)"

record ClientInfo =
  ci_ID :: string
  ci_Name :: string
  ci_Addr :: string
  ci_ConnectedAt :: int

record TunnelInfo =
  ti_ID :: string
  ti_ClientID :: string
  ti_Type :: string
  ti_LocalAddr :: string
  ti_PublicAddr :: string
  ti_Hostname :: string

record StatsInfo =
  si_TotalConnections :: "64 word"
  si_ActiveConnections :: "64 word"
  si_BytesIn :: "64 word"
  si_BytesOut :: "64 word"
  si_Tunnels :: "string \<rightharpoonup> TunnelStats"

datatype AdminBody =
    B_Clients "ClientInfo set"
  | B_Tunnels "TunnelInfo set"
  | B_Stats StatsInfo
  | B_Pending "PendingRequest list"
  | B_Hosts "knownHost list"
  | B_OK
  | B_Disconnected nat
  | B_Events ptr
  | B_Index
  | B_File bytes
  | B_Error string
  | B_Redirect string

record AdminResp =
  as_status :: nat
  as_body :: AdminBody

definition api_error :: "nat \<Rightarrow> string \<Rightarrow> AdminResp" where
  "api_error code msg = \<lparr>as_status = code, as_body = B_Error msg\<rparr>"

definition writeJSON :: "AdminBody \<Rightarrow> AdminResp" where
  "writeJSON v = \<lparr>as_status = 200, as_body = v\<rparr>"

text \<open>The server: its token, and whether an approver, known hosts and an event bus are attached.\<close>

record AdminServer =
  ad_token :: string
  ad_approver :: bool
  ad_knownHosts :: bool
  ad_events :: bool

definition NewAdmin :: "string \<Rightarrow> AdminServer" where
  "NewAdmin token = \<lparr>ad_token = token, ad_approver = False, ad_knownHosts = False, ad_events = False\<rparr>"

definition WithApproval :: "AdminServer \<Rightarrow> AdminServer" where
  "WithApproval s = s\<lparr>ad_approver := True, ad_knownHosts := True\<rparr>"

definition WithEvents :: "AdminServer \<Rightarrow> AdminServer" where
  "WithEvents s = s\<lparr>ad_events := True\<rparr>"

type_synonym handler = "AdminServer \<Rightarrow> AdminReq \<Rightarrow> node \<Rightarrow> AdminResp \<times> node"

definition authMiddleware :: "handler \<Rightarrow> handler" where
  "authMiddleware next_handler s r nd =
     (if ad_token s = [] then next_handler s r nd
      else (let auth = aq_auth r
            in if auth = [] \<or> \<not> HasPrefix auth ''Bearer '' then (api_error 401 ''unauthorized'', nd)
               else if TrimPrefix auth ''Bearer '' \<noteq> ad_token s then (api_error 401 ''unauthorized'', nd)
               else next_handler s r nd))"

definition admin_addr :: "string \<Rightarrow> string" where
  "admin_addr addr = (if HasPrefix addr '':'' then ''127.0.0.1'' @ addr else addr)"

subsection \<open>Handlers\<close>

definition handleIndex :: handler where
  "handleIndex s r nd =
     (if aq_path r \<noteq> ''/'' \<and> aq_path r \<noteq> ''/index.html'' then (api_error 404 ''404 page not found'', nd)
      else if aq_method r \<noteq> GET \<and> aq_method r \<noteq> HEAD then (api_error 405 ''method not allowed'', nd)
      else (writeJSON B_Index, nd))"

definition client_info :: "Client \<Rightarrow> ClientInfo" where
  "client_info c = \<lparr>ci_ID = cl_ID c, ci_Name = cl_Name c, ci_Addr = cl_Addr c, ci_ConnectedAt = cl_RegisteredAt c\<rparr>"

definition handleClients :: handler where
  "handleClients s r nd =
     (if aq_method r \<noteq> GET then (api_error 405 ''method not allowed'', nd)
      else (writeJSON (B_Clients {client_info c | c p. p \<in> Clients_List (nd_reg nd) \<and> cr_heap (nd_reg nd) p = Some c}), nd))"

definition tcp_info :: "TunnelEntry \<Rightarrow> TunnelInfo" where
  "tcp_info te =
     \<lparr>ti_ID = TE_ID te, ti_ClientID = TE_ClientID te, ti_Type = ''tcp'',
      ti_LocalAddr = TE_LocalHost te @ CHR '':'' # show_int (TE_LocalPort te),
      ti_PublicAddr = CHR '':'' # show_int (TE_PublicPort te), ti_Hostname = []\<rparr>"

definition vhost_info :: "HTTPTunnelEntry \<Rightarrow> TunnelInfo" where
  "vhost_info ht =
     \<lparr>ti_ID = HE_ID ht, ti_ClientID = HE_ClientID ht, ti_Type = (if HE_IsTLS ht then ''https'' else ''http''),
      ti_LocalAddr = HE_LocalHost ht @ CHR '':'' # show_int (HE_LocalPort ht),
      ti_PublicAddr = [], ti_Hostname = HE_Hostname ht\<rparr>"

definition handleTunnels :: handler where
  "handleTunnels s r nd =
     (if aq_method r \<noteq> GET then (api_error 405 ''method not allowed'', nd)
      else (writeJSON (B_Tunnels (tcp_info ` ListTunnels (nd_mgr nd) \<union> vhost_info ` ListHTTPTunnels (nd_mgr nd))), nd))"

definition handleStats :: handler where
  "handleStats s r nd =
     (if aq_method r \<noteq> GET then (api_error 405 ''method not allowed'', nd)
      else (let g = sr_global (nd_stats nd)
            in (writeJSON (B_Stats
                  \<lparr>si_TotalConnections = ss_TotalConnections g, si_ActiveConnections = ss_ActiveConnections g,
                   si_BytesIn = ss_BytesIn g, si_BytesOut = ss_BytesOut g, si_Tunnels = Snapshot (nd_stats nd)\<rparr>), nd)))"

definition handlePending :: handler where
  "handlePending s r nd =
     (if aq_method r \<noteq> GET then (api_error 405 ''method not allowed'', nd)
      else if \<not> ad_approver s then (writeJSON (B_Pending []), nd)
      else (writeJSON (B_Pending (Approver_List (nd_approver nd))), nd))"

text \<open>\<open>marshal\<close> and \<open>wo\<close>: how the rewrite of the known hosts file goes.\<close>

definition handleKnownHosts :: "(knownHost list \<Rightarrow> bytes option) \<Rightarrow> write_outcome \<Rightarrow> handler" where
  "handleKnownHosts marshal wo s r nd =
     (if \<not> ad_knownHosts s then (writeJSON (B_Hosts []), nd)
      else if aq_method r = GET then (writeJSON (B_Hosts (KH_List (nd_known nd))), nd)
      else if aq_method r = DELETE then
        (let name = aq_query r ''name''
         in if name = [] then (api_error 400 ''missing name'', nd)
            else (case KH_Remove marshal wo name (nd_known nd) (nd_disk nd) of
                    (err, k, d) \<Rightarrow>
                      (if err \<noteq> None then api_error 500 ''write failed'' else writeJSON B_OK,
                       nd\<lparr>nd_known := k, nd_disk := d\<rparr>)))
      else (api_error 405 ''method not allowed'', nd))"

definition handleDecide :: handler where
  "handleDecide s r nd =
     (if aq_method r \<noteq> POST then (api_error 405 ''method not allowed'', nd)
      else if \<not> ad_approver s then (api_error 503 ''approval disabled'', nd)
      else (let name = aq_query r ''name''; action = aq_query r ''action''
            in if name = [] \<or> action \<noteq> ''approve'' \<and> action \<noteq> ''reject''
               then (api_error 400 ''name and action=approve|reject required'', nd)
               else (case Decide name (action = ''approve'') (nd_approver nd) of
                       (ok, a) \<Rightarrow>
                         (if \<not> ok then api_error 404 ''no pending request for that name'' else writeJSON B_OK,
                          nd\<lparr>nd_approver := a\<rparr>))))"

definition handleReconnect :: handler where
  "handleReconnect s r nd =
     (if aq_method r \<noteq> POST then (api_error 405 ''method not allowed'', nd)
      else (let name = aq_query r ''name''
            in if name = [] then (api_error 400 ''name required'', nd)
               else (case DisconnectByName name (nd_reg nd) of
                       (n, reg) \<Rightarrow> (writeJSON (B_Disconnected n), nd\<lparr>nd_reg := reg\<rparr>))))"

text \<open>\<open>handleEvents\<close> up to its loop; the writer of \<open>net/http\<close> is always a flusher.\<close>

definition handleEvents :: handler where
  "handleEvents s r nd =
     (if aq_method r \<noteq> GET then (api_error 405 ''method not allowed'', nd)
      else if \<not> ad_events s then (api_error 503 ''events disabled'', nd)
      else (case Subscribe (nd_events nd) of
              (ch, b) \<Rightarrow> (writeJSON (B_Events ch), nd\<lparr>nd_events := b\<rparr>)))"

text \<open>
  The routing table over \<open>http.ServeMux\<close>: redirects first, then exact paths, the \<open>/static/\<close> tree and
  the catch-all. \<open>static\<close> is \<open>http.FileServer\<close> on the embedded files; \<open>http.StripPrefix\<close> takes the prefix
  from the path as it was written, or answers 404.
\<close>

definition handleStatic :: "(AdminReq \<Rightarrow> AdminResp) \<Rightarrow> handler" where
  "handleStatic static s r nd =
     (if HasPrefix (aq_escaped r) ''/static/''
      then (static (r\<lparr>aq_escaped := TrimPrefix (aq_escaped r) ''/static/''\<rparr>), nd)
      else (api_error 404 ''404 page not found'', nd))"

definition admin_route ::
  "(AdminReq \<Rightarrow> AdminResp) \<Rightarrow> (knownHost list \<Rightarrow> bytes option) \<Rightarrow> write_outcome \<Rightarrow> string list \<Rightarrow> handler" where
  "admin_route static marshal wo ws s r =
     (if ws = [''api'', ''clients''] then authMiddleware handleClients s r
      else if ws = [''api'', ''tunnels''] then authMiddleware handleTunnels s r
      else if ws = [''api'', ''stats''] then authMiddleware handleStats s r
      else if ws = [''api'', ''pending''] then authMiddleware handlePending s r
      else if ws = [''api'', ''known-hosts''] then authMiddleware (handleKnownHosts marshal wo) s r
      else if ws = [''api'', ''decide''] then authMiddleware handleDecide s r
      else if ws = [''api'', ''reconnect''] then authMiddleware handleReconnect s r
      else if ws = [''api'', ''events''] then authMiddleware handleEvents s r
      else if hd ws = ''static'' \<and> 2 \<le> length ws then handleStatic static s r
      else handleIndex s r)"

definition admin_serve ::
  "(AdminReq \<Rightarrow> AdminResp) \<Rightarrow> (knownHost list \<Rightarrow> bytes option) \<Rightarrow> write_outcome \<Rightarrow> handler" where
  "admin_serve static marshal wo s r nd =
     (case mux_redirect ''static'' (aq_method r = CONNECT) (aq_escaped r) of
        Some loc \<Rightarrow> (\<lparr>as_status = 301, as_body = B_Redirect loc\<rparr>, nd)
      | None \<Rightarrow> admin_route static marshal wo (mux_segments (aq_escaped r)) s r nd)"

subsection \<open>The event stream\<close>

datatype sse_chunk = SSE_Connected | SSE_Data Event | SSE_Ping

record sse =
  sse_ch :: ptr
  sse_out :: "sse_chunk list"
  sse_done :: bool

definition sse_open :: "ptr \<Rightarrow> sse" where
  "sse_open ch = \<lparr>sse_ch = ch, sse_out = [SSE_Connected], sse_done = False\<rparr>"

datatype sse_ready = SSE_CtxDone | SSE_Event | SSE_Heartbeat

text \<open>
  One round of the \<open>select\<close>, for the case that is taken. Leaving the loop runs the deferred cleanup
  of the subscription.
\<close>

definition sse_leave :: "sse \<Rightarrow> node \<Rightarrow> sse \<times> node" where
  "sse_leave t nd =
     (t\<lparr>sse_done := True\<rparr>,
      nd\<lparr>nd_events := Unsubscribe_close (sse_ch t) (Unsubscribe_delete (sse_ch t) (nd_events nd))\<rparr>)"

definition sse_round :: "sse_ready \<Rightarrow> sse \<Rightarrow> node \<Rightarrow> (sse \<times> node) option" where
  "sse_round ready t nd =
     (if sse_done t then None
      else case ready of
        SSE_CtxDone \<Rightarrow> Some (sse_leave t nd)
      | SSE_Event \<Rightarrow>
          (case Receive (sse_ch t) (nd_events nd) of
             (Some ev, b) \<Rightarrow> Some (t\<lparr>sse_out := sse_out t @ [SSE_Data ev]\<rparr>, nd\<lparr>nd_events := b\<rparr>)
           | (None, b) \<Rightarrow>
               (case eb_chans (nd_events nd) (sse_ch t) of
                  Some c \<Rightarrow> if ch_closed c then Some (sse_leave t nd) else None
                | None \<Rightarrow> None))
      | SSE_Heartbeat \<Rightarrow> Some (t\<lparr>sse_out := sse_out t @ [SSE_Ping]\<rparr>, nd))"

subsection \<open>Who may ask for what\<close>

definition admin_authorised :: "AdminServer \<Rightarrow> AdminReq \<Rightarrow> bool" where
  "admin_authorised s r \<longleftrightarrow> ad_token s = [] \<or> aq_auth r = ''Bearer '' @ ad_token s"

lemma authMiddleware_eq:
  "authMiddleware h s r nd = (if admin_authorised s r then h s r nd else (api_error 401 ''unauthorized'', nd))"
proof -
  have "HasPrefix a p \<Longrightarrow> p @ TrimPrefix a p = a" for a p
    by (metis HasPrefix_def TrimPrefix_def append_take_drop_id)
  moreover have "HasPrefix (p @ t) p" "TrimPrefix (p @ t) p = t" for p t
    by (simp_all add: HasPrefix_def TrimPrefix_def)
  ultimately have "ad_token s \<noteq> [] \<Longrightarrow>
      aq_auth r = ''Bearer '' @ ad_token s \<longleftrightarrow>
      aq_auth r \<noteq> [] \<and> HasPrefix (aq_auth r) ''Bearer '' \<and> TrimPrefix (aq_auth r) ''Bearer '' = ad_token s"
    by (metis append_is_Nil_conv)
  then show ?thesis by (auto simp: authMiddleware_def admin_authorised_def Let_def)
qed

text \<open>Every handler either leaves the node alone or makes one change, which these equations name.\<close>

definition admin_change :: "(knownHost list \<Rightarrow> bytes option) \<Rightarrow> write_outcome \<Rightarrow> AdminReq \<Rightarrow> node \<Rightarrow> node set" where
  "admin_change marshal wo r nd =
     {nd' \<in> {nd\<lparr>nd_known := KH_drop (aq_query r ''name'') (nd_known nd), nd_disk := d\<rparr> | d.
              d = snd (writeLocked marshal wo (KH_drop (aq_query r ''name'') (nd_known nd)) (nd_disk nd))}.
        aq_path r = ''/api/known-hosts'' \<and> aq_method r = DELETE}
     \<union> {nd' \<in> {nd\<lparr>nd_approver := snd (Decide (aq_query r ''name'') (aq_query r ''action'' = ''approve'') (nd_approver nd))\<rparr>}.
        aq_path r = ''/api/decide'' \<and> aq_method r = POST}
     \<union> {nd' \<in> {nd\<lparr>nd_reg := snd (DisconnectByName (aq_query r ''name'') (nd_reg nd))\<rparr>}.
        aq_path r = ''/api/reconnect'' \<and> aq_method r = POST}
     \<union> {nd' \<in> {nd\<lparr>nd_events := snd (Subscribe (nd_events nd))\<rparr>}.
        aq_path r = ''/api/events'' \<and> aq_method r = GET}"

definition may_change ::
  "(knownHost list \<Rightarrow> bytes option) \<Rightarrow> write_outcome \<Rightarrow> AdminReq \<Rightarrow> node \<Rightarrow> AdminResp \<times> node \<Rightarrow> bool" where
  "may_change marshal wo r nd out \<longleftrightarrow> snd out = nd \<or> snd out \<in> admin_change marshal wo r nd"

lemma read_only_handlers:
  "may_change marshal wo r nd (handleIndex s r nd)" "may_change marshal wo r nd (handleClients s r nd)"
  "may_change marshal wo r nd (handleTunnels s r nd)" "may_change marshal wo r nd (handleStats s r nd)"
  "may_change marshal wo r nd (handlePending s r nd)"
  by (simp_all add: handleIndex_def handleClients_def handleTunnels_def handleStats_def handlePending_def Let_def may_change_def)

lemma changing_handlers:
  "(aq_method r \<noteq> CONNECT \<Longrightarrow> aq_path r = ''/api/known-hosts'') \<Longrightarrow> may_change marshal wo r nd (handleKnownHosts marshal wo s r nd)"
  "(aq_method r \<noteq> CONNECT \<Longrightarrow> aq_path r = ''/api/decide'') \<Longrightarrow> may_change marshal wo r nd (handleDecide s r nd)"
  "(aq_method r \<noteq> CONNECT \<Longrightarrow> aq_path r = ''/api/reconnect'') \<Longrightarrow> may_change marshal wo r nd (handleReconnect s r nd)"
  "(aq_method r \<noteq> CONNECT \<Longrightarrow> aq_path r = ''/api/events'') \<Longrightarrow> may_change marshal wo r nd (handleEvents s r nd)"
  by (auto simp: handleKnownHosts_def handleDecide_def handleReconnect_def handleEvents_def may_change_def
      admin_change_def KH_Remove_def Let_def split: prod.split)

text \<open>The two facts that carry a claim through the routing table, one branch at a time.\<close>

lemma routed_if: "(c \<Longrightarrow> P (f nd)) \<Longrightarrow> (\<not> c \<Longrightarrow> P (g nd)) \<Longrightarrow> P ((if c then f else g) nd)"
  by simp

lemma routed_auth:
  "(admin_authorised s r \<Longrightarrow> P (h s r nd)) \<Longrightarrow> (\<not> admin_authorised s r \<Longrightarrow> P (api_error 401 ''unauthorized'', nd))
   \<Longrightarrow> P (authMiddleware h s r nd)"
  by (simp add: authMiddleware_eq)

text \<open>What reaches a handler is a clean path, so its segments spell out the decoded path.\<close>

lemma routed_path:
  assumes "mux_redirect tree (aq_method r = CONNECT) (aq_escaped r) = None" "aq_method r \<noteq> CONNECT"
  shows "aq_path r = concat (map (\<lambda>w. CHR ''/'' # w) (mux_segments (aq_escaped r)))"
proof -
  have "cleanPath (aq_escaped r) = aq_escaped r" using mux_redirect_None [OF assms(1)] assms(2) by simp
  then obtain e where "aq_escaped r = CHR ''/'' # e" using cleanPath_head [of "aq_escaped r"] by auto
  then show ?thesis unfolding aq_path_def by (rule mux_segments_path)
qed

lemma admin_route_may_change:
  assumes "aq_method r \<noteq> CONNECT \<Longrightarrow> aq_path r = concat (map (\<lambda>w. CHR ''/'' # w) ws)"
  shows "may_change marshal wo r nd (admin_route static marshal wo ws s r nd)"
proof -
  have same: "may_change marshal wo r nd (x, nd)" for x by (simp add: may_change_def)
  have static: "may_change marshal wo r nd (handleStatic static s r nd)" by (simp add: handleStatic_def same)
  show ?thesis unfolding admin_route_def
    by (intro routed_if [where P = "may_change marshal wo r nd"] routed_auth [where P = "may_change marshal wo r nd"]
        read_only_handlers changing_handlers same static) (use assms in simp_all)
qed

lemma admin_serve_may_change: "may_change marshal wo r nd (admin_serve static marshal wo s r nd)"
proof (cases "mux_redirect ''static'' (aq_method r = CONNECT) (aq_escaped r)")
  case None
  then show ?thesis
    using admin_route_may_change [OF routed_path [OF None]] by (simp add: admin_serve_def)
qed (simp add: admin_serve_def may_change_def)

lemma unauthorised_keeps:
  assumes "\<not> admin_authorised s r"
  shows "snd (admin_serve static marshal wo s r nd) = nd"
proof -
  have index: "snd (handleIndex s r nd) = nd" by (simp add: handleIndex_def)
  have static: "snd (handleStatic static s r nd) = nd" by (simp add: handleStatic_def)
  have "snd (admin_route static marshal wo ws s r nd) = nd" for ws
    unfolding admin_route_def
    by (intro routed_if [where P = "\<lambda>x. snd x = nd"] routed_auth [where P = "\<lambda>x. snd x = nd"] index static)
       (simp_all add: assms)
  then show ?thesis by (simp add: admin_serve_def split: option.split)
qed

lemma admin_serve_change:
  assumes "snd (admin_serve static marshal wo s r nd) \<noteq> nd"
  shows "admin_authorised s r \<and> snd (admin_serve static marshal wo s r nd) \<in> admin_change marshal wo r nd"
  using assms admin_serve_may_change [of marshal wo r nd static s] unauthorised_keeps [of s r static marshal wo nd]
  unfolding may_change_def by blast

definition api_paths :: "string set" where
  "api_paths = {''/api/clients'', ''/api/tunnels'', ''/api/stats'', ''/api/pending'', ''/api/known-hosts'', ''/api/decide'',
                ''/api/reconnect'', ''/api/events''}"

lemma api_path_routed:
  assumes "e \<in> api_paths"
  shows "mux_redirect ''static'' c e = None" "mux_segments e \<in> (\<lambda>w. [''api'', w]) `
    {''clients'', ''tunnels'', ''stats'', ''pending'', ''known-hosts'', ''decide'', ''reconnect'', ''events''}"
  using assms unfolding api_paths_def
  by (elim insertE emptyE; simp add: mux_redirect_def mux_segments_def cleanPath_def rooted_def unescape_plain)+

lemma unauthorised_status:
  assumes "\<not> admin_authorised s r" "HasPrefix (aq_escaped r) ''/api/''"
  shows "as_status (fst (admin_route static marshal wo (mux_segments (aq_escaped r)) s r nd)) \<in> {401, 404}"
proof -
  obtain e where e: "aq_escaped r = ''/api/'' @ e" using HasPrefix_eq [OF assms(2)] by blast
  then have "hd (mux_segments (aq_escaped r)) = ''api''" using mux_segments_first [of "''api''" e] by simp
  moreover have "aq_path r = ''/api/'' @ unescape e"
    using unescape_slash [of "''/api''" e] e by (simp add: aq_path_def unescape_plain)
  then have "as_status (fst (handleIndex s r nd)) = 404" by (simp add: handleIndex_def api_error_def)
  ultimately show ?thesis
    unfolding admin_route_def authMiddleware_eq using assms(1) by (simp add: api_error_def)
qed

text \<open>
  C9. The admin interface is closed without the token. With a token configured, a request that does
  not carry exactly \<open>Bearer\<close> and that token changes nothing, and its answer is the same whatever the
  server's tables hold, so nothing leaks. The eight API paths answer 401. Any other path under
  \<open>/api/\<close> answers 401 (another spelling of an API path), 404, or, when it is not clean (a double
  slash, dot segments), the multiplexer's redirect to the clean path.
\<close>

theorem admin_requires_token:
  assumes "ad_token s \<noteq> []" "aq_auth r \<noteq> ''Bearer '' @ ad_token s"
  shows "snd (admin_serve static marshal wo s r nd) = nd \<and>
         fst (admin_serve static marshal wo s r nd) = fst (admin_serve static marshal wo s r nd') \<and>
         (aq_escaped r \<in> api_paths \<longrightarrow> as_status (fst (admin_serve static marshal wo s r nd)) = 401) \<and>
         (HasPrefix (aq_escaped r) ''/api/'' \<longrightarrow>
            as_status (fst (admin_serve static marshal wo s r nd)) \<in> {401, 404} \<or>
            cleanPath (aq_escaped r) \<noteq> aq_escaped r \<and> as_status (fst (admin_serve static marshal wo s r nd)) = 301)"
proof -
  have un: "\<not> admin_authorised s r" using assms by (simp add: admin_authorised_def)
  have index: "fst (handleIndex s r nd) = fst (handleIndex s r nd')" "fst (handleStatic static s r nd) = fst (handleStatic static s r nd')"
    by (simp_all add: handleIndex_def handleStatic_def)
  have "fst (admin_route static marshal wo ws s r nd) = fst (admin_route static marshal wo ws s r nd')" for ws
    unfolding admin_route_def authMiddleware_eq using un index by simp
  then have same: "fst (admin_serve static marshal wo s r nd) = fst (admin_serve static marshal wo s r nd')"
    by (simp add: admin_serve_def split: option.split)
  have api: "as_status (fst (admin_serve static marshal wo s r nd)) = 401" if a: "aq_escaped r \<in> api_paths"
    using api_path_routed [OF a] un
    by (auto simp: admin_serve_def admin_route_def authMiddleware_eq api_error_def)
  have "as_status (fst (admin_serve static marshal wo s r nd)) \<in> {401, 404} \<or>
      cleanPath (aq_escaped r) \<noteq> aq_escaped r \<and> as_status (fst (admin_serve static marshal wo s r nd)) = 301"
    if a: "HasPrefix (aq_escaped r) ''/api/''"
  proof (cases "mux_redirect ''static'' (aq_method r = CONNECT) (aq_escaped r)")
    case None
    then show ?thesis using unauthorised_status [OF un a, of static marshal wo nd] by (simp add: admin_serve_def)
  next
    case (Some loc)
    have "hd (mux_segments (aq_escaped r)) = ''api''"
      using HasPrefix_eq [OF a] mux_segments_first [of "''api''" "TrimPrefix (aq_escaped r) ''/api/''"] by simp
    then have "mux_segments (aq_escaped r) \<noteq> [''static'']" by auto
    then have "cleanPath (aq_escaped r) \<noteq> aq_escaped r"
      using Some by (auto simp: mux_redirect_def Let_def split: if_splits)
    then show ?thesis using Some by (simp add: admin_serve_def)
  qed
  then show ?thesis using same api unauthorised_keeps [OF un] by blast
qed

definition sample_node :: node where
  "sample_node =
     \<lparr>nd_reg = NewClientRegistry, nd_mgr = NewManager, nd_stats = NewRegistry,
      nd_known = \<lparr>kh_path = [], kh_hosts = Map.empty\<rparr>, nd_disk = Map.empty,
      nd_approver = snd (Submit_start ''web'' ''10.0.0.5:8443'' ''fp'' 0 NewApprover),
      nd_events = NewEventBus 64, nd_cancelled = False\<rparr>"

definition decide_req :: "string \<Rightarrow> AdminReq" where
  "decide_req auth =
     \<lparr>aq_method = POST, aq_escaped = ''/api/decide'', aq_auth = auth,
      aq_query = (\<lambda>k. if k = ''name'' then ''web'' else if k = ''action'' then ''approve'' else [])\<rparr>"

lemma decide_route:
  "admin_serve static marshal wo s (decide_req auth) nd = authMiddleware handleDecide s (decide_req auth) nd"
  by (simp add: admin_serve_def admin_route_def decide_req_def mux_redirect_def mux_segments_def cleanPath_def rooted_def
      unescape_plain)

lemma handleDecide_req:
  "ad_approver s \<Longrightarrow> Decide ''web'' True (nd_approver nd) = (True, a) \<Longrightarrow>
   handleDecide s (decide_req auth) nd = (writeJSON B_OK, nd\<lparr>nd_approver := a\<rparr>)"
  by (simp add: handleDecide_def decide_req_def Let_def)

lemma decide_req_served:
  assumes "ad_approver s"
  shows "admin_serve static marshal wo s (decide_req auth) sample_node =
     (if admin_authorised s (decide_req auth)
      then (writeJSON B_OK, sample_node\<lparr>nd_approver := snd (Decide ''web'' True (nd_approver sample_node))\<rparr>)
      else (api_error 401 ''unauthorized'', sample_node))"
proof -
  have "fst (Decide ''web'' True (nd_approver sample_node))"
    by (simp add: sample_node_def Submit_start_def Let_def NewApprover_def Decide_def try_send_def)
  then obtain a where d: "Decide ''web'' True (nd_approver sample_node) = (True, a)"
    by (cases "Decide ''web'' True (nd_approver sample_node)") simp
  show ?thesis unfolding decide_route authMiddleware_eq handleDecide_req [OF assms d] by (simp add: d)
qed

text \<open>The operator's token approves; a wrong one does not.\<close>

theorem admin_requires_token_witness:
  "let s = WithApproval (NewAdmin ''t0'');
       bad = admin_serve (\<lambda>_. writeJSON (B_File [])) (\<lambda>_. None) WriteOK s (decide_req ''Bearer t1'') sample_node;
       good = admin_serve (\<lambda>_. writeJSON (B_File [])) (\<lambda>_. None) WriteOK s (decide_req ''Bearer t0'') sample_node
   in snd bad = sample_node \<and> as_status (fst bad) = 401 \<and>
      as_status (fst good) = 200 \<and> snd good \<noteq> sample_node"
proof -
  let ?s = "WithApproval (NewAdmin ''t0'')"
  have tok: "ad_token ?s = ''t0''" "ad_approver ?s" by (simp_all add: WithApproval_def NewAdmin_def)
  have bad: "snd (admin_serve (\<lambda>_. writeJSON (B_File [])) (\<lambda>_. None) WriteOK ?s (decide_req ''Bearer t1'') sample_node) = sample_node"
    using admin_requires_token [of ?s "decide_req ''Bearer t1''" "\<lambda>_. writeJSON (B_File [])" "\<lambda>_. None" WriteOK sample_node sample_node]
    by (simp add: tok decide_req_def)
  have "aq_escaped (decide_req ''Bearer t1'') \<in> api_paths" by (simp add: decide_req_def api_paths_def)
  then have "as_status (fst (admin_serve (\<lambda>_. writeJSON (B_File [])) (\<lambda>_. None) WriteOK ?s (decide_req ''Bearer t1'') sample_node)) = 401"
    using admin_requires_token [of ?s "decide_req ''Bearer t1''" "\<lambda>_. writeJSON (B_File [])" "\<lambda>_. None" WriteOK sample_node sample_node]
    by (simp add: tok decide_req_def)
  have auth: "admin_authorised ?s (decide_req ''Bearer t0'')" "\<not> admin_authorised ?s (decide_req ''Bearer t1'')"
    by (simp_all add: admin_authorised_def tok decide_req_def)
  have "ap_heap (snd (Decide ''web'' True (nd_approver sample_node))) 0 \<noteq> ap_heap (nd_approver sample_node) 0"
    by (simp add: sample_node_def Submit_start_def Let_def NewApprover_def Decide_def try_send_def)
  then have "nd_approver (sample_node\<lparr>nd_approver := snd (Decide ''web'' True (nd_approver sample_node))\<rparr>) \<noteq> nd_approver sample_node"
    by auto
  then have "sample_node\<lparr>nd_approver := snd (Decide ''web'' True (nd_approver sample_node))\<rparr> \<noteq> sample_node"
    by metis
  then show ?thesis using bad
    unfolding Let_def decide_req_served [OF tok(2)] by (simp add: auth writeJSON_def api_error_def)
qed

text \<open>An address without a host is bound on the loopback interface only.\<close>

lemma admin_addr_loopback: "admin_addr (CHR '':'' # p) = ''127.0.0.1'' @ CHR '':'' # p"
  by (simp add: admin_addr_def HasPrefix_def)

end
