(* ===== verification/ServerDial.thy ===== *)
theory ServerDial
  imports AdminApi Configuration
begin

text \<open>
  The dial loops of the server (\<open>dialClientLoop\<close> and \<open>tofuCheck\<close> in \<open>cmd/server/main.go\<close>, and the
  simpler loop of the embedded server in \<open>internal/app/server_app.go\<close>). A loop is a state machine:
  each step runs from one blocking or locking call to the next, over the shared node of theory
  AdminApi, so loops, admin requests and sessions interleave between the steps. What the outside
  answers (the dial, the certificate, the select that fires, the clock, a file write, the random
  number of the jitter) is the step's input.
\<close>

subsection \<open>One loop\<close>

text \<open>
  The connection the dialer returned: not TLS, or TLS with the fingerprint of the first peer
  certificate, if there is one.
\<close>

datatype peer = P_Plain | P_TLS "string option"

text \<open>
  Where a loop is: at its top; in the dial; before \<open>tofuCheck\<close>; before \<open>Submit\<close>; in its wait; before \<open>known.Add\<close>
  (for the operator or by auto-approval); after a refusal; accepted; in \<open>HandleControlConn\<close>; in the pause
  before the next round, with or without the reset that follows it; returned.
\<close>

datatype dial_phase =
    DL_Top
  | DL_Dial
  | DL_Gate peer
  | DL_Submit string
  | DL_Wait ptr string
  | DL_Add bool string
  | DL_Refused
  | DL_Accepted peer
  | DL_Session
  | DL_Pause int bool
  | DL_Return

text \<open>\<open>dl_conn\<close> is the open connection, \<open>dl_sessions\<close> the history of what the sessions ran over.\<close>

record dial_loop =
  dl_phase :: dial_phase
  dl_backoff :: Backoff
  dl_conn :: "nat option"
  dl_sessions :: "peer list"

definition dial_start :: dial_loop where
  "dial_start = \<lparr>dl_phase = DL_Top, dl_backoff = NewBackoff, dl_conn = None, dl_sessions = []\<rparr>"

datatype dial_input =
    I_DialFails rat
  | I_Dialled nat peer
  | I_Step int
  | I_CtxDone int
  | I_Write int write_outcome
  | I_Close rat
  | I_SessionEnds int rat
  | I_Timer

record dial_cfg =
  dc_target :: ClientTarget
  dc_autoApprove :: bool

definition event :: "string \<Rightarrow> ClientTarget \<Rightarrow> string \<Rightarrow> Event" where
  "event ty t detail = \<lparr>ev_Type = ty, ev_Name = ct_Name t, ev_Addr = ct_Address t, ev_Detail = detail, ev_Time = 0\<rparr>"

definition publish :: "int \<Rightarrow> Event \<Rightarrow> node \<Rightarrow> node" where
  "publish now ev nd = nd\<lparr>nd_events := Publish now ev (nd_events nd)\<rparr>"

definition goto :: "dial_phase \<Rightarrow> dial_loop \<Rightarrow> dial_loop" where
  "goto ph l = l\<lparr>dl_phase := ph\<rparr>"

text \<open>After a failure: return if the context is done, else pause for the next delay.\<close>

definition retry :: "rat \<Rightarrow> bool \<Rightarrow> node \<Rightarrow> dial_loop \<Rightarrow> dial_loop" where
  "retry rand reset nd l =
     (if nd_cancelled nd then goto DL_Return l
      else (case Next rand (dl_backoff l) of (delay, b) \<Rightarrow> goto (DL_Pause delay reset) (l\<lparr>dl_backoff := b\<rparr>)))"

text \<open>\<open>tofuCheck\<close> up to its first change of the shared tables.\<close>

definition tofuCheck_begin :: "dial_cfg \<Rightarrow> int \<Rightarrow> peer \<Rightarrow> node \<Rightarrow> dial_phase \<times> node" where
  "tofuCheck_begin c now p nd =
     (case p of
        P_Plain \<Rightarrow> (DL_Accepted p, nd)
      | P_TLS None \<Rightarrow> (DL_Refused, nd)
      | P_TLS (Some fp) \<Rightarrow>
          (case KH_Lookup (nd_known nd) (ct_Name (dc_target c)) of
             Some existing \<Rightarrow>
               (if existing = fp then (DL_Accepted p, nd)
                else (DL_Refused,
                      publish now (event ''client.fingerprint_mismatch'' (dc_target c)
                        (''expected='' @ ShortFingerprint existing @ '' got='' @ ShortFingerprint fp)) nd))
           | None \<Rightarrow>
               (if dc_autoApprove c then (DL_Add False fp, nd)
                else (DL_Submit fp,
                      publish now (event ''client.pending'' (dc_target c) (''fingerprint='' @ ShortFingerprint fp)) nd))))"

text \<open>\<open>known.Add\<close> and what follows it, after the operator's approval or without one.\<close>

definition tofuCheck_add ::
  "(knownHost list \<Rightarrow> bytes option) \<Rightarrow> dial_cfg \<Rightarrow> int \<Rightarrow> write_outcome \<Rightarrow> bool \<Rightarrow> string \<Rightarrow> node \<Rightarrow> dial_phase \<times> node" where
  "tofuCheck_add marshal c now wo by_operator fp nd =
     (case KH_Add marshal wo (ct_Name (dc_target c)) fp (nd_known nd) (nd_disk nd) of
        (err, k, d) \<Rightarrow>
          (let nd = nd\<lparr>nd_known := k, nd_disk := d\<rparr>
           in if err \<noteq> None then (DL_Refused, nd)
              else if by_operator
                then (DL_Accepted (P_TLS (Some fp)), publish now (event ''client.approved'' (dc_target c) []) nd)
                else (DL_Accepted (P_TLS (Some fp)), nd)))"

definition tofuCheck_decided :: "dial_cfg \<Rightarrow> int \<Rightarrow> ApprovalDecision \<Rightarrow> string \<Rightarrow> node \<Rightarrow> dial_phase \<times> node" where
  "tofuCheck_decided c now d fp nd =
     (if d = DecisionApproved then (DL_Add True fp, nd)
      else (DL_Refused, publish now (event ''client.rejected'' (dc_target c) []) nd))"

text \<open>Around \<open>HandleControlConn\<close>, which closes the connection itself.\<close>

definition gauge :: "64 word \<Rightarrow> 64 word \<Rightarrow> node \<Rightarrow> node" where
  "gauge opened active nd =
     nd\<lparr>nd_stats := (nd_stats nd)\<lparr>sr_global := (sr_global (nd_stats nd))\<lparr>
          ss_TotalConnections := ss_TotalConnections (sr_global (nd_stats nd)) + opened,
          ss_ActiveConnections := ss_ActiveConnections (sr_global (nd_stats nd)) + active\<rparr>\<rparr>\<rparr>"

definition session_begins :: "dial_cfg \<Rightarrow> int \<Rightarrow> peer \<Rightarrow> dial_loop \<times> node \<Rightarrow> dial_loop \<times> node" where
  "session_begins c now p st =
     (case st of (l, nd) \<Rightarrow>
        (goto DL_Session (l\<lparr>dl_sessions := dl_sessions l @ [p]\<rparr>),
         gauge 1 1 (publish now (event ''client.connected'' (dc_target c) []) nd)))"

definition session_ends :: "dial_cfg \<Rightarrow> int \<Rightarrow> rat \<Rightarrow> dial_loop \<times> node \<Rightarrow> dial_loop \<times> node" where
  "session_ends c now rand st =
     (case st of (l, nd) \<Rightarrow>
        (let nd = publish now (event ''client.disconnected'' (dc_target c) []) (gauge 0 (- 1) nd)
         in (retry rand True nd (l\<lparr>dl_conn := None\<rparr>), nd)))"

text \<open>The return of \<open>Submit\<close>: by the decision in the request's channel, or by the context.\<close>

definition take_decision :: "ptr \<Rightarrow> Approver \<Rightarrow> (ApprovalDecision \<times> Approver) option" where
  "take_decision p a =
     (case ap_heap a p of
        None \<Rightarrow> None
      | Some r \<Rightarrow>
          (case pr_decision r of
             None \<Rightarrow> None
           | Some d \<Rightarrow>
               Some (d, Submit_cleanup p (pr_ClientName r) (a\<lparr>ap_heap := (ap_heap a)(p \<mapsto> r\<lparr>pr_decision := None\<rparr>)\<rparr>))))"

definition dialClientLoop ::
  "(knownHost list \<Rightarrow> bytes option) \<Rightarrow> dial_cfg \<Rightarrow> dial_input \<Rightarrow> dial_loop \<times> node \<Rightarrow> (dial_loop \<times> node) option" where
  "dialClientLoop marshal c inp st =
     (case st of (l, nd) \<Rightarrow>
        (case (dl_phase l, inp) of
           (DL_Top, I_Step _) \<Rightarrow> Some (goto (if nd_cancelled nd then DL_Return else DL_Dial) l, nd)
         | (DL_Dial, I_DialFails rand) \<Rightarrow> Some (retry rand False nd l, nd)
         | (DL_Dial, I_Dialled k p) \<Rightarrow> Some (goto (DL_Gate p) (l\<lparr>dl_conn := Some k\<rparr>), nd)
         | (DL_Gate p, I_Step now) \<Rightarrow>
             (case tofuCheck_begin c now p nd of (ph, nd') \<Rightarrow> Some (goto ph l, nd'))
         | (DL_Submit fp, I_Step now) \<Rightarrow>
             (case Submit_start (ct_Name (dc_target c)) (ct_Address (dc_target c)) fp now (nd_approver nd) of
                (p, a) \<Rightarrow> Some (goto (DL_Wait p fp) l, nd\<lparr>nd_approver := a\<rparr>))
         | (DL_Wait p fp, I_Step now) \<Rightarrow>
             (case take_decision p (nd_approver nd) of
                None \<Rightarrow> None
              | Some (d, a) \<Rightarrow>
                  (case tofuCheck_decided c now d fp (nd\<lparr>nd_approver := a\<rparr>) of (ph, nd') \<Rightarrow> Some (goto ph l, nd')))
         | (DL_Wait p fp, I_CtxDone now) \<Rightarrow>
             if nd_cancelled nd
             then (case tofuCheck_decided c now DecisionRejected fp
                     (nd\<lparr>nd_approver := Submit_cleanup p (ct_Name (dc_target c)) (nd_approver nd)\<rparr>) of
                     (ph, nd') \<Rightarrow> Some (goto ph l, nd'))
             else None
         | (DL_Add by_operator fp, I_Write now wo) \<Rightarrow>
             (case tofuCheck_add marshal c now wo by_operator fp nd of (ph, nd') \<Rightarrow> Some (goto ph l, nd'))
         | (DL_Refused, I_Close rand) \<Rightarrow> Some (retry rand False nd (l\<lparr>dl_conn := None\<rparr>), nd)
         | (DL_Accepted p, I_Step now) \<Rightarrow> Some (session_begins c now p (l, nd))
         | (DL_Session, I_SessionEnds now rand) \<Rightarrow> Some (session_ends c now rand (l, nd))
         | (DL_Pause _ reset, I_Timer) \<Rightarrow>
             Some (goto DL_Top (if reset then l\<lparr>dl_backoff := Backoff_Reset (dl_backoff l)\<rparr> else l), nd)
         | (DL_Pause _ _, I_CtxDone _) \<Rightarrow> if nd_cancelled nd then Some (goto DL_Return l, nd) else None
         | _ \<Rightarrow> None))"

text \<open>
  The loop of the embedded server: the same without the gate and the events, with a fixed pause.
\<close>

definition app_retry :: "node \<Rightarrow> dial_loop \<Rightarrow> dial_loop" where
  "app_retry nd l = goto (if nd_cancelled nd then DL_Return else DL_Pause 5000000000 False) l"

definition app_dialClientLoop :: "dial_input \<Rightarrow> dial_loop \<times> node \<Rightarrow> (dial_loop \<times> node) option" where
  "app_dialClientLoop inp st =
     (case st of (l, nd) \<Rightarrow>
        (case (dl_phase l, inp) of
           (DL_Top, I_Step _) \<Rightarrow> Some (goto (if nd_cancelled nd then DL_Return else DL_Dial) l, nd)
         | (DL_Dial, I_DialFails _) \<Rightarrow> Some (app_retry nd l, nd)
         | (DL_Dial, I_Dialled k p) \<Rightarrow> Some (goto (DL_Accepted p) (l\<lparr>dl_conn := Some k\<rparr>), nd)
         | (DL_Accepted p, I_Step _) \<Rightarrow>
             Some (goto DL_Session (l\<lparr>dl_sessions := dl_sessions l @ [p]\<rparr>), gauge 1 1 nd)
         | (DL_Session, I_SessionEnds _ _) \<Rightarrow>
             (let nd = gauge 0 (- 1) nd in Some (app_retry nd (l\<lparr>dl_conn := None\<rparr>), nd))
         | (DL_Pause _ _, I_Timer) \<Rightarrow> Some (goto DL_Top l, nd)
         | (DL_Pause _ _, I_CtxDone _) \<Rightarrow> if nd_cancelled nd then Some (goto DL_Return l, nd) else None
         | _ \<Rightarrow> None))"

text \<open>Who is sent a \<open>Disconnect\<close> on shutdown: through the writer, or straight to the connection.\<close>

definition broadcastDisconnect :: "ClientRegistry \<Rightarrow> ptr set" where
  "broadcastDisconnect reg = {cl_Writer c | c p. p \<in> Clients_List reg \<and> cr_heap reg p = Some c}"

definition main_broadcast :: "ClientRegistry \<Rightarrow> nat set" where
  "main_broadcast reg = {k. \<exists>c p. p \<in> Clients_List reg \<and> cr_heap reg p = Some c \<and> cl_Conn c = Some k}"

subsection \<open>All loops, the admin interface and the rest of the server\<close>

record system =
  sy_loops :: "dial_loop list"
  sy_node :: node

text \<open>
  \<open>SE_Other\<close> is whatever the sessions, the proxies and the event streams do to their tables; they
  touch neither the known hosts nor the approver nor the connection counters.
\<close>

datatype sys_event =
    SE_Loop nat dial_input
  | SE_Admin AdminReq write_outcome
  | SE_Cancel
  | SE_Other ClientRegistry Manager EventBus

fun sys_step ::
  "(AdminReq \<Rightarrow> AdminResp) \<Rightarrow> (knownHost list \<Rightarrow> bytes option) \<Rightarrow> AdminServer \<Rightarrow> dial_cfg list \<Rightarrow> sys_event \<Rightarrow> system
   \<Rightarrow> system option" where
  "sys_step static marshal s cs (SE_Loop i inp) sys =
     (if i < length cs then
        (case dialClientLoop marshal (cs ! i) inp (sy_loops sys ! i, sy_node sys) of
           None \<Rightarrow> None
         | Some (l, nd) \<Rightarrow> Some \<lparr>sy_loops = (sy_loops sys)[i := l], sy_node = nd\<rparr>)
      else None)"
| "sys_step static marshal s cs (SE_Admin r wo) sys =
     Some (sys\<lparr>sy_node := snd (admin_serve static marshal wo s r (sy_node sys))\<rparr>)"
| "sys_step static marshal s cs SE_Cancel sys = Some (sys\<lparr>sy_node := (sy_node sys)\<lparr>nd_cancelled := True\<rparr>\<rparr>)"
| "sys_step static marshal s cs (SE_Other reg mgr eb) sys =
     Some (sys\<lparr>sy_node := (sy_node sys)\<lparr>nd_reg := reg, nd_mgr := mgr, nd_events := eb\<rparr>\<rparr>)"

definition sys_start :: "dial_cfg list \<Rightarrow> KnownHosts \<Rightarrow> fs \<Rightarrow> system" where
  "sys_start cs k disk =
     \<lparr>sy_loops = replicate (length cs) dial_start,
      sy_node = \<lparr>nd_reg = NewClientRegistry, nd_mgr = NewManager, nd_stats = NewRegistry, nd_known = k,
                 nd_disk = disk, nd_approver = NewApprover, nd_events = NewEventBus 64, nd_cancelled = False\<rparr>\<rparr>"

text \<open>The states a run can reach, with the events so far.\<close>

inductive sys_run ::
  "(AdminReq \<Rightarrow> AdminResp) \<Rightarrow> (knownHost list \<Rightarrow> bytes option) \<Rightarrow> AdminServer \<Rightarrow> dial_cfg list \<Rightarrow> system
   \<Rightarrow> sys_event list \<Rightarrow> system \<Rightarrow> bool" for static marshal s cs start where
  init: "sys_run static marshal s cs start [] start"
| event: "sys_run static marshal s cs start evs sys \<Longrightarrow> sys_step static marshal s cs ev sys = Some sys' \<Longrightarrow>
    sys_run static marshal s cs start (evs @ [ev]) sys'"

end
