(* ===== verification/ServerDialProps.thy ===== *)
theory ServerDialProps
  imports ServerDial
begin

text \<open>
  What the gate in front of the dial loops guarantees: every session over TLS runs with a certificate
  somebody vouched for, and a name keeps its certificate. The invariants are stated per loop and per
  node; one case rule for the step carries them.
\<close>

subsection \<open>The steps of a loop\<close>

lemma dialClientLoop_cases [consumes 1, case_names top dial_fails dialled gate submit decided cancelled add refused accepted ends timer pause_cancelled]:
  assumes "dialClientLoop marshal c inp (l, nd) = Some (l', nd')"
  obtains
    (top) "dl_phase l = DL_Top" "l' = goto (if nd_cancelled nd then DL_Return else DL_Dial) l" "nd' = nd"
  | (dial_fails) rand where "dl_phase l = DL_Dial" "l' = retry rand False nd l" "nd' = nd"
  | (dialled) k p where "dl_phase l = DL_Dial" "l' = goto (DL_Gate p) (l\<lparr>dl_conn := Some k\<rparr>)" "nd' = nd"
  | (gate) p now ph where "dl_phase l = DL_Gate p" "tofuCheck_begin c now p nd = (ph, nd')" "l' = goto ph l"
  | (submit) fp now p a where "dl_phase l = DL_Submit fp"
      "Submit_start (ct_Name (dc_target c)) (ct_Address (dc_target c)) fp now (nd_approver nd) = (p, a)"
      "l' = goto (DL_Wait p fp) l" "nd' = nd\<lparr>nd_approver := a\<rparr>"
  | (decided) p fp now d a ph where "dl_phase l = DL_Wait p fp" "take_decision p (nd_approver nd) = Some (d, a)"
      "tofuCheck_decided c now d fp (nd\<lparr>nd_approver := a\<rparr>) = (ph, nd')" "l' = goto ph l"
  | (cancelled) p fp now ph where "dl_phase l = DL_Wait p fp" "nd_cancelled nd"
      "tofuCheck_decided c now DecisionRejected fp
         (nd\<lparr>nd_approver := Submit_cleanup p (ct_Name (dc_target c)) (nd_approver nd)\<rparr>) = (ph, nd')" "l' = goto ph l"
  | (add) b fp now wo ph where "dl_phase l = DL_Add b fp" "tofuCheck_add marshal c now wo b fp nd = (ph, nd')" "l' = goto ph l"
  | (refused) rand where "dl_phase l = DL_Refused" "l' = retry rand False nd (l\<lparr>dl_conn := None\<rparr>)" "nd' = nd"
  | (accepted) p now where "dl_phase l = DL_Accepted p" "session_begins c now p (l, nd) = (l', nd')"
  | (ends) now rand where "dl_phase l = DL_Session" "session_ends c now rand (l, nd) = (l', nd')"
  | (timer) d reset where "dl_phase l = DL_Pause d reset"
      "l' = goto DL_Top (if reset then l\<lparr>dl_backoff := Backoff_Reset (dl_backoff l)\<rparr> else l)" "nd' = nd"
  | (pause_cancelled) d reset where "dl_phase l = DL_Pause d reset" "nd_cancelled nd" "l' = goto DL_Return l" "nd' = nd"
proof (cases "dl_phase l")
  case DL_Top
  with assms show ?thesis by (cases inp) (auto simp: dialClientLoop_def intro: top)
next
  case DL_Dial
  with assms show ?thesis by (cases inp) (auto simp: dialClientLoop_def intro: dial_fails dialled)
next
  case (DL_Gate p)
  with assms show ?thesis by (cases inp) (auto simp: dialClientLoop_def split: prod.splits intro: gate)
next
  case (DL_Submit fp)
  with assms show ?thesis by (cases inp) (auto simp: dialClientLoop_def split: prod.splits intro: submit)
next
  case (DL_Wait p fp)
  with assms show ?thesis
    by (cases inp) (auto simp: dialClientLoop_def split: prod.splits option.splits if_splits intro: decided cancelled)
next
  case (DL_Add b fp)
  with assms show ?thesis by (cases inp) (auto simp: dialClientLoop_def split: prod.splits intro: add)
next
  case DL_Refused
  with assms show ?thesis by (cases inp) (auto simp: dialClientLoop_def intro: refused)
next
  case (DL_Accepted p)
  with assms show ?thesis by (cases inp) (auto simp: dialClientLoop_def intro: accepted)
next
  case DL_Session
  with assms show ?thesis by (cases inp) (auto simp: dialClientLoop_def intro: ends)
next
  case (DL_Pause d reset)
  with assms show ?thesis
    by (cases inp) (simp_all add: dialClientLoop_def timer pause_cancelled split: if_splits)
next
  case DL_Return
  with assms show ?thesis by (cases inp) (auto simp: dialClientLoop_def)
qed

lemma publish_frame [simp]:
  "nd_known (publish now e nd) = nd_known nd" "nd_approver (publish now e nd) = nd_approver nd"
  "nd_cancelled (publish now e nd) = nd_cancelled nd" "nd_stats (publish now e nd) = nd_stats nd"
  by (simp_all add: publish_def)

lemma gauge_frame [simp]:
  "nd_known (gauge x y nd) = nd_known nd" "nd_approver (gauge x y nd) = nd_approver nd"
  "nd_cancelled (gauge x y nd) = nd_cancelled nd"
  by (simp_all add: gauge_def)

lemma goto_frame [simp]:
  "dl_phase (goto ph l) = ph" "dl_conn (goto ph l) = dl_conn l" "dl_sessions (goto ph l) = dl_sessions l"
  by (simp_all add: goto_def)

lemma retry_frame [simp]:
  "dl_conn (retry rand reset nd l) = dl_conn l" "dl_sessions (retry rand reset nd l) = dl_sessions l"
  by (simp_all add: retry_def split: prod.split)

lemma retry_phase: "dl_phase (retry rand reset nd l) = DL_Return \<or> (\<exists>d. dl_phase (retry rand reset nd l) = DL_Pause d reset)"
  by (simp add: retry_def split: prod.split)

subsection \<open>What a step does to the approver and the known hosts\<close>

text \<open>Requests keep their name and fingerprint; \<open>granted\<close> are those that hold an approval.\<close>

definition keeps :: "Approver \<Rightarrow> Approver \<Rightarrow> bool" where
  "keeps a a' \<longleftrightarrow> (\<forall>p r. ap_heap a p = Some r \<longrightarrow>
     (\<exists>r'. ap_heap a' p = Some r' \<and> pr_ClientName r' = pr_ClientName r \<and> pr_Fingerprint r' = pr_Fingerprint r))"

definition granted :: "Approver \<Rightarrow> (string \<times> string) set" where
  "granted a = {(pr_ClientName r, pr_Fingerprint r) | p r. ap_heap a p = Some r \<and> pr_decision r = Some DecisionApproved}"

lemma keeps_refl [simp]: "keeps a a"
  by (simp add: keeps_def)

lemma try_send_effect:
  assumes "try_send d p a = (ok, a')"
  shows "keeps a a'"
    "granted a' \<subseteq> granted a \<union> {(pr_ClientName r, pr_Fingerprint r) | r. ap_heap a p = Some r \<and> d = DecisionApproved}"
  using assms by (auto simp: try_send_def keeps_def granted_def split: option.splits if_splits)

lemma supersede_effect: "keeps a (supersede n a)" "granted (supersede n a) \<subseteq> granted a"
  by (cases rule: supersede_cases [of n a]; use try_send_effect in fastforce)+

lemma Submit_effect:
  assumes "state_ok a" "Submit_start n x fp now a = (p, a')"
  shows "state_ok a'" "keeps a a'" "granted a' \<subseteq> granted a"
    "\<exists>r. ap_heap a' p = Some r \<and> pr_ClientName r = n \<and> pr_Fingerprint r = fp"
proof -
  let ?r = "\<lparr>pr_ClientName = n, pr_Addr = x, pr_Fingerprint = fp, pr_RequestedAt = now, pr_decision = None\<rparr>"
  have p: "p = ap_next a" and a': "a' = (supersede n a)\<lparr>ap_heap := (ap_heap (supersede n a))(p \<mapsto> ?r),
      ap_next := p + 1, ap_pending := (ap_pending (supersede n a))(n \<mapsto> p),
      ap_waiting := insert p (ap_waiting (supersede n a))\<rparr>"
    using assms(2) by (simp_all add: Submit_start_eq Let_def)
  show "state_ok a'" unfolding a' using assms(1) by (intro state_ok_new_request) (simp_all add: supersede_frame p)
  have fresh: "ap_heap a p = None" using assms(1) p by (auto simp: state_ok_def)
  show "keeps a a'" unfolding keeps_def
  proof (intro allI impI)
    fix q r assume q: "ap_heap a q = Some r"
    then have "q \<noteq> p" using fresh by auto
    then show "\<exists>r'. ap_heap a' q = Some r' \<and> pr_ClientName r' = pr_ClientName r \<and> pr_Fingerprint r' = pr_Fingerprint r"
      using supersede_effect(1) [of a n] q by (auto simp: keeps_def a')
  qed
  show "granted a' \<subseteq> granted a"
  proof
    fix x assume "x \<in> granted a'"
    then obtain q r where "x = (pr_ClientName r, pr_Fingerprint r)" "ap_heap a' q = Some r" "pr_decision r = Some DecisionApproved"
      by (auto simp: granted_def)
    then have "x \<in> granted (supersede n a)" by (auto simp: granted_def a' split: if_splits)
    then show "x \<in> granted a" using supersede_effect(2) by blast
  qed
  show "\<exists>r. ap_heap a' p = Some r \<and> pr_ClientName r = n \<and> pr_Fingerprint r = fp" by (simp add: a')
qed

lemma cleanup_heap [simp]: "ap_heap (Submit_cleanup p n a) = ap_heap a"
  by (simp add: Submit_cleanup_def Let_def)

lemma granted_heap: "ap_heap a' = ap_heap a \<Longrightarrow> granted a' = granted a"
  by (simp add: granted_def)

lemma keeps_heap: "ap_heap a' = ap_heap a \<Longrightarrow> keeps a a'"
  by (simp add: keeps_def)

lemma take_decision_effect:
  assumes "state_ok a" "take_decision p a = Some (d, a')"
  shows "state_ok a'" "keeps a a'" "granted a' \<subseteq> granted a"
    "\<exists>r. ap_heap a p = Some r \<and> (d = DecisionApproved \<longrightarrow> (pr_ClientName r, pr_Fingerprint r) \<in> granted a)"
proof -
  obtain r where r: "ap_heap a p = Some r" "pr_decision r = Some d"
    and a': "a' = Submit_cleanup p (pr_ClientName r) (a\<lparr>ap_heap := (ap_heap a)(p \<mapsto> r\<lparr>pr_decision := None\<rparr>)\<rparr>)"
    using assms(2) by (auto simp: take_decision_def split: option.splits)
  let ?b = "a\<lparr>ap_heap := (ap_heap a)(p \<mapsto> r\<lparr>pr_decision := None\<rparr>)\<rparr>"
  have "dom (ap_heap ?b) = dom (ap_heap a)" using r(1) by auto
  moreover have "reg_name ?b q = reg_name a q" for q using r(1) by (simp add: reg_name_def)
  ultimately have "state_ok ?b" using assms(1) by (simp add: state_ok_def del: fun_upd_apply)
  then show "state_ok a'" unfolding a' by (rule state_ok_cleanup) (simp add: reg_name_def)
  show "keeps a a'" using r(1) by (auto simp: keeps_def a')
  show "granted a' \<subseteq> granted a" by (auto simp: granted_def a' split: if_splits)
  show "\<exists>r. ap_heap a p = Some r \<and> (d = DecisionApproved \<longrightarrow> (pr_ClientName r, pr_Fingerprint r) \<in> granted a)"
    using r by (auto simp: granted_def)
qed

text \<open>What the operator's list shows for a name.\<close>

definition shown :: "node \<Rightarrow> string \<Rightarrow> string option" where
  "shown nd n =
     (case ap_pending (nd_approver nd) n of
        None \<Rightarrow> None
      | Some p \<Rightarrow> map_option pr_Fingerprint (ap_heap (nd_approver nd) p))"

lemma Decide_effect:
  assumes "state_ok (nd_approver nd)" "Decide n b (nd_approver nd) = (ok, a')"
  shows "state_ok a'" "keeps (nd_approver nd) a'"
    "granted a' \<subseteq> granted (nd_approver nd) \<union> {(n, fp) | fp. b \<and> shown nd n = Some fp}"
proof -
  let ?a = "nd_approver nd"
  show "state_ok a'"
    using assms state_ok_try_send by (auto simp: Decide_def split: option.splits)
  show "keeps ?a a'"
    using assms(2) try_send_effect(1) by (auto simp: Decide_def split: option.splits)
  show "granted a' \<subseteq> granted ?a \<union> {(n, fp) | fp. b \<and> shown nd n = Some fp}"
  proof (cases "ap_pending ?a n")
    case None
    then show ?thesis using assms(2) by (simp add: Decide_def)
  next
    case (Some p)
    then have t: "try_send (if b then DecisionApproved else DecisionRejected) p ?a = (ok, a')"
      using assms(2) by (simp add: Decide_def)
    have "pr_ClientName r = n \<and> shown nd n = Some (pr_Fingerprint r)" if "ap_heap ?a p = Some r" for r
      using state_okD [OF assms(1) Some] that Some by (simp add: reg_name_def shown_def)
    then show ?thesis using try_send_effect(2) [OF t] by (auto split: if_splits)
  qed
qed

lemma tofuCheck_add_effect:
  assumes "tofuCheck_add marshal c now wo b fp nd = (ph, nd')"
  shows "kh_hosts (nd_known nd') = (kh_hosts (nd_known nd))(ct_Name (dc_target c) \<mapsto> fp)"
    "nd_approver nd' = nd_approver nd" "nd_cancelled nd' = nd_cancelled nd" "nd_stats nd' = nd_stats nd"
    "ph = DL_Refused \<or> ph = DL_Accepted (P_TLS (Some fp))"
  using assms
  by (auto simp: tofuCheck_add_def KH_Add_def KH_put_def Let_def split: prod.splits if_splits)

lemma tofuCheck_decided_effect:
  assumes "tofuCheck_decided c now d fp nd = (ph, nd')"
  shows "nd_known nd' = nd_known nd" "nd_approver nd' = nd_approver nd" "nd_cancelled nd' = nd_cancelled nd"
    "nd_stats nd' = nd_stats nd" "ph = DL_Refused \<or> ph = DL_Add True fp \<and> d = DecisionApproved"
  using assms by (auto simp: tofuCheck_decided_def split: if_splits)

lemma tofuCheck_begin_effect:
  assumes "tofuCheck_begin c now p nd = (ph, nd')"
  shows "nd_known nd' = nd_known nd" "nd_approver nd' = nd_approver nd" "nd_cancelled nd' = nd_cancelled nd"
    "nd_stats nd' = nd_stats nd"
    "ph = DL_Accepted P_Plain \<or> ph = DL_Refused \<or>
     (\<exists>fp. p = P_TLS (Some fp) \<and>
        (ph = DL_Accepted p \<and> kh_hosts (nd_known nd) (ct_Name (dc_target c)) = Some fp \<or>
         (ph = DL_Submit fp \<or> ph = DL_Add False fp \<and> dc_autoApprove c) \<and>
           kh_hosts (nd_known nd) (ct_Name (dc_target c)) = None))"
  using assms by (auto simp: tofuCheck_begin_def KH_Lookup_def split: peer.splits option.splits if_splits)

subsection \<open>Who vouched for a certificate\<close>

text \<open>\<open>T name fp\<close>: somebody vouched for this fingerprint under this name.\<close>

definition loop_ok :: "(string \<Rightarrow> string \<Rightarrow> bool) \<Rightarrow> dial_cfg \<Rightarrow> node \<Rightarrow> dial_loop \<Rightarrow> bool" where
  "loop_ok T c nd l \<longleftrightarrow>
     (case dl_phase l of
        DL_Wait p fp \<Rightarrow> \<exists>r. ap_heap (nd_approver nd) p = Some r \<and> pr_ClientName r = ct_Name (dc_target c) \<and> pr_Fingerprint r = fp
      | DL_Add b fp \<Rightarrow> T (ct_Name (dc_target c)) fp
      | DL_Accepted (P_TLS x) \<Rightarrow> \<exists>fp. x = Some fp \<and> T (ct_Name (dc_target c)) fp
      | _ \<Rightarrow> True) \<and>
     (\<forall>x. P_TLS x \<in> set (dl_sessions l) \<longrightarrow> (\<exists>fp. x = Some fp \<and> T (ct_Name (dc_target c)) fp))"

definition node_ok :: "(string \<Rightarrow> string \<Rightarrow> bool) \<Rightarrow> node \<Rightarrow> bool" where
  "node_ok T nd \<longleftrightarrow> state_ok (nd_approver nd) \<and>
     (\<forall>n fp. (n, fp) \<in> granted (nd_approver nd) \<longrightarrow> T n fp) \<and>
     (\<forall>n fp. kh_hosts (nd_known nd) n = Some fp \<longrightarrow> T n fp)"

lemma loop_ok_keeps:
  assumes "loop_ok T c nd l" "keeps (nd_approver nd) (nd_approver nd')"
  shows "loop_ok T c nd' l"
proof (cases "dl_phase l")
  case (DL_Wait p fp)
  then obtain r where r: "ap_heap (nd_approver nd) p = Some r" "pr_ClientName r = ct_Name (dc_target c)" "pr_Fingerprint r = fp"
    using assms(1) by (auto simp: loop_ok_def)
  then obtain r' where "ap_heap (nd_approver nd') p = Some r'" "pr_ClientName r' = pr_ClientName r" "pr_Fingerprint r' = pr_Fingerprint r"
    using assms(2) unfolding keeps_def by blast
  then show ?thesis using assms(1) DL_Wait r by (simp add: loop_ok_def)
qed (use assms(1) in \<open>simp_all add: loop_ok_def\<close>)

lemma loop_ok_mono:
  assumes "loop_ok T c nd l" "\<And>n fp. T n fp \<Longrightarrow> T' n fp"
  shows "loop_ok T' c nd l"
  using assms unfolding loop_ok_def by (cases "dl_phase l") (auto split: peer.splits)

lemma node_ok_mono: "node_ok T nd \<Longrightarrow> (\<And>n fp. T n fp \<Longrightarrow> T' n fp) \<Longrightarrow> node_ok T' nd"
  by (simp add: node_ok_def)

lemma node_ok_frame:
  "nd_known nd' = nd_known nd \<Longrightarrow> nd_approver nd' = nd_approver nd \<Longrightarrow> node_ok T nd' = node_ok T nd"
  by (simp add: node_ok_def)

lemma loop_ok_retry: "loop_ok T c nd l \<Longrightarrow> loop_ok T c nd' (retry rand reset nd'' (l\<lparr>dl_conn := k\<rparr>))"
  using retry_phase [of rand reset nd'' "l\<lparr>dl_conn := k\<rparr>"] by (auto simp: loop_ok_def)

text \<open>One step of a loop keeps both invariants and every request.\<close>

lemma loop_step_ok:
  assumes "dialClientLoop marshal c inp (l, nd) = Some (l', nd')" "loop_ok T c nd l" "node_ok T nd"
    and auto_ok: "\<And>fp. dc_autoApprove c \<Longrightarrow> T (ct_Name (dc_target c)) fp"
  shows "loop_ok T c nd' l' \<and> node_ok T nd' \<and> keeps (nd_approver nd) (nd_approver nd')"
  using assms(1)
proof (cases rule: dialClientLoop_cases)
  case top
  then show ?thesis using assms(2,3) by (auto simp: loop_ok_def)
next
  case (dial_fails rand)
  then show ?thesis using assms(2,3) loop_ok_retry [of T c nd l nd rand False nd "dl_conn l"] by simp
next
  case (dialled k p)
  then show ?thesis using assms(2,3) by (simp add: loop_ok_def)
next
  case (gate p now ph)
  note f = tofuCheck_begin_effect [OF gate(2)]
  have "T (ct_Name (dc_target c)) fp" if "kh_hosts (nd_known nd) (ct_Name (dc_target c)) = Some fp" for fp
    using assms(3) that by (simp add: node_ok_def)
  then have "loop_ok T c nd' l'" using f(5) assms(2) auto_ok by (auto simp: loop_ok_def gate(3))
  then show ?thesis using assms(3) node_ok_frame [OF f(1,2)] by (simp add: f)
next
  case (submit fp now p a)
  note f = Submit_effect [OF _ submit(2)]
  have st: "state_ok (nd_approver nd)" using assms(3) by (simp add: node_ok_def)
  have "node_ok T nd'" using assms(3) f(1,3) [OF st] by (auto simp: node_ok_def submit(4))
  moreover have "loop_ok T c nd' l'" using assms(2) f(4) [OF st] by (auto simp: loop_ok_def submit(3,4))
  ultimately show ?thesis using f(2) [OF st] by (simp add: submit(4))
next
  case (decided p fp now d a ph)
  have st: "state_ok (nd_approver nd)" using assms(3) by (simp add: node_ok_def)
  note t = take_decision_effect [OF st decided(2)]
  note f = tofuCheck_decided_effect [OF decided(3)]
  obtain r where r: "ap_heap (nd_approver nd) p = Some r" "pr_ClientName r = ct_Name (dc_target c)" "pr_Fingerprint r = fp"
    using assms(2) decided(1) by (auto simp: loop_ok_def)
  then have "d = DecisionApproved \<Longrightarrow> T (ct_Name (dc_target c)) fp"
    using t(4) assms(3) by (auto simp: node_ok_def)
  then have "loop_ok T c nd' l'" using f(5) assms(2) by (auto simp: loop_ok_def decided(4))
  moreover have "node_ok T nd'" using assms(3) t(1,3) by (auto simp: node_ok_def f(1,2))
  ultimately show ?thesis using t(2) by (simp add: f(2))
next
  case (cancelled p fp now ph)
  note f = tofuCheck_decided_effect [OF cancelled(3)]
  have r: "reg_name (nd_approver nd) p = Some (ct_Name (dc_target c))"
    using assms(2) cancelled(1) by (auto simp: loop_ok_def reg_name_def)
  have "state_ok (Submit_cleanup p (ct_Name (dc_target c)) (nd_approver nd))"
    using assms(3) r by (intro state_ok_cleanup) (simp_all add: node_ok_def)
  then have "node_ok T nd'" using assms(3)
    by (auto simp: node_ok_def f(1,2) granted_def)
  moreover have "loop_ok T c nd' l'" using f(5) assms(2) by (auto simp: loop_ok_def cancelled(4))
  ultimately show ?thesis by (simp add: f(2) keeps_heap)
next
  case (add b fp now wo ph)
  note f = tofuCheck_add_effect [OF add(2)]
  have T: "T (ct_Name (dc_target c)) fp" using assms(2) add(1) by (simp add: loop_ok_def)
  have "loop_ok T c nd' l'" using f(5) assms(2) T by (auto simp: loop_ok_def add(3))
  moreover have "node_ok T nd'" using assms(3) T by (auto simp: node_ok_def f(1,2))
  ultimately show ?thesis by (simp add: f(2))
next
  case (refused rand)
  then show ?thesis using assms(2,3) loop_ok_retry [of T c nd l] by simp
next
  case (accepted p now)
  then have "l' = goto DL_Session (l\<lparr>dl_sessions := dl_sessions l @ [p]\<rparr>)" "nd_known nd' = nd_known nd"
    "nd_approver nd' = nd_approver nd"
    by (auto simp: session_begins_def)
  then show ?thesis using assms(2,3) accepted(1) node_ok_frame [of nd' nd T]
    by (auto simp: loop_ok_def split: peer.splits)
next
  case (ends now rand)
  then have "nd_known nd' = nd_known nd" "nd_approver nd' = nd_approver nd"
    "l' = retry rand True nd' (l\<lparr>dl_conn := None\<rparr>)"
    by (auto simp: session_ends_def Let_def)
  then show ?thesis using assms(2,3) node_ok_frame [of nd' nd T] loop_ok_retry [of T c nd l nd' rand True nd' None] by simp
next
  case (timer d reset)
  then show ?thesis using assms(2,3) by (auto simp: loop_ok_def)
next
  case (pause_cancelled d reset)
  then show ?thesis using assms(2,3) by (auto simp: loop_ok_def)
qed

text \<open>An authorised click on \<open>approve\<close> for a name.\<close>

definition approves :: "AdminServer \<Rightarrow> AdminReq \<Rightarrow> string \<Rightarrow> bool" where
  "approves s r n \<longleftrightarrow> admin_authorised s r \<and> aq_path r = ''/api/decide'' \<and> aq_method r = POST \<and>
     aq_query r ''name'' = n \<and> aq_query r ''action'' = ''approve''"

lemma admin_step_ok:
  assumes "node_ok T nd" "nd' = snd (admin_serve static marshal wo s r nd)"
    and appr: "\<And>n fp. approves s r n \<Longrightarrow> shown nd n = Some fp \<Longrightarrow> T n fp"
  shows "node_ok T nd' \<and> keeps (nd_approver nd) (nd_approver nd')"
proof (cases "nd' = nd")
  case True
  then show ?thesis using assms(1) by simp
next
  case False
  then have auth: "admin_authorised s r" and ch: "nd' \<in> admin_change marshal wo r nd"
    using admin_serve_change [of static marshal wo s r nd] assms(2) by auto
  consider
      (drop) "nd_approver nd' = nd_approver nd" "nd_known nd' = KH_drop (aq_query r ''name'') (nd_known nd)"
    | (decide) "aq_path r = ''/api/decide''" "aq_method r = POST" "nd_known nd' = nd_known nd"
        "nd_approver nd' = snd (Decide (aq_query r ''name'') (aq_query r ''action'' = ''approve'') (nd_approver nd))"
    | (other) "nd_approver nd' = nd_approver nd" "nd_known nd' = nd_known nd"
    using ch unfolding admin_change_def by fastforce
  then show ?thesis
  proof cases
    case drop
    then show ?thesis using assms(1) by (auto simp: node_ok_def KH_drop_def split: if_splits)
  next
    case decide
    let ?n = "aq_query r ''name''" and ?b = "aq_query r ''action'' = ''approve''"
    obtain ok a where d: "Decide ?n ?b (nd_approver nd) = (ok, a)" by fastforce
    have st: "state_ok (nd_approver nd)" using assms(1) by (simp add: node_ok_def)
    note e = Decide_effect [OF st d]
    have "T ?n fp" if "?b" "shown nd ?n = Some fp" for fp
      using appr [of ?n fp] that auth decide(1,2) by (simp add: approves_def)
    then have "\<forall>n fp. (n, fp) \<in> granted a \<longrightarrow> T n fp"
      using e(3) assms(1) unfolding node_ok_def by blast
    then show ?thesis using e(1,2) assms(1) decide(3,4) d by (simp add: node_ok_def)
  next
    case other
    then show ?thesis using assms(1) by (simp add: node_ok_def)
  qed
qed

text \<open>The approval happened while the operator's list showed this fingerprint for the name.\<close>

definition operator_approved ::
  "(AdminReq \<Rightarrow> AdminResp) \<Rightarrow> (knownHost list \<Rightarrow> bytes option) \<Rightarrow> AdminServer \<Rightarrow> dial_cfg list \<Rightarrow> system
   \<Rightarrow> sys_event list \<Rightarrow> string \<Rightarrow> string \<Rightarrow> bool" where
  "operator_approved static marshal s cs start evs n fp \<longleftrightarrow>
     (\<exists>before r wo later sys. evs = before @ SE_Admin r wo # later \<and> sys_run static marshal s cs start before sys \<and>
        approves s r n \<and> shown (sy_node sys) n = Some fp)"

definition vouched ::
  "(AdminReq \<Rightarrow> AdminResp) \<Rightarrow> (knownHost list \<Rightarrow> bytes option) \<Rightarrow> AdminServer \<Rightarrow> dial_cfg list \<Rightarrow> system
   \<Rightarrow> sys_event list \<Rightarrow> string \<Rightarrow> string \<Rightarrow> bool" where
  "vouched static marshal s cs start evs n fp \<longleftrightarrow>
     kh_hosts (nd_known (sy_node start)) n = Some fp \<or>
     (\<exists>c \<in> set cs. ct_Name (dc_target c) = n \<and> dc_autoApprove c) \<or>
     operator_approved static marshal s cs start evs n fp"

lemma vouched_snoc:
  "vouched static marshal s cs start evs n fp \<Longrightarrow> vouched static marshal s cs start (evs @ [ev]) n fp"
  unfolding vouched_def operator_approved_def by (metis append.assoc append_Cons)

definition sys_ok :: "(string \<Rightarrow> string \<Rightarrow> bool) \<Rightarrow> dial_cfg list \<Rightarrow> system \<Rightarrow> bool" where
  "sys_ok T cs sys \<longleftrightarrow> length (sy_loops sys) = length cs \<and> node_ok T (sy_node sys) \<and>
     (\<forall>i < length cs. loop_ok T (cs ! i) (sy_node sys) (sy_loops sys ! i))"

lemma sys_ok_start:
  assumes "\<And>n fp. kh_hosts k n = Some fp \<Longrightarrow> T n fp"
  shows "sys_ok T cs (sys_start cs k disk)"
  using assms
  by (simp add: sys_ok_def sys_start_def node_ok_def loop_ok_def dial_start_def NewApprover_def state_ok_def granted_def)

lemma sys_ok_node:
  assumes "sys_ok T cs sys" "sy_loops sys' = sy_loops sys" "node_ok T (sy_node sys')"
    and "keeps (nd_approver (sy_node sys)) (nd_approver (sy_node sys'))"
  shows "sys_ok T cs sys'"
  using assms(1-3) loop_ok_keeps [OF _ assms(4)] by (simp add: sys_ok_def)

lemma sys_ok_same:
  assumes "sys_ok T cs sys" "sy_loops sys' = sy_loops sys" "nd_known (sy_node sys') = nd_known (sy_node sys)"
    and "nd_approver (sy_node sys') = nd_approver (sy_node sys)"
  shows "sys_ok T cs sys'"
  using assms(1) node_ok_frame [OF assms(3,4), of T] by (intro sys_ok_node [OF assms(1,2)]) (simp_all add: sys_ok_def assms(4))

lemma sys_ok_step:
  assumes "sys_ok T cs sys" "sys_step static marshal s cs ev sys = Some sys'"
    and auto_ok: "\<And>c fp. c \<in> set cs \<Longrightarrow> dc_autoApprove c \<Longrightarrow> T (ct_Name (dc_target c)) fp"
    and appr: "\<And>r wo n fp. ev = SE_Admin r wo \<Longrightarrow> approves s r n \<Longrightarrow> shown (sy_node sys) n = Some fp \<Longrightarrow> T n fp"
  shows "sys_ok T cs sys'"
proof -
  note ok = assms(1) [unfolded sys_ok_def]
  show ?thesis
  proof (cases ev)
    case (SE_Loop i inp)
    then obtain l nd where st: "i < length cs" "dialClientLoop marshal (cs ! i) inp (sy_loops sys ! i, sy_node sys) = Some (l, nd)"
      and sys': "sys' = \<lparr>sy_loops = (sy_loops sys)[i := l], sy_node = nd\<rparr>"
      using assms(2) by (auto split: if_splits option.splits)
    have "loop_ok T (cs ! i) nd l \<and> node_ok T nd \<and> keeps (nd_approver (sy_node sys)) (nd_approver nd)"
      using ok st(1) auto_ok by (intro loop_step_ok [OF st(2)]) auto
    then show ?thesis using ok st(1)
      by (auto simp: sys_ok_def sys' nth_list_update intro: loop_ok_keeps)
  next
    case (SE_Admin r wo)
    have "node_ok T (sy_node sys') \<and> keeps (nd_approver (sy_node sys)) (nd_approver (sy_node sys'))"
      using ok assms(2) appr SE_Admin by (intro admin_step_ok) auto
    moreover have "sy_loops sys' = sy_loops sys" using assms(2) SE_Admin by auto
    ultimately show ?thesis using sys_ok_node [OF assms(1)] by blast
  next
    case SE_Cancel
    then show ?thesis using assms(2) by (intro sys_ok_same [OF assms(1)]) auto
  next
    case (SE_Other reg mgr eb)
    then show ?thesis using assms(2) by (intro sys_ok_same [OF assms(1)]) auto
  qed
qed

lemma sys_ok_mono:
  assumes "sys_ok T cs sys" "\<And>n fp. T n fp \<Longrightarrow> T' n fp"
  shows "sys_ok T' cs sys"
  using assms node_ok_mono [of T "sy_node sys" T'] loop_ok_mono [of T _ "sy_node sys" _ T']
  unfolding sys_ok_def by blast

lemma sys_run_vouched:
  assumes "sys_run static marshal s cs start evs sys" "start = sys_start cs k disk"
  shows "sys_ok (vouched static marshal s cs start evs) cs sys"
  using assms(1)
proof (induction rule: sys_run.induct)
  case init
  then show ?case using sys_ok_start [of k _ cs disk] assms(2) by (simp add: vouched_def sys_start_def)
next
  case (event evs sys ev sys')
  let ?T = "vouched static marshal s cs start (evs @ [ev])"
  have "sys_ok ?T cs sys" using event.IH vouched_snoc by (rule sys_ok_mono)
  then show ?case
  proof (rule sys_ok_step [OF _ event.hyps(2)])
    fix c fp assume "c \<in> set cs" "dc_autoApprove c"
    then show "?T (ct_Name (dc_target c)) fp" by (auto simp: vouched_def)
  next
    fix r wo n fp assume "ev = SE_Admin r wo" "approves s r n" "shown (sy_node sys) n = Some fp"
    then have "operator_approved static marshal s cs start (evs @ [ev]) n fp"
      unfolding operator_approved_def using event.hyps(1) by blast
    then show "?T n fp" by (simp add: vouched_def)
  qed
qed

text \<open>
  C4. No unvouched peer gets a session. However the dial loops, the operator's requests, the
  shutdown and the other connections interleave, a session over TLS starts only after a certificate
  was presented whose fingerprint was stored for that name at the start, or the name is set to
  auto-approve, or an authorised operator approved the name at a moment when the list of pending
  requests showed exactly this fingerprint for it.
\<close>

theorem session_certificate_vouched:
  assumes "sys_run static marshal s cs (sys_start cs k disk) evs sys" "i < length cs"
    and "P_TLS x \<in> set (dl_sessions (sy_loops sys ! i))"
  shows "\<exists>fp. x = Some fp \<and>
     (kh_hosts k (ct_Name (dc_target (cs ! i))) = Some fp \<or>
      (\<exists>c \<in> set cs. ct_Name (dc_target c) = ct_Name (dc_target (cs ! i)) \<and> dc_autoApprove c) \<or>
      operator_approved static marshal s cs (sys_start cs k disk) evs (ct_Name (dc_target (cs ! i))) fp)"
proof -
  have "sys_ok (vouched static marshal s cs (sys_start cs k disk) evs) cs sys"
    using sys_run_vouched [OF assms(1)] by simp
  then obtain fp where "x = Some fp" "vouched static marshal s cs (sys_start cs k disk) evs (ct_Name (dc_target (cs ! i))) fp"
    using assms(2,3) unfolding sys_ok_def loop_ok_def by blast
  then show ?thesis by (simp add: vouched_def sys_start_def)
qed

subsection \<open>A name keeps its certificate\<close>

text \<open>\<open>h\<close> is the entry stored under the loop's name.\<close>

definition pinned :: "string option \<Rightarrow> dial_loop \<Rightarrow> bool" where
  "pinned h l \<longleftrightarrow>
     (case dl_phase l of
        DL_Submit fp \<Rightarrow> h = None
      | DL_Wait p fp \<Rightarrow> h = None
      | DL_Add b fp \<Rightarrow> h = None
      | DL_Accepted (P_TLS x) \<Rightarrow> x \<noteq> None \<and> h = x
      | _ \<Rightarrow> True) \<and>
     (\<forall>x. P_TLS x \<in> set (dl_sessions l) \<longrightarrow> x \<noteq> None \<and> h = x)"

lemma pinned_retry: "pinned h l \<Longrightarrow> pinned h (retry rand reset nd (l\<lparr>dl_conn := k\<rparr>))"
  using retry_phase [of rand reset nd "l\<lparr>dl_conn := k\<rparr>"] by (auto simp: pinned_def)

lemma loop_step_hosts:
  assumes "dialClientLoop marshal c inp (l, nd) = Some (l', nd')"
  shows "(n \<noteq> ct_Name (dc_target c) \<longrightarrow> kh_hosts (nd_known nd') n = kh_hosts (nd_known nd) n) \<and>
    (pinned (kh_hosts (nd_known nd) (ct_Name (dc_target c))) l \<longrightarrow>
     pinned (kh_hosts (nd_known nd') (ct_Name (dc_target c))) l')"
  using assms
proof (cases rule: dialClientLoop_cases)
  case (dial_fails rand)
  then show ?thesis using pinned_retry [of _ l rand False nd "dl_conn l"] by simp
next
  case (gate p now ph)
  then show ?thesis using tofuCheck_begin_effect [OF gate(2)] by (auto simp: pinned_def)
next
  case (decided p fp now d a ph)
  then show ?thesis using tofuCheck_decided_effect [OF decided(3)] by (auto simp: pinned_def)
next
  case (cancelled p fp now ph)
  then show ?thesis using tofuCheck_decided_effect [OF cancelled(3)] by (auto simp: pinned_def)
next
  case (add b fp now wo ph)
  then show ?thesis using tofuCheck_add_effect [OF add(2)] by (auto simp: pinned_def)
next
  case (accepted p now)
  then show ?thesis by (auto simp: pinned_def session_begins_def split: peer.splits)
next
  case (ends now rand)
  then show ?thesis using pinned_retry [of _ l rand True nd' None] by (auto simp: session_ends_def Let_def)
next
  case (refused rand)
  then show ?thesis using pinned_retry by simp
qed (auto simp: pinned_def)

text \<open>An authorised request to forget a name.\<close>

definition forgets :: "AdminServer \<Rightarrow> AdminReq \<Rightarrow> string \<Rightarrow> bool" where
  "forgets s r n \<longleftrightarrow> admin_authorised s r \<and> aq_path r = ''/api/known-hosts'' \<and> aq_method r = DELETE \<and> aq_query r ''name'' = n"

lemma admin_hosts:
  assumes "\<not> forgets s r n"
  shows "kh_hosts (nd_known (snd (admin_serve static marshal wo s r nd))) n = kh_hosts (nd_known nd) n"
proof (rule ccontr)
  assume diff: "\<not> ?thesis"
  then have "snd (admin_serve static marshal wo s r nd) \<noteq> nd" by (rule contrapos_nn) simp
  then have ch: "admin_authorised s r" "snd (admin_serve static marshal wo s r nd) \<in> admin_change marshal wo r nd"
    by (simp_all add: admin_serve_change)
  then show False using diff assms by (auto simp: admin_change_def KH_drop_def forgets_def split: if_splits)
qed

lemma pinned_step:
  assumes "sys_step static marshal s cs ev sys = Some sys'"
    and "distinct (map (\<lambda>c. ct_Name (dc_target c)) cs)" "i < length cs" "length (sy_loops sys) = length cs"
    and "\<And>r wo. ev = SE_Admin r wo \<Longrightarrow> \<not> forgets s r (ct_Name (dc_target (cs ! i)))"
    and pin: "pinned (kh_hosts (nd_known (sy_node sys)) (ct_Name (dc_target (cs ! i)))) (sy_loops sys ! i)"
  shows "pinned (kh_hosts (nd_known (sy_node sys')) (ct_Name (dc_target (cs ! i)))) (sy_loops sys' ! i)"
proof (cases ev)
  case (SE_Loop j inp)
  then obtain l nd where st: "j < length cs" "dialClientLoop marshal (cs ! j) inp (sy_loops sys ! j, sy_node sys) = Some (l, nd)"
    and sys': "sys' = \<lparr>sy_loops = (sy_loops sys)[j := l], sy_node = nd\<rparr>"
    using assms(1) by (auto split: if_splits option.splits)
  note h = loop_step_hosts [OF st(2), of "ct_Name (dc_target (cs ! i))"]
  show ?thesis
  proof (cases "j = i")
    case True
    then show ?thesis using h pin assms(3,4) by (simp add: sys')
  next
    case False
    then have "ct_Name (dc_target (cs ! i)) \<noteq> ct_Name (dc_target (cs ! j))"
      using assms(2,3) st(1) by (metis length_map nth_eq_iff_index_eq nth_map)
    then show ?thesis using h pin False by (simp add: sys')
  qed
next
  case (SE_Admin r wo)
  then have sys': "sys' = sys\<lparr>sy_node := snd (admin_serve static marshal wo s r (sy_node sys))\<rparr>" using assms(1) by simp
  show ?thesis using admin_hosts [OF assms(5) [OF SE_Admin], of static marshal wo "sy_node sys"] pin by (simp add: sys')
next
  case SE_Cancel
  then show ?thesis using assms(1) pin by auto
next
  case (SE_Other reg mgr eb)
  then show ?thesis using assms(1) pin by auto
qed

lemma sys_run_length:
  "sys_run static marshal s cs start evs sys \<Longrightarrow> length (sy_loops start) = length cs \<Longrightarrow> length (sy_loops sys) = length cs"
proof (induction rule: sys_run.induct)
  case (event evs sys ev sys')
  then show ?case by (cases ev) (auto split: if_splits option.splits)
qed

lemma sys_run_pinned:
  assumes "sys_run static marshal s cs start evs sys" "start = sys_start cs k disk"
    and "distinct (map (\<lambda>c. ct_Name (dc_target c)) cs)" "i < length cs"
    and "\<forall>r wo. SE_Admin r wo \<in> set evs \<longrightarrow> \<not> forgets s r (ct_Name (dc_target (cs ! i)))"
  shows "pinned (kh_hosts (nd_known (sy_node sys)) (ct_Name (dc_target (cs ! i)))) (sy_loops sys ! i)"
  using assms(1,5)
proof (induction rule: sys_run.induct)
  case init
  then show ?case using assms(2,4) by (simp add: sys_start_def pinned_def dial_start_def)
next
  case (event evs sys ev sys')
  have "length (sy_loops sys) = length cs"
    using sys_run_length [OF event.hyps(1)] assms(2) by (simp add: sys_start_def)
  then show ?case using event by (intro pinned_step [OF event.hyps(2) assms(3,4)]) auto
qed

text \<open>
  C10. A name keeps its certificate. As long as no authorised request forgets a name (and no two
  targets share it), all TLS sessions of its dial loop ran with one and the same certificate, the one
  stored for the name now, whatever the other loops, the operator and the file system did.
\<close>

theorem name_keeps_certificate:
  assumes "sys_run static marshal s cs (sys_start cs k disk) evs sys" "i < length cs"
    and "distinct (map (\<lambda>c. ct_Name (dc_target c)) cs)"
    and "\<forall>r wo. SE_Admin r wo \<in> set evs \<longrightarrow> \<not> forgets s r (ct_Name (dc_target (cs ! i)))"
    and "P_TLS x \<in> set (dl_sessions (sy_loops sys ! i))"
  shows "x \<noteq> None \<and> kh_hosts (nd_known (sy_node sys)) (ct_Name (dc_target (cs ! i))) = x"
  using sys_run_pinned [OF assms(1) refl assms(3,2,4)] assms(5) by (simp add: pinned_def)

subsection \<open>A run\<close>

fun sys_exec ::
  "(AdminReq \<Rightarrow> AdminResp) \<Rightarrow> (knownHost list \<Rightarrow> bytes option) \<Rightarrow> AdminServer \<Rightarrow> dial_cfg list \<Rightarrow> sys_event list
   \<Rightarrow> system \<Rightarrow> system option" where
  "sys_exec static marshal s cs [] sys = Some sys"
| "sys_exec static marshal s cs (ev # evs) sys =
     (case sys_step static marshal s cs ev sys of None \<Rightarrow> None | Some sys' \<Rightarrow> sys_exec static marshal s cs evs sys')"

lemma sys_exec_run:
  "sys_run static marshal s cs start past sys \<Longrightarrow> sys_exec static marshal s cs evs sys = Some sys' \<Longrightarrow>
   sys_run static marshal s cs start (past @ evs) sys'"
proof (induction evs arbitrary: past sys)
  case Nil
  then show ?case by simp
next
  case (Cons ev evs)
  then obtain sys1 where s1: "sys_step static marshal s cs ev sys = Some sys1"
      and s2: "sys_exec static marshal s cs evs sys1 = Some sys'"
    by (auto split: option.splits)
  show ?case using Cons.IH [OF sys_run.event [OF Cons.prems(1) s1] s2] by simp
qed

definition web :: dial_cfg where
  "web = \<lparr>dc_target = \<lparr>ct_Name = ''web'', ct_Address = ''10.0.0.5:8443'', ct_AuthToken = []\<rparr>, dc_autoApprove = False\<rparr>"

definition operator :: AdminServer where
  "operator = WithEvents (WithApproval (NewAdmin ''t0''))"

definition no_known :: KnownHosts where
  "no_known = \<lparr>kh_path = [], kh_hosts = Map.empty\<rparr>"

text \<open>The gate asks, the operator approves, the session starts, is lost, and the next one needs nobody.\<close>

definition before_click :: "sys_event list" where
  "before_click =
     [SE_Loop 0 (I_Step 1), SE_Loop 0 (I_Dialled 7 (P_TLS (Some ''fp''))), SE_Loop 0 (I_Step 2), SE_Loop 0 (I_Step 3)]"

definition after_click :: "sys_event list" where
  "after_click = [SE_Loop 0 (I_Step 4), SE_Loop 0 (I_Write 5 WriteOK), SE_Loop 0 (I_Step 6)]"

abbreviation "no_file \<equiv> (\<lambda>_ :: AdminReq. writeJSON (B_File []))"
abbreviation "no_yaml \<equiv> (\<lambda>_ :: knownHost list. None :: bytes option)"

lemma run_before_click:
  "\<exists>sys. sys_exec no_file no_yaml operator [web] before_click (sys_start [web] no_known Map.empty) = Some sys \<and>
     length (sy_loops sys) = 1 \<and> dl_phase (sy_loops sys ! 0) = DL_Wait 0 ''fp'' \<and> dl_sessions (sy_loops sys ! 0) = [] \<and>
     nd_known (sy_node sys) = no_known \<and> shown (sy_node sys) ''web'' = Some ''fp'' \<and>
     ap_pending (nd_approver (sy_node sys)) ''web'' = Some 0 \<and>
     (\<exists>r. ap_heap (nd_approver (sy_node sys)) 0 = Some r \<and> pr_decision r = None)"
  by (simp add: before_click_def sys_start_def dialClientLoop_def dial_start_def goto_def web_def tofuCheck_begin_def
      KH_Lookup_def no_known_def publish_def Submit_start_def NewApprover_def Let_def shown_def)

definition click :: AdminReq where
  "click = decide_req ''Bearer t0''"

lemma click_served:
  assumes "ap_pending (nd_approver nd) ''web'' = Some p" "ap_heap (nd_approver nd) p = Some r" "pr_decision r = None"
  shows "snd (admin_serve static marshal wo operator click nd) =
    nd\<lparr>nd_approver := (nd_approver nd)\<lparr>ap_heap := (ap_heap (nd_approver nd))(p \<mapsto> r\<lparr>pr_decision := Some DecisionApproved\<rparr>)\<rparr>\<rparr>"
proof -
  have op: "ad_approver operator" "admin_authorised operator click"
    by (simp_all add: operator_def WithEvents_def WithApproval_def NewAdmin_def admin_authorised_def click_def decide_req_def)
  have d: "Decide ''web'' True (nd_approver nd) =
      (True, (nd_approver nd)\<lparr>ap_heap := (ap_heap (nd_approver nd))(p \<mapsto> r\<lparr>pr_decision := Some DecisionApproved\<rparr>)\<rparr>)"
    using assms by (simp add: Decide_def try_send_def)
  show ?thesis using op(2)
    unfolding click_def decide_route authMiddleware_eq handleDecide_req [OF op(1) d] by simp
qed

lemma run_after_click:
  assumes "length (sy_loops sys) = 1" "dl_phase (sy_loops sys ! 0) = DL_Wait 0 ''fp''" "dl_sessions (sy_loops sys ! 0) = []"
    and "ap_heap (nd_approver (sy_node sys)) 0 = Some r" "pr_decision r = Some DecisionApproved"
    and "nd_known (sy_node sys) = no_known"
  shows "\<exists>sys'. sys_exec no_file no_yaml operator [web] after_click sys = Some sys' \<and>
     dl_phase (sy_loops sys' ! 0) = DL_Session \<and> dl_sessions (sy_loops sys' ! 0) = [P_TLS (Some ''fp'')]"
  using assms
  by (simp add: after_click_def dialClientLoop_def goto_def take_decision_def tofuCheck_decided_def tofuCheck_add_def
      KH_Add_def KH_put_def no_known_def writeLocked_def session_begins_def Let_def)

lemma sample_run:
  obtains sys sys' where
    "sys_run no_file no_yaml operator [web] (sys_start [web] no_known Map.empty) before_click sys"
    "shown (sy_node sys) ''web'' = Some ''fp''"
    "sys_run no_file no_yaml operator [web] (sys_start [web] no_known Map.empty)
       (before_click @ SE_Admin click WriteOK # after_click) sys'"
    "dl_phase (sy_loops sys' ! 0) = DL_Session" "dl_sessions (sy_loops sys' ! 0) = [P_TLS (Some ''fp'')]"
proof -
  obtain sys r where ex: "sys_exec no_file no_yaml operator [web] before_click (sys_start [web] no_known Map.empty) = Some sys"
    and sys: "length (sy_loops sys) = 1" "dl_phase (sy_loops sys ! 0) = DL_Wait 0 ''fp''" "dl_sessions (sy_loops sys ! 0) = []"
      "nd_known (sy_node sys) = no_known" "shown (sy_node sys) ''web'' = Some ''fp''"
      "ap_pending (nd_approver (sy_node sys)) ''web'' = Some 0" "ap_heap (nd_approver (sy_node sys)) 0 = Some r"
      "pr_decision r = None"
    using run_before_click by blast
  have run: "sys_run no_file no_yaml operator [web] (sys_start [web] no_known Map.empty) before_click sys"
    using sys_exec_run [OF sys_run.init ex] by simp
  define sys1 where "sys1 = sys\<lparr>sy_node := snd (admin_serve no_file no_yaml WriteOK operator click (sy_node sys))\<rparr>"
  have st: "sys_step no_file no_yaml operator [web] (SE_Admin click WriteOK) sys = Some sys1" by (simp add: sys1_def)
  obtain sys' where ex': "sys_exec no_file no_yaml operator [web] after_click sys1 = Some sys'"
    and sys': "dl_phase (sy_loops sys' ! 0) = DL_Session" "dl_sessions (sy_loops sys' ! 0) = [P_TLS (Some ''fp'')]"
    using run_after_click [of sys1 "r\<lparr>pr_decision := Some DecisionApproved\<rparr>"] sys
    by (auto simp: sys1_def click_served [OF sys(6-8)])
  have "sys_run no_file no_yaml operator [web] (sys_start [web] no_known Map.empty)
      (before_click @ SE_Admin click WriteOK # after_click) sys'"
    using sys_exec_run [OF sys_run.event [OF run st] ex'] by simp
  then show thesis using that run sys(5) sys' by blast
qed

theorem session_certificate_vouched_witness:
  "\<exists>sys evs. sys_run no_file no_yaml operator [web] (sys_start [web] no_known Map.empty) evs sys \<and>
     dl_sessions (sy_loops sys ! 0) = [P_TLS (Some ''fp'')] \<and>
     operator_approved no_file no_yaml operator [web] (sys_start [web] no_known Map.empty) evs ''web'' ''fp''"
proof (rule sample_run)
  fix sys sys'
  assume run: "sys_run no_file no_yaml operator [web] (sys_start [web] no_known Map.empty)
       (before_click @ SE_Admin click WriteOK # after_click) sys'"
    and s: "dl_sessions (sy_loops sys' ! 0) = [P_TLS (Some ''fp'')]"
  have nm: "ct_Name (dc_target ([web] ! 0)) = ''web''" by (simp add: web_def)
  have "operator_approved no_file no_yaml operator [web] (sys_start [web] no_known Map.empty)
      (before_click @ SE_Admin click WriteOK # after_click) ''web'' ''fp''"
    using session_certificate_vouched [OF run, of 0 "Some ''fp''"] s unfolding nm
    by (simp add: no_known_def web_def)
  then show ?thesis using run s by blast
qed

theorem name_keeps_certificate_witness:
  "\<exists>sys evs. sys_run no_file no_yaml operator [web] (sys_start [web] no_known Map.empty) evs sys \<and>
     dl_sessions (sy_loops sys ! 0) = [P_TLS (Some ''fp'')] \<and> kh_hosts (nd_known (sy_node sys)) ''web'' = Some ''fp''"
proof (rule sample_run)
  fix sys sys'
  let ?evs = "before_click @ SE_Admin click WriteOK # after_click"
  assume run: "sys_run no_file no_yaml operator [web] (sys_start [web] no_known Map.empty) ?evs sys'"
    and s: "dl_sessions (sy_loops sys' ! 0) = [P_TLS (Some ''fp'')]"
  have nm: "ct_Name (dc_target ([web] ! 0)) = ''web''" by (simp add: web_def)
  have "\<forall>r wo. SE_Admin r wo \<in> set ?evs \<longrightarrow> \<not> forgets operator r ''web''"
    by (simp add: before_click_def after_click_def forgets_def click_def decide_req_def)
  then have "kh_hosts (nd_known (sy_node sys')) ''web'' = Some ''fp''"
    using name_keeps_certificate [OF run, of 0 "Some ''fp''"] s unfolding nm by simp
  then show ?thesis using run s by blast
qed

text \<open>
  A certificate whose entry could not be written is refused once: the entry stays in memory, so the
  next connection with it passes the gate although the file does not list it.
\<close>

lemma unwritten_entry_trusted_next:
  assumes "kh_path (nd_known nd) \<noteq> []" "marshal (sorted_entries ((kh_hosts (nd_known nd))(ct_Name (dc_target c) \<mapsto> fp))) = Some data"
    and "tofuCheck_add marshal c now (WriteFails x) b fp nd = (ph, nd')"
  shows "ph = DL_Refused \<and> fst (tofuCheck_begin c now' (P_TLS (Some fp)) nd') = DL_Accepted (P_TLS (Some fp))"
  using assms
  by (auto simp: tofuCheck_add_def KH_Add_def KH_put_def writeLocked_def Let_def tofuCheck_begin_def KH_Lookup_def)

subsection \<open>The embedded loop\<close>

fun app_exec :: "dial_input list \<Rightarrow> dial_loop \<times> node \<Rightarrow> (dial_loop \<times> node) option" where
  "app_exec [] st = Some st"
| "app_exec (i # is) st = (case app_dialClientLoop i st of None \<Rightarrow> None | Some st' \<Rightarrow> app_exec is st')"

text \<open>Its loop has no gate: any certificate gets a session, whatever is stored for the name.\<close>

lemma embedded_loop_skips_gate:
  assumes "\<not> nd_cancelled nd"
  shows "map_option (\<lambda>(l, nd'). (dl_phase l, dl_sessions l, nd_known nd'))
     (app_exec [I_Step t, I_Dialled k (P_TLS (Some fp)), I_Step t'] (dial_start, nd)) =
     Some (DL_Session, [P_TLS (Some fp)], nd_known nd)"
  using assms by (simp add: app_dialClientLoop_def dial_start_def goto_def gauge_def)

end
