(* ===== verification/ServerShutdown.thy ===== *)
theory ServerShutdown
  imports ServerDialProps
begin

text \<open>
  The bookkeeping of the dial loops (open connections, the counters of the dashboard) and the end of
  every loop after the root context is cancelled.
\<close>

subsection \<open>Connections and counters\<close>

definition holds_conn :: "dial_phase \<Rightarrow> bool" where
  "holds_conn ph \<longleftrightarrow>
     (case ph of DL_Top \<Rightarrow> False | DL_Dial \<Rightarrow> False | DL_Pause _ _ \<Rightarrow> False | DL_Return \<Rightarrow> False | _ \<Rightarrow> True)"

definition in_session :: "dial_loop \<Rightarrow> nat" where
  "in_session l = of_bool (dl_phase l = DL_Session)"

definition counters :: "node \<Rightarrow> 64 word \<times> 64 word" where
  "counters nd = (ss_TotalConnections (sr_global (nd_stats nd)), ss_ActiveConnections (sr_global (nd_stats nd)))"

lemma counters_gauge: "counters (gauge x y nd) = (fst (counters nd) + x, snd (counters nd) + y)"
  by (simp add: counters_def gauge_def)

lemma counters_frame: "nd_stats nd' = nd_stats nd \<Longrightarrow> counters nd' = counters nd"
  by (simp add: counters_def)

lemma retry_not_session [simp]: "in_session (retry rand reset nd l) = 0" "\<not> holds_conn (dl_phase (retry rand reset nd l))"
  using retry_phase [of rand reset nd l] by (auto simp: in_session_def holds_conn_def)

text \<open>One step moves the counters by what it does to its own loop.\<close>

lemma loop_step_counts:
  assumes "dialClientLoop marshal c inp (l, nd) = Some (l', nd')" "(dl_conn l \<noteq> None) = holds_conn (dl_phase l)"
  shows "(dl_conn l' \<noteq> None) = holds_conn (dl_phase l') \<and>
    fst (counters nd') - of_nat (length (dl_sessions l')) = fst (counters nd) - of_nat (length (dl_sessions l)) \<and>
    snd (counters nd') - of_nat (in_session l') = snd (counters nd) - of_nat (in_session l)"
  using assms(1)
proof (cases rule: dialClientLoop_cases)
  case (gate p now ph)
  then show ?thesis using tofuCheck_begin_effect [OF gate(2)] assms(2)
    by (auto simp: in_session_def holds_conn_def counters_frame [of nd' nd])
next
  case (decided p fp now d a ph)
  then show ?thesis using tofuCheck_decided_effect [OF decided(3)] assms(2)
    by (auto simp: in_session_def holds_conn_def counters_frame [of nd' nd])
next
  case (cancelled p fp now ph)
  then show ?thesis using tofuCheck_decided_effect [OF cancelled(3)] assms(2)
    by (auto simp: in_session_def holds_conn_def counters_frame [of nd' nd])
next
  case (add b fp now wo ph)
  then show ?thesis using tofuCheck_add_effect [OF add(2)] assms(2)
    by (auto simp: in_session_def holds_conn_def counters_frame [of nd' nd])
next
  case (accepted p now)
  then show ?thesis using assms(2)
    by (auto simp: session_begins_def counters_gauge counters_frame [OF publish_frame(4)] in_session_def holds_conn_def)
next
  case (ends now rand)
  then show ?thesis
    by (auto simp: session_ends_def Let_def counters_gauge counters_frame [OF publish_frame(4)] in_session_def [of l])
next
  case (submit fp now p a)
  then show ?thesis using assms(2) counters_frame [of nd' nd] by (auto simp: in_session_def holds_conn_def)
next
  case (dial_fails rand)
  then show ?thesis using assms(2) by (simp add: in_session_def [of l] holds_conn_def [of DL_Dial])
next
  case (refused rand)
  then show ?thesis by (simp add: in_session_def [of l])
qed (use assms(2) in \<open>auto simp: in_session_def holds_conn_def\<close>)

lemma sum_list_map_update:
  fixes f :: "'a \<Rightarrow> nat"
  assumes "i < length xs"
  shows "of_nat (sum_list (map f (xs[i := x]))) = (of_nat (sum_list (map f xs)) - of_nat (f (xs ! i)) + of_nat (f x) :: 'b::ring_1)"
  using assms
proof (induction xs arbitrary: i)
  case (Cons a xs)
  then show ?case by (cases i) (simp_all add: algebra_simps)
qed simp

definition accounts :: "system \<Rightarrow> bool" where
  "accounts sys \<longleftrightarrow> (\<forall>l \<in> set (sy_loops sys). (dl_conn l \<noteq> None) = holds_conn (dl_phase l)) \<and>
     counters (sy_node sys) =
       (of_nat (sum_list (map (\<lambda>l. length (dl_sessions l)) (sy_loops sys))), of_nat (sum_list (map in_session (sy_loops sys))))"

lemma accounts_step:
  assumes "accounts sys" "sys_step static marshal s cs ev sys = Some sys'" "length (sy_loops sys) = length cs"
  shows "accounts sys'"
proof (cases ev)
  case (SE_Loop i inp)
  then obtain l nd where st: "i < length cs" "dialClientLoop marshal (cs ! i) inp (sy_loops sys ! i, sy_node sys) = Some (l, nd)"
    and sys': "sys' = \<lparr>sy_loops = (sy_loops sys)[i := l], sy_node = nd\<rparr>"
    using assms(2) by (auto split: if_splits option.splits)
  have i: "i < length (sy_loops sys)" using st(1) assms(3) by simp
  have "(dl_conn (sy_loops sys ! i) \<noteq> None) = holds_conn (dl_phase (sy_loops sys ! i))"
    using assms(1) i by (simp add: accounts_def)
  note c = loop_step_counts [OF st(2) this]
  have "\<forall>l' \<in> set ((sy_loops sys)[i := l]). (dl_conn l' \<noteq> None) = holds_conn (dl_phase l')"
    using c assms(1) set_update_subset_insert [of "sy_loops sys" i l] unfolding accounts_def by blast
  moreover have "counters nd =
      (of_nat (sum_list (map (\<lambda>l. length (dl_sessions l)) ((sy_loops sys)[i := l]))),
       of_nat (sum_list (map in_session ((sy_loops sys)[i := l]))))"
    using c assms(1) unfolding sum_list_map_update [OF i] accounts_def
    by (intro prod_eqI) (simp_all add: algebra_simps)
  ultimately show ?thesis by (simp add: accounts_def sys')
next
  case (SE_Admin r wo)
  have "counters (snd (admin_serve static marshal wo s r (sy_node sys))) = counters (sy_node sys)"
    using admin_serve_may_change [of marshal wo r "sy_node sys" static s]
    by (auto simp: may_change_def admin_change_def intro: counters_frame)
  then show ?thesis using assms(1,2) SE_Admin by (auto simp: accounts_def)
next
  case SE_Cancel
  then have "sy_loops sys' = sy_loops sys" "counters (sy_node sys') = counters (sy_node sys)"
    using assms(2) by (auto intro: counters_frame)
  then show ?thesis using assms(1) by (simp add: accounts_def)
next
  case (SE_Other reg mgr eb)
  then have "sy_loops sys' = sy_loops sys" "counters (sy_node sys') = counters (sy_node sys)"
    using assms(2) by (auto intro: counters_frame)
  then show ?thesis using assms(1) by (simp add: accounts_def)
qed

lemma accounts_run: "sys_run static marshal s cs start evs sys \<Longrightarrow> start = sys_start cs k disk \<Longrightarrow> accounts sys"
proof (induction rule: sys_run.induct)
  case init
  have zero: "sum_list (replicate n (0 :: nat)) = 0" for n by (induction n) simp_all
  show ?case using init
    by (auto simp: zero accounts_def sys_start_def counters_def NewRegistry_def dial_start_def holds_conn_def in_session_def)
next
  case (event evs sys ev sys')
  have "length (sy_loops sys) = length cs"
    using sys_run_length [OF event.hyps(1)] event.prems by (simp add: sys_start_def)
  then show ?case using accounts_step event by blast
qed

text \<open>
  C33. Nothing leaks and the dashboard counts right. In every reachable state a loop holds an open
  connection exactly while it is at the gate or in a session, the active counter is the number of
  running sessions and the total counter the number of sessions ever started (modulo \<open>2^64\<close>).
\<close>

theorem dial_accounting:
  assumes "sys_run static marshal s cs (sys_start cs k disk) evs sys" "l \<in> set (sy_loops sys)"
  shows "(dl_conn l \<noteq> None) = holds_conn (dl_phase l) \<and>
    ss_ActiveConnections (sr_global (nd_stats (sy_node sys))) = of_nat (sum_list (map in_session (sy_loops sys))) \<and>
    ss_TotalConnections (sr_global (nd_stats (sy_node sys))) =
      of_nat (sum_list (map (\<lambda>l. length (dl_sessions l)) (sy_loops sys)))"
  using accounts_run [OF assms(1) refl] assms(2) by (simp add: accounts_def counters_def)

theorem dial_accounting_witness:
  "\<exists>sys evs. sys_run no_file no_yaml operator [web] (sys_start [web] no_known Map.empty) evs sys \<and>
     dl_phase (sy_loops sys ! 0) = DL_Session \<and> ss_ActiveConnections (sr_global (nd_stats (sy_node sys))) = 1"
proof (rule sample_run)
  fix sys sys'
  assume run: "sys_run no_file no_yaml operator [web] (sys_start [web] no_known Map.empty)
       (before_click @ SE_Admin click WriteOK # after_click) sys'"
    and s: "dl_phase (sy_loops sys' ! 0) = DL_Session"
  have "length (sy_loops sys') = 1" using sys_run_length [OF run] by (simp add: sys_start_def)
  then obtain l where l: "sy_loops sys' = [l]" by (metis One_nat_def length_0_conv length_Suc_conv)
  then have "ss_ActiveConnections (sr_global (nd_stats (sy_node sys'))) = 1"
    using dial_accounting [OF run, of l] s by (simp add: in_session_def)
  then show ?thesis using run s by blast
qed

subsection \<open>Shutdown\<close>

definition rank :: "dial_phase \<Rightarrow> nat" where
  "rank ph =
     (case ph of DL_Return \<Rightarrow> 0 | DL_Top \<Rightarrow> 1 | DL_Pause _ _ \<Rightarrow> 2 | DL_Refused \<Rightarrow> 3 | DL_Session \<Rightarrow> 3 | DL_Accepted _ \<Rightarrow> 4
      | DL_Add _ _ \<Rightarrow> 5 | DL_Wait _ _ \<Rightarrow> 6 | DL_Submit _ \<Rightarrow> 7 | DL_Gate _ \<Rightarrow> 8 | DL_Dial \<Rightarrow> 9)"

lemma rank_retry: "rank (dl_phase (retry rand reset nd l)) \<le> 2"
  using retry_phase [of rand reset nd l] by (auto simp: rank_def)

lemma loop_step_rank:
  assumes "dialClientLoop marshal c inp (l, nd) = Some (l', nd')" "nd_cancelled nd"
  shows "rank (dl_phase l') < rank (dl_phase l) \<and> nd_cancelled nd'"
  using assms(1)
proof (cases rule: dialClientLoop_cases)
  case (dial_fails rand)
  then show ?thesis using rank_retry [of rand False nd l] assms(2) by (simp add: rank_def [of DL_Dial])
next
  case (gate p now ph)
  then show ?thesis using tofuCheck_begin_effect [OF gate(2)] assms(2) by (auto simp: rank_def)
next
  case (decided p fp now d a ph)
  then show ?thesis using tofuCheck_decided_effect [OF decided(3)] assms(2) by (auto simp: rank_def)
next
  case (cancelled p fp now ph)
  then show ?thesis using tofuCheck_decided_effect [OF cancelled(3)] assms(2) by (auto simp: rank_def)
next
  case (add b fp now wo ph)
  then show ?thesis using tofuCheck_add_effect [OF add(2)] assms(2) by (auto simp: rank_def)
next
  case (refused rand)
  then show ?thesis using rank_retry [of rand False nd "l\<lparr>dl_conn := None\<rparr>"] assms(2) by (simp add: rank_def [of DL_Refused])
next
  case (accepted p now)
  then show ?thesis using assms(2) by (auto simp: session_begins_def rank_def)
next
  case (ends now rand)
  then have "l' = retry rand True nd' (l\<lparr>dl_conn := None\<rparr>)" "nd_cancelled nd' = nd_cancelled nd"
    by (auto simp: session_ends_def Let_def)
  then show ?thesis using rank_retry [of rand True nd' "l\<lparr>dl_conn := None\<rparr>"] ends(1) assms(2)
    by (simp add: rank_def [of DL_Session])
qed (use assms(2) in \<open>auto simp: rank_def\<close>)

definition loop_step :: "nat \<Rightarrow> sys_event \<Rightarrow> bool" where
  "loop_step i ev = (case ev of SE_Loop j _ \<Rightarrow> j = i | _ \<Rightarrow> False)"

lemma cancelled_step:
  assumes "sys_step static marshal s cs ev sys = Some sys'" "nd_cancelled (sy_node sys)"
    and "length (sy_loops sys) = length cs" "i < length cs"
  shows "nd_cancelled (sy_node sys') \<and>
    rank (dl_phase (sy_loops sys' ! i)) + of_bool (loop_step i ev) \<le> rank (dl_phase (sy_loops sys ! i))"
proof (cases ev)
  case (SE_Loop j inp)
  then obtain l nd where st: "j < length cs" "dialClientLoop marshal (cs ! j) inp (sy_loops sys ! j, sy_node sys) = Some (l, nd)"
    and sys': "sys' = \<lparr>sy_loops = (sy_loops sys)[j := l], sy_node = nd\<rparr>"
    using assms(1) by (auto split: if_splits option.splits)
  show ?thesis using loop_step_rank [OF st(2) assms(2)] st(1) assms(3) SE_Loop
    by (cases "j = i") (simp_all add: sys' loop_step_def)
next
  case (SE_Admin r wo)
  have "nd_cancelled (snd (admin_serve static marshal wo s r (sy_node sys))) = nd_cancelled (sy_node sys)"
    using admin_serve_may_change [of marshal wo r "sy_node sys" static s]
    by (auto simp: may_change_def admin_change_def)
  then show ?thesis using assms SE_Admin by (auto simp: loop_step_def)
qed (use assms in \<open>auto simp: loop_step_def\<close>)

lemma cancelled_run:
  "sys_run static marshal s cs start evs sys \<Longrightarrow> nd_cancelled (sy_node start) \<Longrightarrow> length (sy_loops start) = length cs \<Longrightarrow>
   i < length cs \<Longrightarrow>
   nd_cancelled (sy_node sys) \<and>
   rank (dl_phase (sy_loops sys ! i)) + length (filter (loop_step i) evs) \<le> rank (dl_phase (sy_loops start ! i))"
proof (induction rule: sys_run.induct)
  case init
  then show ?case by simp
next
  case (event evs sys ev sys')
  have "length (sy_loops sys) = length cs" using sys_run_length [OF event.hyps(1) event.prems(2)] .
  then show ?case
    using event.IH [OF event.prems] cancelled_step [OF event.hyps(2), of i] event.prems(3)
    by (cases "loop_step i ev") simp_all
qed

lemma cancelled_enabled:
  assumes "nd_cancelled nd" "dl_phase l \<noteq> DL_Return"
  shows "\<exists>inp. dialClientLoop marshal c inp (l, nd) \<noteq> None"
proof (cases "dl_phase l")
  case DL_Top
  then have "dialClientLoop marshal c (I_Step 0) (l, nd) \<noteq> None" by (simp add: dialClientLoop_def)
  then show ?thesis by blast
next
  case DL_Dial
  then have "dialClientLoop marshal c (I_DialFails 0) (l, nd) \<noteq> None" by (simp add: dialClientLoop_def)
  then show ?thesis by blast
next
  case (DL_Gate p)
  then have "dialClientLoop marshal c (I_Step 0) (l, nd) \<noteq> None" by (simp add: dialClientLoop_def split: prod.split)
  then show ?thesis by blast
next
  case (DL_Submit fp)
  then have "dialClientLoop marshal c (I_Step 0) (l, nd) \<noteq> None" by (simp add: dialClientLoop_def split: prod.split)
  then show ?thesis by blast
next
  case (DL_Wait p fp)
  then have "dialClientLoop marshal c (I_CtxDone 0) (l, nd) \<noteq> None"
    using assms(1) by (simp add: dialClientLoop_def split: prod.split)
  then show ?thesis by blast
next
  case (DL_Add b fp)
  then have "dialClientLoop marshal c (I_Write 0 WriteOK) (l, nd) \<noteq> None" by (simp add: dialClientLoop_def split: prod.split)
  then show ?thesis by blast
next
  case DL_Refused
  then have "dialClientLoop marshal c (I_Close 0) (l, nd) \<noteq> None" by (simp add: dialClientLoop_def)
  then show ?thesis by blast
next
  case (DL_Accepted p)
  then have "dialClientLoop marshal c (I_Step 0) (l, nd) \<noteq> None" by (simp add: dialClientLoop_def)
  then show ?thesis by blast
next
  case DL_Session
  then have "dialClientLoop marshal c (I_SessionEnds 0 0) (l, nd) \<noteq> None" by (simp add: dialClientLoop_def)
  then show ?thesis by blast
next
  case (DL_Pause d reset)
  then have "dialClientLoop marshal c I_Timer (l, nd) \<noteq> None" by (simp add: dialClientLoop_def)
  then show ?thesis by blast
qed (use assms(2) in simp)

text \<open>
  C27. Shutdown ends. Once the root context is cancelled every dial loop makes at most nine more
  steps, whatever else happens, and a loop that has not returned always has a step it can take
  (provided the session it runs ends): so every loop returns.
\<close>

theorem dial_shutdown:
  assumes "sys_run static marshal s cs start evs sys" "nd_cancelled (sy_node start)"
    and "length (sy_loops start) = length cs" "i < length cs"
  shows "length (filter (loop_step i) evs) \<le> 9 \<and>
    (dl_phase (sy_loops sys ! i) = DL_Return \<or>
     (\<exists>inp. sys_step static marshal s cs (SE_Loop i inp) sys \<noteq> None))"
proof -
  note r = cancelled_run [OF assms]
  have "rank ph \<le> 9" for ph by (cases ph) (simp_all add: rank_def)
  then have "length (filter (loop_step i) evs) \<le> 9" using r by (meson le_trans add_leD2)
  moreover have "\<exists>inp. sys_step static marshal s cs (SE_Loop i inp) sys \<noteq> None"
    if "dl_phase (sy_loops sys ! i) \<noteq> DL_Return"
    using cancelled_enabled [OF conjunct1 [OF r] that, of marshal "cs ! i"] assms(4) by (auto split: option.split)
  ultimately show ?thesis by blast
qed

text \<open>A cancelled server whose only loop is at its top.\<close>

theorem dial_shutdown_witness:
  "\<exists>start sys. nd_cancelled (sy_node start) \<and> dl_phase (sy_loops start ! 0) = DL_Top \<and>
     sys_run no_file no_yaml operator [web] start [SE_Loop 0 (I_Step 1)] sys \<and> dl_phase (sy_loops sys ! 0) = DL_Return \<and>
     length (filter (loop_step 0) [SE_Loop 0 (I_Step 1)]) \<le> 9"
proof -
  let ?s0 = "sys_start [web] no_known Map.empty"
  let ?start = "?s0\<lparr>sy_node := (sy_node ?s0)\<lparr>nd_cancelled := True\<rparr>\<rparr>"
  have c: "nd_cancelled (sy_node ?start)" "length (sy_loops ?start) = length [web]" "dl_phase (sy_loops ?start ! 0) = DL_Top"
    by (simp_all add: sys_start_def dial_start_def)
  obtain sys where sys: "sys_step no_file no_yaml operator [web] (SE_Loop 0 (I_Step 1)) ?start = Some sys"
      "dl_phase (sy_loops sys ! 0) = DL_Return"
    by (simp add: sys_start_def dial_start_def dialClientLoop_def)
  have run: "sys_run no_file no_yaml operator [web] ?start [SE_Loop 0 (I_Step 1)] sys"
    using sys_run.event [OF sys_run.init sys(1)] by simp
  show ?thesis using dial_shutdown [OF run c(1,2), of 0] run c sys(2) by blast
qed

end
