(* ===== verification/TlsIdentity.thy ===== *)
theory TlsIdentity
  imports KnownHosts
begin

text \<open>
  \<open>internal/control/tls.go\<close>: the certificate a program presents is loaded from its two files, or
  generated and written there. The file system is a map from paths to contents. Key generation, the
  X.509 and PEM encodings are Go's: \<open>generated\<close> is what they give (or the error), \<open>keypair\<close> is
  \<open>tls.X509KeyPair\<close>, of which \<open>tls.LoadX509KeyPair\<close> is the form that reads both files.
\<close>

datatype cert_error = GenerateErr | WriteCertErr | WriteKeyErr | KeyPairErr

record cert_writes =
  cw_cert :: bool
  cw_key :: bool

definition fileExists :: "fs \<Rightarrow> string \<Rightarrow> bool" where
  "fileExists f path \<longleftrightarrow> f path \<noteq> None"

definition X509KeyPair :: "(bytes \<Rightarrow> bytes \<Rightarrow> 'c option) \<Rightarrow> bytes \<Rightarrow> bytes \<Rightarrow> cert_error + 'c" where
  "X509KeyPair keypair certPEM keyPEM = (case keypair certPEM keyPEM of None \<Rightarrow> Inl KeyPairErr | Some c \<Rightarrow> Inr c)"

text \<open>A failed write leaves the file as \<open>damaged\<close> says.\<close>

definition LoadOrGenerateCert ::
  "(bytes \<Rightarrow> bytes \<Rightarrow> 'c option) \<Rightarrow> (bytes \<times> bytes) option \<Rightarrow> cert_writes \<Rightarrow> bytes option \<Rightarrow> string \<Rightarrow> string \<Rightarrow> fs
   \<Rightarrow> (cert_error + 'c) \<times> fs" where
  "LoadOrGenerateCert keypair generated w damaged certFile keyFile f =
     (case (f certFile, f keyFile) of
        (Some certPEM, Some keyPEM) \<Rightarrow> (X509KeyPair keypair certPEM keyPEM, f)
      | _ \<Rightarrow>
          (case generated of
             None \<Rightarrow> (Inl GenerateErr, f)
           | Some (certPEM, keyPEM) \<Rightarrow>
               if \<not> cw_cert w then (Inl WriteCertErr, f(certFile := damaged))
               else (let f = f(certFile \<mapsto> certPEM)
                     in if \<not> cw_key w then (Inl WriteKeyErr, f(keyFile := damaged))
                        else (X509KeyPair keypair certPEM keyPEM, f(keyFile \<mapsto> keyPEM)))))"

lemma LoadOrGenerateCert_exists:
  "fileExists f certFile \<Longrightarrow> fileExists f keyFile \<Longrightarrow>
   LoadOrGenerateCert keypair g w d certFile keyFile f = (X509KeyPair keypair (the (f certFile)) (the (f keyFile)), f)"
  by (auto simp: LoadOrGenerateCert_def fileExists_def)

text \<open>
  A certificate survives a restart: after a start that succeeded, every later start presents the same
  certificate and writes nothing, whatever it could have generated. So the fingerprint that was
  approved stays the client's.
\<close>

lemma certificate_survives_restart:
  assumes "LoadOrGenerateCert keypair g w d certFile keyFile f = (Inr c, f')" "certFile \<noteq> keyFile"
  shows "LoadOrGenerateCert keypair g' w' d' certFile keyFile f' = (Inr c, f')"
  using assms
  by (auto simp: LoadOrGenerateCert_def Let_def split: option.splits if_splits)

text \<open>With one path for both files the second start cannot load what the first one wrote.\<close>

lemma one_path_for_both:
  "LoadOrGenerateCert keypair (Some (cert, key)) \<lparr>cw_cert = True, cw_key = True\<rparr> None p p Map.empty =
     (X509KeyPair keypair cert key, [p \<mapsto> key]) \<and>
   LoadOrGenerateCert keypair g w d p p [p \<mapsto> key] = (X509KeyPair keypair key key, [p \<mapsto> key])"
  by (simp add: LoadOrGenerateCert_def Let_def)

end
