(* ===== verification/ClientData.thy ===== *)
theory ClientData
  imports DataPath
begin

text \<open>
  The client's side of a data connection (\<open>internal/tunnel/client.go\<close>): the goroutine of
  \<open>HandleOpenConnection\<close> dials the server's data address, identifies itself with the connection's ID
  and token, dials the local service and relays. It shares nothing with the rest of the client, so it
  is a function from how its calls go to the effects it has, in their order. \<open>HandleSOCKSConnect\<close> is the
  counterpart of the server's old SOCKS5 listener. Keepalive settings and logging are left out.
\<close>

text \<open>
  Effects: a connection was opened to an address; a message was written whole; a relay ran over two
  connections; a connection was closed.
\<close>

datatype effect =
    E_Dial string conn
  | E_Hello conn DataConnHello
  | E_Ready SOCKSReady
  | E_Relay conn conn
  | E_Close conn

datatype open_error = OE_DialData string | OE_Hello | OE_DialLocal string | OE_Ready

definition hello :: "string \<Rightarrow> string \<Rightarrow> DataConnHello" where
  "hello connID token = \<lparr>DCH_ConnID = connID, DCH_Token = token\<rparr>"

text \<open>\<open>net.Dial\<close> gives an error text or a connection; deferred closes run in reverse order.\<close>

definition handleOpenConnAsync ::
  "string + conn \<Rightarrow> bool \<Rightarrow> string + conn \<Rightarrow> OpenConnection \<Rightarrow> string \<Rightarrow> effect list \<times> open_error option" where
  "handleOpenConnAsync dial_data hello_sent dial_local msg serverDataAddr =
     (case dial_data of
        Inl e \<Rightarrow> ([], Some (OE_DialData e))
      | Inr dataConn \<Rightarrow>
          (let opened = [E_Dial serverDataAddr dataConn]
           in if \<not> hello_sent then (opened @ [E_Close dataConn], Some OE_Hello)
              else (let said = opened @ [E_Hello dataConn (hello (OC_ConnID msg) (OC_DataToken msg))];
                        localAddr = OC_LocalHost msg @ CHR '':'' # show_int (OC_LocalPort msg)
                    in case dial_local of
                         Inl e \<Rightarrow> (said @ [E_Close dataConn], Some (OE_DialLocal e))
                       | Inr localConn \<Rightarrow>
                           (said @ [E_Dial localAddr localConn, E_Relay localConn dataConn, E_Close localConn, E_Close dataConn],
                            None))))"

definition socks_failed :: "string \<Rightarrow> string \<Rightarrow> SOCKSReady" where
  "socks_failed connID err = \<lparr>SR_ConnID = connID, SR_Success = False, SR_Error = err\<rparr>"

text \<open>A failed write of an error answer is only logged; \<open>ready_ok\<close> is the write of the answer that counts.\<close>

definition handleSOCKSConnectAsync ::
  "string + conn \<Rightarrow> string + conn \<Rightarrow> string option \<Rightarrow> bool \<Rightarrow> SOCKSConnect \<Rightarrow> string
   \<Rightarrow> effect list \<times> open_error option" where
  "handleSOCKSConnectAsync dial_target dial_data hello_err ready_ok msg serverDataAddr =
     (let targetAddr = SC_TargetHost msg @ CHR '':'' # show_int (SC_TargetPort msg);
          answer = (\<lambda>r. if ready_ok then [E_Ready r] else [])
      in case dial_target of
           Inl e \<Rightarrow> (answer (socks_failed (SC_ConnID msg) e), None)
         | Inr targetConn \<Rightarrow>
             (let opened = [E_Dial targetAddr targetConn]
              in case dial_data of
                   Inl e \<Rightarrow> (opened @ answer (socks_failed (SC_ConnID msg) (''dial server data addr: '' @ e)) @ [E_Close targetConn], None)
                 | Inr dataConn \<Rightarrow>
                     (let opened = opened @ [E_Dial serverDataAddr dataConn]
                      in case hello_err of
                           Some e \<Rightarrow>
                             (opened @ answer (socks_failed (SC_ConnID msg) (''send DataConnHello: '' @ e))
                                @ [E_Close dataConn, E_Close targetConn], None)
                         | None \<Rightarrow>
                             (let said = opened @ [E_Hello dataConn (hello (SC_ConnID msg) (SC_DataToken msg))]
                              in if \<not> ready_ok then (said @ [E_Close dataConn, E_Close targetConn], Some OE_Ready)
                                 else (said @ [E_Ready \<lparr>SR_ConnID = SC_ConnID msg, SR_Success = True, SR_Error = []\<rparr>,
                                               E_Relay targetConn dataConn, E_Close dataConn, E_Close targetConn], None)))))"

subsection \<open>What the goroutine does with its connections\<close>

definition dialled :: "effect list \<Rightarrow> conn list" where
  "dialled fx = concat (map (\<lambda>e. case e of E_Dial _ k \<Rightarrow> [k] | _ \<Rightarrow> []) fx)"

definition closed :: "effect list \<Rightarrow> conn list" where
  "closed fx = concat (map (\<lambda>e. case e of E_Close k \<Rightarrow> [k] | _ \<Rightarrow> []) fx)"

definition greeted :: "effect list \<Rightarrow> DataConnHello list" where
  "greeted fx = concat (map (\<lambda>e. case e of E_Hello _ h \<Rightarrow> [h] | _ \<Rightarrow> []) fx)"

lemmas effect_defs = dialled_def closed_def greeted_def

text \<open>On every path what was opened is closed, last first, and at most one hello is said.\<close>

lemma open_conn_closes_all:
  assumes "handleOpenConnAsync dial_data hello_sent dial_local msg addr = (fx, err)"
  shows "closed fx = rev (dialled fx)" "length (greeted fx) \<le> 1"
  using assms
  by (auto simp: handleOpenConnAsync_def effect_defs Let_def split: sum.splits if_splits)

lemma socks_connect_closes_all:
  assumes "handleSOCKSConnectAsync dial_target dial_data hello_err ready_ok msg addr = (fx, err)"
  shows "closed fx = rev (dialled fx)" "length (greeted fx) \<le> 1"
  using assms
  by (auto simp: handleSOCKSConnectAsync_def effect_defs Let_def split: sum.splits if_splits option.splits)

text \<open>Success is reported only when both dials went through and the hello was sent.\<close>

lemma socks_connect_honest:
  assumes "handleSOCKSConnectAsync dial_target dial_data hello_err ready_ok msg addr = (fx, err)"
    and "E_Ready \<lparr>SR_ConnID = i, SR_Success = True, SR_Error = e\<rparr> \<in> set fx"
  shows "i = SC_ConnID msg \<and> e = [] \<and> (\<exists>t d. dial_target = Inr t \<and> dial_data = Inr d \<and>
    greeted fx = [hello (SC_ConnID msg) (SC_DataToken msg)] \<and> E_Relay t d \<in> set fx)"
  using assms
  by (auto simp: handleSOCKSConnectAsync_def effect_defs socks_failed_def Let_def split: sum.splits if_splits option.splits)

text \<open>
  The two sides fit. If the server still waits on a connection it announced, the client's answer to
  exactly that announcement makes the server's next wake-up relay the external connection to the
  data connection the hello came over, starting with what was read for replay.
\<close>

lemma announcement_answered:
  assumes j: "n < length (pl_jobs s)" "pl_jobs s ! n = j" "jb_phase j = J_Wait p"
    and waiting: "pending (pl_mgr s) (jb_connID j) = Some p" "conn_heap (pl_mgr s) p = Some pc"
      "pc_dataToken pc \<noteq> []"
    and client: "fst (handleOpenConnAsync (Inr d) True dial_local (open_msg j (Token p (pl_mgr s))) addr) = fx"
      "h \<in> set (greeted fx)"
    and kind: "jb_kind j = K_Public \<Longrightarrow> jb_replay j = []"
  shows "\<exists>s' s''. plane_step uni (D_Data d' (Some h)) s = Some s' \<and>
     plane_step uni (D_Wake n (JW_Ready True)) s' = Some s'' \<and>
     pl_relays s'' = pl_relays s @ [(pc_extConn pc, d', jb_replay j)] \<and> pl_panic s'' = pl_panic s"
proof -
  have h: "h = hello (jb_connID j) (Token p (pl_mgr s))"
    using client by (auto simp: handleOpenConnAsync_def effect_defs Let_def open_msg_def split: sum.splits)
  have tok: "Token p (pl_mgr s) = pc_dataToken pc" using waiting(2) by (simp add: Token_def)
  obtain m where m: "FulfillPending (DCH_ConnID h) d' (DCH_Token h) (pl_mgr s) = (Inr (), m)"
      "conn_heap m p = Some (pc\<lparr>pc_dataConn := Some d', pc_ready := True\<rparr>)"
    using waiting tok
    by (simp add: h hello_def FulfillPending_def ConstantTimeCompare_def close_ready_def Let_def)
  have wait: "WaitReady p m = Some (Some d')" "PendingExtConn p m = Some (pc_extConn pc)"
    using m(2) by (simp_all add: WaitReady_def PendingExtConn_def)
  let ?s' = "s\<lparr>pl_mgr := m\<rparr>"
  have d: "plane_step uni (D_Data d' (Some h)) s = Some ?s'" using m(1) by (simp add: handleDataConn_def)
  have "\<exists>s''. plane_step uni (D_Wake n (JW_Ready True)) ?s' = Some s'' \<and>
      pl_relays s'' = pl_relays s @ [(pc_extConn pc, d', jb_replay j)] \<and> pl_panic s'' = pl_panic s"
    using j wait kind
    by (cases "jb_kind j") (simp_all add: with_job_def relay_defs set_job_def)
  with d show ?thesis by blast
qed

end
