(* ===== verification/SocksServer.thy ===== *)
theory SocksServer
  imports SocksNegotiate ManagerInv Registries
begin

text \<open>
  The SOCKS5 listener of the server (\<open>handleSOCKSConn\<close> in \<open>internal/socks/server.go\<close>), which no program
  starts any more: the connection's handler asks some client to dial the target, waits for its report
  and then for the data connection. One handler is a state machine over the shared manager, whose other
  calls interleave with its steps; timeouts and cancellation are the waker of a wait.
\<close>

datatype sconn_phase =
    SQ_Handshake
  | SQ_Register
  | SQ_RegisterData ptr
  | SQ_Send ptr ptr
  | SQ_WaitReady ptr ptr
  | SQ_WaitData ptr
  | SQ_Relay conn
  | SQ_Done

text \<open>
  \<open>so_out\<close>: the bytes written to the user; \<open>so_sent\<close>: the requests written to the client; \<open>so_ok\<close>: success
  was replied; \<open>so_closed\<close>, \<open>so_dataClosed\<close>: the deferred closes ran.
\<close>

record sconn =
  so_phase :: sconn_phase
  so_connID :: string
  so_target :: "string \<times> int"
  so_writer :: ptr
  so_out :: bytes
  so_sent :: "SOCKSConnect list"
  so_ok :: bool
  so_closed :: bool
  so_dataClosed :: bool
  so_panic :: bool

record socks_cfg =
  sg_user :: string
  sg_pass :: string

datatype swake = SW_Ready | SW_Timeout | SW_Context

datatype sevent =
    SQ_Negotiate bool bool bytes "ptr option" string
  | SQ_Step "bytes option"
  | SQ_Write bool
  | SQ_Wake swake
  | SQ_RelayDone

definition sconn_start :: sconn where
  "sconn_start = \<lparr>so_phase = SQ_Handshake, so_connID = [], so_target = ([], 0), so_writer = 0, so_out = [],
                  so_sent = [], so_ok = False, so_closed = False, so_dataClosed = False, so_panic = False\<rparr>"

definition so_reply :: "byte \<Rightarrow> sconn \<Rightarrow> sconn" where
  "so_reply rep c = c\<lparr>so_out := so_out c @ sendSOCKSReply rep [] 0\<rparr>"

definition so_return :: "sconn \<Rightarrow> sconn" where
  "so_return c = c\<lparr>so_phase := SQ_Done, so_closed := True\<rparr>"

text \<open>The handshake, and the client picked afterwards (\<open>None\<close>: none is connected).\<close>

definition so_negotiate :: "socks_cfg \<Rightarrow> bool \<Rightarrow> bool \<Rightarrow> bytes \<Rightarrow> ptr option \<Rightarrow> string \<Rightarrow> sconn \<Rightarrow> sconn" where
  "so_negotiate g w1 w2 stream pick uuid c =
     (case NegotiateSOCKS5 w1 w2 (sg_user g) (sg_pass g) stream of
        (Inl e, out, _) \<Rightarrow> so_return (c\<lparr>so_out := so_out c @ out\<rparr>)
      | (Inr target, out, _) \<Rightarrow>
          (let c = c\<lparr>so_out := so_out c @ out, so_target := target\<rparr>
           in case pick of
                None \<Rightarrow> so_return (so_reply repGeneralFailure c)
              | Some w \<Rightarrow> c\<lparr>so_writer := w, so_connID := uuid, so_phase := SQ_Register\<rparr>))"

definition so_msg :: "ptr \<Rightarrow> Manager \<Rightarrow> sconn \<Rightarrow> SOCKSConnect" where
  "so_msg pd m c =
     \<lparr>SC_ConnID = so_connID c, SC_TargetHost = fst (so_target c), SC_TargetPort = snd (so_target c),
      SC_DataToken = Token pd m\<rparr>"

text \<open>The wait for the client's report; success moves on to the wait for the data connection.\<close>

definition so_ready :: "swake \<Rightarrow> ptr \<Rightarrow> ptr \<Rightarrow> Manager \<Rightarrow> sconn \<Rightarrow> sconn option" where
  "so_ready w ps pd m c =
     (case w of
        SW_Ready \<Rightarrow>
          (case WaitSOCKSReady ps m of
             None \<Rightarrow> None
           | Some (ok, errMsg) \<Rightarrow>
               (if \<not> ok then Some (so_return (so_reply repConnRefused c)) else Some (c\<lparr>so_phase := SQ_WaitData pd\<rparr>)))
      | _ \<Rightarrow> Some (so_return (so_reply repGeneralFailure c)))"

definition so_success :: "sconn \<Rightarrow> sconn" where
  "so_success c = c\<lparr>so_out := so_out c @ sendSOCKSReply repSuccess IPv4zero 0, so_ok := True\<rparr>"

text \<open>A data connection that is nil (a cancelled entry) makes the deferred \<open>Close\<close> panic.\<close>

definition so_data :: "swake \<Rightarrow> ptr \<Rightarrow> Manager \<Rightarrow> sconn \<Rightarrow> sconn option" where
  "so_data w pd m c =
     (case w of
        SW_Ready \<Rightarrow>
          (case WaitReady pd m of
             None \<Rightarrow> None
           | Some None \<Rightarrow> Some ((so_return (so_success c))\<lparr>so_panic := True\<rparr>)
           | Some (Some d) \<Rightarrow> Some ((so_success c)\<lparr>so_phase := SQ_Relay d\<rparr>))
      | _ \<Rightarrow> Some (so_return (so_reply repGeneralFailure c)))"

definition handleSOCKSConn :: "socks_cfg \<Rightarrow> conn \<Rightarrow> ControlConnRegistry \<Rightarrow> sevent \<Rightarrow> sconn \<times> Manager \<Rightarrow> (sconn \<times> Manager) option" where
  "handleSOCKSConn g ext cc ev st =
     (case st of (c, m) \<Rightarrow>
        (case (so_phase c, ev) of
           (SQ_Handshake, SQ_Negotiate w1 w2 stream pick uuid) \<Rightarrow>
             if pick \<in> PickAny cc then Some (so_negotiate g w1 w2 stream pick uuid c, m) else None
         | (SQ_Register, SQ_Step _) \<Rightarrow>
             (case RegisterPendingSOCKS (so_connID c) m of (p, m') \<Rightarrow> Some (c\<lparr>so_phase := SQ_RegisterData p\<rparr>, m'))
         | (SQ_RegisterData ps, SQ_Step rnd) \<Rightarrow>
             (case RegisterPending (so_connID c) ext rnd m of (pd, m') \<Rightarrow> Some (c\<lparr>so_phase := SQ_Send ps pd\<rparr>, m'))
         | (SQ_Send ps pd, SQ_Write ok) \<Rightarrow>
             (if ok then Some (c\<lparr>so_sent := so_sent c @ [so_msg pd m c], so_phase := SQ_WaitReady ps pd\<rparr>, m)
              else Some (so_return (so_reply repGeneralFailure c), m))
         | (SQ_WaitReady ps pd, SQ_Wake w) \<Rightarrow> map_option (\<lambda>c. (c, m)) (so_ready w ps pd m c)
         | (SQ_WaitData pd, SQ_Wake w) \<Rightarrow> map_option (\<lambda>c. (c, m)) (so_data w pd m c)
         | (SQ_Relay d, SQ_RelayDone) \<Rightarrow> Some ((so_return c)\<lparr>so_dataClosed := True\<rparr>, m)
         | _ \<Rightarrow> None))"

text \<open>A run of one handler, with the other calls of the shared manager in between.\<close>

fun so_run :: "socks_cfg \<Rightarrow> conn \<Rightarrow> ControlConnRegistry \<Rightarrow> (sevent + mgr_op) list \<Rightarrow> sconn \<times> Manager \<Rightarrow> (sconn \<times> Manager) option" where
  "so_run g ext cc [] st = Some st"
| "so_run g ext cc (Inl ev # evs) st =
     (case handleSOCKSConn g ext cc ev st of None \<Rightarrow> None | Some st' \<Rightarrow> so_run g ext cc evs st')"
| "so_run g ext cc (Inr op # evs) st = so_run g ext cc evs (fst st, mgr_step (snd st) op)"

subsection \<open>What the user and the client are told\<close>

text \<open>
  The replies after the handshake: none while the handler works, one that reports success exactly when
  a relay was started, one failure (or none, after a failed handshake) otherwise; one request at most
  goes to the client; and the user's connection is closed exactly when the handler has returned.
\<close>

definition so_inv :: "sconn \<Rightarrow> bool" where
  "so_inv c \<longleftrightarrow>
     (so_closed c \<longleftrightarrow> so_phase c = SQ_Done) \<and>
     (so_ok c \<longleftrightarrow> (\<exists>d. so_phase c = SQ_Relay d) \<or> so_phase c = SQ_Done \<and> (so_dataClosed c \<or> so_panic c)) \<and>
     (so_dataClosed c \<longrightarrow> so_phase c = SQ_Done) \<and>
     (case so_phase c of SQ_Handshake \<Rightarrow> so_sent c = [] | SQ_Register \<Rightarrow> so_sent c = [] | SQ_RegisterData _ \<Rightarrow> so_sent c = []
      | SQ_Send _ _ \<Rightarrow> so_sent c = []
      | SQ_Done \<Rightarrow> (so_ok c \<longrightarrow> length (so_sent c) = 1) \<and> length (so_sent c) \<le> 1
      | _ \<Rightarrow> length (so_sent c) = 1) \<and>
     (\<forall>r \<in> set (so_sent c). SC_ConnID r = so_connID c \<and> (SC_TargetHost r, SC_TargetPort r) = so_target c)"

lemmas so_defs = so_inv_def so_negotiate_def so_return_def so_reply_def so_success_def so_ready_def so_data_def so_msg_def

lemma so_inv_step:
  assumes "handleSOCKSConn g ext cc ev (c, m) = Some (c', m')" "so_inv c" "\<not> so_panic c"
  shows "so_inv c'"
proof (cases "so_phase c")
  case SQ_Handshake
  with assms show ?thesis
    by (cases ev) (auto simp: handleSOCKSConn_def so_defs Let_def split: prod.splits sum.splits option.splits if_splits)
next
  case SQ_Register
  with assms show ?thesis by (cases ev) (auto simp: handleSOCKSConn_def so_defs split: prod.splits)
next
  case (SQ_RegisterData ps)
  with assms show ?thesis by (cases ev) (auto simp: handleSOCKSConn_def so_defs split: prod.splits)
next
  case (SQ_Send ps pd)
  with assms show ?thesis by (cases ev) (auto simp: handleSOCKSConn_def so_defs split: if_splits)
next
  case (SQ_WaitReady ps pd)
  with assms show ?thesis
    by (cases ev) (auto simp: handleSOCKSConn_def so_defs split: swake.splits option.splits if_splits)
next
  case (SQ_WaitData pd)
  with assms show ?thesis
    by (cases ev) (auto simp: handleSOCKSConn_def so_defs split: swake.splits option.splits)
next
  case (SQ_Relay d)
  with assms show ?thesis by (cases ev) (auto simp: handleSOCKSConn_def so_defs)
next
  case SQ_Done
  with assms show ?thesis by (cases ev) (auto simp: handleSOCKSConn_def)
qed

lemma NegotiateSOCKS5_target:
  assumes "NegotiateSOCKS5 w1 w2 authUser authPass s = (Inr (h, p), out, r)"
  shows "ValidateDomain h = None" "1 \<le> p" "p \<le> 65535"
proof -
  obtain s2 out3 where "connect_request s2 = (Inr (h, p), out3, r)"
    using assms by (auto simp: NegotiateSOCKS5_def Let_def split: prod.splits sum.splits)
  then have "ValidateTarget h p 1 = None" using connect_request_Inr by blast
  then show "ValidateDomain h = None" "1 \<le> p" "p \<le> 65535" by (simp_all add: ValidateTarget_None)
qed

text \<open>The target the client is asked to dial is the one of the handshake, a valid one.\<close>

lemma so_target_validated:
  assumes "so_negotiate g w1 w2 stream pick uuid sconn_start = c" "so_phase c = SQ_Register"
  shows "ValidateDomain (fst (so_target c)) = None \<and> 1 \<le> snd (so_target c) \<and> snd (so_target c) \<le> 65535"
proof -
  obtain h p out r where n: "NegotiateSOCKS5 w1 w2 (sg_user g) (sg_pass g) stream = (Inr (h, p), out, r)" "so_target c = (h, p)"
    using assms by (auto simp: so_defs sconn_start_def Let_def split: prod.splits sum.splits option.splits)
  then show ?thesis using NegotiateSOCKS5_target [OF n(1)] by simp
qed

end
