(* ===== verification/WinServer.thy ===== *)
theory WinServer
  imports Configuration
begin

text \<open>
  The Windows tray server (\<open>cmd/winserver\<close>): the life cycle of the embedded server in \<open>main.go\<close> and
  \<open>status.go\<close> (start, stop, restart, the running flag), and the check and the saving of the settings
  form of \<open>settings.go\<close>. The windows are left out. Restarts come from the menu and
  from the console, which run in different goroutines, so their steps interleave.
\<close>

subsection \<open>The life cycle\<close>

text \<open>
  One \<open>ServerApp\<close>. \<open>A_Returned\<close>: \<open>Start\<close> has returned and \<open>clearRunningIf\<close> is still to be called;
  \<open>sa_bound\<close>: it holds listeners, until its context is cancelled; \<open>sa_waiting\<close>: \<open>startServer\<close> still waits for
  an early failure.
\<close>

datatype app_phase = A_Starting | A_Serving | A_Returned | A_Cleared

record server_app =
  sa_cfg :: ServerConfig
  sa_app :: "tls_config \<times> (string \<times> string) option"
  sa_phase :: app_phase
  sa_cancelled :: bool
  sa_bound :: bool
  sa_waiting :: bool

text \<open>The text of the tray's status item.\<close>

datatype tray_title = T_Starting | T_ConfigError | T_InitFailed | T_StartFailed | T_Running | T_Restarting

text \<open>
  \<open>ws_stopping\<close>: callers of \<open>stopServer\<close> between the cancellation and \<open>markStopped\<close>; \<open>ws_sleeping\<close>: restarts
  in their pause.
\<close>

record winserver =
  ws_apps :: "server_app list"
  currentApp :: "nat option"
  appCancel :: "nat option"
  srvRunning :: bool
  ws_title :: tray_title
  ws_stopping :: nat
  ws_sleeping :: nat

definition ws_none :: winserver where
  "ws_none = \<lparr>ws_apps = [], currentApp = None, appCancel = None, srvRunning = False, ws_title = T_Starting, ws_stopping = 0, ws_sleeping = 0\<rparr>"

definition setApp :: "nat \<Rightarrow> winserver \<Rightarrow> winserver" where
  "setApp a w = w\<lparr>currentApp := Some a, appCancel := Some a, srvRunning := True\<rparr>"

definition clearRunningIf :: "nat \<Rightarrow> winserver \<Rightarrow> winserver" where
  "clearRunningIf a w = (if currentApp w = Some a then w\<lparr>srvRunning := False\<rparr> else w)"

definition markStopped :: "winserver \<Rightarrow> winserver" where
  "markStopped w = w\<lparr>srvRunning := False\<rparr>"

definition getApp :: "winserver \<Rightarrow> nat option \<times> bool" where
  "getApp w = (currentApp w, srvRunning w)"

definition set_app :: "nat \<Rightarrow> server_app \<Rightarrow> winserver \<Rightarrow> winserver" where
  "set_app i a w = w\<lparr>ws_apps := (ws_apps w)[i := a]\<rparr>"

text \<open>\<open>startServer\<close> up to its wait: a configuration that is refused changes the title only.\<close>

definition setStatus :: "tray_title \<Rightarrow> winserver \<Rightarrow> winserver" where
  "setStatus t w = w\<lparr>ws_title := t\<rparr>"

definition startServer ::
  "(bytes \<Rightarrow> ServerConfig \<Rightarrow> ServerConfig option) \<Rightarrow> (bytes \<Rightarrow> bool) \<Rightarrow> open_result \<Rightarrow> start_env \<Rightarrow> winserver \<Rightarrow> winserver" where
  "startServer yaml parse_pem f env w =
     (case LoadServerConfig yaml f of
        Inl _ \<Rightarrow> setStatus T_ConfigError w
      | Inr cfg \<Rightarrow>
          (case NewServerApp parse_pem env cfg of
             Inl _ \<Rightarrow> setStatus T_InitFailed w
           | Inr app \<Rightarrow>
               setApp (length (ws_apps w))
                 (w\<lparr>ws_apps := ws_apps w @
                    [\<lparr>sa_cfg = cfg, sa_app = app, sa_phase = A_Starting, sa_cancelled = False, sa_bound = False, sa_waiting = True\<rparr>]\<rparr>)))"

text \<open>\<open>stopServer\<close>: the canceller is read and called, then the flag is cleared. A restart takes the two steps apart.\<close>

definition stop_cancel :: "winserver \<Rightarrow> winserver" where
  "stop_cancel w =
     (case appCancel w of
        None \<Rightarrow> w
      | Some i \<Rightarrow> if i < length (ws_apps w) then set_app i ((ws_apps w ! i)\<lparr>sa_cancelled := True\<rparr>) w else w)"

definition stopServer :: "winserver \<Rightarrow> winserver" where
  "stopServer w = markStopped (stop_cancel w)"

definition restart_begin :: "winserver \<Rightarrow> winserver" where
  "restart_begin w = (stop_cancel w)\<lparr>ws_stopping := Suc (ws_stopping w)\<rparr>"

definition restart_mark :: "winserver \<Rightarrow> winserver" where
  "restart_mark w = (setStatus T_Restarting (markStopped w))\<lparr>ws_stopping := ws_stopping w - 1, ws_sleeping := Suc (ws_sleeping w)\<rparr>"

text \<open>
  The goroutine around \<open>Start\<close>: it binds or fails (a later failure leaves the data listener open), returns
  when it is cancelled, and then reports.
\<close>

definition app_binds :: "nat \<Rightarrow> start_env \<Rightarrow> server_app \<Rightarrow> winserver \<Rightarrow> winserver" where
  "app_binds i env a w =
     (case ServerApp_Start env (sa_cfg a) (sa_app a) of
        Inl e \<Rightarrow> set_app i (a\<lparr>sa_phase := A_Returned, sa_bound := (e \<noteq> S_Data)\<rparr>) w
      | Inr _ \<Rightarrow> set_app i (a\<lparr>sa_phase := A_Serving, sa_bound := True\<rparr>) w)"

definition app_reports :: "nat \<Rightarrow> server_app \<Rightarrow> winserver \<Rightarrow> winserver" where
  "app_reports i a w =
     (let w = clearRunningIf i (set_app i (a\<lparr>sa_phase := A_Cleared\<rparr>) w)
      in if sa_cancelled a then w else setStatus T_StartFailed w)"

text \<open>
  The end of the wait: the pause is over, or the result of \<open>Start\<close> is there. That is never nil: \<open>Start\<close>
  returns the error of a failed listener or of its cancelled context.
\<close>

definition start_waited :: "nat \<Rightarrow> bool \<Rightarrow> server_app \<Rightarrow> winserver \<Rightarrow> winserver" where
  "start_waited i timed a w =
     (let w = set_app i (a\<lparr>sa_waiting := False\<rparr>) w in if timed then setStatus T_Running w else w)"

text \<open>A listen address that another server holds is not free.\<close>

definition data_free :: "string \<Rightarrow> winserver \<Rightarrow> bool" where
  "data_free addr w \<longleftrightarrow> (\<forall>a \<in> set (ws_apps w). sa_bound a \<longrightarrow> sc_DataAddr (sa_cfg a) \<noteq> addr)"

datatype ws_event =
    W_Restart
  | W_Quit
  | W_Mark
  | W_Wake open_result start_env
  | W_Bind nat start_env
  | W_Release nat
  | W_Return nat
  | W_Report nat
  | W_Waited nat bool

definition on_app :: "nat \<Rightarrow> (server_app \<Rightarrow> bool) \<Rightarrow> (server_app \<Rightarrow> winserver) \<Rightarrow> winserver \<Rightarrow> winserver option" where
  "on_app i ok f w = (if i < length (ws_apps w) \<and> ok (ws_apps w ! i) then Some (f (ws_apps w ! i)) else None)"

fun ws_step ::
  "(bytes \<Rightarrow> ServerConfig \<Rightarrow> ServerConfig option) \<Rightarrow> (bytes \<Rightarrow> bool) \<Rightarrow> ws_event \<Rightarrow> winserver \<Rightarrow> winserver option" where
  "ws_step yaml pem W_Restart w = Some (restart_begin w)"
| "ws_step yaml pem W_Quit w = Some (stopServer w)"
| "ws_step yaml pem W_Mark w = (if 0 < ws_stopping w then Some (restart_mark w) else None)"
| "ws_step yaml pem (W_Wake f env) w =
     (if 0 < ws_sleeping w then Some (startServer yaml pem f env (w\<lparr>ws_sleeping := ws_sleeping w - 1\<rparr>)) else None)"
| "ws_step yaml pem (W_Bind i env) w =
     on_app i (\<lambda>a. sa_phase a = A_Starting \<and> (se_data env \<longrightarrow> data_free (sc_DataAddr (sa_cfg a)) w)) (\<lambda>a. app_binds i env a w) w"
| "ws_step yaml pem (W_Release i) w =
     on_app i (\<lambda>a. sa_cancelled a \<and> sa_bound a) (\<lambda>a. set_app i (a\<lparr>sa_bound := False\<rparr>) w) w"
| "ws_step yaml pem (W_Return i) w =
     on_app i (\<lambda>a. sa_phase a = A_Serving \<and> sa_cancelled a) (\<lambda>a. set_app i (a\<lparr>sa_phase := A_Returned\<rparr>) w) w"
| "ws_step yaml pem (W_Report i) w = on_app i (\<lambda>a. sa_phase a = A_Returned) (\<lambda>a. app_reports i a w) w"
| "ws_step yaml pem (W_Waited i timed) w =
     on_app i (\<lambda>a. sa_waiting a \<and> (\<not> timed \<longrightarrow> sa_phase a = A_Returned \<or> sa_phase a = A_Cleared)) (\<lambda>a. start_waited i timed a w) w"

subsection \<open>Two restarts at a time\<close>

definition win_exec ::
  "(bytes \<Rightarrow> ServerConfig \<Rightarrow> ServerConfig option) \<Rightarrow> (bytes \<Rightarrow> bool) \<Rightarrow> ws_event list \<Rightarrow> winserver \<Rightarrow> winserver option" where
  "win_exec yaml pem = guarded_run (\<lambda>_ _. True) (ws_step yaml pem)"

lemma win_exec_simps [simp]:
  "win_exec yaml pem [] w = Some w"
  "win_exec yaml pem (e # es) w = (case ws_step yaml pem e w of None \<Rightarrow> None | Some w' \<Rightarrow> win_exec yaml pem es w')"
  by (simp_all add: win_exec_def cong: option.case_cong)

definition demo_server :: ServerConfig where
  "demo_server = DefaultServerConfig\<lparr>sc_AuthToken := ''secret'', sc_DataAddr := [], sc_HTTPAddr := [], sc_HTTPSAddr := [], sc_AdminAddr := []\<rparr>"

definition all_well :: start_env where
  "all_well = \<lparr>se_cert = True, se_known = True, se_data = True, se_http = True, se_https = True, se_admin = True, se_ca = None,
     se_dropdir = True, se_receive = True\<rparr>"

definition data_taken :: start_env where
  "data_taken = all_well\<lparr>se_data := False\<rparr>"

definition demo_app :: "bool \<Rightarrow> app_phase \<Rightarrow> bool \<Rightarrow> server_app" where
  "demo_app c ph b = \<lparr>sa_cfg = demo_server, sa_app = (TLS_System, None), sa_phase = ph, sa_cancelled = c, sa_bound = b, sa_waiting = True\<rparr>"

abbreviation demo_yaml :: "bytes \<Rightarrow> ServerConfig \<Rightarrow> ServerConfig option" where
  "demo_yaml data dst \<equiv> Some demo_server"

lemma demo_new: "NewServerApp pem all_well demo_server = Inr (TLS_System, None)"
  by (simp add: NewServerApp_def validateServerConfig_def bad_addr_def Server_ValidateSecurity_def isWeakToken_def demo_server_def
      DefaultServerConfig_def all_well_def buildClientTLSConfig_def)

lemma demo_startServer:
  "startServer demo_yaml pem (F_Data []) all_well w =
     setApp (length (ws_apps w)) (w\<lparr>ws_apps := ws_apps w @ [demo_app False A_Starting False]\<rparr>)"
  by (simp add: startServer_def LoadServerConfig_def loadYAML_def demo_new demo_app_def)

lemma demo_binds:
  "app_binds i all_well (demo_app c A_Starting False) w = set_app i (demo_app c A_Serving True) w"
  "app_binds i data_taken (demo_app c A_Starting False) w = set_app i (demo_app c A_Returned False) w"
  by (simp_all add: app_binds_def ServerApp_Start_def sum_bind_def guard_start_def demo_app_def all_well_def data_taken_def
      demo_server_def DefaultServerConfig_def)

lemma demo_app_simps [simp]:
  "sa_phase (demo_app c ph b) = ph" "sa_cancelled (demo_app c ph b) = c" "sa_bound (demo_app c ph b) = b"
  "sa_cfg (demo_app c ph b) = demo_server" "(demo_app c ph b)\<lparr>sa_phase := ph'\<rparr> = demo_app c ph' b"
  "(demo_app c ph b)\<lparr>sa_cancelled := c'\<rparr> = demo_app c' ph b" "(demo_app c ph b)\<lparr>sa_bound := b'\<rparr> = demo_app c ph b'"
  by (simp_all add: demo_app_def)

lemma demo_env_simps [simp]: "se_data all_well" "\<not> se_data data_taken"
  by (simp_all add: all_well_def data_taken_def)

text \<open>
  A second restart during the pause of the first starts a second server, which overwrites the
  canceller of the one before: that one keeps its listeners until the process ends, the second fails on
  the address it holds, the console says stopped, and every later restart fails in the same way.
\<close>

lemma double_restart_orphans:
  "\<exists>w. win_exec demo_yaml pem
       [W_Bind 0 all_well, W_Restart, W_Mark, W_Restart, W_Mark, W_Release 0, W_Return 0, W_Report 0,
        W_Wake (F_Data []) all_well, W_Bind 1 all_well, W_Wake (F_Data []) all_well, W_Bind 2 data_taken, W_Report 2,
        W_Restart, W_Mark, W_Wake (F_Data []) all_well, W_Bind 3 data_taken, W_Report 3]
       (startServer demo_yaml pem (F_Data []) all_well ws_none) = Some w \<and>
     \<not> srvRunning w \<and> appCancel w = Some 3 \<and> ws_apps w ! 1 = demo_app False A_Serving True"
  by (simp add: demo_startServer demo_binds ws_none_def setApp_def set_app_def on_app_def data_free_def restart_begin_def stop_cancel_def
      restart_mark_def markStopped_def app_reports_def clearRunningIf_def setStatus_def Let_def)

text \<open>The flag is cleared in a step of its own: a server started in between runs, and is shown as stopped.\<close>

lemma stop_hides_new_server:
  "\<exists>w. win_exec demo_yaml pem
       [W_Bind 0 all_well, W_Restart, W_Mark, W_Restart, W_Release 0, W_Wake (F_Data []) all_well, W_Bind 1 all_well, W_Mark]
       (startServer demo_yaml pem (F_Data []) all_well ws_none) = Some w \<and>
     getApp w = (Some 1, False) \<and> ws_apps w ! 1 = demo_app False A_Serving True"
  by (simp add: demo_startServer demo_binds ws_none_def setApp_def set_app_def on_app_def data_free_def restart_begin_def stop_cancel_def
      restart_mark_def markStopped_def getApp_def setStatus_def)

subsection \<open>One restart at a time\<close>

text \<open>
  When no restart begins before the last one has started its server, only the newest server is not
  cancelled, the canceller is its, and outside a stop the running flag is exact: a slow \<open>Start\<close>
  of an earlier server does not clear it.
\<close>

definition calm :: "ws_event \<Rightarrow> winserver \<Rightarrow> bool" where
  "calm e w \<longleftrightarrow> (e = W_Restart \<longrightarrow> ws_stopping w = 0 \<and> ws_sleeping w = 0)"

definition app_shown :: "server_app \<Rightarrow> bool" where
  "app_shown a \<longleftrightarrow> \<not> sa_cancelled a \<and> sa_phase a \<noteq> A_Cleared"

definition newest :: "winserver \<Rightarrow> nat option" where
  "newest w = (if ws_apps w = [] then None else Some (length (ws_apps w) - 1))"

definition calm_inv :: "winserver \<Rightarrow> bool" where
  "calm_inv w \<longleftrightarrow>
     currentApp w = newest w \<and> appCancel w = newest w \<and>
     (\<forall>i. Suc i < length (ws_apps w) \<longrightarrow> sa_cancelled (ws_apps w ! i)) \<and>
     ws_stopping w + ws_sleeping w \<le> 1 \<and>
     (ws_stopping w + ws_sleeping w = 1 \<longrightarrow> (\<forall>i < length (ws_apps w). sa_cancelled (ws_apps w ! i))) \<and>
     (ws_stopping w = 0 \<longrightarrow> srvRunning w = (ws_apps w \<noteq> [] \<and> app_shown (last (ws_apps w))))"

lemma stop_cancel_calm:
  assumes "calm_inv w"
  shows "\<forall>i < length (ws_apps w). sa_cancelled (ws_apps (stop_cancel w) ! i)" "length (ws_apps (stop_cancel w)) = length (ws_apps w)"
    "currentApp (stop_cancel w) = currentApp w" "appCancel (stop_cancel w) = appCancel w"
    "ws_stopping (stop_cancel w) = ws_stopping w" "ws_sleeping (stop_cancel w) = ws_sleeping w"
proof -
  have early: "sa_cancelled (ws_apps w ! i)" if "Suc i < length (ws_apps w)" for i
    using assms that by (simp add: calm_inv_def)
  have c: "appCancel w = newest w" using assms by (simp add: calm_inv_def)
  show "\<forall>i < length (ws_apps w). sa_cancelled (ws_apps (stop_cancel w) ! i)"
  proof (intro allI impI)
    fix i assume i: "i < length (ws_apps w)"
    then have "stop_cancel w = set_app (length (ws_apps w) - 1) ((ws_apps w ! (length (ws_apps w) - 1))\<lparr>sa_cancelled := True\<rparr>) w"
      using c by (auto simp: stop_cancel_def newest_def)
    then show "sa_cancelled (ws_apps (stop_cancel w) ! i)"
      using early [of i] i by (cases "i = length (ws_apps w) - 1") (simp_all add: set_app_def)
  qed
qed (simp_all add: stop_cancel_def set_app_def split: option.split)

lemma restart_calm: "calm_inv w \<Longrightarrow> ws_stopping w = 0 \<Longrightarrow> ws_sleeping w = 0 \<Longrightarrow> calm_inv (restart_begin w)"
  using stop_cancel_calm [of w] by (auto simp: calm_inv_def restart_begin_def newest_def)

lemma mark_calm: "calm_inv w \<Longrightarrow> 0 < ws_stopping w \<Longrightarrow> calm_inv (restart_mark w)"
  by (auto simp: calm_inv_def restart_mark_def setStatus_def markStopped_def newest_def app_shown_def last_conv_nth)

lemma quit_calm: "calm_inv w \<Longrightarrow> calm_inv (stopServer w)"
  using stop_cancel_calm [of w]
  by (auto simp: calm_inv_def stopServer_def markStopped_def newest_def app_shown_def last_conv_nth)

lemma wake_calm:
  assumes "calm_inv w" "0 < ws_sleeping w"
  shows "calm_inv (startServer yaml pem f env (w\<lparr>ws_sleeping := ws_sleeping w - 1\<rparr>))"
proof -
  have z: "ws_stopping w = 0" "ws_sleeping w = 1" using assms by (auto simp: calm_inv_def)
  show ?thesis
    using assms(1) z by (auto simp: startServer_def setStatus_def setApp_def calm_inv_def newest_def app_shown_def nth_append last_conv_nth
        split: sum.split)
qed

text \<open>A step of one server keeps its cancellation; only the report makes it \<open>A_Cleared\<close>.\<close>

lemma app_step_calm:
  assumes "calm_inv w" "i < length (ws_apps w)" "ws_apps w' = (ws_apps w)[i := a]" "sa_cancelled a = sa_cancelled (ws_apps w ! i)"
    and "currentApp w' = currentApp w" "appCancel w' = appCancel w" "ws_stopping w' = ws_stopping w" "ws_sleeping w' = ws_sleeping w"
    and "app_shown a = app_shown (ws_apps w ! i) \<and> srvRunning w' = srvRunning w \<or>
         \<not> app_shown a \<and> srvRunning w' = (srvRunning w \<and> Suc i \<noteq> length (ws_apps w))"
  shows "calm_inv w'"
proof -
  have same: "sa_cancelled (ws_apps w' ! k) = sa_cancelled (ws_apps w ! k)" if "k < length (ws_apps w)" for k
    using assms(2,3,4) that by (cases "k = i") simp_all
  have n: "newest w' = newest w" "length (ws_apps w') = length (ws_apps w)" using assms(3) by (simp_all add: newest_def)
  have "srvRunning w' = (ws_apps w' \<noteq> [] \<and> app_shown (last (ws_apps w')))" if "ws_stopping w = 0"
  proof (cases "Suc i = length (ws_apps w)")
    case True
    then have "i = length (ws_apps w) - 1" by simp
    moreover have "ws_apps w \<noteq> []" "ws_apps w' \<noteq> []" using assms(2,3) by auto
    ultimately have "last (ws_apps w') = a" "last (ws_apps w) = ws_apps w ! i" "ws_apps w' \<noteq> []" "ws_apps w \<noteq> []"
      using assms(2) unfolding assms(3) by (simp_all add: last_list_update last_conv_nth)
    then show ?thesis using assms(1,9) that True by (auto simp: calm_inv_def)
  next
    case False
    moreover have "ws_apps w \<noteq> []" using assms(2) by auto
    ultimately have "last (ws_apps w') = last (ws_apps w)" using assms(2) unfolding assms(3) by (subst last_list_update) auto
    moreover have "srvRunning w' = srvRunning w" using assms(9) False by auto
    ultimately show ?thesis using assms(1) that n(2) by (auto simp: calm_inv_def)
  qed
  then show ?thesis using assms(1) same n assms(5-8) by (auto simp: calm_inv_def)
qed

lemma setStatus_calm: "calm_inv (setStatus t w) = calm_inv w"
  by (simp add: calm_inv_def setStatus_def newest_def)

lemma set_app_calm:
  "calm_inv w \<Longrightarrow> i < length (ws_apps w) \<Longrightarrow> sa_cancelled a = sa_cancelled (ws_apps w ! i) \<Longrightarrow>
   app_shown a = app_shown (ws_apps w ! i) \<Longrightarrow> calm_inv (set_app i a w)"
  by (erule app_step_calm [where a = a and i = i]) (simp_all add: set_app_def)

lemma on_appE:
  assumes "on_app i ok f w = Some w'"
  obtains "i < length (ws_apps w)" "ok (ws_apps w ! i)" "w' = f (ws_apps w ! i)"
  using assms by (auto simp: on_app_def split: if_splits)

lemma binds_calm:
  assumes "calm_inv w" "i < length (ws_apps w)" "sa_phase (ws_apps w ! i) = A_Starting"
  shows "calm_inv (app_binds i env (ws_apps w ! i) w)"
  unfolding app_binds_def using assms by (simp add: set_app_calm app_shown_def split: sum.split)

lemma reports_calm:
  assumes "calm_inv w" "i < length (ws_apps w)"
  shows "calm_inv (app_reports i (ws_apps w ! i) w)"
proof -
  let ?a = "(ws_apps w ! i)\<lparr>sa_phase := A_Cleared\<rparr>" and ?w = "clearRunningIf i (set_app i ((ws_apps w ! i)\<lparr>sa_phase := A_Cleared\<rparr>) w)"
  have "currentApp w = Some (length (ws_apps w) - 1)" using assms by (auto simp: calm_inv_def newest_def)
  then have "srvRunning ?w = (srvRunning w \<and> Suc i \<noteq> length (ws_apps w))"
    using assms(2) by (auto simp: clearRunningIf_def set_app_def)
  then have "calm_inv ?w"
    by (intro app_step_calm [OF assms, of _ ?a]) (simp_all add: clearRunningIf_def set_app_def app_shown_def)
  then show ?thesis by (simp add: app_reports_def setStatus_calm Let_def)
qed

lemma waited_calm:
  assumes "calm_inv w" "i < length (ws_apps w)"
  shows "calm_inv (start_waited i timed (ws_apps w ! i) w)"
  using set_app_calm [OF assms, of "(ws_apps w ! i)\<lparr>sa_waiting := False\<rparr>"]
  by (simp add: start_waited_def setStatus_calm app_shown_def Let_def)

fun_cases ws_step_MarkE: "ws_step yaml pem W_Mark w = Some w'"
  and ws_step_WakeE: "ws_step yaml pem (W_Wake f env) w = Some w'"
  and ws_step_BindE: "ws_step yaml pem (W_Bind i env) w = Some w'"
  and ws_step_ReleaseE: "ws_step yaml pem (W_Release i) w = Some w'"
  and ws_step_ReturnE: "ws_step yaml pem (W_Return i) w = Some w'"
  and ws_step_ReportE: "ws_step yaml pem (W_Report i) w = Some w'"
  and ws_step_WaitedE: "ws_step yaml pem (W_Waited i timed) w = Some w'"

lemmas ws_step_elims = ws_step_MarkE ws_step_WakeE ws_step_BindE ws_step_ReleaseE ws_step_ReturnE ws_step_ReportE ws_step_WaitedE on_appE

lemmas calm_steps = mark_calm quit_calm wake_calm [unfolded One_nat_def] binds_calm reports_calm waited_calm set_app_calm

lemma ws_step_calm:
  assumes inv: "calm_inv w" and "calm e w" and st: "ws_step yaml pem e w = Some w'"
  shows "calm_inv w'"
proof (cases e)
  case W_Restart
  then show ?thesis using assms restart_calm by (auto simp: calm_def)
next
  case W_Quit
  then show ?thesis using assms quit_calm by auto
qed (use st in \<open>auto elim!: ws_step_elims split: if_splits simp: calm_steps [OF inv] app_shown_def\<close>)

interpretation win: guarded_machine calm "ws_step yaml pem" calm_inv for yaml pem
  by unfold_locales (rule ws_step_calm)

lemma first_start_calm: "calm_inv (startServer yaml pem f env ws_none)"
  by (auto simp: startServer_def setStatus_def setApp_def calm_inv_def newest_def app_shown_def ws_none_def split: sum.split)

lemma calm_single_server:
  assumes "guarded_run calm (ws_step yaml pem) es (startServer yaml pem f env ws_none) = Some w"
  shows "(\<forall>i < length (ws_apps w). \<not> sa_cancelled (ws_apps w ! i) \<longrightarrow> appCancel w = Some i \<and> currentApp w = Some i) \<and>
    (ws_stopping w = 0 \<longrightarrow> srvRunning w = (ws_apps w \<noteq> [] \<and> app_shown (last (ws_apps w))))"
proof -
  have inv: "calm_inv w" by (rule win.guarded_run_inv [OF assms first_start_calm])
  have "newest w = Some i" if "i < length (ws_apps w)" "\<not> sa_cancelled (ws_apps w ! i)" for i
  proof -
    have "\<not> Suc i < length (ws_apps w)" using inv that by (auto simp: calm_inv_def)
    then have "i = length (ws_apps w) - 1" using that(1) by linarith
    then show ?thesis using that(1) by (auto simp: newest_def)
  qed
  then show ?thesis using inv by (simp add: calm_inv_def)
qed

end
