(* ===== verification/Tray.thy ===== *)
theory Tray
  imports Configuration Pool
begin

text \<open>
  The Windows tray client (\<open>cmd/winclient/main.go\<close>, \<open>status.go\<close>): the menu goroutine starts and cancels
  runs of the tunnel loop, and the runs and their sessions write the shown state as they come and go.
  Every write of the state, every use of \<open>cancelFn\<close> and every pool call is a step. The windows and
  the tray library are left out; the file transfer started beside it is in theory FileTransfer and the connections of
  a run's local proxies in theory Frontends.
\<close>

datatype connStateVal = stateDisconnected | stateConnecting | stateConnected

subsection \<open>The status shown in the console\<close>

text \<open>\<open>None\<close> is the zero time.\<close>

record liveStatus =
  ls_state :: connStateVal
  ls_serverAddr :: string
  ls_connectedAt :: "int option"
  ls_cfg :: "ClientSettings option"
  ls_configPath :: string
  ls_logPath :: string

definition setState :: "connStateVal \<Rightarrow> string \<Rightarrow> liveStatus \<Rightarrow> liveStatus" where
  "setState st addr s =
     (case st of
        stateConnected \<Rightarrow> s\<lparr>ls_state := st, ls_serverAddr := (if addr \<noteq> [] then addr else ls_serverAddr s)\<rparr>
      | _ \<Rightarrow> s\<lparr>ls_state := st, ls_serverAddr := [], ls_connectedAt := None\<rparr>)"

definition setConnected :: "string \<Rightarrow> int \<Rightarrow> liveStatus \<Rightarrow> liveStatus" where
  "setConnected addr since s = s\<lparr>ls_state := stateConnected, ls_serverAddr := addr, ls_connectedAt := Some since\<rparr>"

definition setConfig :: "ClientSettings option \<Rightarrow> string \<Rightarrow> string \<Rightarrow> liveStatus \<Rightarrow> liveStatus" where
  "setConfig cfg cp lp s =
     s\<lparr>ls_cfg := cfg, ls_configPath := (if cp \<noteq> [] then cp else ls_configPath s),
       ls_logPath := (if lp \<noteq> [] then lp else ls_logPath s)\<rparr>"

text \<open>
  The report of the status pane, line by line; the labels are the constructors. \<open>SL_Since\<close> shows the
  time of the connection and how long ago that was.
\<close>

datatype status_line =
    SL_State connStateVal
  | SL_Server string
  | SL_Since int int
  | SL_NoConfig
  | SL_Name string
  | SL_Listen string
  | SL_Verify bool
  | SL_Socks "(string \<times> bool) option"
  | SL_HTTP "(string \<times> bool) option"
  | SL_NoTunnels
  | SL_Vhost string string string int
  | SL_Tcp int string int
  | SL_Forward string int string int

definition tunnel_line :: "TunnelSettings \<Rightarrow> status_line" where
  "tunnel_line t =
     (let typ = (if tn_Type t = [] then ''tcp'' else tn_Type t)
      in if typ = ''http'' \<or> typ = ''https'' then SL_Vhost typ (tn_Hostname t) (tn_LocalHost t) (tn_LocalPort t)
         else SL_Tcp (tn_RequestedPort t) (tn_LocalHost t) (tn_LocalPort t))"

definition forward_line :: "PortForwardConfig \<Rightarrow> status_line" where
  "forward_line pf =
     SL_Forward (if pc_Bind pf = [] then ''0.0.0.0'' else pc_Bind pf) (pc_LocalPort pf) (pc_RemoteHost pf) (pc_RemotePort pf)"

definition config_lines :: "ClientSettings \<Rightarrow> status_line list" where
  "config_lines cfg =
     [SL_Name (cs_Name cfg), SL_Listen (cs_ListenAddr cfg), SL_Verify (\<not> cs_Insecure cfg),
      SL_Socks (if cs_SOCKSAddr cfg \<noteq> [] then Some (cs_SOCKSAddr cfg, cs_SOCKSUser cfg \<noteq> []) else None),
      SL_HTTP (if cs_HTTPProxyAddr cfg \<noteq> [] then Some (cs_HTTPProxyAddr cfg, cs_HTTPProxyUser cfg \<noteq> []) else None)] @
     (if cs_Tunnels cfg = [] then [SL_NoTunnels] else []) @
     map tunnel_line (cs_Tunnels cfg) @ map forward_line (cs_PortForwards cfg)"

definition summary :: "int \<Rightarrow> liveStatus \<Rightarrow> status_line list" where
  "summary now s =
     SL_State (ls_state s) #
     (if ls_state s = stateConnected
      then SL_Server (ls_serverAddr s) # (case ls_connectedAt s of None \<Rightarrow> [] | Some since \<Rightarrow> [SL_Since since (now - since)])
      else []) @
     (case ls_cfg s of None \<Rightarrow> [SL_NoConfig] | Some cfg \<Rightarrow> config_lines cfg)"

subsection \<open>The menu\<close>

text \<open>A run of \<open>runTunnelLoop\<close>: before it listens, in its accept loop, returned.\<close>

datatype run_phase = RN_Start | RN_Accept | RN_Returned

text \<open>
  \<open>rn_arriving\<close>: sessions that are in the pool and have not called \<open>setConnected\<close> yet; \<open>rn_leaving\<close>: the
  \<open>remaining\<close> that removed sessions have read and not reported yet.
\<close>

record tray_run =
  rn_cfg :: ClientSettings
  rn_phase :: run_phase
  rn_cancelled :: bool
  rn_listening :: bool
  rn_socks :: "(string \<times> string \<times> string) option"
  rn_http :: "string option"
  rn_forwards :: "PortForwardConfig list"
  rn_pool :: ServerPool
  rn_arriving :: "(ptr \<times> string \<times> int) list"
  rn_leaving :: "nat list"

datatype menu_phase = M_Idle | M_Reconnect | M_Quit

text \<open>\<open>cancelFn\<close> is the root context's until the first run. \<open>ty_root\<close>: the root context is cancelled.\<close>

datatype canceller = C_Root | C_Run nat

record tray =
  ty_state :: connStateVal
  ty_status :: liveStatus
  ty_runs :: "tray_run list"
  ty_cancel :: canceller
  ty_root :: bool
  ty_reconnectReq :: bool
  ty_menu :: menu_phase

definition no_status :: liveStatus where
  "no_status = \<lparr>ls_state = stateDisconnected, ls_serverAddr = [], ls_connectedAt = None, ls_cfg = None,
                ls_configPath = [], ls_logPath = []\<rparr>"

definition tray_start :: tray where
  "tray_start = \<lparr>ty_state = stateDisconnected, ty_status = no_status, ty_runs = [], ty_cancel = C_Root, ty_root = False,
                 ty_reconnectReq = False, ty_menu = M_Idle\<rparr>"

definition buildClientConfig :: "ClientSettings \<Rightarrow> ClientConfig \<Rightarrow> ClientConfig" where
  "buildClientConfig cfg rc0 = foldl add_configured rc0 (cs_Tunnels cfg)"

definition updateStatus :: "connStateVal \<Rightarrow> tray \<Rightarrow> tray" where
  "updateStatus st t = t\<lparr>ty_state := st, ty_status := setState st [] (ty_status t)\<rparr>"

definition set_run :: "nat \<Rightarrow> tray_run \<Rightarrow> tray \<Rightarrow> tray" where
  "set_run i r t = t\<lparr>ty_runs := (ty_runs t)[i := r]\<rparr>"

text \<open>The contexts of the runs are children of the root context.\<close>

definition cancel_current :: "tray \<Rightarrow> tray" where
  "cancel_current t =
     (case ty_cancel t of
        C_Root \<Rightarrow> t\<lparr>ty_root := True, ty_runs := map (rn_cancelled_update (\<lambda>_. True)) (ty_runs t)\<rparr>
      | C_Run i \<Rightarrow> if i < length (ty_runs t) then set_run i ((ty_runs t ! i)\<lparr>rn_cancelled := True\<rparr>) t else t)"

definition spawn_run :: "ClientSettings \<Rightarrow> tray \<Rightarrow> tray" where
  "spawn_run cfg t =
     t\<lparr>ty_cancel := C_Run (length (ty_runs t)),
       ty_runs := ty_runs t @
         [\<lparr>rn_cfg = cfg, rn_phase = RN_Start, rn_cancelled = ty_root t, rn_listening = False, rn_socks = None, rn_http = None,
           rn_forwards = [], rn_pool = NewServerPool,
           rn_arriving = [], rn_leaving = []\<rparr>]\<rparr>"

text \<open>Starting a run; \<open>None\<close>: there is no configuration file or it does not load.\<close>

definition connect :: "ClientSettings option \<Rightarrow> tray \<Rightarrow> tray" where
  "connect loaded t =
     (case loaded of
        None \<Rightarrow> updateStatus stateDisconnected t
      | Some cfg \<Rightarrow> updateStatus stateConnecting (spawn_run cfg t))"

definition menu_toggle :: "ClientSettings option \<Rightarrow> tray \<Rightarrow> tray" where
  "menu_toggle loaded t =
     (if ty_state t = stateDisconnected then connect loaded t
      else updateStatus stateDisconnected (cancel_current t))"

text \<open>
  The start of \<open>onReady\<close>: the paths and the configuration for the console, then a first run. \<open>seed\<close> is
  what loading gives for the console; a missing file gives the defaults there, but no run.
\<close>

definition onReady :: "ClientSettings option \<Rightarrow> ClientSettings option \<Rightarrow> string \<Rightarrow> string \<Rightarrow> tray" where
  "onReady seed loaded cp lp = connect loaded (tray_start\<lparr>ty_status := setConfig seed cp lp no_status\<rparr>)"

text \<open>A request for a reconnect (one is queued), and its handling up to the sleep and after it.\<close>

definition reconnectTunnel :: "tray \<Rightarrow> tray" where
  "reconnectTunnel t = t\<lparr>ty_reconnectReq := True\<rparr>"

definition menu_reconnect :: "tray \<Rightarrow> tray" where
  "menu_reconnect t = (updateStatus stateConnecting (cancel_current t))\<lparr>ty_menu := M_Reconnect, ty_reconnectReq := False\<rparr>"

definition menu_reconnect_after :: "ClientSettings option \<Rightarrow> tray \<Rightarrow> tray" where
  "menu_reconnect_after loaded t =
     (case loaded of None \<Rightarrow> updateStatus stateDisconnected t | Some cfg \<Rightarrow> spawn_run cfg t)\<lparr>ty_menu := M_Idle\<rparr>"

definition menu_quit :: "tray \<Rightarrow> tray" where
  "menu_quit t = (cancel_current t)\<lparr>ty_menu := M_Quit\<rparr>"

subsection \<open>The runs\<close>

text \<open>An address one run listens on is taken for the others.\<close>

definition port_free :: "string \<Rightarrow> tray \<Rightarrow> bool" where
  "port_free addr t \<longleftrightarrow> (\<forall>r \<in> set (ty_runs t). rn_listening r \<longrightarrow> cs_ListenAddr (rn_cfg r) \<noteq> addr)"

text \<open>
  The start of a run; \<open>env\<close> says which calls succeed. A local proxy that cannot be started is logged and
  left out.
\<close>

definition run_listens :: "client_env \<Rightarrow> tray_run \<Rightarrow> tray_run" where
  "run_listens env r =
     (let cfg = rn_cfg r
      in r\<lparr>rn_phase := RN_Accept, rn_listening := True,
           rn_socks := (if cs_SOCKSAddr cfg \<noteq> [] \<and> ce_socks env
                        then Some (cs_SOCKSAddr cfg, cs_SOCKSUser cfg, cs_SOCKSPass cfg) else None),
           rn_http := (if cs_HTTPProxyAddr cfg \<noteq> [] \<and> ce_http env then Some (cs_HTTPProxyAddr cfg) else None),
           rn_forwards := filter (ce_forward env) (cs_PortForwards cfg)\<rparr>)"

definition runTunnelLoop_start :: "nat \<Rightarrow> client_env \<Rightarrow> tray_run \<Rightarrow> tray \<Rightarrow> tray" where
  "runTunnelLoop_start i env r t =
     (if \<not> ce_cert env then updateStatus stateDisconnected (set_run i (r\<lparr>rn_phase := RN_Returned\<rparr>) t)
      else if \<not> ce_listen env then updateStatus stateDisconnected (set_run i (r\<lparr>rn_phase := RN_Returned\<rparr>) t)
      else updateStatus stateConnecting (set_run i (run_listens env r) t))"

definition runTunnelLoop_accept_fails :: "nat \<Rightarrow> tray_run \<Rightarrow> tray \<Rightarrow> tray" where
  "runTunnelLoop_accept_fails i r t =
     updateStatus stateDisconnected (set_run i (r\<lparr>rn_phase := RN_Returned, rn_listening := False\<rparr>) t)"

definition session_up :: "nat \<Rightarrow> ptr \<Rightarrow> string \<Rightarrow> int \<Rightarrow> tray_run \<Rightarrow> tray \<Rightarrow> tray" where
  "session_up i s addr since r t =
     updateStatus stateConnected (set_run i (r\<lparr>rn_pool := Pool_Add s (rn_pool r), rn_arriving := rn_arriving r @ [(s, addr, since)]\<rparr>) t)"

definition session_connected :: "nat \<Rightarrow> nat \<Rightarrow> tray_run \<Rightarrow> tray \<Rightarrow> tray" where
  "session_connected i k r t =
     (case rn_arriving r ! k of (_, addr, since) \<Rightarrow>
        (set_run i (r\<lparr>rn_arriving := take k (rn_arriving r) @ drop (Suc k) (rn_arriving r)\<rparr>) t)
          \<lparr>ty_status := setConnected addr since (ty_status t)\<rparr>)"

definition session_removed :: "nat \<Rightarrow> ptr \<Rightarrow> tray_run \<Rightarrow> tray \<Rightarrow> tray" where
  "session_removed i s r t =
     (let p = Pool_Remove s (rn_pool r)
      in set_run i (r\<lparr>rn_pool := p, rn_leaving := rn_leaving r @ [Pool_Len p]\<rparr>) t)"

definition session_reports :: "nat \<Rightarrow> nat \<Rightarrow> tray_run \<Rightarrow> tray \<Rightarrow> tray" where
  "session_reports i k r t =
     (let remaining = rn_leaving r ! k;
          t = set_run i (r\<lparr>rn_leaving := take k (rn_leaving r) @ drop (Suc k) (rn_leaving r)\<rparr>) t
      in if remaining = 0 \<and> \<not> rn_cancelled r then updateStatus stateConnecting t else t)"

datatype tray_event =
    TE_Toggle "ClientSettings option"
  | TE_Request
  | TE_Reconnect
  | TE_Reconnected "ClientSettings option"
  | TE_Quit
  | TE_Start nat client_env
  | TE_Close nat
  | TE_AcceptFails nat
  | TE_Up nat ptr string int
  | TE_Connected nat nat
  | TE_Down nat ptr
  | TE_Report nat nat

definition on_run :: "nat \<Rightarrow> (tray_run \<Rightarrow> bool) \<Rightarrow> (tray_run \<Rightarrow> tray) \<Rightarrow> tray \<Rightarrow> tray option" where
  "on_run i ok f t = (if i < length (ty_runs t) \<and> ok (ty_runs t ! i) then Some (f (ty_runs t ! i)) else None)"

fun tray_step :: "tray_event \<Rightarrow> tray \<Rightarrow> tray option" where
  "tray_step (TE_Toggle loaded) t = (if ty_menu t = M_Idle then Some (menu_toggle loaded t) else None)"
| "tray_step TE_Request t = Some (reconnectTunnel t)"
| "tray_step TE_Reconnect t = (if ty_menu t = M_Idle \<and> ty_reconnectReq t then Some (menu_reconnect t) else None)"
| "tray_step (TE_Reconnected loaded) t = (if ty_menu t = M_Reconnect then Some (menu_reconnect_after loaded t) else None)"
| "tray_step TE_Quit t = (if ty_menu t = M_Idle then Some (menu_quit t) else None)"
| "tray_step (TE_Start i env) t =
     on_run i (\<lambda>r. rn_phase r = RN_Start \<and> (ce_listen env \<longrightarrow> port_free (cs_ListenAddr (rn_cfg r)) t))
       (\<lambda>r. runTunnelLoop_start i env r t) t"
| "tray_step (TE_Close i) t =
     on_run i (\<lambda>r. rn_cancelled r \<and> rn_listening r) (\<lambda>r. set_run i (r\<lparr>rn_listening := False\<rparr>) t) t"
| "tray_step (TE_AcceptFails i) t =
     on_run i (\<lambda>r. rn_phase r = RN_Accept) (\<lambda>r. runTunnelLoop_accept_fails i r t) t"
| "tray_step (TE_Up i s addr since) t = on_run i (\<lambda>r. rn_phase r \<noteq> RN_Start) (\<lambda>r. session_up i s addr since r t) t"
| "tray_step (TE_Connected i k) t = on_run i (\<lambda>r. k < length (rn_arriving r)) (\<lambda>r. session_connected i k r t) t"
| "tray_step (TE_Down i s) t =
     on_run i (\<lambda>r. s \<in> set (sp_sessions (rn_pool r)) \<and> s \<notin> fst ` set (rn_arriving r)) (\<lambda>r. session_removed i s r t) t"
| "tray_step (TE_Report i k) t = on_run i (\<lambda>r. k < length (rn_leaving r)) (\<lambda>r. session_reports i k r t) t"

definition tray_exec :: "tray_event list \<Rightarrow> tray \<Rightarrow> tray option" where
  "tray_exec = guarded_run (\<lambda>_ _. True) tray_step"

lemma tray_exec_simps [simp]:
  "tray_exec [] t = Some t"
  "tray_exec (e # es) t = (case tray_step e t of None \<Rightarrow> None | Some t' \<Rightarrow> tray_exec es t')"
  by (simp_all add: tray_exec_def cong: option.case_cong)

subsection \<open>One run or two\<close>

definition run_live :: "tray_run \<Rightarrow> bool" where
  "run_live r \<longleftrightarrow> \<not> rn_cancelled r \<and> rn_phase r \<noteq> RN_Returned"

definition all_up :: client_env where
  "all_up = \<lparr>ce_cert = True, ce_listen = True, ce_socks = True, ce_http = True, ce_forward = (\<lambda>_. True), ce_dropdir = True, ce_receive = True\<rparr>"

definition port_busy :: client_env where
  "port_busy = all_up\<lparr>ce_listen := False\<rparr>"

lemmas tray_exec_defs = all_up_def port_busy_def run_listens_def Let_def tray_start_def no_status_def connect_def menu_toggle_def updateStatus_def spawn_run_def on_run_def
  runTunnelLoop_start_def set_run_def port_free_def cancel_current_def runTunnelLoop_accept_fails_def run_live_def
  menu_reconnect_def menu_reconnect_after_def reconnectTunnel_def session_up_def session_connected_def Pool_Add_def NewServerPool_def
  setState_def setConnected_def

text \<open>
  A quick disconnect and connect lets the old run, which is only then returning, write
  \<open>disconnected\<close> over the new one's state. The next click starts a second run: two are live, and
  \<open>cancelFn\<close> reaches only one of them, so the other goes on after every later disconnect.
\<close>

lemma second_run_orphaned:
  "\<exists>t. tray_exec [TE_Toggle (Some DefaultClientConfig), TE_Start 0 all_up, TE_Toggle None,
       TE_Close 0, TE_Toggle (Some DefaultClientConfig), TE_Start 1 all_up, TE_AcceptFails 0,
       TE_Toggle (Some DefaultClientConfig), TE_Toggle None] tray_start = Some t \<and>
     ty_state t = stateDisconnected \<and> map run_live (ty_runs t) = [False, True, False] \<and> map rn_listening (ty_runs t) = [False, True, False]"
  by (simp add: tray_exec_defs)

text \<open>
  The pause of a reconnect is meant to avoid this, but the old run may write \<open>disconnected\<close> during
  it, and the new run is then started without writing \<open>connecting\<close> first: until it listens the menu
  offers to connect, and the click starts a duplicate that ends with the shown state
  \<open>disconnected\<close> while the first one is connected.
\<close>

lemma reconnect_offers_connect:
  "\<exists>t. tray_exec [TE_Toggle (Some DefaultClientConfig), TE_Start 0 all_up, TE_Request, TE_Reconnect,
       TE_Close 0, TE_AcceptFails 0, TE_Reconnected (Some DefaultClientConfig),
       TE_Toggle (Some DefaultClientConfig), TE_Start 1 all_up, TE_Up 1 s addr since, TE_Start 2 port_busy] tray_start = Some t \<and>
     ty_state t = stateDisconnected \<and> ty_cancel t = C_Run 2 \<and> map run_live (ty_runs t) = [False, True, False] \<and>
     sp_sessions (rn_pool (ty_runs t ! 1)) = [s]"
  by (simp add: tray_exec_defs)

text \<open>A disconnect between a session's two writes: the menu says disconnected, the console connected.\<close>

lemma console_disagrees:
  "\<exists>t. tray_exec [TE_Toggle (Some DefaultClientConfig), TE_Start 0 all_up, TE_Up 0 s ''a'' since, TE_Toggle None,
       TE_Close 0, TE_AcceptFails 0, TE_Connected 0 0, TE_Down 0 s, TE_Report 0 0] tray_start = Some t \<and>
     ty_state t = stateDisconnected \<and> summary now (ty_status t) = [SL_State stateConnected, SL_Server ''a'', SL_Since since (now - since), SL_NoConfig]"
  by (simp add: tray_exec_defs session_removed_def session_reports_def Pool_Remove_def Pool_Len_def summary_def Let_def)

text \<open>
  A run whose \<open>Accept\<close> fails by itself returns without its context being cancelled: its local proxies
  keep their ports, and after the next connect nothing can cancel them any more.
\<close>

lemma proxies_outlive_run:
  "\<exists>t. tray_exec [TE_Toggle (Some DefaultClientConfig), TE_Start 0 all_up, TE_AcceptFails 0,
       TE_Toggle (Some DefaultClientConfig), TE_Toggle None] tray_start = Some t \<and>
     rn_phase (ty_runs t ! 0) = RN_Returned \<and> rn_socks (ty_runs t ! 0) = Some (''127.0.0.1:1080'', [], []) \<and>
     map rn_cancelled (ty_runs t) = [False, True]"
  by (simp add: tray_exec_defs) (simp add: DefaultClientConfig_def)

text \<open>
  Where every new run is started only after the earlier ones have returned, at most the newest run is
  live, \<open>cancelFn\<close> is its, and the menu offers to connect only while no run listens.
\<close>

definition settled :: "tray \<Rightarrow> bool" where
  "settled t \<longleftrightarrow> (\<forall>i < length (ty_runs t). rn_phase (ty_runs t ! i) = RN_Returned)"

definition patient :: "tray_event \<Rightarrow> tray \<Rightarrow> bool" where
  "patient e t \<longleftrightarrow>
     (case e of
        TE_Toggle (Some _) \<Rightarrow> ty_state t = stateDisconnected \<longrightarrow> settled t
      | TE_Reconnected (Some _) \<Rightarrow> settled t
      | _ \<Rightarrow> True)"

definition run_shown :: "tray \<Rightarrow> tray_run \<Rightarrow> bool" where
  "run_shown t r \<longleftrightarrow> (run_live r \<longrightarrow> ty_menu t = M_Idle \<and> (ty_state t = stateDisconnected \<longrightarrow> rn_phase r = RN_Start))"

definition tray_ok :: "tray \<Rightarrow> bool" where
  "tray_ok t \<longleftrightarrow>
     (\<forall>i. Suc i < length (ty_runs t) \<longrightarrow> rn_phase (ty_runs t ! i) = RN_Returned) \<and>
     (ty_runs t \<noteq> [] \<longrightarrow> ty_cancel t = C_Run (length (ty_runs t) - 1)) \<and>
     (\<forall>i < length (ty_runs t). run_shown t (ty_runs t ! i))"

lemmas tray_defs = session_connected_def reconnectTunnel_def connect_def menu_toggle_def updateStatus_def spawn_run_def runTunnelLoop_start_def set_run_def
  runTunnelLoop_accept_fails_def session_up_def session_removed_def session_reports_def menu_reconnect_def
  menu_reconnect_after_def menu_quit_def on_run_def

lemma cancel_current_ok:
  assumes "tray_ok t"
  shows "\<forall>i. Suc i < length (ty_runs (cancel_current t)) \<longrightarrow> rn_phase (ty_runs (cancel_current t) ! i) = RN_Returned"
    "ty_runs (cancel_current t) \<noteq> [] \<longrightarrow> ty_cancel (cancel_current t) = C_Run (length (ty_runs (cancel_current t)) - 1)"
    "\<forall>i < length (ty_runs (cancel_current t)). \<not> run_live (ty_runs (cancel_current t) ! i)"
    "ty_menu (cancel_current t) = ty_menu t"
proof -
  have dead: "\<not> run_live (ty_runs t ! i)" if "Suc i < length (ty_runs t)" for i
    using assms that by (simp add: tray_ok_def run_live_def)
  show "\<forall>i. Suc i < length (ty_runs (cancel_current t)) \<longrightarrow> rn_phase (ty_runs (cancel_current t) ! i) = RN_Returned"
    "ty_runs (cancel_current t) \<noteq> [] \<longrightarrow> ty_cancel (cancel_current t) = C_Run (length (ty_runs (cancel_current t)) - 1)"
    "ty_menu (cancel_current t) = ty_menu t"
    using assms by (auto simp: tray_ok_def cancel_current_def set_run_def nth_list_update split: canceller.splits)
  show "\<forall>i < length (ty_runs (cancel_current t)). \<not> run_live (ty_runs (cancel_current t) ! i)"
  proof (cases "ty_runs t = []")
    case True
    then show ?thesis by (simp add: cancel_current_def set_run_def split: canceller.split)
  next
    case False
    then have c: "ty_cancel t = C_Run (length (ty_runs t) - 1)" using assms by (simp add: tray_ok_def)
    have "\<not> run_live ((ty_runs t)[length (ty_runs t) - 1 := (ty_runs t ! (length (ty_runs t) - 1))\<lparr>rn_cancelled := True\<rparr>] ! i)"
      if "i < length (ty_runs t)" for i
    proof (cases "i = length (ty_runs t) - 1")
      case True
      then show ?thesis using that by (simp add: run_live_def)
    next
      case False
      then show ?thesis using dead [of i] that by simp
    qed
    then show ?thesis using c False by (simp add: cancel_current_def set_run_def)
  qed
qed

lemma spawn_run_ok:
  assumes "settled t" "ty_menu t' = M_Idle" "ty_state t' \<noteq> stateDisconnected"
    and "ty_runs t' = ty_runs (spawn_run cfg t)" "ty_cancel t' = ty_cancel (spawn_run cfg t)"
  shows "tray_ok t'"
  using assms by (auto simp: tray_ok_def spawn_run_def settled_def nth_append run_shown_def run_live_def)

text \<open>What all steps of the runs have in common: one run changes, the menu and the contexts do not.\<close>

definition run_change :: "tray \<Rightarrow> nat \<Rightarrow> tray_run \<Rightarrow> tray \<Rightarrow> bool" where
  "run_change t i r t' \<longleftrightarrow>
     i < length (ty_runs t) \<and> ty_runs t' = (ty_runs t)[i := r] \<and> ty_cancel t' = ty_cancel t \<and> ty_menu t' = ty_menu t \<and>
     ty_root t' = ty_root t \<and> rn_cancelled r = rn_cancelled (ty_runs t ! i) \<and>
     (rn_phase (ty_runs t ! i) = RN_Returned \<longrightarrow> rn_phase r = RN_Returned) \<and>
     (ty_state t' = stateDisconnected \<longrightarrow>
        ty_state t = stateDisconnected \<and> rn_phase r = rn_phase (ty_runs t ! i) \<or>
        rn_phase (ty_runs t ! i) \<noteq> RN_Returned \<and> rn_phase r = RN_Returned)"

lemma on_run_change:
  assumes "on_run i g f t = Some t'" and "\<And>r. r = ty_runs t ! i \<Longrightarrow> i < length (ty_runs t) \<Longrightarrow> g r \<Longrightarrow> run_change t i (h r) (f r)"
  shows "\<exists>i r. run_change t i r t'"
  using assms by (auto simp: on_run_def split: if_splits)

fun menu_event :: "tray_event \<Rightarrow> bool" where
  "menu_event (TE_Toggle loaded) = True"
| "menu_event TE_Request = True"
| "menu_event TE_Reconnect = True"
| "menu_event (TE_Reconnected loaded) = True"
| "menu_event TE_Quit = True"
| "menu_event _ = False"

lemma run_event_change:
  assumes "tray_step e t = Some t'" "\<not> menu_event e"
  shows "\<exists>i r. run_change t i r t'"
proof (cases e)
  case (TE_Start i env)
  note st = assms(1) [unfolded TE_Start tray_step.simps]
  show ?thesis
    by (rule on_run_change [OF st, where h = "\<lambda>r. if ce_cert env \<and> ce_listen env then run_listens env r else r\<lparr>rn_phase := RN_Returned\<rparr>"])
      (auto simp: run_change_def tray_defs run_listens_def Let_def split: if_splits)
next
  case (TE_Close i)
  note st = assms(1) [unfolded TE_Close tray_step.simps]
  show ?thesis
    by (rule on_run_change [OF st, where h = "\<lambda>r. r\<lparr>rn_listening := False\<rparr>"])
      (auto simp: run_change_def tray_defs)
next
  case (TE_AcceptFails i)
  note st = assms(1) [unfolded TE_AcceptFails tray_step.simps]
  show ?thesis
    by (rule on_run_change [OF st, where h = "\<lambda>r. r\<lparr>rn_phase := RN_Returned, rn_listening := False\<rparr>"])
      (auto simp: run_change_def tray_defs)
next
  case (TE_Up i s addr since)
  note st = assms(1) [unfolded TE_Up tray_step.simps]
  show ?thesis
    by (rule on_run_change [OF st, where h = "\<lambda>r. r\<lparr>rn_pool := Pool_Add s (rn_pool r), rn_arriving := rn_arriving r @ [(s, addr, since)]\<rparr>"])
      (auto simp: run_change_def tray_defs)
next
  case (TE_Connected i k)
  note st = assms(1) [unfolded TE_Connected tray_step.simps]
  show ?thesis
    by (rule on_run_change [OF st, where h = "\<lambda>r. r\<lparr>rn_arriving := take k (rn_arriving r) @ drop (Suc k) (rn_arriving r)\<rparr>"])
      (auto simp: run_change_def tray_defs split: prod.splits)
next
  case (TE_Down i s)
  note st = assms(1) [unfolded TE_Down tray_step.simps]
  show ?thesis
    by (rule on_run_change [OF st, where h = "\<lambda>r. r\<lparr>rn_pool := Pool_Remove s (rn_pool r),
          rn_leaving := rn_leaving r @ [Pool_Len (Pool_Remove s (rn_pool r))]\<rparr>"])
      (auto simp: run_change_def tray_defs Let_def)
next
  case (TE_Report i k)
  note st = assms(1) [unfolded TE_Report tray_step.simps]
  show ?thesis
    by (rule on_run_change [OF st, where h = "\<lambda>r. r\<lparr>rn_leaving := take k (rn_leaving r) @ drop (Suc k) (rn_leaving r)\<rparr>"])
      (auto simp: run_change_def tray_defs Let_def split: if_splits)
qed (use assms(2) in simp_all)

lemma run_change_ok:
  assumes ok: "tray_ok t" and ch: "run_change t i r t'"
  shows "tray_ok t'"
proof -
  have i: "i < length (ty_runs t)" and c: "rn_cancelled r = rn_cancelled (ty_runs t ! i)"
    and ret: "rn_phase (ty_runs t ! i) = RN_Returned \<Longrightarrow> rn_phase r = RN_Returned"
    and t': "ty_runs t' = (ty_runs t)[i := r]" "ty_cancel t' = ty_cancel t" "ty_menu t' = ty_menu t"
    and st: "ty_state t' = stateDisconnected \<Longrightarrow>
      ty_state t = stateDisconnected \<and> rn_phase r = rn_phase (ty_runs t ! i) \<or>
      rn_phase (ty_runs t ! i) \<noteq> RN_Returned \<and> rn_phase r = RN_Returned"
    using ch by (auto simp: run_change_def)
  have early: "rn_phase (ty_runs t ! k) = RN_Returned" if "Suc k < length (ty_runs t)" for k
    using ok that by (simp add: tray_ok_def)
  have last: "Suc i = length (ty_runs t)" if "rn_phase (ty_runs t ! i) \<noteq> RN_Returned"
    using early [of i] i that by fastforce
  have shown: "run_shown t (ty_runs t ! k)" if "k < length (ty_runs t)" for k
    using ok that by (simp add: tray_ok_def)
  have A: "rn_phase ((ty_runs t)[i := r] ! k) = RN_Returned" if "Suc k < length (ty_runs t)" for k
    using early [OF that] ret that by (cases "k = i") simp_all
  have C: "run_shown t' ((ty_runs t)[i := r] ! k)" if k: "k < length (ty_runs t)" for k
  proof (cases "k = i")
    case True
    show ?thesis
      using shown [OF k] st ret c t'(3) True k by (auto simp: run_shown_def run_live_def)
  next
    case False
    show ?thesis
    proof (cases "ty_state t' = stateDisconnected \<and> ty_state t \<noteq> stateDisconnected")
      case True
      then have "Suc k < length (ty_runs t)" using st last k False by fastforce
      then show ?thesis using early False by (simp add: run_shown_def run_live_def)
    next
      case False': False
      then show ?thesis using shown [OF k] False t'(3) by (auto simp: run_shown_def)
    qed
  qed
  have B: "ty_runs t \<noteq> [] \<longrightarrow> ty_cancel t = C_Run (length (ty_runs t) - 1)" using ok by (simp add: tray_ok_def)
  show ?thesis unfolding tray_ok_def t' using A B C by simp
qed

lemma tray_step_ok:
  assumes "tray_ok t" "tray_step e t = Some t'" "patient e t"
  shows "tray_ok t'"
proof (cases e)
  case (TE_Toggle loaded)
  then have t': "t' = menu_toggle loaded t" "ty_menu t = M_Idle" using assms(2) by (simp_all split: if_splits)
  show ?thesis
  proof (cases "ty_state t = stateDisconnected")
    case True
    show ?thesis
    proof (cases loaded)
      case None
      then show ?thesis using assms(1) True t' by (auto simp: tray_ok_def menu_toggle_def connect_def updateStatus_def run_shown_def)
    next
      case (Some cfg)
      have "settled t" using assms(3) Some TE_Toggle True by (simp add: patient_def)
      then show ?thesis using Some True t'
        by (intro spawn_run_ok [of t t' cfg]) (simp_all add: menu_toggle_def connect_def updateStatus_def spawn_run_def)
    qed
  next
    case False
    then show ?thesis using cancel_current_ok [OF assms(1)] t' by (simp add: tray_ok_def menu_toggle_def updateStatus_def run_shown_def)
  qed
next
  case TE_Request
  then show ?thesis using assms(1,2) by (auto simp: tray_ok_def reconnectTunnel_def run_shown_def)
next
  case TE_Reconnect
  then have "t' = menu_reconnect t" using assms(2) by (simp split: if_splits)
  then show ?thesis using cancel_current_ok [OF assms(1)] by (simp add: tray_ok_def menu_reconnect_def updateStatus_def run_shown_def)
next
  case (TE_Reconnected loaded)
  then have t': "t' = menu_reconnect_after loaded t" "ty_menu t = M_Reconnect" using assms(2) by (simp_all split: if_splits)
  show ?thesis
  proof (cases loaded)
    case None
    then show ?thesis using assms(1) t' by (auto simp: tray_ok_def menu_reconnect_after_def updateStatus_def run_shown_def)
  next
    case (Some cfg)
    have "settled t" using assms(3) Some TE_Reconnected by (simp add: patient_def)
    then show ?thesis using Some t' assms(1)
      by (auto simp: tray_ok_def menu_reconnect_after_def spawn_run_def settled_def nth_append run_shown_def run_live_def)
  qed
next
  case TE_Quit
  then have "t' = menu_quit t" using assms(2) by (simp split: if_splits)
  then show ?thesis using cancel_current_ok [OF assms(1)] by (simp add: tray_ok_def menu_quit_def run_shown_def)
qed (use run_change_ok [OF assms(1)] run_event_change [OF assms(2)] in auto)

interpretation tray: guarded_machine patient tray_step tray_ok
  by unfold_locales (rule tray_step_ok)

lemma tray_start_ok: "tray_ok tray_start"
  by (simp add: tray_ok_def tray_start_def)

lemma onReady_ok: "tray_ok (onReady seed loaded cp lp)"
  by (cases loaded) (simp_all add: tray_ok_def onReady_def connect_def updateStatus_def spawn_run_def tray_start_def run_shown_def)

lemma patient_single_run:
  assumes "guarded_run patient tray_step es (onReady seed loaded cp lp) = Some t"
    and "i < length (ty_runs t)" "run_live (ty_runs t ! i)"
  shows "i = length (ty_runs t) - 1 \<and> ty_cancel t = C_Run i \<and>
    (rn_phase (ty_runs t ! i) = RN_Accept \<longrightarrow> ty_state t \<noteq> stateDisconnected)"
proof -
  have ok: "tray_ok t" by (rule tray.guarded_run_inv [OF assms(1) onReady_ok])
  then have "\<not> Suc i < length (ty_runs t)" using assms(3) by (auto simp: tray_ok_def run_live_def)
  then have i: "i = length (ty_runs t) - 1" using assms(2) by linarith
  have "ty_cancel t = C_Run i" using ok assms(2) unfolding i by (auto simp: tray_ok_def)
  moreover have "run_shown t (ty_runs t ! i)" using ok assms(2) by (simp add: tray_ok_def)
  ultimately show ?thesis using i assms(3) by (auto simp: run_shown_def)
qed

subsection \<open>The root context\<close>

text \<open>
  As long as no run was started, \<open>cancelFn\<close> is the root context's. A reconnect asked for then cancels
  the root, and every later run is born cancelled: the client never connects again.
\<close>

definition root_dead :: "tray \<Rightarrow> bool" where
  "root_dead t \<longleftrightarrow> ty_root t \<and> (\<forall>r \<in> set (ty_runs t). rn_cancelled r)"

lemma set_run_dead: "root_dead t \<Longrightarrow> rn_cancelled r \<Longrightarrow> root_dead (set_run i r t)"
  using set_update_subset_insert [of "ty_runs t" i r] by (auto simp: root_dead_def set_run_def)

lemma cancel_current_dead: "root_dead t \<Longrightarrow> root_dead (cancel_current t)"
  by (cases "ty_cancel t") (simp_all add: cancel_current_def set_run_dead, simp add: root_dead_def)

lemma spawn_run_dead: "root_dead t \<Longrightarrow> root_dead (spawn_run cfg t)"
  by (auto simp: root_dead_def spawn_run_def)

lemma root_dead_cong: "ty_root t' = ty_root t \<Longrightarrow> ty_runs t' = ty_runs t \<Longrightarrow> root_dead t' = root_dead t"
  by (simp add: root_dead_def)

lemma run_change_dead:
  assumes "root_dead t" "run_change t i r t'"
  shows "root_dead t'"
  using assms set_update_subset_insert [of "ty_runs t" i r] by (auto simp: root_dead_def run_change_def)

lemma menu_event_dead:
  assumes "root_dead t" "tray_step e t = Some t'" "menu_event e"
  shows "root_dead t'"
proof -
  have keep: "root_dead (updateStatus st u)" "root_dead (u\<lparr>ty_menu := m\<rparr>)" "root_dead (u\<lparr>ty_reconnectReq := b\<rparr>)"
    if "root_dead u" for u st m b
    using that by (simp_all add: root_dead_def updateStatus_def)
  note dead = keep cancel_current_dead [OF assms(1)] spawn_run_dead [OF assms(1)] assms(1)
  show ?thesis using assms(3)
  proof (cases e)
    case (TE_Toggle loaded)
    then have "t' = menu_toggle loaded t" using assms(2) by (simp split: if_splits)
    then show ?thesis by (cases loaded) (simp_all add: menu_toggle_def connect_def dead)
  next
    case (TE_Reconnected loaded)
    then have "t' = menu_reconnect_after loaded t" using assms(2) by (simp split: if_splits)
    then show ?thesis by (cases loaded) (simp_all add: menu_reconnect_after_def dead)
  qed (use assms(2) in \<open>auto simp: reconnectTunnel_def menu_reconnect_def menu_quit_def dead split: if_splits\<close>)
qed

interpretation dead_tray: guarded_machine "\<lambda>_ _. True" tray_step root_dead
  by unfold_locales (use run_event_change run_change_dead menu_event_dead in blast)

lemma reconnect_before_connect_dead:
  assumes "tray_exec (TE_Request # TE_Reconnect # es) (onReady seed None cp lp) = Some t"
  shows "\<forall>r \<in> set (ty_runs t). \<not> run_live r"
proof -
  define t1 where "t1 = menu_reconnect (reconnectTunnel (onReady seed None cp lp))"
  have "root_dead t1" by (simp add: t1_def onReady_def tray_exec_defs root_dead_def)
  moreover have "guarded_run (\<lambda>_ _. True) tray_step es t1 = Some t"
    using assms unfolding tray_exec_simps t1_def
    by (simp add: onReady_def reconnectTunnel_def connect_def updateStatus_def tray_start_def tray_exec_def)
  ultimately have "root_dead t" by (rule dead_tray.guarded_run_inv [rotated])
  then show ?thesis by (simp add: root_dead_def run_live_def)
qed

subsection \<open>The status pane\<close>

text \<open>No secret is shown: the report is the same with all tokens and passwords blanked.\<close>

definition redact :: "ClientSettings \<Rightarrow> ClientSettings" where
  "redact cfg = cfg\<lparr>cs_AuthToken := [], cs_SOCKSPass := [], cs_HTTPProxyPass := [],
     cs_FileTransfer := (cs_FileTransfer cfg)\<lparr>fc_Token := []\<rparr>\<rparr>"

lemma summary_redacted: "summary now (s\<lparr>ls_cfg := map_option redact (ls_cfg s)\<rparr>) = summary now s"
  by (cases "ls_cfg s") (simp_all add: summary_def config_lines_def redact_def)

definition status_ok :: "liveStatus \<Rightarrow> bool" where
  "status_ok s \<longleftrightarrow> (ls_state s \<noteq> stateConnected \<longrightarrow> ls_serverAddr s = [] \<and> ls_connectedAt s = None)"

lemma setState_ok: "status_ok s \<Longrightarrow> status_ok (setState st addr s)"
  by (simp add: status_ok_def setState_def split: connStateVal.split)

lemma setConnected_ok: "status_ok (setConnected addr since s)"
  by (simp add: status_ok_def setConnected_def)

lemma setConfig_ok: "status_ok s \<Longrightarrow> status_ok (setConfig cfg cp lp s)"
  by (simp add: status_ok_def setConfig_def)

end
