(* ===== verification/WinConsole.thy ===== *)
theory WinConsole
  imports WinServer Tray Frontends Registries ManagerInv
begin

text \<open>
  What the two Windows consoles show and what their settings forms save: \<open>tailFile\<close> of both
  programs, the server console's tables and texts (\<open>cmd/winserver/console.go\<close>, \<open>table_models.go\<close>,
  \<open>status.go\<close>) and the forms (\<open>settings.go\<close> of both). Widgets, threads and Win32 calls are left out;
  formatted times and labels are the values they are made of.
\<close>

subsection \<open>The end of the log\<close>

text \<open>\<open>strings.ReplaceAll(s, "\r\n", "\n")\<close>, \<open>strings.TrimRight(s, "\n")\<close>, \<open>strings.Join\<close>.\<close>

fun replace_crlf :: "string \<Rightarrow> string" where
  "replace_crlf [] = []"
| "replace_crlf (c # s) = (if c = cr \<and> s \<noteq> [] \<and> hd s = nl then replace_crlf s else c # replace_crlf s)"

definition trim_nl :: "string \<Rightarrow> string" where
  "trim_nl s = rev (dropWhile (\<lambda>c. c = nl) (rev s))"

fun join_crlf :: "string list \<Rightarrow> string" where
  "join_crlf [] = []"
| "join_crlf [l] = l"
| "join_crlf (l # ls) = l @ crlf @ join_crlf ls"

definition log_lines :: "string \<Rightarrow> string list" where
  "log_lines s = split_on nl (trim_nl (replace_crlf s))"

definition last_lines :: "nat \<Rightarrow> string list \<Rightarrow> string list" where
  "last_lines n ls = (if length ls > n then drop (length ls - n) ls else ls)"

text \<open>The client reads the whole file, the server the last 64 KiB; \<open>None\<close>: the file cannot be read.\<close>

datatype tail_view = No_Path | Unreadable | Tail string

definition client_tailFile :: "string \<Rightarrow> nat \<Rightarrow> string option \<Rightarrow> tail_view" where
  "client_tailFile path n file =
     (if path = [] then No_Path
      else (case file of None \<Rightarrow> Unreadable | Some data \<Rightarrow> Tail (join_crlf (last_lines n (log_lines data)))))"

definition tail_window :: nat where
  "tail_window = 64 * 1024"

definition server_tailFile :: "string \<Rightarrow> nat \<Rightarrow> string option \<Rightarrow> tail_view" where
  "server_tailFile path n file =
     (if path = [] then No_Path
      else (case file of
              None \<Rightarrow> Unreadable
            | Some data \<Rightarrow>
                (let partial = length data > tail_window;
                     start = (if partial then length data - tail_window else 0);
                     ls = log_lines (drop start data);
                     ls = (if partial \<and> ls \<noteq> [] then tl ls else ls)
                 in Tail (join_crlf (last_lines n ls)))))"

text \<open>Lines of the end of a text are lines of the text, but for the first.\<close>

lemma replace_crlf_append: "\<exists>x. replace_crlf (a @ b) = x @ replace_crlf b"
proof (induction a)
  case Nil
  then show ?case by simp
next
  case (Cons c a)
  then obtain x where x: "replace_crlf (a @ b) = x @ replace_crlf b" by blast
  show ?case
    by (cases "c = cr \<and> a @ b \<noteq> [] \<and> hd (a @ b) = nl") (use x in \<open>auto intro: exI [of _ x] exI [of _ "c # x"]\<close>)
qed

lemma trim_nl_append: "trim_nl b \<noteq> [] \<Longrightarrow> trim_nl (a @ b) = a @ trim_nl b"
  by (auto simp: trim_nl_def dropWhile_append)

lemma split_on_append:
  "\<exists>ys. split_on sep (a @ b) = ys @ tl (split_on sep b) \<and> ys \<noteq> []"
proof (induction a)
  case Nil
  show ?case by (intro exI [of _ "[hd (split_on sep b)]"]) simp
next
  case (Cons c a)
  then obtain ys where ys: "split_on sep (a @ b) = ys @ tl (split_on sep b)" "ys \<noteq> []" by blast
  then obtain w ws where w: "ys = w # ws" by (cases ys) auto
  show ?case
  proof (cases "c = sep")
    case True
    then show ?thesis using ys by (intro exI [of _ "[] # ys"]) simp
  next
    case False
    then show ?thesis using ys w by (intro exI [of _ "(c # w) # ws"]) simp
  qed
qed

lemma log_lines_append:
  assumes "1 < length (log_lines b)"
  shows "\<exists>ys. log_lines (a @ b) = ys @ tl (log_lines b)"
proof -
  obtain x where x: "replace_crlf (a @ b) = x @ replace_crlf b" using replace_crlf_append by blast
  have "trim_nl (replace_crlf b) \<noteq> []" using assms by (auto simp: log_lines_def)
  then have "log_lines (a @ b) = split_on nl (x @ trim_nl (replace_crlf b))" by (simp add: log_lines_def x trim_nl_append)
  then show ?thesis using split_on_append [of nl x "trim_nl (replace_crlf b)"] by (auto simp: log_lines_def)
qed

lemma last_lines_append: "n \<le> length ls \<Longrightarrow> last_lines n (ys @ ls) = last_lines n ls"
  by (auto simp: last_lines_def)

lemma tail_equiv:
  assumes "file = Some data" "length data \<le> tail_window \<or> n < length (log_lines (drop (length data - tail_window) data))"
  shows "server_tailFile path n file = client_tailFile path n file"
proof (cases "length data \<le> tail_window")
  case True
  then show ?thesis using assms(1) by (simp add: server_tailFile_def client_tailFile_def)
next
  case False
  define b where "b = drop (length data - tail_window) data"
  have n: "n < length (log_lines b)" using assms(2) False by (simp add: b_def)
  have d: "data = take (length data - tail_window) data @ b" by (simp add: b_def)
  have "last_lines n (log_lines data) = last_lines n (tl (log_lines b))"
  proof (cases "1 < length (log_lines b)")
    case True
    then obtain ys where "log_lines data = ys @ tl (log_lines b)" using log_lines_append d by metis
    then show ?thesis using n last_lines_append [of n "tl (log_lines b)" ys] by simp
  next
    case False
    then have "n = 0" using n by simp
    moreover have "tl (log_lines b) = []" using False by (cases "log_lines b") auto
    ultimately show ?thesis by (simp add: last_lines_def)
  qed
  moreover have "log_lines b \<noteq> []" using n by auto
  ultimately show ?thesis using assms(1) False by (simp add: server_tailFile_def client_tailFile_def b_def)
qed

lemma last_lines_length: "length (last_lines n ls) \<le> n"
  by (auto simp: last_lines_def)

subsection \<open>Numbers and addresses\<close>

text \<open>The loop of \<open>humanBytes\<close>: the divisor and the exponent.\<close>

function human_scale :: "int \<Rightarrow> int \<Rightarrow> nat \<Rightarrow> int \<times> nat" where
  "human_scale v d e = (if v \<ge> 1024 then human_scale (v div 1024) (d * 1024) (Suc e) else (d, e))"
  by pat_completeness auto
termination
  by (relation "measure (\<lambda>(v, d, e). nat v)") auto

declare human_scale.simps [simp del]

text \<open>\<open>HB_Scaled\<close>: the value printed with one decimal, and its unit; \<open>None\<close>: the index is out of range.\<close>

datatype human = HB_Bytes int | HB_Scaled rat char

definition humanBytes :: "int \<Rightarrow> human option" where
  "humanBytes n =
     (if n < 1024 then Some (HB_Bytes n)
      else (let (d, e) = human_scale (n div 1024) 1024 0
            in if e < length ''KMGTPE'' then Some (HB_Scaled (of_int n / of_int d) (''KMGTPE'' ! e)) else None))"

lemma human_scale_spec:
  assumes "0 < v" "human_scale v d e = (d', e')"
  shows "\<exists>k. e' = e + k \<and> d' = d * 1024 ^ k \<and> 1024 ^ k \<le> v \<and> v < 1024 ^ Suc k"
  using assms
proof (induction v d e arbitrary: d' e' rule: human_scale.induct)
  case (1 v d e)
  show ?case
  proof (cases "v \<ge> 1024")
    case True
    then have "human_scale (v div 1024) (d * 1024) (Suc e) = (d', e')" using "1.prems"(2) by (simp add: human_scale.simps)
    then obtain k where k: "e' = Suc e + k" "d' = d * 1024 * 1024 ^ k" "1024 ^ k \<le> v div 1024" "v div 1024 < 1024 ^ Suc k"
      using "1.IH" [OF True] True by fastforce
    have "1024 ^ Suc k \<le> v" using k(3) by simp
    moreover have "v < 1024 ^ Suc (Suc k)" using k(4) by simp
    ultimately show ?thesis using k(1,2) by (intro exI [of _ "Suc k"]) simp
  next
    case False
    then show ?thesis using "1.prems" by (intro exI [of _ 0]) (simp add: human_scale.simps)
  qed
qed

text \<open>A 64-bit count never leaves the unit table, and the divisor is at most \<open>2 ^ 60\<close>.\<close>

lemma humanBytes_total:
  assumes "n < 2 ^ 63"
  shows "humanBytes n \<noteq> None"
proof (cases "n < 1024")
  case True
  then show ?thesis by (simp add: humanBytes_def)
next
  case False
  obtain d e where de: "human_scale (n div 1024) 1024 0 = (d, e)" by fastforce
  have "0 < n div 1024" using False by simp
  then obtain k where k: "e = k" "1024 ^ k \<le> n div 1024" using human_scale_spec de by fastforce
  have "k < 6"
  proof (rule ccontr)
    assume "\<not> k < 6"
    then have "(1024 :: int) ^ 6 \<le> 1024 ^ k" by (intro power_increasing) simp_all
    then have "1024 ^ 6 \<le> n div 1024" using k(2) by simp
    then show False using assms by simp
  qed
  then show ?thesis using False de k(1) by (simp add: humanBytes_def)
qed

definition dash :: "string \<Rightarrow> string" where
  "dash s = (if s = [] then ''off'' else s)"

definition valOr :: "string \<Rightarrow> string \<Rightarrow> string" where
  "valOr s d = (if s = [] then d else s)"

definition versionString :: "string \<Rightarrow> string \<Rightarrow> string" where
  "versionString version commit = (if commit \<noteq> [] then version @ '' ('' @ commit @ '')'' else version)"

definition loopbackURL :: "string \<Rightarrow> string" where
  "loopbackURL addr =
     (if HasPrefix addr '':'' then ''127.0.0.1'' @ addr
      else if HasPrefix addr ''0.0.0.0:'' then ''127.0.0.1'' @ TrimPrefix addr ''0.0.0.0''
      else addr)"

lemma loopbackURL_any: "loopbackURL (CHR '':'' # p) = ''127.0.0.1:'' @ p" "loopbackURL (''0.0.0.0:'' @ p) = ''127.0.0.1:'' @ p"
  by (simp_all add: loopbackURL_def HasPrefix_def TrimPrefix_def)

text \<open>The header line: the addresses it shows, or stopped.\<close>

definition serverHeaderText :: "winserver \<Rightarrow> (string \<times> string \<times> string \<times> string) option" where
  "serverHeaderText w =
     (case getApp w of
        (Some i, True) \<Rightarrow>
          (let cfg = sa_cfg (ws_apps w ! i)
           in Some (sc_DataAddr cfg, dash (sc_HTTPAddr cfg), dash (sc_HTTPSAddr cfg), dash (sc_AdminAddr cfg)))
      | _ \<Rightarrow> None)"

text \<open>What the button copies: the admin URL when the server runs one.\<close>

definition onCopyAdminURL :: "winserver \<Rightarrow> string option" where
  "onCopyAdminURL w =
     (case getApp w of
        (Some i, True) \<Rightarrow>
          (let addr = sc_AdminAddr (sa_cfg (ws_apps w ! i))
           in if addr = [] then None else Some (''http://'' @ loopbackURL addr))
      | _ \<Rightarrow> None)"

subsection \<open>The tables\<close>

text \<open>The rows are value copies; the order is that of Go's maps, so they are sets here.\<close>

record clientRow =
  rw_ID :: string
  rw_Name :: string
  rw_Addr :: string
  rw_Since :: int
  rw_Uptime :: int
  rw_Tunnels :: nat

datatype tunnelRow = TR_tcp int string int | TR_host bool string string int

definition tunnel_count :: "string \<Rightarrow> Manager \<Rightarrow> nat" where
  "tunnel_count cid m =
     card {t \<in> ListTunnels m. TE_ClientID t = cid} + card {h \<in> ListHTTPTunnels m. HE_ClientID h = cid}"

definition client_row :: "int \<Rightarrow> Manager \<Rightarrow> Client \<Rightarrow> clientRow" where
  "client_row now m c =
     \<lparr>rw_ID = cl_ID c, rw_Name = cl_Name c, rw_Addr = cl_Addr c, rw_Since = cl_RegisteredAt c,
      rw_Uptime = now - cl_RegisteredAt c, rw_Tunnels = tunnel_count (cl_ID c) m\<rparr>"

definition snapshotClients :: "int \<Rightarrow> ClientRegistry \<Rightarrow> Manager \<Rightarrow> clientRow set" where
  "snapshotClients now r m = {client_row now m c | c p. p \<in> Clients_List r \<and> cr_heap r p = Some c}"

definition snapshotTunnels :: "Manager \<Rightarrow> tunnelRow set" where
  "snapshotTunnels m =
     (\<lambda>t. TR_tcp (TE_PublicPort t) (TE_LocalHost t) (TE_LocalPort t)) ` ListTunnels m \<union>
     (\<lambda>h. TR_host (HE_IsTLS h) (HE_Hostname h) (HE_LocalHost h) (HE_LocalPort h)) ` ListHTTPTunnels m"

definition idAt :: "clientRow list \<Rightarrow> int \<Rightarrow> string" where
  "idAt items row = (if row < 0 \<or> row \<ge> int (length items) then [] else rw_ID (items ! nat row))"

text \<open>The disconnect button: nothing without a selected row or without the confirmation.\<close>

definition onDisconnectSelected :: "clientRow list \<Rightarrow> int \<Rightarrow> bool \<Rightarrow> winserver \<Rightarrow> ClientRegistry \<Rightarrow> ClientRegistry" where
  "onDisconnectSelected items row yes w r =
     (let cid = idAt items row
      in if cid = [] then r
         else if \<not> yes then r
         else (case getApp w of (Some _, True) \<Rightarrow> snd (Clients_Disconnect cid r) | _ \<Rightarrow> r))"

text \<open>A client without tunnels has an empty count, and removing a client's tunnels empties its row.\<close>

lemma tunnel_count_removed:
  "tunnel_count cid m = 0" if "\<forall>t \<in> ListTunnels m. TE_ClientID t \<noteq> cid" "\<forall>h \<in> ListHTTPTunnels m. HE_ClientID h \<noteq> cid"
proof -
  have "{t \<in> ListTunnels m. TE_ClientID t = cid} = {}" "{h \<in> ListHTTPTunnels m. HE_ClientID h = cid} = {}"
    using that by auto
  then show ?thesis by (simp only: tunnel_count_def card.empty)
qed

text \<open>Disconnecting a listed row reaches the client registered under that ID, and only it.\<close>

lemma disconnect_row:
  assumes "0 \<le> row" "row < int (length items)" "rw_ID (items ! nat row) \<noteq> []" "getApp w = (Some i, True)"
  shows "onDisconnectSelected items row True w r = snd (Clients_Disconnect (rw_ID (items ! nat row)) r)"
    "onDisconnectSelected items row False w r = r"
  using assms by (simp_all add: onDisconnectSelected_def idAt_def)

subsection \<open>The refresh of the console\<close>

text \<open>The tables, and the counters as they are printed; the counters are signed there.\<close>

record console_view =
  cv_clients :: "clientRow set"
  cv_tunnels :: "tunnelRow set"
  cv_counters :: "(int \<times> int \<times> human option \<times> human option) option"

definition console_refresh :: "int \<Rightarrow> winserver \<Rightarrow> ClientRegistry \<Rightarrow> Manager \<Rightarrow> ServerStats \<Rightarrow> console_view" where
  "console_refresh now w r m g =
     (case getApp w of
        (Some _, True) \<Rightarrow>
          \<lparr>cv_clients = snapshotClients now r m, cv_tunnels = snapshotTunnels m,
           cv_counters = Some (sint (ss_TotalConnections g), sint (ss_ActiveConnections g),
             humanBytes (sint (ss_BytesIn g)), humanBytes (sint (ss_BytesOut g)))\<rparr>
      | _ \<Rightarrow> \<lparr>cv_clients = {}, cv_tunnels = {}, cv_counters = None\<rparr>)"

lemma console_counters_printed:
  "cv_counters (console_refresh now w r m g) = Some (t, a, i, o1) \<Longrightarrow> i \<noteq> None \<and> o1 \<noteq> None"
proof -
  have "humanBytes (sint v) \<noteq> None" for v :: "64 word" using humanBytes_total [of "sint v"] sint_lt [of v] by simp
  moreover assume "cv_counters (console_refresh now w r m g) = Some (t, a, i, o1)"
  then have "i = humanBytes (sint (ss_BytesIn g)) \<and> o1 = humanBytes (sint (ss_BytesOut g))"
    by (auto simp: console_refresh_def split: prod.splits option.splits bool.splits)
  ultimately show ?thesis by simp
qed

text \<open>The rotation of the log at the start; \<open>rm\<close>, \<open>mv\<close>: the remove and the rename succeed.\<close>

definition rotateLogIfLarge :: "bool \<Rightarrow> bool \<Rightarrow> string \<Rightarrow> (string \<rightharpoonup> bytes) \<Rightarrow> (string \<rightharpoonup> bytes)" where
  "rotateLogIfLarge rm mv path fs =
     (case fs path of
        None \<Rightarrow> fs
      | Some data \<Rightarrow>
          if length data > 5 * 1024 * 1024
          then (let fs = (if rm then fs(path @ ''.1'' := None) else fs)
                in if mv then fs(path @ ''.1'' \<mapsto> data, path := None) else fs)
          else fs)"

lemma rotated_log_kept: "fs path = Some data \<Longrightarrow> Some data \<in> {rotateLogIfLarge rm mv path fs path, rotateLogIfLarge rm mv path fs (path @ ''.1'')}"
  by (simp add: rotateLogIfLarge_def Let_def)

subsection \<open>The settings forms\<close>

record server_form =
  sf_data :: string
  sf_http :: string
  sf_https :: string
  sf_admin :: string
  sf_token :: string
  sf_adminToken :: string
  sf_logLevel :: string
  sf_insecure :: bool
  sf_allowPrivate :: bool

definition server_form_apply :: "server_form \<Rightarrow> ServerConfig \<Rightarrow> ServerConfig" where
  "server_form_apply f cfg =
     cfg\<lparr>sc_DataAddr := sf_data f, sc_HTTPAddr := sf_http f, sc_HTTPSAddr := sf_https f, sc_AdminAddr := sf_admin f,
         sc_AuthToken := sf_token f, sc_AdminToken := sf_adminToken f, sc_LogLevel := sf_logLevel f,
         sc_Insecure := sf_insecure f, sc_AllowPrivateTargets := sf_allowPrivate f\<rparr>"

text \<open>The labelled addresses are a Go map: \<open>order\<close> is the order the loop visits it in.\<close>

datatype form_addr = FA_Data | FA_HTTP | FA_HTTPS | FA_Admin

instantiation form_addr :: enum
begin

definition enum_form_addr :: "form_addr list" where
  "enum_form_addr = [FA_Data, FA_HTTP, FA_HTTPS, FA_Admin]"

definition enum_all_form_addr :: "(form_addr \<Rightarrow> bool) \<Rightarrow> bool" where
  "enum_all_form_addr P = (P FA_Data \<and> P FA_HTTP \<and> P FA_HTTPS \<and> P FA_Admin)"

definition enum_ex_form_addr :: "(form_addr \<Rightarrow> bool) \<Rightarrow> bool" where
  "enum_ex_form_addr P = (P FA_Data \<or> P FA_HTTP \<or> P FA_HTTPS \<or> P FA_Admin)"

instance
proof
  have all: "l \<in> {FA_Data, FA_HTTP, FA_HTTPS, FA_Admin}" for l :: form_addr by (cases l) simp_all
  then show U: "(UNIV :: form_addr set) = set enum_class.enum" by (auto simp: enum_form_addr_def)
  show "distinct (enum_class.enum :: form_addr list)" by (simp add: enum_form_addr_def)
  fix P :: "form_addr \<Rightarrow> bool"
  show "enum_class.enum_all P \<longleftrightarrow> Ball UNIV P" "enum_class.enum_ex P \<longleftrightarrow> Bex UNIV P"
    unfolding enum_all_form_addr_def enum_ex_form_addr_def by (metis form_addr.exhaust UNIV_I)+
qed

end

fun form_addr_of :: "form_addr \<Rightarrow> ServerConfig \<Rightarrow> string" where
  "form_addr_of FA_Data cfg = sc_DataAddr cfg"
| "form_addr_of FA_HTTP cfg = sc_HTTPAddr cfg"
| "form_addr_of FA_HTTPS cfg = sc_HTTPSAddr cfg"
| "form_addr_of FA_Admin cfg = sc_AdminAddr cfg"

datatype form_error = Bad_Addr form_addr string | Bad_Security config_error

definition validateServerForm :: "form_addr list \<Rightarrow> ServerConfig \<Rightarrow> form_error option" where
  "validateServerForm order cfg =
     (case List.find (\<lambda>l. bad_addr (form_addr_of l cfg)) order of
        Some l \<Rightarrow> Some (Bad_Addr l (form_addr_of l cfg))
      | None \<Rightarrow> map_option Bad_Security (Server_ValidateSecurity cfg))"

text \<open>The save button; \<open>failed\<close> is what a failed \<open>os.WriteFile\<close> leaves of the file.\<close>

definition server_save ::
  "form_addr list \<Rightarrow> (ServerConfig \<Rightarrow> bytes option) \<Rightarrow> open_result option \<Rightarrow> server_form \<Rightarrow> ServerConfig \<Rightarrow> open_result \<Rightarrow> bool \<times> open_result" where
  "server_save order marshal failed f cfg file =
     (let cfg' = server_form_apply f cfg
      in case validateServerForm order cfg' of
           Some _ \<Rightarrow> (False, file)
         | None \<Rightarrow>
             (case marshal cfg' of
                None \<Rightarrow> (False, file)
              | Some data \<Rightarrow> (case failed of None \<Rightarrow> (True, F_Data data) | Some left \<Rightarrow> (False, left))))"

record client_form =
  cf_name :: string
  cf_listen :: string
  cf_token :: string
  cf_logLevel :: string
  cf_insecure :: bool
  cf_socks :: "string \<times> string \<times> string"
  cf_http :: "string \<times> string \<times> string"

definition client_form_apply :: "client_form \<Rightarrow> ClientSettings \<Rightarrow> ClientSettings" where
  "client_form_apply f cfg =
     cfg\<lparr>cs_Name := cf_name f, cs_ListenAddr := cf_listen f, cs_AuthToken := cf_token f, cs_LogLevel := cf_logLevel f,
         cs_Insecure := cf_insecure f,
         cs_SOCKSAddr := fst (cf_socks f), cs_SOCKSUser := fst (snd (cf_socks f)), cs_SOCKSPass := snd (snd (cf_socks f)),
         cs_HTTPProxyAddr := fst (cf_http f), cs_HTTPProxyUser := fst (snd (cf_http f)), cs_HTTPProxyPass := snd (snd (cf_http f))\<rparr>"

text \<open>The client's form is saved without a check, and shown in the console at once.\<close>

definition client_save ::
  "(ClientSettings \<Rightarrow> bytes option) \<Rightarrow> open_result option \<Rightarrow> client_form \<Rightarrow> ClientSettings \<Rightarrow> string \<times> string \<Rightarrow> open_result \<times> liveStatus
   \<Rightarrow> bool \<times> open_result \<times> liveStatus" where
  "client_save marshal failed f cfg paths st =
     (let cfg' = client_form_apply f cfg
      in case marshal cfg' of
           None \<Rightarrow> (False, st)
         | Some data \<Rightarrow>
             (case failed of
                None \<Rightarrow> (True, F_Data data, setConfig (Some cfg') (fst paths) (snd paths) (snd st))
              | Some left \<Rightarrow> (False, left, snd st)))"

text \<open>A form that is accepted has good addresses and tokens, in whatever order the map is visited.\<close>

lemma bad_none: "List.find P xs = None \<longleftrightarrow> (\<forall>x \<in> set xs. \<not> P x)"
  by (induction xs) simp_all

lemma form_addr_all: "(\<forall>l. P l) \<longleftrightarrow> P FA_Data \<and> P FA_HTTP \<and> P FA_HTTPS \<and> P FA_Admin"
  using enum_all_form_addr_def [of P] enum_class.enum_all_UNIV [of P] by (simp add: enum_UNIV)

text \<open>The order the map is written in is one of the orders.\<close>

lemma form_order_any: "set (enum_class.enum :: form_addr list) = UNIV"
  by (rule enum_UNIV)

lemma form_accepted:
  assumes "set order = UNIV"
  shows "validateServerForm order cfg = None \<longleftrightarrow> validateServerConfig cfg = None \<and> Server_ValidateSecurity cfg = None"
proof -
  have "List.find (\<lambda>l. bad_addr (form_addr_of l cfg)) order = None \<longleftrightarrow> validateServerConfig cfg = None"
    by (simp add: bad_none assms form_addr_all validateServerConfig_def)
  then show ?thesis
    by (cases "List.find (\<lambda>l. bad_addr (form_addr_of l cfg)) order") (simp_all add: validateServerForm_def)
qed

text \<open>The generated token is 64 hexadecimal digits, or empty when the random source fails; then the field is left alone.\<close>

definition randomToken :: "bytes option \<Rightarrow> string" where
  "randomToken rnd = (case rnd of None \<Rightarrow> [] | Some b \<Rightarrow> hex_encode b)"

lemma generated_token_strong:
  assumes "length b = 32"
  shows "\<not> isWeakToken (randomToken (Some b))"
proof -
  have "length (hex_encode b) = 2 * length b" by (induction b) (simp_all add: hex_encode_def)
  then have "length (randomToken (Some b)) = 64" using assms by (simp add: randomToken_def)
  then show ?thesis by (auto simp: isWeakToken_def)
qed

text \<open>
  What the server's form saves starts again: reading the file back gives the configuration of the
  form, with the clients and all other fields as they were, and \<open>NewServerApp\<close> refuses it for no address
  and no token.
\<close>

lemma server_saved_starts:
  assumes "set order = UNIV" and saved: "server_save order marshal failed f cfg file = (True, file')"
    and yaml: "\<And>c data. marshal c = Some data \<Longrightarrow> yaml data DefaultServerConfig = Some c"
  shows "LoadServerConfig yaml file' = Inr (server_form_apply f cfg) \<and> sc_Clients (server_form_apply f cfg) = sc_Clients cfg \<and>
    (\<forall>e. NewServerApp pem env (server_form_apply f cfg) = Inl e \<longrightarrow> e = S_Cert \<or> e = S_TLS)"
proof -
  let ?c = "server_form_apply f cfg"
  have v: "validateServerForm order ?c = None" using saved by (auto simp: server_save_def Let_def split: option.splits)
  then obtain data where data: "marshal ?c = Some data" "file' = F_Data data"
    using saved by (auto simp: server_save_def Let_def split: option.splits if_splits)
  have "validateServerConfig ?c = None" "Server_ValidateSecurity ?c = None" using v form_accepted [OF assms(1)] by simp_all
  moreover have "LoadServerConfig yaml file' = Inr ?c" using yaml [OF data(1)] by (simp add: LoadServerConfig_def loadYAML_def data(2))
  moreover have "sc_Clients ?c = sc_Clients cfg" by (simp add: server_form_apply_def)
  ultimately show ?thesis by (auto simp: NewServerApp_def split: if_splits option.splits)
qed

end
