(* ===== verification/CommandLine.thy ===== *)
theory CommandLine
  imports FileSend Configuration Sni
begin

text \<open>
  The glue around the file sender: the \<open>send\<close> command (\<open>cmd/client/send.go\<close>), the Explorer verb's helper
  and the tray's endpoint that serves it (\<open>cmd/winclient/shellext.go\<close>), and the choice of the log level
  (\<open>internal/logger\<close>). The registry and the HTTP library are left out: the verb's requests are their
  outcomes.
\<close>

subsection \<open>cmd/client/send.go\<close>

definition dispatchSubcommands :: "string list \<Rightarrow> string list option" where
  "dispatchSubcommands args = (if length args < 2 \<or> args ! 1 \<noteq> ''send'' then None else Some (drop 2 args))"

text \<open>
  A file of the command line: the name the receiver is told, what is read, and what happens during its
  transfer.
\<close>

record send_item =
  si_name :: string
  si_src :: source
  si_env :: "nat \<Rightarrow> turn"

definition send_opts :: "string \<Rightarrow> SendOptions" where
  "send_opts token = \<lparr>so_Token = token, so_MaxRetries = 0\<rparr>"

fun send_files :: "(bytes \<Rightarrow> bytes) \<Rightarrow> string \<Rightarrow> send_item list \<Rightarrow> nat \<Rightarrow> Receiver \<Rightarrow> nat \<times> Receiver list" where
  "send_files sha token [] rc r = (rc, [])"
| "send_files sha token (f # fs) rc r =
     (case SendFile sha (si_name f) (si_src f) (send_opts token) (si_env f) r of
        (Inl _, r') \<Rightarrow> (let (rc', rs) = send_files sha token fs 1 r' in (rc', r' # rs))
      | (Inr _, r') \<Rightarrow> (let (rc', rs) = send_files sha token fs rc r' in (rc', r' # rs)))"

text \<open>The exit code, and the receiver after each file.\<close>

definition runSend :: "(bytes \<Rightarrow> bytes) \<Rightarrow> string \<Rightarrow> send_item list \<Rightarrow> Receiver \<Rightarrow> nat \<times> Receiver list" where
  "runSend sha token files r = (if files = [] then (2, []) else send_files sha token files 0 r)"

lemma send_files_length: "length (snd (send_files sha token fs rc r)) = length fs"
  by (induction sha token fs rc r rule: send_files.induct) (auto split: sum.split prod.splits)

lemma send_files_failed: "fst (send_files sha token fs 1 r) = 1"
  by (induction fs arbitrary: r) (simp_all add: split_def split: sum.split)

text \<open>
  Exit code 0 means every file arrived: the receiver had a file with its content before what others did
  until its answer arrived.
\<close>

definition arrived :: "(bytes \<Rightarrow> bytes) \<Rightarrow> send_item \<Rightarrow> Receiver \<Rightarrow> bool" where
  "arrived sha f r' \<longleftrightarrow>
     (\<exists>content k p c r1. si_src f = S_File content \<and> sha c = sha content \<and> plain_name p \<and>
        map_of (rc_files r1) p = Some c \<and> r' = happen sha (tn_after (si_env f k)) r1)"

lemma send_files_sound:
  assumes "fst (send_files sha token fs 0 r) = 0" "i < length fs"
    and "\<forall>f \<in> set fs. part_untouched (si_name f) (si_env f)"
  shows "arrived sha (fs ! i) (snd (send_files sha token fs 0 r) ! i)"
  using assms
proof (induction fs arbitrary: r i)
  case Nil
  then show ?case by simp
next
  case (Cons f fs)
  obtain res r' where s: "SendFile sha (si_name f) (si_src f) (send_opts token) (si_env f) r = (res, r')" by fastforce
  have ok: "res = Inr ()"
    using Cons.prems(1) s send_files_failed [of sha token fs r'] by (cases res) (auto simp: split_def)
  then have rest: "send_files sha token (f # fs) 0 r = (fst (send_files sha token fs 0 r'), r' # snd (send_files sha token fs 0 r'))"
    using s by (simp add: split_def Let_def)
  show ?case
  proof (cases i)
    case 0
    obtain content where c: "si_src f = S_File content" using s ok by (cases "si_src f") (simp_all add: SendFile_def)
    then have l: "send_loop sha (si_name f) (hex_encode (sha content)) content (defaults (send_opts token)) (si_env f) 0 0 0 r = (Inr (), r')"
      using s ok by (simp add: SendFile_def)
    show ?thesis
      using send_loop_done [of sha "si_name f" "hex_encode (sha content)" content "defaults (send_opts token)" "si_env f" 0 0 0 r] l c 0 rest
        Cons.prems(3)
      by (auto simp: arrived_def)
  next
    case (Suc j)
    then show ?thesis using Cons.IH [of r' j] Cons.prems rest by simp
  qed
qed

lemma runSend_sound:
  assumes "fst (runSend sha token files r) = 0" "\<forall>f \<in> set files. part_untouched (si_name f) (si_env f)"
  shows "files \<noteq> [] \<and> (\<forall>i < length files. arrived sha (files ! i) (snd (runSend sha token files r) ! i))"
  using assms send_files_sound by (auto simp: runSend_def split: if_splits)

subsection \<open>cmd/winclient/shellext.go\<close>

definition controlAddrFromConfig :: "bool \<Rightarrow> (config_error + ClientSettings) \<Rightarrow> string" where
  "controlAddrFromConfig exe_known loaded =
     (if \<not> exe_known then ''127.0.0.1:8077''
      else (case loaded of
              Inl _ \<Rightarrow> ''127.0.0.1:8077''
            | Inr cfg \<Rightarrow>
                (if fc_ControlAddr (cs_FileTransfer cfg) \<noteq> [] then fc_ControlAddr (cs_FileTransfer cfg) else ''127.0.0.1:8077'')))"

text \<open>What comes of the request for one selected path.\<close>

datatype helper_reply = HR_BadRequest | HR_NoReply | HR_Status int

definition helper_failed :: "helper_reply \<Rightarrow> bool" where
  "helper_failed x = (case x of HR_BadRequest \<Rightarrow> True | HR_NoReply \<Rightarrow> True | HR_Status s \<Rightarrow> s \<ge> 300)"

definition runSendFileHelper :: "(string \<Rightarrow> helper_reply) \<Rightarrow> string list \<Rightarrow> nat" where
  "runSendFileHelper post paths =
     (if paths = [] then 0
      else (let failed = foldl (\<lambda>n p. if helper_failed (post p) then Suc n else n) 0 paths
            in if failed > 0 then 1 else 0))"

text \<open>
  The tray's endpoint: the status of the reply and the path that is sent. The body is read up to
  32 KiB; the method and the caller are not looked at.
\<close>

definition handle_send :: "string \<Rightarrow> int \<times> string option" where
  "handle_send body =
     (let path = TrimSpace (take (32 * 1024) body)
      in if path = [] then (400, None) else (202, Some path))"

lemma failed_count: "foldl (\<lambda>n p. if P p then Suc n else n) k ps = k + length (filter P ps)"
  by (induction ps arbitrary: k) simp_all

text \<open>The verb reports success exactly when every path was accepted.\<close>

lemma helper_exact: "runSendFileHelper post paths = 0 \<longleftrightarrow> (\<forall>p \<in> set paths. \<exists>s. post p = HR_Status s \<and> s < 300)"
proof -
  have "helper_failed (post p) \<longleftrightarrow> \<not> (\<exists>s. post p = HR_Status s \<and> s < 300)" for p
    by (cases "post p") (auto simp: helper_failed_def)
  then show ?thesis by (auto simp: runSendFileHelper_def failed_count filter_empty_conv)
qed

text \<open>An accepted path is the selected one, when it is plain text without outer spaces and not too long.\<close>

lemma verb_path_sent:
  assumes "p \<noteq> []" "length p \<le> 32 * 1024" "ascii p" "\<not> IsSpace (char_code (hd p))" "\<not> IsSpace (char_code (last p))"
  shows "handle_send p = (202, Some p)"
proof -
  have "decode_rune p = (char_code (hd p), 1)" using assms(1,3) by (cases p) (simp_all add: decode_rune_ascii ascii_def)
  moreover obtain q where q: "p = q @ [last p]" using assms(1) by (metis append_butlast_last_id)
  moreover have "char_code (last p) < 128" using assms(1,3) by (simp add: ascii_def)
  ultimately have "trim_left p = p" "trim_right p = p"
    using assms(4,5) decode_last_rune_ascii [of "last p" q] by (simp_all add: trim_left.simps [of p] trim_right.simps [of p])
  then show ?thesis using assms(1,2) by (simp add: handle_send_def TrimSpace_def)
qed

subsection \<open>The log level\<close>

datatype Level = LevelDebug | LevelInfo | LevelWarn | LevelError

definition parseLevel :: "(string \<Rightarrow> string) \<Rightarrow> string \<Rightarrow> Level" where
  "parseLevel uni s =
     (let l = ToLower uni (TrimSpace s)
      in if l = ''debug'' then LevelDebug
         else if l = ''warn'' \<or> l = ''warning'' then LevelWarn
         else if l = ''error'' then LevelError
         else LevelInfo)"

end
