(* ===== verification/Listeners.thy ===== *)
theory Listeners
  imports Pool GoNet
begin

text \<open>
  The accept loops: every listener of the program has the same one (\<open>StartDataListener\<close>,
  \<open>StartPublicListener\<close>, both proxies, the SOCKS5 listeners, the CONNECT proxy, the port forwards and the
  client's own TLS listener). It ends at the first error of \<open>Accept\<close>, whatever its cause; a second
  goroutine closes the listener when the context ends. What a connection is handed to is modelled in
  the theories of the handlers. The last part is the client's session goroutine around the pool.
\<close>

text \<open>\<open>al_defers\<close>: the goroutine of the loop has a deferred \<open>ln.Close()\<close>.\<close>

record accept_loop =
  al_addr :: string
  al_defers :: bool
  al_cancelled :: bool
  al_open :: bool
  al_running :: bool
  al_started :: "nat list"

datatype listen_event =
    LE_Cancel
  | LE_Watcher
  | LE_Accept nat
  | LE_Error

fun accept_step :: "listen_event \<Rightarrow> accept_loop \<Rightarrow> accept_loop option" where
  "accept_step LE_Cancel l = Some (l\<lparr>al_cancelled := True\<rparr>)"
| "accept_step LE_Watcher l = (if al_cancelled l then Some (l\<lparr>al_open := False\<rparr>) else None)"
| "accept_step (LE_Accept c) l = (if al_running l \<and> al_open l then Some (l\<lparr>al_started := al_started l @ [c]\<rparr>) else None)"
| "accept_step LE_Error l =
     (if al_running l then Some (l\<lparr>al_running := False, al_open := (if al_defers l then False else al_open l)\<rparr>) else None)"

definition start_loop :: "bool \<Rightarrow> bool \<Rightarrow> string \<Rightarrow> accept_loop option" where
  "start_loop defers listen_ok addr =
     (if \<not> listen_ok then None
      else Some \<lparr>al_addr = addr, al_defers = defers, al_cancelled = False, al_open = True, al_running = True, al_started = []\<rparr>)"

definition StartDataListener :: "bool \<Rightarrow> string \<Rightarrow> accept_loop option" where
  "StartDataListener = start_loop True"

text \<open>The public listener was opened with the registration, and is closed only by the context.\<close>

definition StartPublicListener :: "string \<Rightarrow> accept_loop option" where
  "StartPublicListener = start_loop False True"

definition StartHTTPProxy :: "bool \<Rightarrow> string \<Rightarrow> accept_loop option" where
  "StartHTTPProxy = start_loop True"

definition StartHTTPSProxy :: "bool \<Rightarrow> string \<Rightarrow> accept_loop option" where
  "StartHTTPSProxy = start_loop True"

definition StartSOCKSProxy :: "bool \<Rightarrow> string \<Rightarrow> accept_loop option" where
  "StartSOCKSProxy = start_loop True"

definition StartClientSOCKSProxy :: "bool \<Rightarrow> string \<Rightarrow> accept_loop option" where
  "StartClientSOCKSProxy = start_loop True"

definition StartHTTPConnectProxy :: "bool \<Rightarrow> string \<Rightarrow> accept_loop option" where
  "StartHTTPConnectProxy = start_loop True"

definition StartPortForward :: "bool \<Rightarrow> int \<Rightarrow> string \<Rightarrow> accept_loop option" where
  "StartPortForward listen_ok localPort bindAddr =
     start_loop True listen_ok ((if bindAddr = [] then ''127.0.0.1'' else bindAddr) @ CHR '':'' # show_int localPort)"

subsection \<open>What the loops do\<close>

definition listener_run :: "listen_event list \<Rightarrow> accept_loop \<Rightarrow> accept_loop option" where
  "listener_run = guarded_run (\<lambda>_ _. True) accept_step"

lemma listener_run_simps [simp]:
  "listener_run [] l = Some l"
  "listener_run (e # es) l = (case accept_step e l of None \<Rightarrow> None | Some l' \<Rightarrow> listener_run es l')"
  by (simp_all add: listener_run_def cong: option.case_cong)

text \<open>Every accepted connection is handed over once, in order.\<close>

fun accepted_conns :: "listen_event list \<Rightarrow> nat list" where
  "accepted_conns [] = []"
| "accepted_conns (LE_Accept c # es) = c # accepted_conns es"
| "accepted_conns (_ # es) = accepted_conns es"

lemma accepted_in_order: "listener_run es l = Some l' \<Longrightarrow> al_started l' = al_started l @ accepted_conns es"
proof (induction es arbitrary: l)
  case (Cons e es)
  then show ?case by (cases e) (auto split: if_splits)
qed simp

text \<open>A loop that has ended stays ended, and a listener that is closed stays closed.\<close>

interpretation ended: guarded_machine "\<lambda>_ _. True" accept_step "\<lambda>l. \<not> al_running l \<and> al_started l = s" for s
  by unfold_locales (rename_tac l e l', case_tac e, auto split: if_splits)

interpretation closed: guarded_machine "\<lambda>_ _. True" accept_step "\<lambda>l. \<not> al_open l \<and> al_started l = s" for s
  by unfold_locales (rename_tac l e l', case_tac e, auto split: if_splits)

text \<open>The end of the context ends the loop: the watcher closes, the next \<open>Accept\<close> fails, and that is all.\<close>

lemma cancelled_ends:
  assumes "al_running l"
  shows "\<exists>l'. listener_run [LE_Cancel, LE_Watcher, LE_Error] l = Some l' \<and> \<not> al_open l' \<and> \<not> al_running l' \<and>
    (\<forall>es l''. listener_run es l' = Some l'' \<longrightarrow> al_started l'' = al_started l)"
proof -
  let ?l = "l\<lparr>al_cancelled := True, al_running := False, al_open := False\<rparr>"
  have "al_started l'' = al_started l" if "listener_run es ?l = Some l''" for es l''
    using ended.guarded_run_inv [of es ?l l'' "al_started l"] that by (simp add: listener_run_def)
  then show ?thesis using assms by auto
qed

text \<open>
  Any error of \<open>Accept\<close> is taken for the end, also a passing one (no file descriptor left, a
  connection reset in the queue): without the context having ended, the listener serves nobody any
  more. A public listener is not even closed: its port stays bound and its tunnel registered.
\<close>

lemma passing_error_is_final:
  assumes "al_running l" "accept_step LE_Error l = Some l'" "listener_run es l' = Some l''"
  shows "al_started l'' = al_started l"
  using assms ended.guarded_run_inv [of es l' l'' "al_started l"] by (auto simp: listener_run_def)

lemma public_port_left_open:
  "StartPublicListener addr = Some l \<Longrightarrow> accept_step LE_Error l = Some l' \<Longrightarrow> al_open l' \<and> \<not> al_running l' \<and> \<not> al_cancelled l'"
  by (auto simp: StartPublicListener_def start_loop_def)

subsection \<open>The sessions of the client\<close>

text \<open>
  The accept loop of \<open>cmd/client\<close> and its \<open>handleServerSession\<close>: \<open>ss_waiting\<close> are connections whose
  goroutine has not added its session yet.
\<close>

record client_sessions =
  ss_loop :: accept_loop
  ss_waiting :: "nat list"
  ss_live :: "ptr list"
  ss_pool :: ServerPool

datatype session_event =
    SE_Loop listen_event
  | SE_Add nat ptr
  | SE_Ended ptr

definition client_listen :: "bool \<Rightarrow> string \<Rightarrow> client_sessions option" where
  "client_listen ok addr =
     map_option (\<lambda>l. \<lparr>ss_loop = l, ss_waiting = [], ss_live = [], ss_pool = NewServerPool\<rparr>) (start_loop True ok addr)"

definition accept_session :: "listen_event \<Rightarrow> client_sessions \<Rightarrow> client_sessions option" where
  "accept_session e s =
     (case accept_step e (ss_loop s) of
        None \<Rightarrow> None
      | Some l \<Rightarrow> Some (s\<lparr>ss_loop := l, ss_waiting := ss_waiting s @ accepted_conns [e]\<rparr>))"

definition handleServerSession_add :: "nat \<Rightarrow> ptr \<Rightarrow> client_sessions \<Rightarrow> client_sessions" where
  "handleServerSession_add c p s =
     s\<lparr>ss_waiting := remove1 c (ss_waiting s), ss_live := ss_live s @ [p], ss_pool := Pool_Add p (ss_pool s)\<rparr>"

definition handleServerSession_ended :: "ptr \<Rightarrow> client_sessions \<Rightarrow> client_sessions" where
  "handleServerSession_ended p s = s\<lparr>ss_live := remove1 p (ss_live s), ss_pool := Pool_Remove p (ss_pool s)\<rparr>"

text \<open>A new session is a new pointer; other goroutines pick from the pool in between.\<close>

fun session_step :: "session_event \<Rightarrow> client_sessions \<Rightarrow> client_sessions option" where
  "session_step (SE_Loop e) s = accept_session e s"
| "session_step (SE_Add c p) s =
     (if c \<in> set (ss_waiting s) \<and> p \<notin> set (ss_live s) then Some (handleServerSession_add c p s) else None)"
| "session_step (SE_Ended p) s = (if p \<in> set (ss_live s) then Some (handleServerSession_ended p s) else None)"

definition pool_live :: "client_sessions \<Rightarrow> bool" where
  "pool_live s \<longleftrightarrow> sp_sessions (ss_pool s) = ss_live s \<and> distinct (ss_live s)"

lemma session_step_live: "pool_live s \<Longrightarrow> session_step e s = Some s' \<Longrightarrow> pool_live s'"
  by (cases e)
    (auto simp: pool_live_def accept_session_def handleServerSession_add_def handleServerSession_ended_def Pool_Add_def Pool_Remove_def
       distinct_remove1_removeAll removeAll_filter_not_eq eq_commute split: if_splits option.splits)

interpretation sessions: guarded_machine "\<lambda>_ _. True" session_step pool_live
  by unfold_locales (rule session_step_live)

text \<open>A request is only ever given a session whose goroutine is still serving it.\<close>

lemma picked_session_live:
  assumes "client_listen ok addr = Some s0" "guarded_run (\<lambda>_ _. True) session_step es s0 = Some s"
    and "length (ss_live s) < 2 ^ 64" "Pick (ss_pool s) = (Some p, q)"
  shows "p \<in> set (ss_live s)"
proof -
  have "pool_live s0" using assms(1) by (auto simp: client_listen_def pool_live_def NewServerPool_def)
  from sessions.guarded_run_inv [OF assms(2) this] have l: "sp_sessions (ss_pool s) = ss_live s" by (simp add: pool_live_def)
  have ne: "ss_live s \<noteq> []" using assms(4) Pick_None [of "ss_pool s"] l by auto
  then have "p = ss_live s ! (unat (sp_counter (ss_pool s)) mod length (ss_live s))"
    using Pick_nth [of "ss_pool s"] assms(3,4) l by simp
  then show ?thesis using ne by simp
qed

end
